(* ===== verification/Prelude.thy ===== *)
theory Prelude
  imports Complex_Main
begin

text \<open>
  Shared vocabulary of the development. Python raises; the model returns a value of
  the sum type \<open>'a res\<close>, whose left side names the exception class the source raises
  together with the fixed part of its message. The section on results gives the
  sequencing operators every component uses; the section on lists collects the facts
  on stable selection (\<open>ORDER BY \<dots> LIMIT 1\<close>, \<open>max(\<dots>, key=\<dots>)\<close>, \<open>next(\<dots>)\<close>) that
  the component proofs share.
\<close>

named_theorems res_simps \<comment> \<open>equations that resolve a sequence of fallible calls\<close>
named_theorems sel_simps \<comment> \<open>equations for selecting rows from a table\<close>

section \<open>Exceptions as values\<close>

datatype pyerr =
    ValueError string
  | PyTypeError string
  | KeyError string
  | IndexError string
  | AttributeError string
  | OverflowError
  | ZeroDivisionError
  | PyRuntimeError string
  | EngineError string
  | WeightVectorError string
  | WeightSetError string
  | UniqueViolation string
  | ForeignKeyViolation string
  | NotNullViolation string
  | CheckViolation string
  | CampaignHotkeyDisqualified
  | CampaignHotkeyDisqualificationError string
  | RequestValidationError string
  | RoundInfraError string string
  | RoundDeferred string

type_synonym 'a res = "pyerr + 'a"

definition rbind :: "'e + 'a \<Rightarrow> ('a \<Rightarrow> 'e + 'b) \<Rightarrow> 'e + 'b" where
  "rbind r f = (case r of Inl e \<Rightarrow> Inl e | Inr x \<Rightarrow> f x)"

definition rguard :: "bool \<Rightarrow> 'e \<Rightarrow> 'e + unit" where
  "rguard b e = (if b then Inr () else Inl e)"

fun rmap :: "('a \<Rightarrow> 'e + 'b) \<Rightarrow> 'a list \<Rightarrow> 'e + 'b list" where
  "rmap f [] = Inr []"
| "rmap f (x # xs) = rbind (f x) (\<lambda>y. rbind (rmap f xs) (\<lambda>ys. Inr (y # ys)))"

fun rfold :: "('a \<Rightarrow> 's \<Rightarrow> 'e + 's) \<Rightarrow> 'a list \<Rightarrow> 's \<Rightarrow> 'e + 's" where
  "rfold f [] s = Inr s"
| "rfold f (x # xs) s = rbind (f x s) (rfold f xs)"

lemma rbind_Inr [simp, res_simps]: "rbind (Inr x) f = f x"
  by (simp add: rbind_def)

lemma rbind_Inl [simp, res_simps]: "rbind (Inl e) f = Inl e"
  by (simp add: rbind_def)

lemma rbind_eq_Inr [res_simps]:
  "rbind r f = Inr y \<longleftrightarrow> (\<exists>x. r = Inr x \<and> f x = Inr y)"
  by (cases r) auto

lemma rbind_eq_Inl [res_simps]:
  "rbind r f = Inl e \<longleftrightarrow> r = Inl e \<or> (\<exists>x. r = Inr x \<and> f x = Inl e)"
  by (cases r) auto

lemma rguard_eq_Inr [simp, res_simps]: "rguard b e = Inr u \<longleftrightarrow> b"
  by (simp add: rguard_def)

lemma rguard_eq_Inl [simp, res_simps]: "rguard b e = Inl e' \<longleftrightarrow> \<not> b \<and> e = e'"
  by (auto simp: rguard_def)

lemma rguard_True [simp]: "rguard True e = Inr ()"
  by (simp add: rguard_def)

lemma rguard_False [simp]: "rguard False e = Inl e"
  by (simp add: rguard_def)

lemma rmap_length: "rmap f xs = Inr ys \<Longrightarrow> length ys = length xs"
  by (induction xs arbitrary: ys) (auto simp: rbind_eq_Inr)

lemma rmap_nth:
  "rmap f xs = Inr ys \<Longrightarrow> i < length xs \<Longrightarrow> f (xs ! i) = Inr (ys ! i)"
  by (induction xs arbitrary: ys i) (auto simp: rbind_eq_Inr nth_Cons split: nat.splits)

lemma rmap_list_all2: "rmap f xs = Inr ys \<Longrightarrow> list_all2 (\<lambda>x y. f x = Inr y) xs ys"
  by (simp add: list_all2_conv_all_nth rmap_length rmap_nth)

lemma rmap_set: "rmap f xs = Inr ys \<Longrightarrow> y \<in> set ys \<Longrightarrow> \<exists>x \<in> set xs. f x = Inr y"
  by (induction xs arbitrary: ys) (auto simp: rbind_eq_Inr)

lemma rfold_invariant:
  assumes "rfold f xs s = Inr s'" and "P s"
    and "\<And>x t t'. x \<in> set xs \<Longrightarrow> P t \<Longrightarrow> f x t = Inr t' \<Longrightarrow> P t'"
  shows "P s'"
  using assms by (induction xs arbitrary: s) (auto simp: rbind_eq_Inr)

lemma rfold_cong:
  assumes "\<And>x t. x \<in> set xs \<Longrightarrow> f x t = g x t"
  shows "rfold f xs s = rfold g xs s"
  using assms
proof (induction xs arbitrary: s)
  case (Cons x xs)
  then show ?case by (cases "g x s") simp_all
qed simp

lemma rfold_append: "rfold f (xs @ ys) s = rbind (rfold f xs s) (rfold f ys)"
proof (induction xs arbitrary: s)
  case Nil
  then show ?case by simp
next
  case (Cons x xs)
  then show ?case by (cases "f x s") simp_all
qed

section \<open>Selecting from lists\<close>

text \<open>
  \<open>best lt xs\<close> is the first element that no later element beats, the element
  Python's \<open>max(xs, key=k)\<close> and SQL's \<open>ORDER BY \<dots> LIMIT 1\<close> return when \<open>lt a b\<close>
  says that \<open>b\<close> is strictly better than \<open>a\<close>.
\<close>

fun best_from :: "('a \<Rightarrow> 'a \<Rightarrow> bool) \<Rightarrow> 'a \<Rightarrow> 'a list \<Rightarrow> 'a" where
  "best_from lt b [] = b"
| "best_from lt b (x # xs) = best_from lt (if lt b x then x else b) xs"

definition best :: "('a \<Rightarrow> 'a \<Rightarrow> bool) \<Rightarrow> 'a list \<Rightarrow> 'a option" where
  "best lt xs = (case xs of [] \<Rightarrow> None | x # ys \<Rightarrow> Some (best_from lt x ys))"

lemma best_from_in: "best_from lt b xs \<in> insert b (set xs)"
  by (induction xs arbitrary: b) (auto split: if_splits)

lemma best_Nil [simp, sel_simps]: "best lt [] = None"
  by (simp add: best_def)

lemma best_Cons [simp]: "best lt (x # xs) = Some (best_from lt x xs)"
  by (simp add: best_def)

lemma best_None_iff [simp, sel_simps]: "best lt xs = None \<longleftrightarrow> xs = []"
  by (simp add: best_def split: list.splits)

lemma best_in: "best lt xs = Some y \<Longrightarrow> y \<in> set xs"
  using best_from_in [of lt "hd xs" "tl xs"] by (cases xs) auto

lemma best_from_max:
  assumes tr: "\<And>a b c. \<not> lt a b \<Longrightarrow> \<not> lt b c \<Longrightarrow> \<not> lt a c"
    and asym: "\<And>a b. lt a b \<Longrightarrow> \<not> lt b a"
  shows "\<forall>y \<in> insert b (set xs). \<not> lt (best_from lt b xs) y"
proof (induction xs arbitrary: b)
  case Nil
  then show ?case using asym by auto
next
  case (Cons x xs)
  let ?c = "if lt b x then x else b"
  have IH: "\<forall>y \<in> insert ?c (set xs). \<not> lt (best_from lt ?c xs) y"
    by (rule Cons.IH)
  have c: "\<not> lt ?c b \<and> \<not> lt ?c x"
    using asym by auto
  have "\<not> lt (best_from lt ?c xs) ?c" using IH by blast
  with c have "\<not> lt (best_from lt ?c xs) b" "\<not> lt (best_from lt ?c xs) x"
    using tr by blast+
  with IH show ?case by auto
qed

lemma best_max:
  assumes "best lt xs = Some m" and "y \<in> set xs"
    and "\<And>a b c. \<not> lt a b \<Longrightarrow> \<not> lt b c \<Longrightarrow> \<not> lt a c"
    and "\<And>a b. lt a b \<Longrightarrow> \<not> lt b a"
  shows "\<not> lt m y"
proof -
  from assms(1,2) obtain z zs where zs: "xs = z # zs" "m = best_from lt z zs"
    by (cases xs) (auto simp: best_def)
  have "\<forall>y \<in> insert z (set zs). \<not> lt (best_from lt z zs) y"
    by (rule best_from_max) (use assms(3,4) in blast)+
  with assms(2) zs show ?thesis by auto
qed

text \<open>The first of several equally good elements wins.\<close>

lemma best_from_first:
  assumes "\<And>y. y \<in> set xs \<Longrightarrow> \<not> lt b y"
  shows "best_from lt b xs = b"
  using assms by (induction xs) auto

lemma find_SomeD: "find P xs = Some x \<Longrightarrow> x \<in> set xs \<and> P x"
  by (induction xs) (auto split: if_splits)

lemma find_append: "find P (xs @ ys) = (case find P xs of None \<Rightarrow> find P ys | Some x \<Rightarrow> Some x)"
  by (induction xs) auto

lemma in_map_filter: "y \<in> set (List.map_filter f xs) \<longleftrightarrow> (\<exists>x \<in> set xs. f x = Some y)"
  by (induction xs) (auto simp: map_filter_simps split: option.splits)

lemma filter_at_most_one:
  assumes "length (filter P xs) \<le> 1" and "a \<in> set xs" "P a" and "b \<in> set xs" "P b"
  shows "a = b"
proof -
  have "a \<in> set (filter P xs)" "b \<in> set (filter P xs)"
    using assms(2-5) by auto
  with assms(1) show ?thesis
    by (cases "filter P xs") (auto simp del: filter_set)
qed

lemma filter_split_at:
  assumes "filter P xs = us @ w # vs"
  shows "\<exists>us' vs'. xs = us' @ w # vs' \<and> filter P us' = us"
  using assms
proof (induction xs arbitrary: us)
  case Nil
  then show ?case by simp
next
  case (Cons x xs)
  show ?case
  proof (cases "P x \<and> us = []")
    case True
    with Cons.prems show ?thesis by (intro exI [of _ "[]"] exI [of _ xs]) auto
  next
    case False
    then obtain us0 where "filter P xs = us0 @ w # vs" "us = (if P x then x # us0 else us0)"
      using Cons.prems by (cases us) (auto split: if_splits)
    with Cons.IH obtain us' vs' where "xs = us' @ w # vs'" "filter P (x # us') = us"
      by auto
    then show ?thesis by (intro exI [of _ "x # us'"] exI [of _ vs']) auto
  qed
qed

end
