(* ===== verification/PyFloat.thy ===== *)
theory PyFloat
  imports Prelude "HOL-Library.Log_Nat"
begin

text \<open>
  Python's \<open>float\<close> is an IEEE 754 binary64 number. A finite double is its exact rational
  value; \<open>rnd\<close> is round-to-nearest, ties to even, with the 53-bit significand, the
  subnormal grid of \<open>2 powi (-1074)\<close> and overflow to infinity at \<open>2 ^ 1024\<close>, so every
  arithmetic operation here returns the double that CPython returns. The sign of zero is
  not represented: the modelled code compares, adds, multiplies and divides, and none of
  those observes it (Python's division by either zero raises).

  The section on rounding proves that the rounding is monotone, odd, exact on doubles and
  off by at most half a unit in the last place; the locale \<open>rounding\<close> is the
  interface through which the components reason about it.
\<close>

section \<open>Round to nearest even\<close>

definition rne :: "rat \<Rightarrow> int" where
  "rne x = (let f = \<lfloor>x\<rfloor>; r = x - of_int f in
     if r < 1/2 then f else if 1/2 < r then f + 1 else if even f then f else f + 1)"

definition ilog2 :: "rat \<Rightarrow> int" where
  "ilog2 q = (case quotient_of q of (n, d) \<Rightarrow>
     let k = bitlen n - bitlen d in if 2 powi k \<le> q then k else k - 1)"

text \<open>The exponent of the last place of the doubles around \<open>q\<close>.\<close>

definition gexp :: "rat \<Rightarrow> int" where
  "gexp q = max (ilog2 \<bar>q\<bar> - 52) (-1074)"

definition rnd0 :: "rat \<Rightarrow> rat" where
  "rnd0 q = (if q = 0 then 0 else of_int (rne (q / 2 powi gexp q)) * 2 powi gexp q)"

datatype pyfloat = Fin rat | PInf | NInf | NaN

definition rnd :: "rat \<Rightarrow> pyfloat" where
  "rnd q = (let v = rnd0 q in
     if 2 ^ 1024 \<le> v then PInf else if v \<le> - (2 ^ 1024) then NInf else Fin v)"

definition is_double :: "pyfloat \<Rightarrow> bool" where
  "is_double x = (case x of Fin q \<Rightarrow> rnd0 q = q \<and> \<bar>q\<bar> < 2 ^ 1024 | _ \<Rightarrow> True)"

section \<open>Arithmetic and comparison\<close>

definition isfinite :: "pyfloat \<Rightarrow> bool" where
  "isfinite x = (case x of Fin _ \<Rightarrow> True | _ \<Rightarrow> False)"

fun flt :: "pyfloat \<Rightarrow> pyfloat \<Rightarrow> bool" where
  "flt NaN _ = False"
| "flt _ NaN = False"
| "flt (Fin a) (Fin b) = (a < b)"
| "flt (Fin _) PInf = True"
| "flt (Fin _) NInf = False"
| "flt PInf _ = False"
| "flt NInf NInf = False"
| "flt NInf _ = True"

fun fle :: "pyfloat \<Rightarrow> pyfloat \<Rightarrow> bool" where
  "fle NaN _ = False"
| "fle _ NaN = False"
| "fle (Fin a) (Fin b) = (a \<le> b)"
| "fle (Fin _) PInf = True"
| "fle (Fin _) NInf = False"
| "fle PInf PInf = True"
| "fle PInf _ = False"
| "fle NInf _ = True"

definition feq :: "pyfloat \<Rightarrow> pyfloat \<Rightarrow> bool" where
  "feq x y = (x \<noteq> NaN \<and> x = y)"

fun fneg :: "pyfloat \<Rightarrow> pyfloat" where
  "fneg (Fin a) = Fin (- a)"
| "fneg PInf = NInf"
| "fneg NInf = PInf"
| "fneg NaN = NaN"

fun fabs :: "pyfloat \<Rightarrow> pyfloat" where
  "fabs (Fin a) = Fin \<bar>a\<bar>"
| "fabs NaN = NaN"
| "fabs _ = PInf"

fun fadd :: "pyfloat \<Rightarrow> pyfloat \<Rightarrow> pyfloat" where
  "fadd NaN _ = NaN"
| "fadd _ NaN = NaN"
| "fadd (Fin a) (Fin b) = rnd (a + b)"
| "fadd PInf NInf = NaN"
| "fadd NInf PInf = NaN"
| "fadd PInf _ = PInf"
| "fadd NInf _ = NInf"
| "fadd (Fin _) y = y"

definition fsub :: "pyfloat \<Rightarrow> pyfloat \<Rightarrow> pyfloat" where
  "fsub x y = fadd x (fneg y)"

definition inf_of_sign :: "rat \<Rightarrow> pyfloat" where
  "inf_of_sign s = (if s = 0 then NaN else if 0 < s then PInf else NInf)"

fun fsign :: "pyfloat \<Rightarrow> rat" where
  "fsign (Fin a) = sgn a"
| "fsign PInf = 1"
| "fsign NInf = -1"
| "fsign NaN = 0"

fun fmul :: "pyfloat \<Rightarrow> pyfloat \<Rightarrow> pyfloat" where
  "fmul NaN _ = NaN"
| "fmul _ NaN = NaN"
| "fmul (Fin a) (Fin b) = rnd (a * b)"
| "fmul x y = inf_of_sign (fsign x * fsign y)"

text \<open>Python's \<open>/\<close> on floats raises on a zero divisor of either sign.\<close>

fun fdiv :: "pyfloat \<Rightarrow> pyfloat \<Rightarrow> pyfloat res" where
  "fdiv x (Fin b) = (if b = 0 then Inl ZeroDivisionError else
     (case x of NaN \<Rightarrow> Inr NaN | Fin a \<Rightarrow> Inr (rnd (a / b))
      | _ \<Rightarrow> Inr (inf_of_sign (fsign x * sgn b))))"
| "fdiv x NaN = Inr NaN"
| "fdiv x y = (case x of Fin _ \<Rightarrow> Inr (Fin 0) | _ \<Rightarrow> Inr NaN)"

text \<open>
  \<open>float(n)\<close> of an integer and the true division of two integers are correctly rounded
  and raise \<open>OverflowError\<close> where the result is out of range.
\<close>

definition to_finite :: "pyfloat \<Rightarrow> pyfloat res" where
  "to_finite x = (case x of Fin q \<Rightarrow> Inr (Fin q) | _ \<Rightarrow> Inl OverflowError)"

definition float_of_int :: "int \<Rightarrow> pyfloat res" where
  "float_of_int n = to_finite (rnd (of_int n))"

definition int_truediv :: "int \<Rightarrow> int \<Rightarrow> pyfloat res" where
  "int_truediv a b = (if b = 0 then Inl ZeroDivisionError else to_finite (rnd (of_int a / of_int b)))"

text \<open>
  \<open>math.fsum\<close> rounds the exact sum once. A non-finite input decides the result (opposite
  infinities raise); a finite sum out of range raises.
\<close>

definition fvals :: "pyfloat list \<Rightarrow> rat list" where
  "fvals xs = map (\<lambda>x. case x of Fin q \<Rightarrow> q | _ \<Rightarrow> 0) xs"

definition fsum :: "pyfloat list \<Rightarrow> pyfloat res" where
  "fsum xs = (if PInf \<in> set xs \<and> NInf \<in> set xs then Inl (ValueError ''-inf + inf in fsum'')
     else if NaN \<in> set xs then Inr NaN
     else if PInf \<in> set xs then Inr PInf
     else if NInf \<in> set xs then Inr NInf
     else to_finite (rnd (sum_list (fvals xs))))"

text \<open>The builtin \<open>sum\<close> adds left to right, rounding after each addition.\<close>

definition fsum_left :: "pyfloat list \<Rightarrow> pyfloat" where
  "fsum_left xs = foldl fadd (Fin 0) xs"

text \<open>\<open>math.isclose(a, b, rel_tol=0, abs_tol=t)\<close> for a finite \<open>b\<close>.\<close>

definition isclose_abs :: "pyfloat \<Rightarrow> pyfloat \<Rightarrow> pyfloat \<Rightarrow> bool" where
  "isclose_abs a b t = (feq a b \<or> (isfinite a \<and> isfinite b \<and> fle (fabs (fsub b a)) t))"

text \<open>A numeral of the source, e.g. \<open>1e-9\<close>: the double nearest to its decimal value.\<close>

abbreviation flit :: "rat \<Rightarrow> pyfloat" where
  "flit q \<equiv> rnd q"

section \<open>Facts about rounding to an integer\<close>

lemma rne_of_int [simp]: "rne (of_int z) = z"
  by (simp add: rne_def)

lemma rne_error: "\<bar>of_int (rne x) - x\<bar> \<le> 1/2"
  by (auto simp: rne_def Let_def abs_if; linarith)

lemma rne_bounds: "\<lfloor>x\<rfloor> \<le> rne x \<and> rne x \<le> \<lfloor>x\<rfloor> + 1"
  by (simp add: rne_def Let_def)

lemma rne_near:
  assumes "of_int m - 1/2 < x" and "x < of_int m + 1/2"
  shows "rne x = m"
proof -
  have "of_int (rne x) - x \<le> 1/2" "x - of_int (rne x) \<le> 1/2"
    using rne_error [of x] by linarith+
  with assms have "of_int (rne x) < (of_int m + 1 :: rat)" "of_int m < (of_int (rne x) + 1 :: rat)"
    by linarith+
  then have "of_int (rne x) < (of_int (m + 1) :: rat)" "of_int m < (of_int (rne x + 1) :: rat)"
    by simp_all
  then show ?thesis unfolding of_int_less_iff by simp
qed

lemma rne_tie:
  assumes "x = of_int m + 1/2 \<or> x = of_int m - 1/2" and "even m"
  shows "rne x = m"
proof -
  have "\<lfloor>of_int m + 1/2 :: rat\<rfloor> = m" "\<lfloor>of_int m - 1/2 :: rat\<rfloor> = m - 1" by linarith+
  with assms show ?thesis by (auto simp: rne_def Let_def)
qed

lemma rne_mono: "x \<le> y \<Longrightarrow> rne x \<le> rne y"
proof -
  assume xy: "x \<le> y"
  then have fl: "\<lfloor>x\<rfloor> \<le> \<lfloor>y\<rfloor>" by (rule floor_mono)
  show ?thesis
  proof (cases "\<lfloor>x\<rfloor> = \<lfloor>y\<rfloor>")
    case True
    with xy show ?thesis by (auto simp: rne_def Let_def)
  next
    case False
    with fl have "\<lfloor>x\<rfloor> + 1 \<le> \<lfloor>y\<rfloor>" by simp
    with rne_bounds [of x] rne_bounds [of y] show ?thesis by linarith
  qed
qed

lemma rne_minus: "rne (- x) = - rne x"
proof (cases "x = of_int \<lfloor>x\<rfloor>")
  case True
  then show ?thesis by (metis of_int_minus rne_of_int)
next
  case False
  then have "\<lfloor>- x\<rfloor> = - \<lfloor>x\<rfloor> - 1" by linarith
  then show ?thesis by (auto simp: rne_def Let_def)
qed

section \<open>Facts about the binade\<close>

lemma powi_less_iff [simp]: "(2 :: rat) powi a < 2 powi b \<longleftrightarrow> a < b"
  by (metis linorder_not_less one_less_numeral_iff power_int_increasing
      power_int_strict_increasing semiring_norm(76) less_imp_le)

lemma powi_le_iff [simp]: "(2 :: rat) powi a \<le> 2 powi b \<longleftrightarrow> a \<le> b"
  by (simp flip: not_less)

lemma powi_pos [simp]: "0 < (2 :: rat) powi a"
  by simp

lemma powi_bitlen:
  assumes "0 < n"
  shows "2 powi (bitlen n - 1) \<le> (of_int n :: rat)" and "(of_int n :: rat) < 2 powi bitlen n"
proof -
  from assms have pos: "0 < bitlen n"
    by (simp add: bitlen_eq_zero_iff bitlen_nonneg order_less_le)
  have "2 ^ nat (bitlen n - 1) \<le> n" "n < 2 ^ nat (bitlen n)"
    using bitlen_bounds [OF assms] by simp_all
  then have "(2 :: rat) ^ nat (bitlen n - 1) \<le> of_int n" "of_int n < (2 :: rat) ^ nat (bitlen n)"
    by (metis of_int_le_iff of_int_numeral of_int_power, metis of_int_less_iff of_int_numeral of_int_power)
  with pos show "2 powi (bitlen n - 1) \<le> (of_int n :: rat)" "(of_int n :: rat) < 2 powi bitlen n"
    by (simp_all add: power_int_def)
qed

lemma ilog2_bounds:
  assumes "0 < q"
  shows "2 powi ilog2 q \<le> q" and "q < 2 powi (ilog2 q + 1)"
proof -
  obtain n d where nd: "quotient_of q = (n, d)" by fastforce
  then have d: "0 < d" and q: "q = of_int n / of_int d"
    by (auto dest: quotient_of_denom_pos quotient_of_div)
  with assms have n: "0 < n" by (simp add: zero_less_divide_iff)
  let ?k = "bitlen n - bitlen d"
  have "q < 2 powi bitlen n / 2 powi (bitlen d - 1)"
    unfolding q using powi_bitlen [OF n] powi_bitlen [OF d] n d
    by (intro frac_less) (auto intro: order_less_imp_le)
  also have "\<dots> = 2 powi (?k + 1)"
    by (simp flip: power_int_diff add: algebra_simps)
  finally have up: "q < 2 powi (?k + 1)" .
  have "2 powi (bitlen n - 1) / 2 powi bitlen d \<le> q"
    unfolding q using powi_bitlen [OF n] powi_bitlen [OF d] n d
    by (intro frac_le) auto
  then have lo: "2 powi (?k - 1) \<le> q"
    by (simp flip: power_int_diff add: algebra_simps)
  show "2 powi ilog2 q \<le> q" and "q < 2 powi (ilog2 q + 1)"
    using lo up by (auto simp: ilog2_def nd Let_def)
qed

lemma ilog2_unique:
  assumes "2 powi k \<le> q" and "q < 2 powi (k + 1)"
  shows "ilog2 q = k"
proof -
  have "0 < q" using assms(1) powi_pos [of k] by linarith
  note b = ilog2_bounds [OF this]
  have "(2 :: rat) powi ilog2 q < 2 powi (k + 1)" "(2 :: rat) powi k < 2 powi (ilog2 q + 1)"
    using assms b by linarith+
  then show ?thesis by simp
qed

lemma ilog2_mono: "0 < x \<Longrightarrow> x \<le> y \<Longrightarrow> ilog2 x \<le> ilog2 y"
  using ilog2_bounds(1) [of x] ilog2_bounds(2) [of y]
  by (metis dual_order.strict_trans2 less_le_trans powi_less_iff zless_add1_eq order_le_less)

lemma gexp_mono: "0 < x \<Longrightarrow> x \<le> y \<Longrightarrow> gexp x \<le> gexp y"
  using ilog2_mono [of x y] by (simp add: gexp_def) 

lemma gexp_minus [simp]: "gexp (- q) = gexp q"
  by (simp add: gexp_def)

section \<open>Facts about rounding to a double\<close>

lemma rnd0_0 [simp]: "rnd0 0 = 0"
  by (simp add: rnd0_def)

lemma rnd0_minus: "rnd0 (- q) = - rnd0 q"
  by (simp add: rnd0_def rne_minus flip: minus_divide_left)

text \<open>Rounding on one grid keeps every bound that lies on the grid.\<close>

lemma grid_multiple: "g \<le> e \<Longrightarrow> \<exists>z. of_int z = (2 :: rat) powi e / 2 powi g"
proof -
  assume "g \<le> e"
  then have "(of_int (2 ^ nat (e - g)) :: rat) = 2 powi (e - g)"
    by (simp add: power_int_def)
  also have "\<dots> = 2 powi e / 2 powi g" by (simp add: power_int_diff)
  finally show ?thesis by blast
qed

lemma grid_round_le:
  assumes "x \<le> b" and "of_int z = b / 2 powi g"
  shows "of_int (rne (x / 2 powi g)) * 2 powi g \<le> b"
proof -
  have "x / 2 powi g \<le> of_int z"
    using assms by (simp add: divide_right_mono)
  then have "rne (x / 2 powi g) \<le> z"
    using rne_mono rne_of_int by metis
  then have "(of_int (rne (x / 2 powi g)) :: rat) \<le> b / 2 powi g"
    using assms(2) by (metis of_int_le_iff)
  then show ?thesis by (simp add: field_simps)
qed

lemma grid_round_ge:
  assumes "b \<le> x" and "of_int z = b / 2 powi g"
  shows "b \<le> of_int (rne (x / 2 powi g)) * 2 powi g"
proof -
  have "of_int z \<le> x / 2 powi g"
    using assms by (simp add: divide_right_mono)
  then have "z \<le> rne (x / 2 powi g)"
    using rne_mono rne_of_int by metis
  then have "b / 2 powi g \<le> (of_int (rne (x / 2 powi g)) :: rat)"
    using assms(2) by (metis of_int_le_iff)
  then show ?thesis by (simp add: field_simps)
qed

lemma rnd0_mono_pos:
  assumes "0 < x" and "x \<le> y"
  shows "rnd0 x \<le> rnd0 y"
proof -
  have y: "0 < y" using assms by linarith
  show ?thesis
  proof (cases "gexp x = gexp y")
    case True
    have "rne (x / 2 powi gexp y) \<le> rne (y / 2 powi gexp y)"
      using assms(2) by (intro rne_mono divide_right_mono) auto
    with True assms(1) y show ?thesis by (simp add: rnd0_def)
  next
    case False
    with gexp_mono [OF assms] have lt: "gexp x < gexp y" by simp
    let ?b = "(2 :: rat) powi ilog2 y"
    have e: "gexp y \<le> ilog2 y" "ilog2 x < ilog2 y"
      using lt assms(1) y by (auto simp: gexp_def)
    then have "x \<le> ?b" "?b \<le> y"
      using ilog2_bounds [OF assms(1)] ilog2_bounds [OF y] powi_le_iff [of "ilog2 x + 1" "ilog2 y"]
      by linarith+
    moreover obtain z where "of_int z = ?b / 2 powi gexp x"
      using grid_multiple [of "gexp x" "ilog2 y"] lt e by auto
    moreover obtain z' where "of_int z' = ?b / 2 powi gexp y"
      using grid_multiple [of "gexp y" "ilog2 y"] e by auto
    ultimately have "rnd0 x \<le> ?b" "?b \<le> rnd0 y"
      using assms(1) y grid_round_le grid_round_ge by (auto simp: rnd0_def)
    then show ?thesis by linarith
  qed
qed

lemma rnd0_nonneg: "0 \<le> x \<Longrightarrow> 0 \<le> rnd0 x"
  using rne_mono [of 0 "x / 2 powi gexp x"] rne_of_int [of 0] by (simp add: rnd0_def)

lemma rnd0_mono: "x \<le> y \<Longrightarrow> rnd0 x \<le> rnd0 y"
proof -
  assume xy: "x \<le> y"
  consider "0 < x" | "x \<le> 0" "0 \<le> y" | "y < 0" by linarith
  then show ?thesis
  proof cases
    case 1
    then show ?thesis using xy by (rule rnd0_mono_pos)
  next
    case 2
    then show ?thesis
      using rnd0_nonneg [of y] rnd0_nonneg [of "- x"] rnd0_minus [of x] by linarith
  next
    case 3
    with xy rnd0_mono_pos [of "- y" "- x"] show ?thesis by (simp add: rnd0_minus)
  qed
qed

lemma rnd0_grid:
  assumes "2 powi ilog2 \<bar>q\<bar> \<le> \<bar>q\<bar>" "q \<noteq> 0" "gexp q \<le> g" "q = of_int m * 2 powi g"
  shows "rnd0 q = q"
proof -
  obtain z where z: "of_int z = (2 :: rat) powi g / 2 powi gexp q"
    using grid_multiple [OF assms(3)] by blast
  then have "q / 2 powi gexp q = of_int (m * z)"
    using assms(4) by simp
  then have "rne (q / 2 powi gexp q) = m * z"
    by (metis rne_of_int)
  with z assms(2,4) show ?thesis by (simp add: rnd0_def)
qed

text \<open>Every number of at most 53 significant bits above the subnormal limit is a double.\<close>

lemma rnd0_exact:
  assumes "\<bar>m\<bar> < 2 ^ 53" and "-1074 \<le> g"
  shows "rnd0 (of_int m * 2 powi g) = of_int m * 2 powi g"
proof (cases "m = 0")
  case True
  then show ?thesis by simp
next
  case False
  let ?q = "of_int m * 2 powi g :: rat"
  have pos: "0 < \<bar>?q\<bar>" using False by simp
  have "\<bar>?q\<bar> < 2 powi 53 * 2 powi g"
    using assms(1) by (simp add: abs_mult)
  then have "2 powi ilog2 \<bar>?q\<bar> < (2 :: rat) powi (53 + g)"
    using ilog2_bounds(1) [OF pos] by (simp add: power_int_add)
  then have "gexp ?q \<le> g"
    using assms(2) by (simp add: gexp_def)
  then show ?thesis
    using rnd0_grid [OF ilog2_bounds(1) [OF pos]] False by simp
qed

lemma rnd0_power: "-1074 \<le> e \<Longrightarrow> rnd0 (2 powi e) = 2 powi e"
  using rnd0_exact [of 1 e] by simp

lemma rnd0_of_small_int: "\<bar>m\<bar> < 2 ^ 53 \<Longrightarrow> rnd0 (of_int m) = of_int m"
  using rnd0_exact [of m 0] by simp

lemma rnd0_1 [simp]: "rnd0 1 = 1"
  using rnd0_of_small_int [of 1] by simp

lemma rnd0_error: "\<bar>rnd0 q - q\<bar> \<le> 2 powi gexp q / 2"
proof (cases "q = 0")
  case True
  then show ?thesis by simp
next
  case False
  let ?g = "(2 :: rat) powi gexp q"
  have "rnd0 q - q = (of_int (rne (q / ?g)) - q / ?g) * ?g"
    using False by (simp add: rnd0_def field_simps)
  then have "\<bar>rnd0 q - q\<bar> = \<bar>of_int (rne (q / ?g)) - q / ?g\<bar> * ?g"
    by (simp add: abs_mult)
  also have "\<dots> \<le> 1/2 * ?g"
    by (intro mult_right_mono rne_error) simp
  finally show ?thesis by simp
qed

text \<open>Below a power of two, the error is at most half the spacing there.\<close>

lemma rnd0_error_below:
  assumes "\<bar>q\<bar> < 2 powi e" and "-1021 \<le> e"
  shows "\<bar>rnd0 q - q\<bar> \<le> 2 powi (e - 53) / 2"
proof (cases "q = 0")
  case True
  then show ?thesis by simp
next
  case False
  then have "2 powi ilog2 \<bar>q\<bar> < (2 :: rat) powi e"
    using ilog2_bounds(1) [of "\<bar>q\<bar>"] assms(1) by linarith
  then have "gexp q \<le> e - 53"
    using assms(2) by (simp add: gexp_def)
  then have "(2 :: rat) powi gexp q \<le> 2 powi (e - 53)" by simp
  with rnd0_error [of q] show ?thesis by linarith
qed

lemma rnd0_idem [simp]: "rnd0 (rnd0 q) = rnd0 q"
proof -
  have pos: "rnd0 (rnd0 q) = rnd0 q" if q: "0 < q" for q
  proof (cases "rnd0 q = 0")
    case True
    then show ?thesis by simp
  next
    case False
    let ?g = "gexp q" and ?m = "rne (q / 2 powi gexp q)"
    have v: "rnd0 q = of_int ?m * 2 powi ?g" using q by (simp add: rnd0_def)
    have "q / 2 powi ?g < 2 powi (ilog2 q + 1) / 2 powi ?g"
      using ilog2_bounds(2) [OF q] by (intro divide_strict_right_mono) auto
    also have "\<dots> = 2 powi (ilog2 q + 1 - ?g)" by (simp add: power_int_diff)
    also have "\<dots> \<le> 2 powi 53"
      unfolding powi_le_iff using q by (simp add: gexp_def)
    finally have "q / 2 powi ?g \<le> of_int (2 ^ 53)" by simp
    then have m: "?m \<le> 2 ^ 53" using rne_mono rne_of_int by metis
    have "0 \<le> ?m" using rne_mono [of 0 "q / 2 powi ?g"] rne_of_int [of 0] q by simp
    have g: "-1074 \<le> ?g" by (simp add: gexp_def)
    show ?thesis
    proof (cases "?m = 2 ^ 53")
      case True
      then have "rnd0 q = 2 powi (53 + ?g)" unfolding v by (simp add: power_int_add)
      then show ?thesis using rnd0_power [of "53 + ?g"] g by simp
    next
      case False
      then show ?thesis unfolding v using m \<open>0 \<le> ?m\<close> g by (intro rnd0_exact) auto
    qed
  qed
  consider "q = 0" | "0 < q" | "0 < - q" by linarith
  then show ?thesis
  proof cases
    case 3
    then show ?thesis using pos [of "- q"] by (simp add: rnd0_minus)
  qed (auto intro: pos)
qed

text \<open>How a concrete value is rounded: name the grid and the integer on it.\<close>

lemma rnd0_eval:
  assumes "2 ^ 52 \<le> q * 2 ^ k" and "q * 2 ^ k < 2 ^ 53" and "k \<le> 1074"
    and "rne (q * 2 ^ k) = m"
  shows "rnd0 q = of_int m / 2 ^ k"
proof -
  have two: "(2 :: rat) powi (- int k) = 1 / 2 ^ k"
    by (simp add: power_int_minus divide_inverse)
  have q: "0 < q" using assms(1) by (smt (verit) zero_less_mult_pos2 zero_less_power zero_less_numeral less_le_trans)
  have lo: "2 powi (52 - int k) \<le> q"
    using assms(1) by (simp add: power_int_diff field_simps)
  have hi: "q < 2 powi (52 - int k + 1)"
    using assms(2) by (simp add: power_int_diff power_int_add field_simps)
  have "gexp q = - int k"
    using ilog2_unique [OF lo hi] q assms(3) by (simp add: gexp_def)
  then show ?thesis
    using q assms(4) two by (simp add: rnd0_def)
qed

lemma rnd_small: "\<bar>q\<bar> \<le> 2 ^ 1023 \<Longrightarrow> rnd q = Fin (rnd0 q)"
proof -
  assume q: "\<bar>q\<bar> \<le> 2 ^ 1023"
  have p: "rnd0 (2 ^ 1023) = 2 ^ 1023"
    using rnd0_power [of "1023"] by (simp add: power_int_def)
  from q have "q \<le> 2 ^ 1023" "- q \<le> 2 ^ 1023" by (auto simp: abs_le_iff)
  then have "rnd0 q \<le> 2 ^ 1023" "- rnd0 q \<le> 2 ^ 1023"
    using rnd0_mono [of q "2 ^ 1023"] rnd0_mono [of "- q" "2 ^ 1023"] p rnd0_minus [of q] by simp_all
  moreover have "(2 :: rat) ^ 1023 < 2 ^ 1024" by (rule power_strict_increasing) auto
  ultimately have "\<not> 2 ^ 1024 \<le> rnd0 q" "\<not> rnd0 q \<le> - (2 ^ 1024)"
    by linarith+
  then show ?thesis by (simp only: rnd_def Let_def if_False)
qed

lemma rnd_unit: "\<bar>q\<bar> \<le> 4 \<Longrightarrow> rnd q = Fin (rnd0 q)"
proof (rule rnd_small)
  assume "\<bar>q\<bar> \<le> 4"
  moreover have "(4 :: rat) \<le> 2 ^ 1023"
    using power_increasing [of 2 1023 "2 :: rat"] by simp
  ultimately show "\<bar>q\<bar> \<le> 2 ^ 1023" by linarith
qed

lemma is_double_rnd: "is_double (rnd q)"
proof (cases "rnd q")
  case (Fin v)
  then have "v = rnd0 q" "rnd0 q < 2 ^ 1024" "- (2 ^ 1024) < rnd0 q"
    by (auto simp: rnd_def Let_def not_le split: if_splits)
  with Fin show ?thesis by (simp add: is_double_def abs_less_iff minus_less_iff)
qed (auto simp: is_double_def)

lemma rnd_FinD: "rnd q = Fin v \<Longrightarrow> v = rnd0 q \<and> rnd0 v = v \<and> \<bar>v\<bar> < 2 ^ 1024"
  using is_double_rnd [of q] by (auto simp only: is_double_def pyfloat.case rnd_def Let_def
      pyfloat.inject rnd0_idem split: if_splits)

text \<open>The order of Python floats: a preorder on the numbers, empty on NaN.\<close>

lemma fle_refl [simp]: "x \<noteq> NaN \<Longrightarrow> fle x x"
  by (cases x) auto

lemma fle_trans: "fle x y \<Longrightarrow> fle y z \<Longrightarrow> fle x z"
  by (cases x; cases y; cases z) auto

lemma flt_irrefl [simp]: "\<not> flt x x"
  by (cases x) auto

lemma flt_trans: "flt x y \<Longrightarrow> flt y z \<Longrightarrow> flt x z"
  by (cases x; cases y; cases z) auto

lemma flt_asym: "flt x y \<Longrightarrow> \<not> flt y x"
  by (cases x; cases y) auto

lemma not_flt_iff: "x \<noteq> NaN \<Longrightarrow> y \<noteq> NaN \<Longrightarrow> \<not> flt x y \<longleftrightarrow> fle y x"
  by (cases x; cases y) auto

lemma flt_fle_trans: "flt x y \<Longrightarrow> fle y z \<Longrightarrow> flt x z"
  by (cases x; cases y; cases z) auto

lemma fle_flt_trans: "fle x y \<Longrightarrow> flt y z \<Longrightarrow> flt x z"
  by (cases x; cases y; cases z) auto

lemma flt_imp_fle: "flt x y \<Longrightarrow> fle x y"
  by (cases x; cases y) auto

lemma flt_not_NaN: "flt x y \<Longrightarrow> x \<noteq> NaN \<and> y \<noteq> NaN"
  by (cases x; cases y) auto

lemma fle_not_NaN: "fle x y \<Longrightarrow> x \<noteq> NaN \<and> y \<noteq> NaN"
  by (cases x; cases y) auto

lemma rnd_not_NaN [simp]: "rnd q \<noteq> NaN"
  by (simp add: rnd_def Let_def)

lemma rnd_mono: "x \<le> y \<Longrightarrow> fle (rnd x) (rnd y)"
  using rnd0_mono [of x y] by (auto simp: rnd_def Let_def)

text \<open>Small integers and dyadic fractions are doubles.\<close>

lemma rnd0_dyadic:
  assumes "\<bar>m\<bar> < 2 ^ 53" and "k \<le> 1074"
  shows "rnd0 (of_int m / 2 ^ k) = of_int m / 2 ^ k"
proof -
  have two: "(2 :: rat) powi (- int k) = 1 / 2 ^ k"
    by (simp add: power_int_minus divide_inverse)
  show ?thesis
    using rnd0_exact [OF assms(1), of "- int k"] assms(2) two by simp
qed

lemma rnd_dyadic:
  assumes "\<bar>m\<bar> < 2 ^ 53" and "k \<le> 1074"
  shows "rnd (of_int m / 2 ^ k) = Fin (of_int m / 2 ^ k)"
proof -
  have "\<bar>of_int m :: rat\<bar> < 2 ^ 53" using assms(1) by simp
  moreover have "\<bar>of_int m / 2 ^ k :: rat\<bar> \<le> \<bar>of_int m\<bar>"
    by (simp add: divide_le_eq mult_left_le mult_le_cancel_left1)
  moreover have "(2 :: rat) ^ 53 \<le> 2 ^ 1023"
    by (rule power_increasing) auto
  ultimately have "rnd (of_int m / 2 ^ k) = Fin (rnd0 (of_int m / 2 ^ k))"
    by (intro rnd_small) linarith
  then show ?thesis using rnd0_dyadic [OF assms] by simp
qed

lemma rnd_of_int: "\<bar>m\<bar> < 2 ^ 53 \<Longrightarrow> rnd (of_int m) = Fin (of_int m)"
  using rnd_dyadic [of m 0] by simp

lemma rnd_0 [simp]: "rnd 0 = Fin 0"
  using rnd_of_int [of 0] by simp

lemma rnd_1 [simp]: "rnd 1 = Fin 1"
  using rnd_of_int [of 1] by simp

lemma rnd_numeral: "(numeral n :: int) < 2 ^ 53 \<Longrightarrow> rnd (numeral n) = Fin (numeral n)"
  using rnd_of_int [of "numeral n"] by simp

section \<open>The interface to rounding\<close>

text \<open>
  What the components use of the arithmetic: rounding keeps the order and leaves the
  numbers it can represent alone.
\<close>

locale rounding =
  fixes rd :: "rat \<Rightarrow> rat"
  assumes rd_mono: "x \<le> y \<Longrightarrow> rd x \<le> rd y"
    and rd_zero: "rd 0 = 0"
    and rd_one: "rd 1 = 1"
    and rd_idem: "rd (rd x) = rd x"
begin

lemma rd_nonneg: "0 \<le> x \<Longrightarrow> 0 \<le> rd x"
  using rd_mono [of 0 x] by (simp add: rd_zero)

lemma rd_le_one: "x \<le> 1 \<Longrightarrow> rd x \<le> 1"
  using rd_mono [of x 1] by (simp add: rd_one)

lemma rd_ge: "rd b = b \<Longrightarrow> b \<le> x \<Longrightarrow> b \<le> rd x"
  using rd_mono [of b x] by simp

lemma rd_le: "rd b = b \<Longrightarrow> x \<le> b \<Longrightarrow> rd x \<le> b"
  using rd_mono [of x b] by simp

text \<open>
  The decay of a weight: with a fraction \<open>t\<close> between 0 and 1 of the way left, the result
  lies between the floor and the rounded sum of floor and full difference, and it grows
  with \<open>t\<close>.
\<close>

lemma scaled_sum_bounds:
  assumes "rd lo = lo" and "0 \<le> d" and "0 \<le> t" and "t \<le> 1"
  shows "lo \<le> rd (lo + rd (rd d * rd t))"
    and "rd (lo + rd (rd d * rd t)) \<le> rd (lo + rd d)"
proof -
  have d: "0 \<le> rd d" and t: "0 \<le> rd t" "rd t \<le> 1"
    using assms by (auto intro: rd_nonneg rd_le_one)
  have "0 \<le> rd (rd d * rd t)"
    using d t by (intro rd_nonneg) simp
  then show "lo \<le> rd (lo + rd (rd d * rd t))"
    using assms(1) by (intro rd_ge) auto
  have "rd (rd d * rd t) \<le> rd d"
    using d t by (intro rd_le rd_idem) (simp add: mult_left_le)
  then show "rd (lo + rd (rd d * rd t)) \<le> rd (lo + rd d)"
    by (intro rd_mono) simp
qed

lemma scaled_sum_mono:
  assumes "0 \<le> d" and "s \<le> t"
  shows "rd (lo + rd (rd d * rd s)) \<le> rd (lo + rd (rd d * rd t))"
proof -
  have "rd d * rd s \<le> rd d * rd t"
    using rd_nonneg [OF assms(1)] rd_mono [OF assms(2)] by (rule mult_left_mono [rotated])
  then show ?thesis by (intro rd_mono add_left_mono)
qed

end

interpretation ieee: rounding rnd0
  by unfold_locales (auto intro: rnd0_mono)

end
