(* ===== verification/PyValue.thy ===== *)
theory PyValue
  imports PyFloat "HOL-Library.Sublist"
begin

text \<open>
  The dynamic values and the string operations the code uses. A \<open>str\<close> is a
  \<^typ>\<open>string\<close>, that is the Python strings whose code points are below 256; \<open>strip\<close>,
  \<open>lower\<close>, \<open>isdigit\<close> and \<open>split\<close> do on them what CPython does. A value read from JSON
  (a \<open>JSONB\<close> column, a manifest, a decoded chain record) is a \<open>json\<close>; an object is an
  association list in insertion order. A Python \<open>dict\<close> with typed values is an
  association list as well, so that iteration order is explicit.
\<close>

section \<open>Strings\<close>

definition ccode :: "char \<Rightarrow> nat" where
  "ccode c = of_char c"

definition py_isspace :: "char \<Rightarrow> bool" where
  "py_isspace c = (let n = ccode c in
     (9 \<le> n \<and> n \<le> 13) \<or> (28 \<le> n \<and> n \<le> 32) \<or> n = 133 \<or> n = 160)"

definition lstrip :: "string \<Rightarrow> string" where
  "lstrip s = dropWhile py_isspace s"

definition rstrip :: "string \<Rightarrow> string" where
  "rstrip s = rev (dropWhile py_isspace (rev s))"

definition strip :: "string \<Rightarrow> string" where
  "strip s = rstrip (lstrip s)"

definition lower_char :: "char \<Rightarrow> char" where
  "lower_char c = (let n = ccode c in
     if (65 \<le> n \<and> n \<le> 90) \<or> (192 \<le> n \<and> n \<le> 222 \<and> n \<noteq> 215) then char_of (n + 32) else c)"

definition lower :: "string \<Rightarrow> string" where
  "lower s = map lower_char s"

definition startswith :: "string \<Rightarrow> string \<Rightarrow> bool" where
  "startswith s p = (take (length p) s = p)"

text \<open>\<open>s.split(c)\<close> for a one-character separator, and \<open>c.join(parts)\<close>.\<close>

fun split_on :: "char \<Rightarrow> string \<Rightarrow> string list" where
  "split_on c [] = [[]]"
| "split_on c (x # xs) = (if x = c then [] # split_on c xs
     else (case split_on c xs of [] \<Rightarrow> [[x]] | p # ps \<Rightarrow> (x # p) # ps))"

fun join_with :: "char \<Rightarrow> string list \<Rightarrow> string" where
  "join_with c [] = []"
| "join_with c [p] = p"
| "join_with c (p # ps) = p @ c # join_with c ps"

definition is_ascii_digit :: "char \<Rightarrow> bool" where
  "is_ascii_digit c = (48 \<le> ccode c \<and> ccode c \<le> 57)"

definition is_hex_lower :: "char \<Rightarrow> bool" where
  "is_hex_lower c = (is_ascii_digit c \<or> (97 \<le> ccode c \<and> ccode c \<le> 102))"

text \<open>\<open>str.isdigit\<close> also accepts the superscript digits 1, 2 and 3 of Latin-1.\<close>

definition isdigit :: "string \<Rightarrow> bool" where
  "isdigit s = (s \<noteq> [] \<and> (\<forall>c \<in> set s. is_ascii_digit c \<or> ccode c \<in> {178, 179, 185}))"

definition digits_val :: "string \<Rightarrow> nat" where
  "digits_val s = foldl (\<lambda>n c. 10 * n + (ccode c - 48)) 0 s"

text \<open>\<open>int(s)\<close> of a string that \<open>isdigit\<close> accepts: the superscripts are not decimal.\<close>

definition int_of_digits :: "string \<Rightarrow> int res" where
  "int_of_digits s = (if \<forall>c \<in> set s. is_ascii_digit c then Inr (int (digits_val s))
     else Inl (ValueError ''invalid literal for int()''))"

definition digit_char :: "nat \<Rightarrow> char" where
  "digit_char d = char_of (48 + d)"

fun str_of_nat :: "nat \<Rightarrow> string" where
  "str_of_nat n = (if n < 10 then [digit_char n] else str_of_nat (n div 10) @ [digit_char (n mod 10)])"

declare str_of_nat.simps [simp del]

definition str_of_int :: "int \<Rightarrow> string" where
  "str_of_int i = (if i < 0 then CHR ''-'' # str_of_nat (nat (- i)) else str_of_nat (nat i))"

text \<open>\<open>s.replace(p, '')\<close> and \<open>s.strip(chars)\<close>.\<close>

fun remove_all :: "string \<Rightarrow> string \<Rightarrow> string" where
  "remove_all p [] = []"
| "remove_all p (c # s) = (if p \<noteq> [] \<and> startswith (c # s) p then remove_all p (drop (length p) (c # s))
     else c # remove_all p s)"

definition strip_chars :: "string \<Rightarrow> string \<Rightarrow> string" where
  "strip_chars cs s = rev (dropWhile (\<lambda>c. c \<in> set cs) (rev (dropWhile (\<lambda>c. c \<in> set cs) s)))"

definition split_sign :: "string \<Rightarrow> bool \<times> string" where
  "split_sign s = (case s of [] \<Rightarrow> (False, [])
     | c # r \<Rightarrow> if c = CHR ''-'' then (True, r) else if c = CHR ''+'' then (False, r) else (False, s))"

definition digits_re :: "string \<Rightarrow> bool" where
  "digits_re s = (s \<noteq> [] \<and> list_all is_ascii_digit s)"

text \<open>\<open>int\<close> of a run of decimal digits: CPython refuses more than 4300 of them.\<close>

definition int_limited :: "string \<Rightarrow> int res" where
  "int_limited s = (if length s \<le> 4300 then Inr (int (digits_val s))
     else Inl (ValueError ''Exceeds the limit (4300 digits) for integer string conversion''))"

section \<open>JSON values\<close>

datatype json =
    JNull
  | JBool bool
  | JInt int
  | JFloat pyfloat
  | JStr string
  | JArr "json list"
  | JObj "(string \<times> json) list"

type_synonym jdict = "(string \<times> json) list"

definition jget :: "jdict \<Rightarrow> string \<Rightarrow> json" where
  "jget d k = (case map_of d k of None \<Rightarrow> JNull | Some v \<Rightarrow> v)"

definition has_key :: "jdict \<Rightarrow> string \<Rightarrow> bool" where
  "has_key d k = (k \<in> set (map fst d))"

definition keys :: "('k \<times> 'v) list \<Rightarrow> 'k list" where
  "keys d = map fst d"

text \<open>
  Postgres' \<open>detail ->> 'key'\<close>, as the value it renders: \<open>None\<close> for a missing key or a
  JSON null. Every comparison of the code is with a literal that only a JSON string
  renders to, so \<open>= Some (JStr s)\<close> is that comparison.
\<close>

definition jtext :: "jdict \<Rightarrow> string \<Rightarrow> json option" where
  "jtext d k = (case map_of d k of None \<Rightarrow> None | Some JNull \<Rightarrow> None | Some v \<Rightarrow> Some v)"

text \<open>The exact numeric value of an \<open>int\<close> or \<open>float\<close> that is not a \<open>bool\<close>.\<close>

fun jnum :: "json \<Rightarrow> pyfloat option" where
  "jnum (JInt i) = Some (Fin (of_int i))"
| "jnum (JFloat x) = Some x"
| "jnum _ = None"

text \<open>\<open>float(v)\<close> of such a number, and \<open>math.isfinite\<close>, which converts first.\<close>

fun jfloat :: "json \<Rightarrow> pyfloat res" where
  "jfloat (JInt i) = float_of_int i"
| "jfloat (JFloat x) = Inr x"
| "jfloat _ = Inl (PyTypeError ''float() argument'')"

definition jisfinite :: "json \<Rightarrow> bool res" where
  "jisfinite v = rbind (jfloat v) (\<lambda>x. Inr (isfinite x))"

text \<open>\<open>d[k] = v\<close> and \<open>d.update(e)\<close>: an existing key keeps its position.\<close>

fun jput :: "jdict \<Rightarrow> string \<Rightarrow> json \<Rightarrow> jdict" where
  "jput [] k v = [(k, v)]"
| "jput ((k', v') # d) k v = (if k' = k then (k, v) # d else (k', v') # jput d k v)"

definition jupdate :: "jdict \<Rightarrow> jdict \<Rightarrow> jdict" where
  "jupdate d e = foldl (\<lambda>acc kv. jput acc (fst kv) (snd kv)) d e"

definition opt_int :: "int option \<Rightarrow> json" where
  "opt_int x = (case x of None \<Rightarrow> JNull | Some i \<Rightarrow> JInt i)"

definition opt_str :: "string option \<Rightarrow> json" where
  "opt_str x = (case x of None \<Rightarrow> JNull | Some s \<Rightarrow> JStr s)"

lemma map_of_jput: "map_of (jput d k v) = (map_of d)(k \<mapsto> v)"
  by (induction d) auto

lemma jget_jput: "jget (jput d k v) k' = (if k' = k then v else jget d k')"
  by (simp add: jget_def map_of_jput)

section \<open>Facts about strings\<close>

lemma split_on_Nil [simp]: "split_on c s \<noteq> []"
  by (induction s) (auto split: list.splits)

lemma split_on_no_sep: "c \<notin> set s \<Longrightarrow> split_on c s = [s]"
  by (induction s) auto

lemma split_on_sep: "c \<notin> set p \<Longrightarrow> split_on c (p @ c # s) = p # split_on c s"
  by (induction p) auto

lemma split_join:
  assumes "ps \<noteq> []" and "\<forall>p \<in> set ps. c \<notin> set p"
  shows "split_on c (join_with c ps) = ps"
  using assms
proof (induction c ps rule: join_with.induct)
  case (3 c p q ps)
  then show ?case by (simp add: split_on_sep)
qed (auto simp: split_on_no_sep)

lemma join_split: "join_with c (split_on c s) = s"
proof (induction s)
  case (Cons x xs)
  obtain p ps where "split_on c xs = p # ps"
    by (cases "split_on c xs") auto
  with Cons show ?case by (cases ps) auto
qed simp

lemma rstrip_no_space: "s = [] \<or> \<not> py_isspace (last s) \<Longrightarrow> rstrip s = s"
  by (cases s rule: rev_cases) (auto simp: rstrip_def)

lemma lstrip_no_space: "s = [] \<or> \<not> py_isspace (hd s) \<Longrightarrow> lstrip s = s"
  by (cases s) (auto simp: lstrip_def)

lemma strip_no_space: "\<forall>c \<in> set s. \<not> py_isspace c \<Longrightarrow> strip s = s"
  by (cases "s = []") (auto simp: strip_def rstrip_no_space lstrip_no_space)

lemma set_rstrip: "set (rstrip s) \<subseteq> set s"
  unfolding rstrip_def by (metis set_dropWhileD set_rev subsetI)

lemma set_strip: "set (strip s) \<subseteq> set s"
  unfolding strip_def lstrip_def using set_rstrip set_dropWhileD by fastforce

lemma rstrip_last: "rstrip s \<noteq> [] \<Longrightarrow> \<not> py_isspace (last (rstrip s))"
  unfolding rstrip_def by (metis hd_dropWhile last_rev rev_is_Nil_conv)

lemma rstrip_prefix: "\<exists>t. s = rstrip s @ t"
  unfolding rstrip_def by (metis rev_append rev_rev_ident takeWhile_dropWhile_id)

lemma strip_hd: "strip s \<noteq> [] \<Longrightarrow> \<not> py_isspace (hd (strip s))"
proof -
  assume ne: "strip s \<noteq> []"
  obtain t where t: "lstrip s = strip s @ t"
    using rstrip_prefix [of "lstrip s"] by (auto simp: strip_def)
  with ne have "hd (strip s) = hd (lstrip s)" "lstrip s \<noteq> []" by auto
  then show ?thesis unfolding lstrip_def by (metis hd_dropWhile)
qed

lemma strip_idem [simp]: "strip (strip s) = strip s"
proof (cases "strip s = []")
  case True
  have "strip [] = []" by (simp add: strip_def lstrip_def rstrip_def)
  with True show ?thesis by simp
next
  case False
  then have "lstrip (strip s) = strip s" using strip_hd by (simp add: lstrip_no_space)
  moreover have "rstrip (strip s) = strip s"
    using False rstrip_last by (simp add: strip_def rstrip_no_space)
  ultimately show ?thesis by (simp add: strip_def)
qed

lemma ccode_inject [simp]: "ccode c = ccode d \<longleftrightarrow> c = d"
  by (simp add: ccode_def)

lemma ccode_char_of: "n < 256 \<Longrightarrow> ccode (char_of n) = n"
  by (simp add: ccode_def)

lemma ccode_lt: "ccode c < 256"
  by (simp add: ccode_def)

lemma lower_char_idem [simp]: "lower_char (lower_char c) = lower_char c"
  using ccode_lt [of c] by (auto simp: lower_char_def Let_def ccode_char_of)

lemma lower_idem [simp]: "lower (lower s) = lower s"
  by (simp add: lower_def)

lemma length_lower [simp]: "length (lower s) = length s"
  by (simp add: lower_def)

lemma lower_hex: "is_hex_lower c \<Longrightarrow> lower_char c = c"
  by (auto simp: lower_char_def is_hex_lower_def is_ascii_digit_def Let_def)

lemma isspace_lower [simp]: "py_isspace (lower_char c) = py_isspace c"
  using ccode_lt [of c] by (auto simp: lower_char_def py_isspace_def Let_def ccode_char_of)

lemma ccode_digit_char: "d < 10 \<Longrightarrow> ccode (digit_char d) = 48 + d"
  by (simp add: digit_char_def ccode_char_of)

lemma digits_val_snoc: "digits_val (s @ [c]) = 10 * digits_val s + (ccode c - 48)"
  by (simp add: digits_val_def)

lemma str_of_nat_digits: "\<forall>c \<in> set (str_of_nat n). is_ascii_digit c"
proof (induction n rule: str_of_nat.induct)
  case (1 n)
  then show ?case
    by (subst str_of_nat.simps) (auto simp: is_ascii_digit_def ccode_digit_char)
qed

lemma str_of_nat_nonempty [simp]: "str_of_nat n \<noteq> []"
  by (subst str_of_nat.simps) simp

lemma digits_val_str_of_nat [simp]: "digits_val (str_of_nat n) = n"
proof (induction n rule: str_of_nat.induct)
  case (1 n)
  show ?case
  proof (cases "n < 10")
    case True
    then show ?thesis
      by (simp add: str_of_nat.simps [of n] digits_val_def ccode_digit_char)
  next
    case False
    with 1 show ?thesis
      by (simp add: str_of_nat.simps [of n] digits_val_snoc ccode_digit_char)
  qed
qed

lemma digit_not_space: "is_ascii_digit c \<Longrightarrow> \<not> py_isspace c"
  by (auto simp: is_ascii_digit_def py_isspace_def Let_def)

lemma hex_not_space: "is_hex_lower c \<Longrightarrow> \<not> py_isspace c"
  by (auto simp: is_hex_lower_def is_ascii_digit_def py_isspace_def Let_def)

lemma str_of_int_nonneg: "0 \<le> i \<Longrightarrow> str_of_int i = str_of_nat (nat i)"
  by (simp add: str_of_int_def)

end
