(* ===== verification/Rank.thy ===== *)
theory Rank
  imports PyValue
begin

text \<open>
  \<open>src/round/rank.py\<close>: one round's entries in, one leader decision out. An \<open>Entry\<close> is a
  record; its \<open>__post_init__\<close> is \<open>mk_entry\<close>, the only constructor the code has, so every
  scored entry carries a score (\<open>wf_entry\<close>). \<open>rank_round\<close> follows the source branch by
  branch. The identity test \<open>e is not leader\<close> is the role test: \<open>_sole\<close> has
  established that at most one entry has the leader role.
\<close>

datatype entry_role = Baseline | Leader | Challenger

datatype entry_status = EPending | ERunning | EScored | EDisqualified | EInfraFailed

definition role_of_string :: "string \<Rightarrow> entry_role option" where
  "role_of_string s = (if s = ''baseline'' then Some Baseline else if s = ''leader'' then Some Leader
     else if s = ''challenger'' then Some Challenger else None)"

definition status_of_string :: "string \<Rightarrow> entry_status option" where
  "status_of_string s = (if s = ''pending'' then Some EPending else if s = ''running'' then Some ERunning
     else if s = ''scored'' then Some EScored else if s = ''disqualified'' then Some EDisqualified
     else if s = ''infra_failed'' then Some EInfraFailed else None)"

definition settled :: "entry_status \<Rightarrow> bool" where
  "settled st = (st = EScored \<or> st = EDisqualified)"

record entry =
  role :: entry_role
  submission_id :: "string option"
  score :: "pyfloat option"
  status :: entry_status

definition mk_entry :: "string \<Rightarrow> string option \<Rightarrow> pyfloat option \<Rightarrow> string \<Rightarrow> entry res" where
  "mk_entry r sid sc st = (case role_of_string r of
       None \<Rightarrow> Inl (ValueError ''role must be one of'')
     | Some r' \<Rightarrow> (case status_of_string st of
         None \<Rightarrow> Inl (ValueError ''status must be one of'')
       | Some st' \<Rightarrow> if st' = EScored \<and> sc = None
           then Inl (ValueError ''entry is scored but carries no score'')
           else Inr \<lparr>role = r', submission_id = sid, score = sc, status = st'\<rparr>))"

definition wf_entry :: "entry \<Rightarrow> bool" where
  "wf_entry e = (status e = EScored \<longrightarrow> score e \<noteq> None)"

datatype leader_event = Seated | Overtaken | Vacated

datatype void_reason =
    VoidBaselineFailed | VoidLeaderInfraFailed | VoidNoSurvivingChallenger | VoidBaselineDrift

record rank_decision =
  rd_void_reason :: "void_reason option"
  rd_event :: "leader_event option"
  rd_leader_submission_id :: "string option"
  rd_leader_score :: "pyfloat option"
  rd_prev_submission_id :: "string option"
  rd_prev_score :: "pyfloat option"
  rd_overtake_threshold :: "pyfloat option"

definition no_decision :: rank_decision where
  "no_decision = \<lparr>rd_void_reason = None, rd_event = None, rd_leader_submission_id = None,
     rd_leader_score = None, rd_prev_submission_id = None, rd_prev_score = None,
     rd_overtake_threshold = None\<rparr>"

definition rd_void :: "rank_decision \<Rightarrow> bool" where
  "rd_void d = (rd_void_reason d \<noteq> None)"

definition rd_leader_changed :: "rank_decision \<Rightarrow> bool" where
  "rd_leader_changed d = (rd_event d \<noteq> None)"

definition sole :: "entry list \<Rightarrow> entry_role \<Rightarrow> entry option res" where
  "sole es r = (let found = filter (\<lambda>e. role e = r) es in
     if 1 < length found then Inl (ValueError ''a round holds at most one entry of the role'')
     else Inr (case found of [] \<Rightarrow> None | e # _ \<Rightarrow> Some e))"

text \<open>The score of a scored entry; \<open>mk_entry\<close> leaves none without one.\<close>

definition score_val :: "entry \<Rightarrow> pyfloat" where
  "score_val e = (case score e of Some s \<Rightarrow> s | None \<Rightarrow> NaN)"

definition holds_crown :: "entry option \<Rightarrow> bool" where
  "holds_crown l = (case l of None \<Rightarrow> False
     | Some e \<Rightarrow> status e = EScored \<and> flt (Fin 0) (score_val e))"

definition overtake_threshold :: "entry option \<Rightarrow> pyfloat \<Rightarrow> pyfloat" where
  "overtake_threshold l eps = (case l of None \<Rightarrow> Fin 0
     | Some e \<Rightarrow> if holds_crown l then fmul (score_val e) (fadd (Fin 1) eps) else Fin 0)"

definition contenders :: "entry list \<Rightarrow> pyfloat \<Rightarrow> entry list" where
  "contenders es thr = filter (\<lambda>e. role e \<noteq> Leader \<and> flt thr (score_val e))
     (filter (\<lambda>e. role e \<noteq> Baseline \<and> status e = EScored) es)"

definition prev_score_of :: "entry option \<Rightarrow> pyfloat option \<Rightarrow> pyfloat option" where
  "prev_score_of l stored = (case l of None \<Rightarrow> stored
     | Some e \<Rightarrow> if status e = EScored then score e else stored)"

definition settle :: "entry list \<Rightarrow> entry option \<Rightarrow> pyfloat \<Rightarrow> pyfloat option \<Rightarrow> rank_decision" where
  "settle es l eps stored =
     (let thr = overtake_threshold l eps;
          prev_id = (case l of None \<Rightarrow> None | Some e \<Rightarrow> submission_id e);
          prev_score = prev_score_of l stored
      in case best (\<lambda>a b. flt (score_val a) (score_val b)) (contenders es thr) of
        None \<Rightarrow>
          if l \<noteq> None \<and> \<not> holds_crown l then
            no_decision\<lparr>rd_event := Some Vacated, rd_prev_submission_id := prev_id,
              rd_prev_score := prev_score, rd_overtake_threshold := Some thr\<rparr>
          else
            no_decision\<lparr>rd_leader_submission_id := (if holds_crown l then prev_id else None),
              rd_leader_score := (case l of Some e \<Rightarrow> if holds_crown l then score e else None | None \<Rightarrow> None),
              rd_overtake_threshold := Some thr\<rparr>
      | Some w \<Rightarrow>
          no_decision\<lparr>rd_event := Some (if l \<noteq> None then Overtaken else Seated),
            rd_leader_submission_id := submission_id w, rd_leader_score := score w,
            rd_prev_submission_id := prev_id, rd_prev_score := prev_score,
            rd_overtake_threshold := Some thr\<rparr>)"

definition voided :: "void_reason \<Rightarrow> rank_decision" where
  "voided r = no_decision\<lparr>rd_void_reason := Some r\<rparr>"

definition rank_round ::
  "entry list \<Rightarrow> pyfloat \<Rightarrow> pyfloat option \<Rightarrow> pyfloat \<Rightarrow> pyfloat option \<Rightarrow> rank_decision res" where
  "rank_round es eps drift drift_ceiling stored =
     rbind (sole es Baseline) (\<lambda>baseline.
       case baseline of
         None \<Rightarrow> Inr (voided VoidBaselineFailed)
       | Some b \<Rightarrow> if status b \<noteq> EScored then Inr (voided VoidBaselineFailed) else
     rbind (sole es Leader) (\<lambda>leader.
       if (case leader of None \<Rightarrow> False | Some l \<Rightarrow> status l = EInfraFailed)
       then Inr (voided VoidLeaderInfraFailed)
       else if \<not> (\<exists>c \<in> set es. role c = Challenger \<and> settled (status c))
       then Inr (voided VoidNoSurvivingChallenger)
       else case drift of
         None \<Rightarrow> Inr (voided VoidBaselineFailed)
       | Some d \<Rightarrow> if flt drift_ceiling (fabs d) then Inr (voided VoidBaselineDrift)
           else Inr (settle es leader eps stored)))"

section \<open>Facts about the crown rules\<close>

lemma mk_entry_wf: "mk_entry r sid sc st = Inr e \<Longrightarrow> wf_entry e"
  by (auto simp: mk_entry_def wf_entry_def split: option.splits if_splits)

lemma sole_eq_Some:
  "sole es r = Inr (Some e) \<Longrightarrow> e \<in> set es \<and> role e = r \<and>
     (\<forall>e' \<in> set es. role e' = r \<longrightarrow> e' = e)"
  by (auto simp: sole_def Let_def filter_eq_Cons_iff filter_empty_conv eq_commute [of "[]"]
      split: if_splits list.splits)

lemma sole_eq_None: "sole es r = Inr None \<longleftrightarrow> (\<forall>e \<in> set es. role e \<noteq> r)"
proof
  assume "sole es r = Inr None"
  then have "filter (\<lambda>e. role e = r) es = []"
    by (auto simp: sole_def Let_def split: if_splits list.splits)
  then show "\<forall>e \<in> set es. role e \<noteq> r" by (simp add: filter_empty_conv)
next
  assume "\<forall>e \<in> set es. role e \<noteq> r"
  then have "filter (\<lambda>e. role e = r) es = []" by (simp add: filter_empty_conv)
  then show "sole es r = Inr None" by (simp add: sole_def)
qed

lemma sole_cases: "sole es r = Inl e \<longleftrightarrow>
    1 < length (filter (\<lambda>e. role e = r) es) \<and>
    e = ValueError ''a round holds at most one entry of the role''"
  by (auto simp: sole_def Let_def)

lemma contenders_iff:
  "e \<in> set (contenders es thr) \<longleftrightarrow>
     e \<in> set es \<and> role e = Challenger \<and> status e = EScored \<and> flt thr (score_val e)"
  by (cases "role e") (auto simp: contenders_def)

lemma not_flt_trans:
  assumes "a \<noteq> NaN" "b \<noteq> NaN" "c \<noteq> NaN" "\<not> flt a b" "\<not> flt b c"
  shows "\<not> flt a c"
  using assms by (meson fle_trans not_flt_iff)

text \<open>The winner beats every contender, and every earlier contender strictly.\<close>

lemma best_from_contenders:
  assumes "\<forall>e \<in> insert b (set es). score_val e \<noteq> NaN"
  shows "\<forall>e \<in> insert b (set es).
    fle (score_val e) (score_val (best_from (\<lambda>a b. flt (score_val a) (score_val b)) b es))"
  using assms
proof (induction es arbitrary: b)
  case Nil
  then show ?case by simp
next
  case (Cons x xs)
  let ?lt = "\<lambda>a b. flt (score_val a) (score_val b)"
  let ?c = "if ?lt b x then x else b"
  have "\<forall>e \<in> insert ?c (set xs). fle (score_val e) (score_val (best_from ?lt ?c xs))"
    using Cons.prems by (intro Cons.IH) auto
  moreover have "fle (score_val b) (score_val ?c)" "fle (score_val x) (score_val ?c)"
    using Cons.prems by (auto simp: not_flt_iff intro: flt_imp_fle)
  ultimately show ?case
    by (auto intro: fle_trans)
qed

lemma best_contender:
  assumes "best (\<lambda>a b. flt (score_val a) (score_val b)) (contenders es thr) = Some w"
  shows "w \<in> set es" "role w = Challenger" "status w = EScored" "flt thr (score_val w)"
    and "\<And>c. c \<in> set (contenders es thr) \<Longrightarrow> fle (score_val c) (score_val w)"
proof -
  let ?lt = "\<lambda>a b. flt (score_val a) (score_val b)"
  have "w \<in> set (contenders es thr)" using assms by (rule best_in)
  then show "w \<in> set es" "role w = Challenger" "status w = EScored" "flt thr (score_val w)"
    by (auto simp: contenders_iff)
  fix c assume c: "c \<in> set (contenders es thr)"
  obtain z zs where zs: "contenders es thr = z # zs" "w = best_from ?lt z zs"
    using assms by (cases "contenders es thr") auto
  have "\<forall>e \<in> insert z (set zs). score_val e \<noteq> NaN"
    using zs(1) flt_not_NaN by (metis contenders_iff list.set(2))
  with c zs show "fle (score_val c) (score_val w)"
    using best_from_contenders by (metis list.set(2))
qed

lemma best_from_earliest:
  assumes "\<forall>e \<in> insert b (set es). score_val e \<noteq> NaN"
    and "best_from (\<lambda>a b. flt (score_val a) (score_val b)) b es = w"
  shows "\<exists>us vs. b # es = us @ w # vs \<and> (\<forall>u \<in> set us. flt (score_val u) (score_val w))"
  using assms
proof (induction es arbitrary: b)
  case Nil
  then show ?case by (auto intro: exI [of _ "[]"])
next
  case (Cons x xs)
  let ?lt = "\<lambda>a b. flt (score_val a) (score_val b)"
  let ?c = "if ?lt b x then x else b"
  have nn: "\<forall>e \<in> insert ?c (set xs). score_val e \<noteq> NaN"
    using Cons.prems by auto
  obtain us vs where us: "?c # xs = us @ w # vs" "\<forall>u \<in> set us. ?lt u w"
    using Cons.IH [OF nn] Cons.prems(2) by auto
  show ?case
  proof (cases us)
    case Nil
    show ?thesis
    proof (cases "?lt b x")
      case True
      with Nil us have "b # x # xs = [b] @ w # vs" "?lt b w" by auto
      then show ?thesis by (intro exI [of _ "[b]"] exI [of _ vs]) auto
    next
      case False
      with Nil us have "b # x # xs = [] @ w # x # vs" by auto
      then show ?thesis by (intro exI [of _ "[]"] exI [of _ "x # vs"]) auto
    qed
  next
    case (Cons c us')
    with us have c: "c = ?c" "xs = us' @ w # vs" "?lt ?c w" by auto
    have "?lt b w \<and> ?lt x w"
      using c(3) Cons.prems(1)
      by (auto split: if_splits intro: flt_trans fle_flt_trans simp: not_flt_iff)
    then show ?thesis
      using c(2) us(2) Cons by (intro exI [of _ "b # x # us'"] exI [of _ vs]) auto
  qed
qed

lemma settle_winner:
  assumes "best (\<lambda>a b. flt (score_val a) (score_val b))
      (contenders es (overtake_threshold l eps)) = Some w"
  shows "settle es l eps stored =
    no_decision\<lparr>rd_event := Some (if l \<noteq> None then Overtaken else Seated),
      rd_leader_submission_id := submission_id w, rd_leader_score := score w,
      rd_prev_submission_id := (case l of None \<Rightarrow> None | Some e \<Rightarrow> submission_id e),
      rd_prev_score := prev_score_of l stored,
      rd_overtake_threshold := Some (overtake_threshold l eps)\<rparr>"
  using assms by (simp add: settle_def Let_def)

lemma settle_event_iff:
  "rd_event (settle es l eps stored) \<in> {Some Seated, Some Overtaken} \<longleftrightarrow>
     contenders es (overtake_threshold l eps) \<noteq> []"
proof (cases "best (\<lambda>a b. flt (score_val a) (score_val b)) (contenders es (overtake_threshold l eps))")
  case None
  then show ?thesis by (simp add: settle_def Let_def no_decision_def)
next
  case (Some w)
  then show ?thesis by (auto simp: settle_winner no_decision_def)
qed

lemma voided_reason [simp]: "rd_void_reason (voided r) = Some r"
  by (simp add: voided_def)

lemma settle_not_void [simp]: "rd_void_reason (settle es l eps stored) = None"
  by (simp add: settle_def Let_def no_decision_def split: option.splits)

text \<open>Every outcome of \<open>rank_round\<close>, with the tests that lead to it.\<close>

lemma rank_round_cases:
  assumes "rank_round es eps drift dc stored = Inr d"
  obtains
    (no_baseline) "sole es Baseline = Inr None" "d = voided VoidBaselineFailed"
  | (bad_baseline) b where "sole es Baseline = Inr (Some b)" "status b \<noteq> EScored"
      "d = voided VoidBaselineFailed"
  | (leader_infra) b l where "sole es Baseline = Inr (Some b)" "status b = EScored"
      "sole es Leader = Inr (Some l)" "status l = EInfraFailed" "d = voided VoidLeaderInfraFailed"
  | (no_challenger) b l where "sole es Baseline = Inr (Some b)" "status b = EScored"
      "sole es Leader = Inr l" "\<And>e. l = Some e \<Longrightarrow> status e \<noteq> EInfraFailed"
      "\<forall>c \<in> set es. role c = Challenger \<longrightarrow> \<not> settled (status c)"
      "d = voided VoidNoSurvivingChallenger"
  | (no_drift) b l where "sole es Baseline = Inr (Some b)" "status b = EScored"
      "sole es Leader = Inr l" "drift = None" "d = voided VoidBaselineFailed"
  | (drifted) b l x where "sole es Baseline = Inr (Some b)" "status b = EScored"
      "sole es Leader = Inr l" "drift = Some x" "flt dc (fabs x)" "d = voided VoidBaselineDrift"
  | (settled) b l x c where "sole es Baseline = Inr (Some b)" "status b = EScored"
      "sole es Leader = Inr l" "\<And>e. l = Some e \<Longrightarrow> status e \<noteq> EInfraFailed"
      "c \<in> set es" "role c = Challenger" "settled (status c)"
      "drift = Some x" "\<not> flt dc (fabs x)" "d = settle es l eps stored"
proof -
  from assms obtain ob where b: "sole es Baseline = Inr ob"
    unfolding rank_round_def rbind_eq_Inr by blast
  show ?thesis
  proof (cases "\<exists>b. ob = Some b \<and> status b = EScored")
    case False
    with assms b show ?thesis
      by (cases ob) (auto simp: rank_round_def intro: no_baseline bad_baseline)
  next
    case True
    then obtain b0 where b0: "sole es Baseline = Inr (Some b0)" "status b0 = EScored"
      using b by auto
    with assms obtain l where l: "sole es Leader = Inr l"
      by (auto simp: rank_round_def rbind_eq_Inr)
    show ?thesis
    proof (cases "\<exists>e. l = Some e \<and> status e = EInfraFailed")
      case True
      with assms b0 l show ?thesis by (auto simp: rank_round_def intro: leader_infra)
    next
      case False
      then have l': "\<And>e. l = Some e \<Longrightarrow> status e \<noteq> EInfraFailed"
        "\<not> (case l of None \<Rightarrow> False | Some l \<Rightarrow> status l = EInfraFailed)"
        by (auto split: option.splits)
      show ?thesis
      proof (cases "\<exists>c \<in> set es. role c = Challenger \<and> settled (status c)")
        case False
        with assms b0 l l' show ?thesis
          by (intro no_challenger [OF b0 l]) (auto simp: rank_round_def)
      next
        case True
        then obtain c where c: "c \<in> set es" "role c = Challenger" "settled (status c)" by blast
        have "(case drift of None \<Rightarrow> Inr (voided VoidBaselineFailed)
           | Some x \<Rightarrow> if flt dc (fabs x) then Inr (voided VoidBaselineDrift)
               else Inr (settle es l eps stored)) = (Inr d :: rank_decision res)"
          using assms b0 l l'(2) True by (simp add: rank_round_def)
        then show ?thesis
          using no_drift [OF b0 l] drifted [OF b0 l] settled [OF b0 l l'(1) c]
          by (auto split: option.splits if_splits)
      qed
    qed
  qed
qed

text \<open>Where the winner stands among all scored challengers, in commit order.\<close>

lemma below_winner:
  assumes "flt thr (score_val w)" and "\<not> flt thr (score_val c)" and "score_val c \<noteq> NaN"
  shows "flt (score_val c) (score_val w)"
  using assms flt_not_NaN by (meson fle_flt_trans not_flt_iff)

lemma contenders_filter:
  "contenders es thr =
     filter (\<lambda>e. role e = Challenger \<and> status e = EScored \<and> flt thr (score_val e)) es"
proof -
  have "(role e \<noteq> Baseline \<and> role e \<noteq> Leader) = (role e = Challenger)" for e :: entry
    by (cases "role e") auto
  then show ?thesis by (auto simp: contenders_def intro!: filter_cong)
qed

lemma best_contender_split:
  assumes w: "best (\<lambda>a b. flt (score_val a) (score_val b)) (contenders es thr) = Some w"
    and nn: "\<forall>c \<in> set es. status c = EScored \<longrightarrow> score_val c \<noteq> NaN"
  shows "\<exists>us vs. es = us @ w # vs \<and>
    (\<forall>c \<in> set es. role c = Challenger \<and> status c = EScored \<longrightarrow> fle (score_val c) (score_val w)) \<and>
    (\<forall>c \<in> set us. role c = Challenger \<and> status c = EScored \<longrightarrow> flt (score_val c) (score_val w))"
proof -
  obtain z zs where z: "contenders es thr = z # zs"
    "best_from (\<lambda>a b. flt (score_val a) (score_val b)) z zs = w"
    using w by (cases "contenders es thr") auto
  have "\<forall>e \<in> insert z (set zs). score_val e \<noteq> NaN"
    using z(1) flt_not_NaN by (metis contenders_iff list.set(2))
  then obtain us vs where us: "contenders es thr = us @ w # vs"
    "\<forall>u \<in> set us. flt (score_val u) (score_val w)"
    using best_from_earliest [of z zs w] z by metis
  obtain us' vs' where es: "es = us' @ w # vs'"
    "filter (\<lambda>e. role e = Challenger \<and> status e = EScored \<and> flt thr (score_val e)) us' = us"
    using filter_split_at [OF us(1) [unfolded contenders_filter]] by blast
  have all: "fle (score_val c) (score_val w)"
    if "c \<in> set es" "role c = Challenger" "status c = EScored" for c
    using that nn best_contender(4,5) [OF w] below_winner flt_imp_fle contenders_iff by meson
  have "flt (score_val c) (score_val w)"
    if c: "c \<in> set us'" "role c = Challenger" "status c = EScored" for c
  proof (cases "flt thr (score_val c)")
    case True
    with c es(2) us(2) show ?thesis by auto
  next
    case False
    with c es(1) nn best_contender(4) [OF w] show ?thesis by (auto intro: below_winner)
  qed
  with es(1) all show ?thesis by blast
qed

section \<open>Properties\<close>

text \<open>
  C13. Crowning is sound and first come first served: whenever \<open>rank_round\<close> seats a
  submission or lets one overtake, the new leader is a scored challenger of the round
  strictly above the overtake threshold; no other scored challenger has a higher score, and
  every scored challenger before it in commit order has a strictly lower one.
\<close>

theorem crown_goes_to_best_challenger:
  assumes "rank_round es eps drift dc stored = Inr d"
    and "rd_event d = Some Seated \<or> rd_event d = Some Overtaken"
    and "\<forall>c \<in> set es. status c = EScored \<longrightarrow> score_val c \<noteq> NaN"
  shows "\<exists>us w vs thr. es = us @ w # vs \<and> role w = Challenger \<and> status w = EScored \<and>
    rd_leader_submission_id d = submission_id w \<and> rd_leader_score d = score w \<and>
    rd_overtake_threshold d = Some thr \<and> flt thr (score_val w) \<and>
    (\<forall>c \<in> set es. role c = Challenger \<and> status c = EScored \<longrightarrow> fle (score_val c) (score_val w)) \<and>
    (\<forall>c \<in> set us. role c = Challenger \<and> status c = EScored \<longrightarrow> flt (score_val c) (score_val w))"
  using assms(1)
proof (cases rule: rank_round_cases)
  case (settled b l x c)
  obtain w where w: "best (\<lambda>a b. flt (score_val a) (score_val b))
      (contenders es (overtake_threshold l eps)) = Some w"
    using assms(2) settled(10) settle_event_iff [of es l eps stored]
    by (cases "best (\<lambda>a b. flt (score_val a) (score_val b))
      (contenders es (overtake_threshold l eps))") auto
  show ?thesis
    using best_contender_split [OF w] assms(3) best_contender(2-4) [OF w] settled(10)
      settle_winner [OF w, of stored]
    by (auto simp: no_decision_def)
qed (use assms(2) in \<open>auto simp: voided_def no_decision_def\<close>)

definition ex_entries :: "entry list" where
  "ex_entries =
    [\<lparr>role = Baseline, submission_id = None, score = Some (Fin 0), status = EScored\<rparr>,
     \<lparr>role = Challenger, submission_id = Some ''a'', score = Some (Fin 1), status = EScored\<rparr>,
     \<lparr>role = Challenger, submission_id = Some ''b'', score = Some (Fin 2), status = EScored\<rparr>,
     \<lparr>role = Challenger, submission_id = Some ''c'', score = Some (Fin 2), status = EScored\<rparr>]"

lemmas rank_eval = rank_round_def sole_def Let_def settle_def contenders_def score_val_def
  overtake_threshold_def holds_crown_def prev_score_of_def settled_def voided_def no_decision_def
  best_def

theorem crown_goes_to_best_challenger_witness:
  "\<exists>d us w vs. rank_round ex_entries (Fin 0) (Some (Fin 0)) (Fin 1) None = Inr d \<and>
     ex_entries = us @ w # vs \<and> rd_leader_submission_id d = submission_id w \<and>
     rd_leader_submission_id d = Some ''b''"
proof -
  obtain d where d: "rank_round ex_entries (Fin 0) (Some (Fin 0)) (Fin 1) None = Inr d"
    "rd_event d = Some Seated" "rd_leader_submission_id d = Some ''b''"
    by (simp add: ex_entries_def rank_eval)
  have "\<forall>c \<in> set ex_entries. status c = EScored \<longrightarrow> score_val c \<noteq> NaN"
    by (simp add: ex_entries_def score_val_def)
  with crown_goes_to_best_challenger [OF d(1)] d show ?thesis by blast
qed

text \<open>
  The incumbent's moat and the vacant crown: in a round that is not void, when no
  scored challenger is strictly above the threshold (the leader's in-round score times
  \<open>1 + epsilon\<close> while it is above baseline speed, zero otherwise), the crown changes
  exactly by a leader that no longer beats the baseline losing it; otherwise the leader, if
  there is one, keeps it with its in-round score.
\<close>

theorem crown_kept_or_vacated:
  assumes "rank_round es eps drift dc stored = Inr d" and "rd_void_reason d = None"
    and "sole es Leader = Inr l"
    and "\<forall>c \<in> set es. role c = Challenger \<and> status c = EScored \<longrightarrow>
           \<not> flt (overtake_threshold l eps) (score_val c)"
  shows "rd_event d = (if l \<noteq> None \<and> \<not> holds_crown l then Some Vacated else None) \<and>
    rd_leader_submission_id d = (if holds_crown l then submission_id (the l) else None) \<and>
    rd_leader_score d = (if holds_crown l then score (the l) else None)"
proof -
  have e: "contenders es (overtake_threshold l eps) = []"
    using assms(4) by (auto simp: contenders_filter filter_empty_conv)
  have d: "d = settle es l eps stored"
    using assms(1) by (cases rule: rank_round_cases) (use assms(2,3) in auto)
  show ?thesis
    using e unfolding d by (auto simp: settle_def Let_def no_decision_def holds_crown_def split: option.splits)
qed

definition ex_incumbent :: entry where
  "ex_incumbent = \<lparr>role = Leader, submission_id = Some ''l'', score = Some (Fin 2), status = EScored\<rparr>"

theorem crown_kept_or_vacated_witness:
  "\<exists>d. rank_round (ex_incumbent # ex_entries) (Fin 0) (Some (Fin 0)) (Fin 1) None = Inr d \<and>
     rd_event d = None \<and> rd_leader_submission_id d = Some ''l''"
proof -
  have l: "sole (ex_incumbent # ex_entries) Leader = Inr (Some ex_incumbent)"
    by (simp add: ex_incumbent_def ex_entries_def sole_def)
  have two: "rnd 2 = Fin 2" by (simp add: rnd_numeral)
  have thr: "overtake_threshold (Some ex_incumbent) (Fin 0) = Fin 2" "holds_crown (Some ex_incumbent)"
    by (simp_all add: overtake_threshold_def holds_crown_def ex_incumbent_def score_val_def two)
  obtain d where d: "rank_round (ex_incumbent # ex_entries) (Fin 0) (Some (Fin 0)) (Fin 1) None = Inr d"
    "rd_void_reason d = None"
    by (simp add: ex_incumbent_def ex_entries_def rank_eval two)
  have "\<forall>c \<in> set (ex_incumbent # ex_entries). role c = Challenger \<and> status c = EScored \<longrightarrow>
      \<not> flt (overtake_threshold (Some ex_incumbent) (Fin 0)) (score_val c)"
    unfolding thr by (simp add: ex_incumbent_def ex_entries_def score_val_def)
  with crown_kept_or_vacated [OF d l] d(1) thr show ?thesis by (simp add: ex_incumbent_def)
qed

text \<open>
  When a round is void: exactly when the baseline did not score, the leader's image
  could not run, no challenger reached a verdict, no baseline comparison exists, or the two
  baseline runs differ by more than the ceiling; and a void decision carries no leader, no
  event and no threshold.
\<close>

theorem void_round_iff:
  assumes "rank_round es eps drift dc stored = Inr d"
  shows "(rd_void d \<longleftrightarrow>
      \<not> (\<exists>b \<in> set es. role b = Baseline \<and> status b = EScored)
      \<or> (\<exists>l \<in> set es. role l = Leader \<and> status l = EInfraFailed)
      \<or> \<not> (\<exists>c \<in> set es. role c = Challenger \<and> settled (status c))
      \<or> (case drift of None \<Rightarrow> True | Some x \<Rightarrow> flt dc (fabs x)))
    \<and> (rd_void d \<longrightarrow> (\<exists>r. d = voided r))"
proof
  show "rd_void d \<longrightarrow> (\<exists>r. d = voided r)"
    using assms by (cases rule: rank_round_cases) (auto simp: rd_void_def)
  show "rd_void d \<longleftrightarrow>
      \<not> (\<exists>b \<in> set es. role b = Baseline \<and> status b = EScored)
      \<or> (\<exists>l \<in> set es. role l = Leader \<and> status l = EInfraFailed)
      \<or> \<not> (\<exists>c \<in> set es. role c = Challenger \<and> settled (status c))
      \<or> (case drift of None \<Rightarrow> True | Some x \<Rightarrow> flt dc (fabs x))"
    using assms
  proof (cases rule: rank_round_cases)
    case (settled b l x c)
    have "\<not> (\<exists>l \<in> set es. role l = Leader \<and> status l = EInfraFailed)"
      using settled(3,4) by (cases l) (auto simp: sole_eq_None dest: sole_eq_Some)
    with settled show ?thesis by (auto simp: rd_void_def dest: sole_eq_Some)
  qed (auto simp: rd_void_def sole_eq_None dest: sole_eq_Some)
qed

theorem void_round_iff_witness:
  "rd_void (voided VoidNoSurvivingChallenger) \<and>
   rank_round [hd ex_entries] (Fin 0) (Some (Fin 0)) (Fin 1) None =
     Inr (voided VoidNoSurvivingChallenger)"
proof -
  have r: "rank_round [hd ex_entries] (Fin 0) (Some (Fin 0)) (Fin 1) None =
     Inr (voided VoidNoSurvivingChallenger)"
    by (simp add: ex_entries_def rank_eval)
  from void_round_iff [OF r] have "rd_void (voided VoidNoSurvivingChallenger)"
    by (simp add: ex_entries_def)
  with r show ?thesis by simp
qed

end
