(* ===== verification/Weights.thy ===== *)
theory Weights
  imports PyValue
begin

text \<open>
  \<open>src/campaign/models.py\<close> (the emission rule) and \<open>src/weights/build.py\<close> (the weight
  vector). A validated rule is the record \<open>emission_rule\<close>; \<open>emission_json\<close> is the
  normalised dict that is stored. \<open>build_weight_vector\<close> is the loop over the campaigns
  followed by the burn and the structural guards, in double arithmetic.
\<close>

section \<open>Emission rules\<close>

record emission_rule =
  start_weight :: pyfloat
  floor_weight :: pyfloat
  decay_blocks :: int

text \<open>
  \<open>str(rule.get("name") or "").strip()\<close>: a value that is not a string never renders to a
  known rule name.
\<close>

definition name_field :: "jdict \<Rightarrow> string" where
  "name_field d = (case jget d ''name'' of JStr s \<Rightarrow> strip s | _ \<Rightarrow> [])"

definition emission_weight :: "json \<Rightarrow> pyfloat res" where
  "emission_weight v = (case jnum v of
      None \<Rightarrow> Inl (ValueError ''emission_rule weight must be a number'')
    | Some _ \<Rightarrow> rbind (jfloat v) (\<lambda>out.
        rbind (rguard (fle (Fin 0) out \<and> fle out (Fin 1))
            (ValueError ''emission_rule weight must be in [0, 1]'')) (\<lambda>_. Inr out)))"

definition emission_keys :: "string list" where
  "emission_keys = [''name'', ''start_weight'', ''floor_weight'', ''decay_blocks'']"

definition validate_emission_rule :: "json \<Rightarrow> emission_rule res" where
  "validate_emission_rule v = (case v of
      JObj d \<Rightarrow>
        rbind (rguard (name_field d = ''linear_decay'')
          (ValueError ''emission_rule.name must be one of'')) (\<lambda>_.
        rbind (rguard (set (keys d) \<subseteq> set emission_keys)
          (ValueError ''emission_rule has unknown keys'')) (\<lambda>_.
        rbind (emission_weight (jget d ''start_weight'')) (\<lambda>start.
        rbind (emission_weight (jget d ''floor_weight'')) (\<lambda>flr.
        rbind (rguard (\<not> flt start flr)
          (ValueError ''emission_rule.floor_weight must be <= start_weight'')) (\<lambda>_.
        case jget d ''decay_blocks'' of
          JInt n \<Rightarrow>
            rbind (rguard (1 \<le> n) (ValueError ''emission_rule.decay_blocks must be >= 1'')) (\<lambda>_.
            Inr \<lparr>start_weight = start, floor_weight = flr, decay_blocks = n\<rparr>)
        | _ \<Rightarrow> Inl (ValueError ''emission_rule.decay_blocks must be an integer''))))))
    | _ \<Rightarrow> Inl (ValueError ''emission_rule must be an object''))"

definition emission_json :: "emission_rule \<Rightarrow> jdict" where
  "emission_json r = [(''name'', JStr ''linear_decay''), (''start_weight'', JFloat (start_weight r)),
     (''floor_weight'', JFloat (floor_weight r)), (''decay_blocks'', JInt (decay_blocks r))]"

section \<open>The weight vector\<close>

record campaign_emission =
  ce_campaign_id :: string
  ce_status :: string
  ce_emission_rule :: "jdict option"
  ce_leader_hotkey :: "string option"
  ce_seed_block :: "int option"

record breakdown_row =
  br_campaign_id :: string
  br_hotkey :: "string option"
  br_uid :: "int option"
  br_blocks_held :: "int option"
  br_weight :: pyfloat
  br_note :: "string option"

definition linear_decay :: "pyfloat \<Rightarrow> pyfloat \<Rightarrow> int \<Rightarrow> int \<Rightarrow> pyfloat res" where
  "linear_decay start flr spn blocks_held =
     (if blocks_held \<le> 0 then Inr start
      else if spn \<le> blocks_held then Inr flr
      else rbind (int_truediv blocks_held spn) (\<lambda>q.
        Inr (fadd flr (fmul (fsub start flr) (fsub (Fin 1) q)))))"

text \<open>\<open>rule[key]\<close> raises on a missing key.\<close>

definition jindex :: "jdict \<Rightarrow> string \<Rightarrow> json res" where
  "jindex d k = (case map_of d k of None \<Rightarrow> Inl (KeyError k) | Some v \<Rightarrow> Inr v)"

text \<open>\<open>int(v)\<close> of a JSON number: a float is truncated.\<close>

fun jint :: "json \<Rightarrow> int res" where
  "jint (JInt i) = Inr i"
| "jint (JBool b) = Inr (if b then 1 else 0)"
| "jint (JFloat (Fin q)) = Inr (if 0 \<le> q then \<lfloor>q\<rfloor> else \<lceil>q\<rceil>)"
| "jint (JFloat NaN) = Inl (ValueError ''cannot convert float NaN to integer'')"
| "jint (JFloat _) = Inl OverflowError"
| "jint _ = Inl (PyTypeError ''int() argument'')"

definition emission_curve :: "jdict \<Rightarrow> (int \<Rightarrow> pyfloat res) res" where
  "emission_curve rule = rbind (jindex rule ''name'') (\<lambda>name.
     if name = JStr ''linear_decay'' then
       rbind (rbind (jindex rule ''start_weight'') jfloat) (\<lambda>start.
       rbind (rbind (jindex rule ''floor_weight'') jfloat) (\<lambda>flr.
       rbind (rbind (jindex rule ''decay_blocks'') jint) (\<lambda>spn.
       Inr (linear_decay start flr spn))))
     else Inl (WeightVectorError ''unknown emission_rule.name''))"

definition withheld :: "campaign_emission \<Rightarrow> string option \<Rightarrow> string \<Rightarrow> breakdown_row" where
  "withheld c hk note = \<lparr>br_campaign_id = ce_campaign_id c, br_hotkey = hk, br_uid = None,
     br_blocks_held = None, br_weight = Fin 0, br_note = Some note\<rparr>"

definition paid :: "campaign_emission \<Rightarrow> int \<Rightarrow> int \<Rightarrow> pyfloat \<Rightarrow> breakdown_row" where
  "paid c uid held w = \<lparr>br_campaign_id = ce_campaign_id c, br_hotkey = ce_leader_hotkey c,
     br_uid = Some uid, br_blocks_held = Some held, br_weight = w, br_note = None\<rparr>"

type_synonym vector_state = "pyfloat list \<times> breakdown_row list"

definition add_share :: "pyfloat list \<Rightarrow> int \<Rightarrow> pyfloat \<Rightarrow> pyfloat list" where
  "add_share ws uid w = ws[nat uid := fadd (ws ! nat uid) w]"

text \<open>One iteration of the loop over the campaigns.\<close>

definition pay_campaign ::
  "int \<Rightarrow> (string \<times> int) list \<Rightarrow> int \<Rightarrow> campaign_emission \<Rightarrow> vector_state \<Rightarrow> vector_state res" where
  "pay_campaign current_block hotkey_uids uid_count c st = (case st of (ws, bd) \<Rightarrow>
     (case ce_emission_rule c of
       None \<Rightarrow> Inr (ws, bd)
     | Some rule \<Rightarrow>
       (case ce_leader_hotkey c of
         None \<Rightarrow> Inr (ws, bd @ [withheld c None ''vacant''])
       | Some hk \<Rightarrow>
         if ce_status c \<noteq> ''open'' then Inr (ws, bd @ [withheld c (Some hk) ''closed''])
         else (case map_of hotkey_uids hk of
           None \<Rightarrow> Inr (ws, bd @ [withheld c (Some hk) ''deregistered''])
         | Some uid \<Rightarrow>
           if \<not> (0 \<le> uid \<and> uid < uid_count)
           then Inl (WeightVectorError ''uid is outside the metagraph'')
           else (case ce_seed_block c of
             None \<Rightarrow> Inl (PyTypeError ''unsupported operand type(s) for -'')
           | Some seed \<Rightarrow>
             rbind (emission_curve rule) (\<lambda>curve.
             rbind (curve (current_block - seed)) (\<lambda>w.
             Inr (add_share ws uid w, bd @ [paid c uid (current_block - seed) w]))))))))"

definition sum_tolerance :: pyfloat where
  "sum_tolerance = flit (1 / 10 ^ 9)"

definition check_vector :: "pyfloat list \<Rightarrow> unit res" where
  "check_vector ws =
     rbind (rguard (\<forall>w \<in> set ws. fle (Fin 0) w \<and> fle w (Fin 1))
       (WeightVectorError ''weight is outside [0, 1]'')) (\<lambda>_.
     rbind (fsum ws) (\<lambda>total.
     rguard (isclose_abs total (Fin 1) sum_tolerance) (WeightVectorError ''weights do not sum to 1.0'')))"

definition build_weight_vector ::
  "campaign_emission list \<Rightarrow> int \<Rightarrow> (string \<times> int) list \<Rightarrow> int \<Rightarrow> int \<Rightarrow> vector_state res" where
  "build_weight_vector cs current_block hotkey_uids uid_count burn_uid =
     rbind (rguard (0 \<le> burn_uid \<and> burn_uid < uid_count)
       (WeightVectorError ''burn_uid is outside the metagraph'')) (\<lambda>_.
     rbind (rfold (pay_campaign current_block hotkey_uids uid_count) cs
       (replicate (nat uid_count) (Fin 0), [])) (\<lambda>(ws, bd).
     rbind (fsum ws) (\<lambda>total.
     let burn = fsub (Fin 1) total in
     if flt burn (Fin 0) then Inl (WeightVectorError ''burn is negative'')
     else let ws' = add_share ws burn_uid burn in
       rbind (check_vector ws') (\<lambda>_. Inr (ws', bd)))))"

section \<open>Facts about the pay schedule\<close>

lemma emission_weight_Inr:
  "emission_weight v = Inr x \<Longrightarrow> fle (Fin 0) x \<and> fle x (Fin 1)"
  by (auto simp: emission_weight_def rbind_eq_Inr split: option.splits)

lemma unit_floatE:
  assumes "fle (Fin 0) x" and "fle x (Fin 1)"
  obtains q where "x = Fin q" "0 \<le> q" "q \<le> 1"
  using assms by (cases x) auto

text \<open>A JSON number is a double when its float is one.\<close>

fun json_double :: "json \<Rightarrow> bool" where
  "json_double (JFloat x) = is_double x"
| "json_double _ = True"

lemma jfloat_double: "json_double v \<Longrightarrow> jfloat v = Inr x \<Longrightarrow> is_double x"
  by (cases v) (auto simp: float_of_int_def to_finite_def is_double_def rnd_FinD simp del: power_numeral
      split: pyfloat.splits)

lemma rnd0_sum_complement:
  assumes "0 \<le> f" and "f \<le> 1"
  shows "rnd0 (f + rnd0 (1 - f)) \<le> 1"
proof -
  have "rnd0 (1 + 1 / 2 ^ 54) = of_int (2 ^ 52) / 2 ^ 52"
    by (rule rnd0_eval) (simp_all add: rne_near)
  then have one: "rnd0 (1 + 1 / 2 ^ 54) = 1" by simp
  have "rnd0 (1 - f) \<le> 1 - f + 1 / 2 ^ 54"
  proof (cases "f = 0")
    case True
    then show ?thesis by simp
  next
    case False
    with assms have "\<bar>1 - f\<bar> < 2 powi 0" by simp
    from rnd0_error_below [OF this] have "\<bar>rnd0 (1 - f) - (1 - f)\<bar> \<le> 1 / 2 ^ 54"
      by (simp add: power_int_minus)
    then show ?thesis by linarith
  qed
  then have "rnd0 (f + rnd0 (1 - f)) \<le> rnd0 (1 + 1 / 2 ^ 54)"
    by (intro rnd0_mono) simp
  with one show ?thesis by simp
qed

definition decayed :: "rat \<Rightarrow> rat \<Rightarrow> int \<Rightarrow> int \<Rightarrow> rat" where
  "decayed s f spn b = rnd0 (f + rnd0 (rnd0 (s - f) * rnd0 (1 - rnd0 (of_int b / of_int spn))))"

lemma frac_unit:
  assumes "0 < b" and "b < spn"
  shows "0 \<le> (of_int b / of_int spn :: rat)" and "(of_int b / of_int spn :: rat) \<le> 1"
  using assms by (simp_all add: divide_le_eq)

lemma rnd0_unit_bounds:
  assumes "0 \<le> x" and "x \<le> 1"
  shows "0 \<le> rnd0 x" and "rnd0 x \<le> 1"
  using assms by (auto intro: ieee.rd_nonneg ieee.rd_le_one)

lemma linear_decay_mid:
  assumes "0 \<le> f" and "f \<le> s" and "s \<le> 1" and "0 < b" and "b < spn"
  shows "linear_decay (Fin s) (Fin f) spn b = Inr (Fin (decayed s f spn b))"
proof -
  let ?q = "rnd0 (of_int b / of_int spn)"
  have q: "0 \<le> ?q" "?q \<le> 1"
    using rnd0_unit_bounds [OF frac_unit [OF assms(4,5)]] by auto
  have u: "0 \<le> rnd0 (1 - ?q)" "rnd0 (1 - ?q) \<le> 1"
    using rnd0_unit_bounds [of "1 - ?q"] q by auto
  have d: "0 \<le> rnd0 (s - f)" "rnd0 (s - f) \<le> 1"
    using rnd0_unit_bounds [of "s - f"] assms(1-3) by auto
  have p: "0 \<le> rnd0 (s - f) * rnd0 (1 - ?q)" "rnd0 (s - f) * rnd0 (1 - ?q) \<le> 1"
    using u d by (simp, simp add: mult_le_one)
  have "rnd (of_int b / of_int spn) = Fin ?q"
    using frac_unit [OF assms(4,5)] by (intro rnd_unit) linarith
  then have "int_truediv b spn = Inr (Fin ?q)"
    using assms(4,5) by (simp add: int_truediv_def to_finite_def)
  moreover have "rnd (1 - ?q) = Fin (rnd0 (1 - ?q))" "rnd (s - f) = Fin (rnd0 (s - f))"
    using q assms(1-3) by (simp_all add: rnd_unit)
  moreover have "rnd (rnd0 (s - f) * rnd0 (1 - ?q)) = Fin (rnd0 (rnd0 (s - f) * rnd0 (1 - ?q)))"
    using p by (intro rnd_unit) simp
  moreover have "rnd (f + rnd0 (rnd0 (s - f) * rnd0 (1 - ?q))) = Fin (decayed s f spn b)"
    unfolding decayed_def using rnd0_unit_bounds [OF p] assms(1-3) by (intro rnd_unit) simp
  ultimately show ?thesis
    using assms(4,5) by (simp add: linear_decay_def fsub_def)
qed

lemma decayed_bounds:
  assumes "0 \<le> f" and "f \<le> s" and "s \<le> 1" and "rnd0 f = f" and "0 < b" and "b < spn"
  shows "f \<le> decayed s f spn b" and "decayed s f spn b \<le> 1"
proof -
  let ?q = "rnd0 (of_int b / of_int spn)"
  have q: "0 \<le> ?q" "?q \<le> 1"
    using rnd0_unit_bounds [OF frac_unit [OF assms(5,6)]] by auto
  note b = ieee.scaled_sum_bounds [OF assms(4), of "s - f" "1 - ?q"]
  show "f \<le> decayed s f spn b"
    unfolding decayed_def using b(1) assms(2) q by simp
  have "decayed s f spn b \<le> rnd0 (f + rnd0 (s - f))"
    unfolding decayed_def using b(2) assms(2) q by simp
  also have "\<dots> \<le> rnd0 (f + rnd0 (1 - f))"
    using assms(3) by (intro rnd0_mono add_left_mono) simp
  also have "\<dots> \<le> 1"
    using assms by (intro rnd0_sum_complement) auto
  finally show "decayed s f spn b \<le> 1" .
qed

lemma decayed_antimono:
  assumes "f \<le> s" and "b \<le> b'" and "0 < spn"
  shows "decayed s f spn b' \<le> decayed s f spn b"
  unfolding decayed_def
proof (rule ieee.scaled_sum_mono)
  have "rnd0 (of_int b / of_int spn) \<le> rnd0 (of_int b' / of_int spn)"
    using assms(2,3) by (intro rnd0_mono divide_right_mono) auto
  then show "1 - rnd0 (of_int b' / of_int spn) \<le> 1 - rnd0 (of_int b / of_int spn)" by simp
qed (use assms(1) in simp)

text \<open>What validation leaves of a rule.\<close>

definition wf_rule :: "emission_rule \<Rightarrow> bool" where
  "wf_rule r = (\<exists>s f. start_weight r = Fin s \<and> floor_weight r = Fin f \<and> 0 \<le> f \<and> f \<le> s \<and> s \<le> 1
     \<and> rnd0 s = s \<and> rnd0 f = f \<and> 1 \<le> decay_blocks r)"

lemma wf_ruleE:
  assumes "wf_rule r"
  obtains s f where "start_weight r = Fin s" "floor_weight r = Fin f" "0 \<le> f" "f \<le> s" "s \<le> 1"
    "rnd0 s = s" "rnd0 f = f" "1 \<le> decay_blocks r"
  using assms unfolding wf_rule_def by blast

lemma emission_weight_double:
  "json_double v \<Longrightarrow> emission_weight v = Inr x \<Longrightarrow> is_double x"
  by (auto simp: emission_weight_def rbind_eq_Inr dest: jfloat_double split: option.splits)

lemma validate_emission_rule_wf:
  assumes "validate_emission_rule (JObj d) = Inr r"
    and "json_double (jget d ''start_weight'')" and "json_double (jget d ''floor_weight'')"
  shows "wf_rule r"
proof -
  obtain x y n where r: "emission_weight (jget d ''start_weight'') = Inr x"
    "emission_weight (jget d ''floor_weight'') = Inr y" "\<not> flt x y" "1 \<le> n"
    "r = \<lparr>start_weight = x, floor_weight = y, decay_blocks = n\<rparr>"
    using assms(1)
    by (cases "jget d ''decay_blocks''") (auto simp: validate_emission_rule_def rbind_eq_Inr)
  obtain s where s: "x = Fin s" "0 \<le> s" "s \<le> 1"
    using emission_weight_Inr [OF r(1)] unit_floatE by metis
  obtain f where f: "y = Fin f" "0 \<le> f" "f \<le> 1"
    using emission_weight_Inr [OF r(2)] unit_floatE by metis
  have "is_double x" "is_double y"
    using emission_weight_double r(1,2) assms(2,3) by blast+
  with s f r show ?thesis
    by (simp add: wf_rule_def is_double_def)
qed

lemma emission_curve_json:
  "emission_curve (emission_json r) = Inr (linear_decay (start_weight r) (floor_weight r) (decay_blocks r))"
  by (simp add: emission_curve_def emission_json_def jindex_def)

section \<open>Facts about the vector\<close>

definition shares :: "int \<Rightarrow> breakdown_row list \<Rightarrow> pyfloat list" where
  "shares u bd = map br_weight (filter (\<lambda>r. br_uid r = Some u) bd)"

text \<open>The loop invariant: every entry is the running sum of the shares booked for it.\<close>

definition booked :: "int \<Rightarrow> vector_state \<Rightarrow> bool" where
  "booked n st = (case st of (ws, bd) \<Rightarrow> length ws = nat n \<and>
     (\<forall>i < length ws. ws ! i = fsum_left (shares (int i) bd)))"

lemma shares_withheld [simp]: "shares u (bd @ [withheld c hk note]) = shares u bd"
  by (simp add: shares_def withheld_def)

lemma shares_paid:
  "shares u (bd @ [paid c uid held w]) = (if u = uid then shares u bd @ [w] else shares u bd)"
  by (simp add: shares_def paid_def)

lemma length_add_share [simp]: "length (add_share ws u w) = length ws"
  by (simp add: add_share_def)

lemma booked_add_share:
  assumes "booked n (ws, bd)" and "0 \<le> uid" and "uid < n"
  shows "booked n (add_share ws uid w, bd @ [paid c uid held w])"
proof -
  have "add_share ws uid w ! i = fsum_left (shares (int i) (bd @ [paid c uid held w]))"
    if "i < length ws" for i
    using that assms by (cases "i = nat uid")
      (auto simp: booked_def add_share_def shares_paid fsum_left_def)
  then show ?thesis using assms by (simp add: booked_def)
qed

lemma booked_withheld [simp]: "booked n (ws, bd @ [withheld c hk note]) = booked n (ws, bd)"
  by (simp add: booked_def)

lemma pay_campaign_booked:
  assumes "pay_campaign cb hu n c st = Inr st'" and "booked n st"
  shows "booked n st'"
proof -
  obtain ws bd where st: "st = (ws, bd)" by fastforce
  from assms show ?thesis unfolding st
    by (auto simp: pay_campaign_def rbind_eq_Inr intro: booked_add_share
        split: option.splits if_splits)
qed

lemma booked_start: "booked n (replicate (nat n) (Fin 0), [])"
  by (simp add: booked_def shares_def fsum_left_def)

lemma loop_booked:
  "rfold (pay_campaign cb hu n) cs (replicate (nat n) (Fin 0), []) = Inr st \<Longrightarrow> booked n st"
  by (erule rfold_invariant) (auto intro: booked_start pay_campaign_booked)

text \<open>Every booked share belongs to a live leader of an open campaign.\<close>

definition owed ::
  "int \<Rightarrow> (string \<times> int) list \<Rightarrow> campaign_emission \<Rightarrow> breakdown_row \<Rightarrow> bool" where
  "owed cb hu c r = (\<exists>rule hk uid seed curve. ce_emission_rule c = Some rule \<and>
     ce_status c = ''open'' \<and> ce_leader_hotkey c = Some hk \<and> map_of hu hk = Some uid \<and>
     ce_seed_block c = Some seed \<and> emission_curve rule = Inr curve \<and>
     curve (cb - seed) = Inr (br_weight r) \<and> r = paid c uid (cb - seed) (br_weight r))"

lemma pay_campaign_rows:
  assumes "pay_campaign cb hu n c (ws, bd) = Inr (ws', bd')" and "r \<in> set bd'" and "r \<notin> set bd"
    and "br_uid r \<noteq> None"
  shows "owed cb hu c r"
  using assms
  by (auto simp: pay_campaign_def rbind_eq_Inr owed_def withheld_def paid_def
      split: option.splits if_splits)

lemma loop_rows:
  assumes "rfold (pay_campaign cb hu n) cs (ws, bd) = Inr (ws', bd')"
    and "r \<in> set bd'" and "br_uid r \<noteq> None"
  shows "r \<in> set bd \<or> (\<exists>c \<in> set cs. owed cb hu c r)"
  using assms
proof (induction cs arbitrary: ws bd)
  case Nil
  then show ?case by simp
next
  case (Cons c cs)
  then obtain ws1 bd1 where step: "pay_campaign cb hu n c (ws, bd) = Inr (ws1, bd1)"
    and rest: "rfold (pay_campaign cb hu n) cs (ws1, bd1) = Inr (ws', bd')"
    by (auto simp: rbind_eq_Inr)
  from Cons.IH [OF rest Cons.prems(2,3)] pay_campaign_rows [OF step _ _ Cons.prems(3)]
  show ?case by auto
qed

lemma build_weight_vectorE:
  assumes "build_weight_vector cs cb hu n burn = Inr (ws', bd)"
  obtains ws total where "0 \<le> burn" "burn < n"
    "rfold (pay_campaign cb hu n) cs (replicate (nat n) (Fin 0), []) = Inr (ws, bd)"
    "fsum ws = Inr total" "\<not> flt (fsub (Fin 1) total) (Fin 0)"
    "ws' = add_share ws burn (fsub (Fin 1) total)" "check_vector ws' = Inr ()"
proof -
  have g: "0 \<le> burn" "burn < n"
    using assms by (auto simp: build_weight_vector_def rguard_def split: if_splits)
  obtain ws bd0 where loop:
    "rfold (pay_campaign cb hu n) cs (replicate (nat n) (Fin 0), []) = Inr (ws, bd0)"
    using assms g by (cases "rfold (pay_campaign cb hu n) cs (replicate (nat n) (Fin 0), [])")
      (auto simp: build_weight_vector_def)
  obtain total where total: "fsum ws = Inr total"
    using assms g loop by (cases "fsum ws") (auto simp: build_weight_vector_def)
  let ?ws = "add_share ws burn (fsub (Fin 1) total)"
  have nn: "\<not> flt (fsub (Fin 1) total) (Fin 0)"
    using assms g loop total by (auto simp: build_weight_vector_def Let_def)
  with assms g loop total have "rbind (check_vector ?ws) (\<lambda>_. Inr (?ws, bd0)) = Inr (ws', bd)"
    by (simp add: build_weight_vector_def Let_def)
  then have "check_vector ?ws = Inr ()" "?ws = ws'" "bd0 = bd"
    by (cases "check_vector ?ws"; simp)+
  with that [OF g _ total nn] loop show ?thesis by simp
qed

lemma tolerance_bound:
  obtains t where "sum_tolerance = Fin t" "0 \<le> t" "t < 1 / 2 ^ 29"
proof
  show "sum_tolerance = Fin (rnd0 (1 / 10 ^ 9))"
    unfolding sum_tolerance_def by (rule rnd_unit) simp
  show "0 \<le> rnd0 (1 / 10 ^ 9)" by (rule rnd0_nonneg) simp
  have "rnd0 (3 / 2 ^ 31) = 3 / 2 ^ 31"
    using rnd0_dyadic [of 3 31] by simp
  moreover have "rnd0 (1 / 10 ^ 9) \<le> rnd0 (3 / 2 ^ 31)" by (rule rnd0_mono) simp
  ultimately show "rnd0 (1 / 10 ^ 9) < 1 / 2 ^ 29" by simp
qed

lemma fvals_unit_sum:
  assumes "\<forall>w \<in> set ws. fle (Fin 0) w \<and> fle w (Fin 1)"
  shows "fsum ws = to_finite (rnd (sum_list (fvals ws)))" and "0 \<le> sum_list (fvals ws)"
proof -
  have fin: "\<exists>q. w = Fin q \<and> 0 \<le> q" if "w \<in> set ws" for w
    using that assms unit_floatE by metis
  then have "PInf \<notin> set ws" "NInf \<notin> set ws" "NaN \<notin> set ws" by auto
  then show "fsum ws = to_finite (rnd (sum_list (fvals ws)))" by (simp add: fsum_def)
  have "\<forall>q \<in> set (fvals ws). 0 \<le> q" using fin by (fastforce simp: fvals_def)
  then show "0 \<le> sum_list (fvals ws)" by (simp add: sum_list_nonneg)
qed

text \<open>A vector that passes the guards sums to one within two billionths, exactly.\<close>

lemma check_vector_sum:
  assumes "check_vector ws = Inr ()"
  shows "\<forall>w \<in> set ws. fle (Fin 0) w \<and> fle w (Fin 1)" and "\<bar>sum_list (fvals ws) - 1\<bar> < 1 / 2 ^ 29"
proof -
  show u: "\<forall>w \<in> set ws. fle (Fin 0) w \<and> fle w (Fin 1)"
    using assms by (auto simp: check_vector_def rbind_eq_Inr)
  let ?S = "sum_list (fvals ws)"
  obtain v where v: "rnd ?S = Fin v" "isclose_abs (Fin v) (Fin 1) sum_tolerance"
    using assms u fvals_unit_sum(1) [OF u]
    by (auto simp: check_vector_def rbind_eq_Inr to_finite_def split: pyfloat.splits)
  obtain t where t: "sum_tolerance = Fin t" "t < 1 / 2 ^ 29" by (rule tolerance_bound)
  have vS: "v = rnd0 ?S" using rnd_FinD [OF v(1)] by simp
  have grid: "rnd0 (1 + 1 / 2 ^ 29) = 1 + 1 / 2 ^ 29" "rnd0 (1 - 1 / 2 ^ 29) = 1 - 1 / 2 ^ 29"
    "rnd0 (1 / 2 ^ 29) = 1 / 2 ^ 29"
    using rnd0_dyadic [of "2 ^ 29 + 1" 29] rnd0_dyadic [of "2 ^ 29 - 1" 29] rnd0_dyadic [of 1 29]
    by simp_all
  have close: "v = 1 \<or> (\<exists>x. rnd (1 - v) = Fin x \<and> \<bar>x\<bar> \<le> t)"
    using v(2) unfolding t(1) by (cases "rnd (1 - v)") (auto simp: isclose_abs_def feq_def fsub_def)
  show "\<bar>?S - 1\<bar> < 1 / 2 ^ 29"
  proof (rule ccontr)
    assume "\<not> \<bar>?S - 1\<bar> < 1 / 2 ^ 29"
    then consider "1 + 1 / 2 ^ 29 \<le> ?S" | "?S \<le> 1 - 1 / 2 ^ 29" by linarith
    then have far: "1 / 2 ^ 29 \<le> 1 - v \<or> 1 / 2 ^ 29 \<le> v - 1"
    proof cases
      case 1
      from rnd0_mono [OF this] show ?thesis unfolding grid vS by linarith
    next
      case 2
      from rnd0_mono [OF this] show ?thesis unfolding grid vS by linarith
    qed
    then obtain x where x: "rnd0 (1 - v) = x" "\<bar>x\<bar> \<le> t"
      using close rnd_FinD by auto
    have "1 / 2 ^ 29 \<le> \<bar>rnd0 (1 - v)\<bar>"
      using far rnd0_mono [of "1 / 2 ^ 29" "1 - v"] rnd0_mono [of "1 / 2 ^ 29" "v - 1"]
        rnd0_minus [of "1 - v"] grid(3) by auto
    with x t(2) show False by linarith
  qed
qed

section \<open>Properties\<close>

text \<open>
  Validating an emission rule is a normal form: a validated rule, written back as the
  dict that is stored and hashed, validates again to the same rule.
\<close>

theorem validate_emission_rule_normal_form:
  assumes "validate_emission_rule v = Inr r"
  shows "validate_emission_rule (JObj (emission_json r)) = Inr r"
proof -
  obtain d where d: "v = JObj d"
    using assms by (cases v) (auto simp: validate_emission_rule_def)
  obtain x y n where r: "emission_weight (jget d ''start_weight'') = Inr x"
    "emission_weight (jget d ''floor_weight'') = Inr y" "\<not> flt x y" "1 \<le> n"
    "r = \<lparr>start_weight = x, floor_weight = y, decay_blocks = n\<rparr>"
    using assms unfolding d
    by (cases "jget d ''decay_blocks''") (auto simp: validate_emission_rule_def rbind_eq_Inr)
  have "emission_weight (JFloat x) = Inr x" "emission_weight (JFloat y) = Inr y"
    using emission_weight_Inr [OF r(1)] emission_weight_Inr [OF r(2)] by (simp_all add: emission_weight_def)
  moreover have "name_field (emission_json r) = ''linear_decay''"
    by (simp add: name_field_def emission_json_def jget_def strip_no_space py_isspace_def ccode_def)
  ultimately show ?thesis
    using r by (simp add: validate_emission_rule_def emission_json_def emission_keys_def keys_def jget_def)
qed

definition ex_rule_json :: json where
  "ex_rule_json = JObj [(''decay_blocks'', JInt 4), (''start_weight'', JInt 1),
     (''name'', JStr ''linear_decay''), (''floor_weight'', JFloat (Fin (1/2)))]"

definition ex_rule :: emission_rule where
  "ex_rule = \<lparr>start_weight = Fin 1, floor_weight = Fin (1/2), decay_blocks = 4\<rparr>"

lemma ex_rule_valid: "validate_emission_rule ex_rule_json = Inr ex_rule"
  by (simp add: ex_rule_json_def ex_rule_def validate_emission_rule_def name_field_def jget_def
      emission_keys_def keys_def emission_weight_def float_of_int_def to_finite_def strip_no_space
      py_isspace_def ccode_def)

theorem validate_emission_rule_normal_form_witness:
  "validate_emission_rule ex_rule_json = Inr ex_rule \<and>
   validate_emission_rule (JObj (emission_json ex_rule)) = Inr ex_rule"
  using ex_rule_valid validate_emission_rule_normal_form [OF ex_rule_valid] by blast


lemma ex_rule_wf: "wf_rule ex_rule"
proof -
  have "rnd0 (1/2) = 1/2" using rnd0_dyadic [of 1 1] by simp
  then show ?thesis
    unfolding wf_rule_def by (intro exI [of _ 1] exI [of _ "1/2"]) (simp add: ex_rule_def)
qed


text \<open>
  C14. What a returned vector means: it has one weight per UID, each in the unit interval; its
  exact sum is one within \<open>2 powi (-29)\<close>; the weight of every UID but the burn UID is the
  running sum of exactly the shares the breakdown books for it; and every share booked for a
  UID is what the emission rule of an open campaign owes the campaign's leader, whose hotkey
  the metagraph maps to that UID.
\<close>

theorem weight_vector_accounting:
  assumes "build_weight_vector cs cb hu n burn = Inr (ws, bd)"
  shows "length ws = nat n \<and> (\<forall>w \<in> set ws. fle (Fin 0) w \<and> fle w (Fin 1)) \<and>
    \<bar>sum_list (fvals ws) - 1\<bar> < 1 / 2 ^ 29 \<and>
    (\<forall>i < length ws. int i \<noteq> burn \<longrightarrow> ws ! i = fsum_left (shares (int i) bd)) \<and>
    (\<forall>r \<in> set bd. br_uid r \<noteq> None \<longrightarrow> (\<exists>c \<in> set cs. owed cb hu c r))"
proof -
  obtain ws0 total where
    b: "0 \<le> burn" "burn < n"
    and loop: "rfold (pay_campaign cb hu n) cs (replicate (nat n) (Fin 0), []) = Inr (ws0, bd)"
    and ws: "ws = add_share ws0 burn (fsub (Fin 1) total)" and chk: "check_vector ws = Inr ()"
    using assms by (rule build_weight_vectorE)
  have bk: "booked n (ws0, bd)" using loop by (rule loop_booked)
  have "ws ! i = fsum_left (shares (int i) bd)" if "i < length ws" "int i \<noteq> burn" for i
    using that bk b by (auto simp: ws add_share_def booked_def)
  then show ?thesis
    using check_vector_sum [OF chk] bk loop_rows [OF loop] by (auto simp: ws booked_def)
qed

definition ex_campaign :: campaign_emission where
  "ex_campaign = \<lparr>ce_campaign_id = ''c1'', ce_status = ''open'',
     ce_emission_rule = Some (emission_json ex_rule), ce_leader_hotkey = Some ''hk'',
     ce_seed_block = Some 10\<rparr>"

lemma ex_loop:
  "rfold (pay_campaign 10 [(''hk'', 1)] 2) [ex_campaign] (replicate (nat 2) (Fin 0), []) =
     Inr ([Fin 0, Fin 1], [paid ex_campaign 1 0 (Fin 1)])"
  by (simp add: pay_campaign_def ex_campaign_def emission_curve_json linear_decay_def ex_rule_def
      add_share_def paid_def numeral_2_eq_2)

lemma ex_vector:
  "build_weight_vector [ex_campaign] 10 [(''hk'', 1)] 2 0 =
     Inr ([Fin 0, Fin 1], [paid ex_campaign 1 0 (Fin 1)])"
  using ex_loop
  by (simp add: build_weight_vector_def fsum_def fvals_def to_finite_def fsub_def add_share_def
      check_vector_def isclose_abs_def feq_def Let_def)

theorem weight_vector_accounting_witness:
  "length [Fin 0, Fin 1] = nat 2 \<and> [Fin 0, Fin 1] ! 1 = fsum_left [Fin 1] \<and>
   build_weight_vector [ex_campaign] 10 [(''hk'', 1)] 2 0 =
     Inr ([Fin 0, Fin 1], [paid ex_campaign 1 0 (Fin 1)])"
proof -
  have "\<forall>i < length [Fin 0, Fin 1]. int i \<noteq> 0 \<longrightarrow>
      [Fin 0, Fin 1] ! i = fsum_left (shares (int i) [paid ex_campaign 1 0 (Fin 1)])"
    using weight_vector_accounting [OF ex_vector] by blast
  from this [rule_format, of 1] ex_vector show ?thesis
    by (simp add: shares_def paid_def)
qed

definition flat_rule :: "rat \<Rightarrow> emission_rule" where
  "flat_rule q = \<lparr>start_weight = flit q, floor_weight = flit q, decay_blocks = 1\<rparr>"

definition flat_campaign :: "rat \<Rightarrow> campaign_emission" where
  "flat_campaign q = ex_campaign\<lparr>ce_emission_rule := Some (emission_json (flat_rule q))\<rparr>"

lemma rnd_eval:
  assumes "\<bar>q\<bar> \<le> 4" and "2 ^ 52 \<le> q * 2 ^ k" and "q * 2 ^ k < 2 ^ 53" and "k \<le> 1074"
    and "rne (q * 2 ^ k) = m"
  shows "rnd q = Fin (of_int m / 2 ^ k)"
  using rnd_unit [OF assms(1)] rnd0_eval [OF assms(2-5)] by simp

lemma flat_doubles:
  "rnd (33/100) = Fin (5944751508129055 / 2 ^ 54)"
  "rnd (56/100) = Fin (5044031582654956 / 2 ^ 53)"
  "rnd (11/100) = Fin (7926335344172073 / 2 ^ 56)"
  "rnd (5944751508129055 / 2 ^ 54 + 5044031582654956 / 2 ^ 53) = Fin (8016407336719484 / 2 ^ 53)"
  "rnd (8016407336719484 / 2 ^ 53 + 7926335344172073 / 2 ^ 56) = Fin (4503599627370497 / 2 ^ 52)"
      apply (subst rnd_eval [where k = 54 and m = 5944751508129055]; simp add: rne_near)
     apply (subst rnd_eval [where k = 53 and m = 5044031582654956]; simp add: rne_near)
    apply (subst rnd_eval [where k = 56 and m = 7926335344172073]; simp add: rne_near)
   apply (subst rnd_eval [where k = 53 and m = 8016407336719484]; simp add: rne_near rne_tie)
  apply (subst rnd_eval [where k = 52 and m = 4503599627370497]; simp add: rne_near)
  done

lemma flat_step:
  assumes "rnd q = Fin w"
  shows "pay_campaign 10 [(''hk'', 1)] 2 (flat_campaign q) ([Fin 0, x], bd) =
    Inr ([Fin 0, fadd x (Fin w)], bd @ [paid (flat_campaign q) 1 0 (Fin w)])"
  using assms
  by (simp add: pay_campaign_def flat_campaign_def ex_campaign_def emission_curve_json
      linear_decay_def flat_rule_def add_share_def paid_def)

lemma flat_rule_valid:
  assumes q: "0 \<le> q" "q \<le> 1"
  shows "validate_emission_rule (JObj (emission_json (flat_rule q))) = Inr (flat_rule q)"
proof -
  from q have "rnd q = Fin (rnd0 q)" "0 \<le> rnd0 q" "rnd0 q \<le> 1"
    by (auto intro: rnd_unit rnd0_unit_bounds)
  moreover have "name_field (emission_json (flat_rule q)) = ''linear_decay''"
    by (simp add: name_field_def emission_json_def jget_def strip_no_space py_isspace_def ccode_def)
  ultimately show ?thesis
    by (simp add: flat_rule_def validate_emission_rule_def emission_json_def emission_keys_def
        keys_def jget_def emission_weight_def)
qed

text \<open>
  C33. The guards are not always satisfiable when the campaigns promise exactly the whole
  emission: three open campaigns with valid flat rules of 0.33, 0.56 and 0.11, led by the same
  hotkey, are refused with a negative burn, because the shares of one UID are added with
  rounding (the running sum is \<open>1 + 2 powi (-52)\<close>).
\<close>

theorem full_emission_refused:
  "build_weight_vector [flat_campaign (33/100), flat_campaign (56/100), flat_campaign (11/100)]
     10 [(''hk'', 1)] 2 0 = Inl (WeightVectorError ''burn is negative'')
   \<and> (33/100 + 56/100 + 11/100 :: rat) = 1
   \<and> validate_emission_rule (JObj (emission_json (flat_rule (33/100)))) = Inr (flat_rule (33/100))
   \<and> validate_emission_rule (JObj (emission_json (flat_rule (56/100)))) = Inr (flat_rule (56/100))
   \<and> validate_emission_rule (JObj (emission_json (flat_rule (11/100)))) = Inr (flat_rule (11/100))"
proof (intro conjI)
  define A :: rat where "A = 5944751508129055 / 2 ^ 54"
  define B :: rat where "B = 5044031582654956 / 2 ^ 53"
  define C :: rat where "C = 7926335344172073 / 2 ^ 56"
  define S :: rat where "S = 8016407336719484 / 2 ^ 53"
  define T :: rat where "T = 4503599627370497 / 2 ^ 52"
  have r: "rnd (33/100) = Fin A" "rnd (56/100) = Fin B" "rnd (11/100) = Fin C"
    "rnd (A + B) = Fin S" "rnd (S + C) = Fin T"
    unfolding A_def B_def C_def S_def T_def by (rule flat_doubles)+
  have A: "rnd A = Fin A" and T: "rnd T = Fin T"
    using rnd_dyadic [of 5944751508129055 54] rnd_dyadic [of 4503599627370497 52]
    by (simp_all add: A_def T_def)
  have "1 - T = of_int (-1) / 2 ^ 52" by (simp add: T_def)
  then have burn: "rnd (1 - T) = Fin (-1 / 2 ^ 52)"
    using rnd_dyadic [of "-1" 52] by simp
  have "rfold (pay_campaign 10 [(''hk'', 1)] 2)
      [flat_campaign (33/100), flat_campaign (56/100), flat_campaign (11/100)] ([Fin 0, Fin 0], []) =
      Inr ([Fin 0, Fin T], [paid (flat_campaign (33/100)) 1 0 (Fin A),
        paid (flat_campaign (56/100)) 1 0 (Fin B), paid (flat_campaign (11/100)) 1 0 (Fin C)])"
    using A r by (simp add: flat_step)
  moreover have "fsum [Fin 0, Fin T] = Inr (Fin T)"
    using T by (simp add: fsum_def fvals_def to_finite_def)
  ultimately show "build_weight_vector
      [flat_campaign (33/100), flat_campaign (56/100), flat_campaign (11/100)]
      10 [(''hk'', 1)] 2 0 = Inl (WeightVectorError ''burn is negative'')"
    using burn by (simp add: build_weight_vector_def numeral_2_eq_2 fsub_def Let_def)
qed (simp_all add: flat_rule_valid)

text \<open>The loop over campaigns whose rules are validated and whose leaders are live.\<close>

definition payable :: "(string \<times> int) list \<Rightarrow> int \<Rightarrow> campaign_emission \<Rightarrow> bool" where
  "payable hu n c = ((\<forall>rule. ce_emission_rule c = Some rule \<longrightarrow>
       (\<exists>r. wf_rule r \<and> rule = emission_json r)) \<and>
     (\<forall>hk uid. ce_leader_hotkey c = Some hk \<and> map_of hu hk = Some uid \<longrightarrow>
       0 \<le> uid \<and> uid < n \<and> ce_seed_block c \<noteq> None))"

definition unit_rows :: "breakdown_row list \<Rightarrow> bool" where
  "unit_rows bd = (\<forall>r \<in> set bd. \<exists>q. br_weight r = Fin q \<and> 0 \<le> q \<and> q \<le> 1 \<and> rnd0 q = q)"

lemma curve_unit:
  assumes "wf_rule r"
  shows "\<exists>q. linear_decay (start_weight r) (floor_weight r) (decay_blocks r) b = Inr (Fin q) \<and>
    0 \<le> q \<and> q \<le> 1 \<and> rnd0 q = q"
proof -
  obtain s f where sf: "start_weight r = Fin s" "floor_weight r = Fin f" "0 \<le> f" "f \<le> s" "s \<le> 1"
    "rnd0 s = s" "rnd0 f = f" "1 \<le> decay_blocks r"
    using assms by (rule wf_ruleE)
  consider "b \<le> 0" | "0 < b" "decay_blocks r \<le> b" | "0 < b" "b < decay_blocks r" by linarith
  then show ?thesis
  proof cases
    case 3
    have "rnd0 (decayed s f (decay_blocks r) b) = decayed s f (decay_blocks r) b"
      by (simp add: decayed_def)
    with 3 sf decayed_bounds [of f s b "decay_blocks r"] show ?thesis
      by (auto simp: linear_decay_mid)
  qed (use sf in \<open>auto simp: linear_decay_def\<close>)
qed

lemma pay_campaign_ok:
  assumes "payable hu n c" and "unit_rows bd"
  shows "\<exists>ws' bd'. pay_campaign cb hu n c (ws, bd) = Inr (ws', bd') \<and> unit_rows bd'"
proof -
  have w: "unit_rows (bd @ [withheld c hk why])" for hk why
    using assms(2) by (auto simp: unit_rows_def withheld_def)
  have p: "unit_rows (bd @ [paid c uid h (Fin q)])" if "0 \<le> q" "q \<le> 1" "rnd0 q = q" for uid h q
    using assms(2) that by (auto simp: unit_rows_def paid_def)
  show ?thesis
  proof (cases "ce_emission_rule c")
    case None
    with assms(2) show ?thesis by (simp add: pay_campaign_def)
  next
    case (Some rule)
    with assms(1) obtain r where r: "wf_rule r" "rule = emission_json r"
      by (auto simp: payable_def)
    show ?thesis
    proof (cases "\<exists>hk uid. ce_leader_hotkey c = Some hk \<and> ce_status c = ''open'' \<and> map_of hu hk = Some uid")
      case False
      with Some w show ?thesis
        by (auto simp: pay_campaign_def split: option.splits)
    next
      case True
      then obtain hk uid seed where hk: "ce_leader_hotkey c = Some hk" "ce_status c = ''open''"
        "map_of hu hk = Some uid" "0 \<le> uid" "uid < n" "ce_seed_block c = Some seed"
        using assms(1) by (fastforce simp: payable_def)
      obtain q where "linear_decay (start_weight r) (floor_weight r) (decay_blocks r) (cb - seed) =
          Inr (Fin q)" "0 \<le> q" "q \<le> 1" "rnd0 q = q"
        using curve_unit [OF r(1)] by blast
      with Some r hk p show ?thesis
        by (simp add: pay_campaign_def emission_curve_json)
    qed
  qed
qed

lemma loop_ok:
  assumes "\<forall>c \<in> set cs. payable hu n c" and "unit_rows bd"
  shows "\<exists>ws' bd'. rfold (pay_campaign cb hu n) cs (ws, bd) = Inr (ws', bd') \<and> unit_rows bd'"
  using assms
proof (induction cs arbitrary: ws bd)
  case Nil
  then show ?case by simp
next
  case (Cons c cs)
  obtain ws1 bd1 where "pay_campaign cb hu n c (ws, bd) = Inr (ws1, bd1)" "unit_rows bd1"
    using pay_campaign_ok [of hu n c bd cb ws] Cons.prems by auto
  with Cons show ?case by simp
qed

text \<open>Burn, on a vector of doubles whose exact sum is at most one.\<close>

lemma double_vector_add:
  assumes "fvals ws ! i = 0" "ws ! i = Fin 0" "i < length ws"
  shows "sum_list (fvals (ws[i := Fin b])) = sum_list (fvals ws) + b"
  using assms
proof (induction ws arbitrary: i)
  case (Cons w ws)
  then show ?case by (cases i) (auto simp: fvals_def)
qed simp

lemma residual_total:
  assumes "0 \<le> S" and "S \<le> 1"
  shows "\<bar>rnd0 (S + rnd0 (1 - rnd0 S)) - 1\<bar> \<le> 1 / 2 ^ 40"
proof -
  have err: "\<bar>rnd0 x - x\<bar> \<le> 1 / 2 ^ 53" if "0 \<le> x" "x \<le> 1" for x :: rat
  proof -
    have "\<bar>x\<bar> < 2 powi 1" using that by simp
    from rnd0_error_below [OF this] show ?thesis by (simp add: power_int_minus)
  qed
  let ?T = "S + rnd0 (1 - rnd0 S)"
  have s: "0 \<le> rnd0 S" "rnd0 S \<le> 1" using rnd0_unit_bounds [OF assms] by auto
  have "\<bar>rnd0 (1 - rnd0 S) - (1 - rnd0 S)\<bar> \<le> 1 / 2 ^ 53"
    using s by (intro err) auto
  moreover have "(1 / 2 ^ 53 + 1 / 2 ^ 53 :: rat) = 1 / 2 ^ 52" by simp
  ultimately have t1: "\<bar>?T - 1\<bar> \<le> 1 / 2 ^ 52"
    using err [OF assms] by linarith
  moreover have "(1 / 2 ^ 52 :: rat) < 1" by simp
  ultimately have "\<bar>?T\<bar> < 2" by linarith
  with t1 have t: "\<bar>?T - 1\<bar> \<le> 1 / 2 ^ 52" "\<bar>?T\<bar> < 2 powi 1" by simp_all
  from rnd0_error_below [OF t(2)] have "\<bar>rnd0 ?T - ?T\<bar> \<le> 1 / 2 ^ 53"
    by (simp add: power_int_minus)
  moreover have "(1 / 2 ^ 53 + 1 / 2 ^ 52 :: rat) \<le> 1 / 2 ^ 40" by simp
  ultimately show ?thesis using t(1) by linarith
qed

lemma burned_vector_ok:
  assumes unit: "\<forall>w \<in> set ws. \<exists>q. w = Fin q \<and> 0 \<le> q \<and> q \<le> 1"
    and sum: "sum_list (fvals ws) \<le> 1" and i: "i < length ws" "ws ! i = Fin 0"
  shows "\<exists>t. fsum ws = Inr (Fin t) \<and> fsub (Fin 1) (Fin t) = Fin (rnd0 (1 - t)) \<and> 0 \<le> rnd0 (1 - t) \<and>
    rnd0 (1 - t) \<le> 1 \<and> check_vector (ws[i := Fin (rnd0 (1 - t))]) = Inr ()"
proof -
  let ?S = "sum_list (fvals ws)" let ?t = "rnd0 ?S" let ?b = "rnd0 (1 - ?t)"
  have u: "\<forall>w \<in> set ws. fle (Fin 0) w \<and> fle w (Fin 1)" using unit by auto
  note S = fvals_unit_sum [OF u]
  have t: "0 \<le> ?t" "?t \<le> 1" and b: "0 \<le> ?b" "?b \<le> 1"
    using rnd0_unit_bounds [OF S(2) sum] rnd0_unit_bounds [of "1 - ?t"] by auto
  have fs: "fsum ws = Inr (Fin ?t)"
    using S sum by (simp add: to_finite_def rnd_unit)
  have burn: "fsub (Fin 1) (Fin ?t) = Fin ?b"
    using t by (simp add: fsub_def rnd_unit)
  let ?ws = "ws[i := Fin ?b]"
  have u': "\<forall>w \<in> set ?ws. fle (Fin 0) w \<and> fle w (Fin 1)"
    using u b set_update_subset_insert [of ws i "Fin ?b"] by auto
  have "fvals ws ! i = 0" using i by (simp add: fvals_def)
  then have tot: "sum_list (fvals ?ws) = ?S + ?b"
    using i by (intro double_vector_add) auto
  let ?v = "rnd0 (?S + ?b)"
  have v: "\<bar>?v - 1\<bar> \<le> 1 / 2 ^ 40" using residual_total [OF S(2) sum] .
  have "fsum ?ws = Inr (Fin ?v)"
    using fvals_unit_sum(1) [OF u'] tot S(2) sum b by (simp add: to_finite_def rnd_unit)
  moreover have "isclose_abs (Fin ?v) (Fin 1) sum_tolerance"
  proof -
    have "(1 / 2 ^ 40 :: rat) \<le> 4" by simp
    with v have "\<bar>1 - ?v\<bar> \<le> 4" by linarith
    then have "rnd (1 - ?v) = Fin (rnd0 (1 - ?v))" by (rule rnd_unit)
    moreover have "\<bar>rnd0 (1 - ?v)\<bar> \<le> rnd0 (1 / 10 ^ 9)"
    proof -
      have "(1 / 2 ^ 40 :: rat) \<le> 1 / 10 ^ 9" by simp
      with v have "1 - ?v \<le> 1 / 10 ^ 9" "- (1 - ?v) \<le> 1 / 10 ^ 9" by linarith+
      from this [THEN rnd0_mono] show ?thesis
        unfolding rnd0_minus by linarith
    qed
    moreover have tol: "sum_tolerance = Fin (rnd0 (1 / 10 ^ 9))"
      unfolding sum_tolerance_def by (rule rnd_unit) simp
    ultimately show ?thesis
      unfolding tol by (simp add: isclose_abs_def fsub_def isfinite_def)
  qed
  ultimately have "check_vector ?ws = Inr ()"
    using u' by (simp add: check_vector_def)
  with fs burn b show ?thesis by blast
qed

text \<open>
  C31. The vector is produced: when every campaign's rule is a validated one and every live
  leader's UID is in the metagraph, the loop over the campaigns never raises; and if no UID is
  owed two shares, the burn UID is owed none and the shares do not add up to more than one,
  then no guard fires and a vector is returned.
\<close>

theorem weight_vector_returned:
  assumes "0 \<le> burn" and "burn < n" and "\<forall>c \<in> set cs. payable hu n c"
  shows "\<exists>ws0 bd. rfold (pay_campaign cb hu n) cs (replicate (nat n) (Fin 0), []) = Inr (ws0, bd) \<and>
    ((\<forall>u. length (shares u bd) \<le> 1) \<and> shares burn bd = [] \<and> sum_list (fvals ws0) \<le> 1 \<longrightarrow>
     (\<exists>ws. build_weight_vector cs cb hu n burn = Inr (ws, bd)))"
proof -
  obtain ws0 bd where loop: "rfold (pay_campaign cb hu n) cs (replicate (nat n) (Fin 0), []) = Inr (ws0, bd)"
    and rows: "unit_rows bd"
    using loop_ok [OF assms(3)] by (metis unit_rows_def empty_iff empty_set)
  have bk: "booked n (ws0, bd)" using loop by (rule loop_booked)
  have "\<exists>ws. build_weight_vector cs cb hu n burn = Inr (ws, bd)"
    if one: "\<forall>u. length (shares u bd) \<le> 1" and nb: "shares burn bd = []"
      and sum: "sum_list (fvals ws0) \<le> 1"
  proof -
    have at: "\<exists>q. ws0 ! i = Fin q \<and> 0 \<le> q \<and> q \<le> 1" if i: "i < length ws0" for i
    proof (cases "shares (int i) bd")
      case Nil
      with bk i show ?thesis by (simp add: booked_def fsum_left_def)
    next
      case (Cons w ws)
      with one [rule_format, of "int i"] have sh: "shares (int i) bd = [w]" by simp
      then have "w \<in> br_weight ` set bd" by (auto simp: shares_def map_eq_Cons_conv filter_eq_Cons_iff)
      with rows obtain q where "w = Fin q" "0 \<le> q" "q \<le> 1" "rnd0 q = q"
        by (auto simp: unit_rows_def)
      with sh bk i show ?thesis by (simp add: booked_def fsum_left_def rnd_unit)
    qed
    have unit: "\<forall>w \<in> set ws0. \<exists>q. w = Fin q \<and> 0 \<le> q \<and> q \<le> 1"
      using at by (auto simp: in_set_conv_nth)
    have i: "nat burn < length ws0" "ws0 ! nat burn = Fin 0"
      using bk assms(1,2) nb by (auto simp: booked_def fsum_left_def)
    obtain t where t: "fsum ws0 = Inr (Fin t)" "fsub (Fin 1) (Fin t) = Fin (rnd0 (1 - t))"
      "0 \<le> rnd0 (1 - t)" "rnd0 (1 - t) \<le> 1" "check_vector (ws0[nat burn := Fin (rnd0 (1 - t))]) = Inr ()"
      using burned_vector_ok [OF unit sum i] by blast
    have "add_share ws0 burn (Fin (rnd0 (1 - t))) = ws0[nat burn := Fin (rnd0 (1 - t))]"
      using i(2) t by (simp add: add_share_def rnd_unit)
    then show ?thesis
      using assms(1,2) loop t by (simp add: build_weight_vector_def Let_def)
  qed
  with loop show ?thesis by blast
qed

theorem weight_vector_returned_witness:
  "\<exists>ws bd. build_weight_vector [ex_campaign] 10 [(''hk'', 1)] 2 0 = Inr (ws, bd)"
proof -
  have "payable [(''hk'', 1)] 2 ex_campaign"
    using ex_rule_wf by (auto simp: payable_def ex_campaign_def)
  then obtain ws0 bd where
    "rfold (pay_campaign 10 [(''hk'', 1)] 2) [ex_campaign] (replicate (nat 2) (Fin 0), []) = Inr (ws0, bd)"
    and ret: "(\<forall>u. length (shares u bd) \<le> 1) \<and> shares 0 bd = [] \<and> sum_list (fvals ws0) \<le> 1 \<longrightarrow>
      (\<exists>ws. build_weight_vector [ex_campaign] 10 [(''hk'', 1)] 2 0 = Inr (ws, bd))"
    using weight_vector_returned [of 0 2 "[ex_campaign]" "[(''hk'', 1)]" 10] by auto
  then have st: "ws0 = [Fin 0, Fin 1]" "bd = [paid ex_campaign 1 0 (Fin 1)]"
    by (simp_all only: ex_loop sum.inject prod.inject)
  show ?thesis
    using ret unfolding st by (auto simp: shares_def paid_def fvals_def)
qed

end
