(* ===== verification/Tables.thy ===== *)
theory Tables
  imports Rank Weights "HOL-Library.Char_ord" "HOL-Library.List_Lexorder" "HOL-Library.Product_Lexorder"
begin

text \<open>
  The tables of \<open>db/schema.sql\<close> that the code keeps its state in, one record per row, and the
  SQL reads the components share. A table is the list of its rows in insertion order; where a
  statement of the source has no \<open>ORDER BY\<close>, the model reads in that order. A UUID is its
  canonical text, whose lexicographic order is Postgres' order on UUIDs. A timestamp is an
  integer number of microseconds; \<open>now()\<close>, the start of the transaction, is an argument of every
  operation. A \<open>BIGSERIAL\<close> column draws from a counter of the state.
\<close>

type_synonym uuid = string
type_synonym ts = int

section \<open>Rows\<close>

datatype submission_state =
    Committed | PickedUp | Fetched | Verified | Applied | SurfaceOk | Building | ImagePushed
  | Built | BenchQueued | RoundAssigned | InfraFailed | Scored | Disqualified | Rejected
  | RejectedDuplicate

datatype round_status = RPending | RRunning | RComplete | RVoid

datatype job_status = JobPending | JobRunning | JobDone | JobFailed

record campaign_row =
  c_id :: uuid
  c_status :: string
  c_baseline_repo :: string
  c_baseline_commit :: string
  c_base_image_digest :: string
  c_gpu_skus :: "string list"
  c_allowed_paths :: "string list"
  c_denied_paths :: "string list"
  c_bench :: "jdict option"
  c_engine :: "jdict option"
  c_sampling_rule :: "jdict option"
  c_scoring_rule :: jdict
  c_emission_rule :: "jdict option"
  c_submission_fee_history :: json
  c_created_at :: ts

record submission_row =
  s_id :: uuid
  s_campaign_id :: uuid
  s_patch_hash :: string
  s_hotkey :: string
  s_baseline_commit :: string
  s_retrieval_url :: string
  s_commit_block :: "int option"
  s_payment_block :: "int option"
  s_payment_tx :: "int option"
  s_committed_at :: ts
  s_engine_image_ref :: "string option"
  s_created_at :: ts

record event_row =
  e_id :: int
  e_submission_id :: uuid
  e_state :: submission_state
  e_evidence_ref :: "string option"
  e_detail :: jdict
  e_created_at :: ts

record job_row =
  j_id :: int
  j_submission_id :: uuid
  j_status :: job_status
  j_attempts :: int
  j_last_error :: "string option"
  j_phase :: "string option"
  j_phase_started_at :: "ts option"
  j_heartbeat_at :: "ts option"
  j_progress :: "jdict option"
  j_created_at :: ts
  j_updated_at :: ts

record round_row =
  r_id :: uuid
  r_campaign_id :: uuid
  r_ordinal :: int
  r_gpu_sku :: string
  r_seed_block :: int
  r_seed_block_hash :: string
  r_seed_hex :: string
  r_trace_sha256 :: string
  r_sampling_receipt :: jdict
  r_scoring_rule :: jdict
  r_status :: round_status
  r_void_reason :: "string option"
  r_void_detail :: "string option"
  r_incumbent :: "uuid option"
  r_winner :: "uuid option"
  r_leader_changed :: "bool option"
  r_baseline_drift :: "pyfloat option"
  r_phase :: "string option"
  r_phase_started_at :: "ts option"
  r_heartbeat_at :: "ts option"
  r_progress :: "jdict option"
  r_provision_attempts :: int
  r_retry_after :: "ts option"
  r_created_at :: ts
  r_started_at :: "ts option"
  r_completed_at :: "ts option"

record round_entry_row =
  n_id :: int
  n_round_id :: uuid
  n_submission_id :: "uuid option"
  n_role :: entry_role
  n_image_ref :: string
  n_status :: entry_status
  n_score :: "pyfloat option"
  n_disqualify_reason :: "string option"
  n_report :: jdict
  n_evidence_s3_url :: "string option"
  n_started_at :: "ts option"
  n_completed_at :: "ts option"

record leader_row =
  l_campaign_id :: uuid
  l_submission_id :: uuid
  l_image_ref :: string
  l_hotkey :: string
  l_won_at_round_id :: uuid
  l_won_at_ordinal :: int
  l_last_score :: pyfloat
  l_last_scored_round_id :: "uuid option"
  l_updated_at :: ts

record history_row =
  h_id :: int
  h_campaign_id :: uuid
  h_round_id :: uuid
  h_ordinal :: int
  h_event :: leader_event
  h_new_submission_id :: "uuid option"
  h_new_hotkey :: "string option"
  h_new_score :: "pyfloat option"
  h_prev_submission_id :: "uuid option"
  h_prev_hotkey :: "string option"
  h_prev_score :: "pyfloat option"
  h_overtake_threshold :: "pyfloat option"
  h_epsilon :: pyfloat
  h_created_at :: ts

record weight_set_row =
  w_id :: int
  w_computed_at_block :: int
  w_version_key :: int
  w_burn_uid :: int
  w_weights :: "pyfloat list"
  w_breakdown :: "breakdown_row list"
  w_set_ok :: "bool option"
  w_set_error :: "string option"
  w_created_at :: ts

record db =
  campaigns :: "campaign_row list"
  submissions :: "submission_row list"
  events :: "event_row list"
  jobs :: "job_row list"
  rounds :: "round_row list"
  round_entries :: "round_entry_row list"
  leaders :: "leader_row list"
  leader_history :: "history_row list"
  weight_sets :: "weight_set_row list"
  next_event :: int
  next_job :: int
  next_entry :: int
  next_history :: int
  next_weight :: int

definition empty_db :: db where
  "empty_db = \<lparr>campaigns = [], submissions = [], events = [], jobs = [], rounds = [],
     round_entries = [], leaders = [], leader_history = [], weight_sets = [],
     next_event = 1, next_job = 1, next_entry = 1, next_history = 1, next_weight = 1\<rparr>"

section \<open>Statements\<close>

text \<open>\<open>UPDATE \<dots> SET \<dots> WHERE P\<close>, and whether it touched a row (\<open>rowcount > 0\<close>).\<close>

definition update_where :: "('a \<Rightarrow> bool) \<Rightarrow> ('a \<Rightarrow> 'a) \<Rightarrow> 'a list \<Rightarrow> 'a list" where
  "update_where P f xs = map (\<lambda>x. if P x then f x else x) xs"

definition touched :: "('a \<Rightarrow> bool) \<Rightarrow> 'a list \<Rightarrow> bool" where
  "touched P xs = (filter P xs \<noteq> [])"

definition campaign_of :: "db \<Rightarrow> uuid \<Rightarrow> campaign_row option" where
  "campaign_of d cid = find (\<lambda>c. c_id c = cid) (campaigns d)"

definition submission_of :: "db \<Rightarrow> uuid \<Rightarrow> submission_row option" where
  "submission_of d sid = find (\<lambda>s. s_id s = sid) (submissions d)"

definition round_of :: "db \<Rightarrow> uuid \<Rightarrow> round_row option" where
  "round_of d rid = find (\<lambda>r. r_id r = rid) (rounds d)"

definition leader_of :: "db \<Rightarrow> uuid \<Rightarrow> leader_row option" where
  "leader_of d cid = find (\<lambda>l. l_campaign_id l = cid) (leaders d)"

definition fk :: "bool \<Rightarrow> string \<Rightarrow> unit res" where
  "fk b t = rguard b (ForeignKeyViolation t)"

text \<open>A foreign key column accepts a null.\<close>

definition fk_submission :: "db \<Rightarrow> uuid option \<Rightarrow> unit res" where
  "fk_submission d sid = fk (case sid of None \<Rightarrow> True | Some i \<Rightarrow> submission_of d i \<noteq> None) ''submissions''"

definition fk_round :: "db \<Rightarrow> uuid \<Rightarrow> unit res" where
  "fk_round d rid = fk (round_of d rid \<noteq> None) ''rounds''"

definition fk_campaign :: "db \<Rightarrow> uuid \<Rightarrow> unit res" where
  "fk_campaign d cid = fk (campaign_of d cid \<noteq> None) ''campaigns''"

text \<open>\<open>INSERT INTO submission_events (submission_id, state, evidence_ref, detail)\<close>.\<close>

definition add_event ::
  "ts \<Rightarrow> uuid \<Rightarrow> submission_state \<Rightarrow> string option \<Rightarrow> jdict \<Rightarrow> db \<Rightarrow> db" where
  "add_event now sid st ref detail d =
     d\<lparr>events := events d @ [\<lparr>e_id = next_event d, e_submission_id = sid, e_state = st,
         e_evidence_ref = ref, e_detail = detail, e_created_at = now\<rparr>],
       next_event := next_event d + 1\<rparr>"

definition insert_event ::
  "ts \<Rightarrow> uuid \<Rightarrow> submission_state \<Rightarrow> string option \<Rightarrow> jdict \<Rightarrow> db \<Rightarrow> db res" where
  "insert_event now sid st ref detail d =
     rbind (fk_submission d (Some sid)) (\<lambda>_. Inr (add_event now sid st ref detail d))"

text \<open>
  \<open>ORDER BY e.created_at DESC, e.id DESC LIMIT 1\<close> over the events of a submission: the read
  that defines a submission's state.
\<close>

definition event_key :: "event_row \<Rightarrow> ts \<times> int" where
  "event_key e = (e_created_at e, e_id e)"

definition event_before :: "event_row \<Rightarrow> event_row \<Rightarrow> bool" where
  "event_before a b = (event_key a < event_key b)"

definition events_of :: "db \<Rightarrow> uuid \<Rightarrow> event_row list" where
  "events_of d sid = filter (\<lambda>e. e_submission_id e = sid) (events d)"

definition latest_event :: "db \<Rightarrow> uuid \<Rightarrow> event_row option" where
  "latest_event d sid = best event_before (events_of d sid)"

definition latest_state :: "db \<Rightarrow> uuid \<Rightarrow> submission_state option" where
  "latest_state d sid = map_option e_state (latest_event d sid)"

definition live :: "round_status \<Rightarrow> bool" where
  "live st = (st = RPending \<or> st = RRunning)"

definition has_live_round :: "db \<Rightarrow> uuid \<Rightarrow> bool" where
  "has_live_round d cid = (\<exists>r \<in> set (rounds d). r_campaign_id r = cid \<and> live (r_status r))"

text \<open>Order of a nullable column: \<open>ASC\<close> puts nulls last.\<close>

definition nulls_last :: "int option \<Rightarrow> bool \<times> int" where
  "nulls_last x = (case x of None \<Rightarrow> (True, 0) | Some i \<Rightarrow> (False, i))"

text \<open>Comparison of \<open>NUMERIC\<close> values: \<open>NaN\<close> is above every number.\<close>

definition num_lt :: "pyfloat \<Rightarrow> pyfloat \<Rightarrow> bool" where
  "num_lt x y = (x \<noteq> NaN \<and> (y = NaN \<or> flt x y))"

section \<open>The constraints of the schema\<close>

text \<open>
  A unique index, partial when \<open>P\<close> is not constantly true: the rows satisfying \<open>P\<close> have
  different keys.
\<close>

definition uniq :: "('a \<Rightarrow> bool) \<Rightarrow> ('a \<Rightarrow> 'k) \<Rightarrow> 'a list \<Rightarrow> bool" where
  "uniq P k xs = distinct (map k (filter P xs))"

abbreviation key :: "('a \<Rightarrow> 'k) \<Rightarrow> 'a list \<Rightarrow> bool" where
  "key k xs \<equiv> uniq (\<lambda>_. True) k xs"

definition campaign_ids :: "db \<Rightarrow> uuid set" where
  "campaign_ids d = c_id ` set (campaigns d)"

definition submission_ids :: "db \<Rightarrow> uuid set" where
  "submission_ids d = s_id ` set (submissions d)"

definition round_ids :: "db \<Rightarrow> uuid set" where
  "round_ids d = r_id ` set (rounds d)"

definition has_payment :: "submission_row \<Rightarrow> bool" where
  "has_payment s = (s_payment_block s \<noteq> None \<and> s_payment_tx s \<noteq> None)"

definition submissions_ok :: "db \<Rightarrow> bool" where
  "submissions_ok d = (key s_id (submissions d) \<and>
     key (\<lambda>s. (s_campaign_id s, s_patch_hash s)) (submissions d) \<and>
     uniq has_payment (\<lambda>s. (s_payment_block s, s_payment_tx s)) (submissions d) \<and>
     s_campaign_id ` set (submissions d) \<subseteq> campaign_ids d)"

definition events_ok :: "db \<Rightarrow> bool" where
  "events_ok d = (key e_id (events d) \<and> (\<forall>e \<in> set (events d). e_id e < next_event d) \<and>
     e_submission_id ` set (events d) \<subseteq> submission_ids d)"

definition jobs_ok :: "db \<Rightarrow> bool" where
  "jobs_ok d = (key j_id (jobs d) \<and> key j_submission_id (jobs d) \<and>
     (\<forall>j \<in> set (jobs d). j_id j < next_job d) \<and>
     j_submission_id ` set (jobs d) \<subseteq> submission_ids d)"

text \<open>
  \<open>rounds_one_live_per_campaign_idx\<close> is the third conjunct. The last one is not a constraint of
  the schema but what the reaper relies on: a running round carries a liveness timestamp.
\<close>

definition rounds_ok :: "db \<Rightarrow> bool" where
  "rounds_ok d = (key r_id (rounds d) \<and> key (\<lambda>r. (r_campaign_id r, r_ordinal r)) (rounds d) \<and>
     uniq (\<lambda>r. live (r_status r)) r_campaign_id (rounds d) \<and>
     r_campaign_id ` set (rounds d) \<subseteq> campaign_ids d \<and>
     (\<forall>r \<in> set (rounds d). r_status r = RRunning \<longrightarrow> r_heartbeat_at r \<noteq> None \<and> r_started_at r \<noteq> None))"

definition role_ok :: "round_entry_row \<Rightarrow> bool" where
  "role_ok n = (n_role n = Baseline \<longleftrightarrow> n_submission_id n = None)"

definition entries_ok :: "db \<Rightarrow> bool" where
  "entries_ok d = (key n_id (round_entries d) \<and>
     key (\<lambda>n. (n_round_id n, n_submission_id n)) (round_entries d) \<and>
     (\<forall>n \<in> set (round_entries d). n_id n < next_entry d \<and> role_ok n \<and> n_round_id n \<in> round_ids d \<and>
        (\<forall>sid. n_submission_id n = Some sid \<longrightarrow> sid \<in> submission_ids d)))"

definition leaders_ok :: "db \<Rightarrow> bool" where
  "leaders_ok d = (key l_campaign_id (leaders d) \<and>
     (\<forall>l \<in> set (leaders d). l_campaign_id l \<in> campaign_ids d \<and> l_submission_id l \<in> submission_ids d \<and>
        l_won_at_round_id l \<in> round_ids d))"

definition logs_ok :: "db \<Rightarrow> bool" where
  "logs_ok d = (key h_id (leader_history d) \<and> (\<forall>h \<in> set (leader_history d). h_id h < next_history d) \<and>
     key w_id (weight_sets d) \<and> (\<forall>w \<in> set (weight_sets d). w_id w < next_weight d))"

definition db_ok :: "db \<Rightarrow> bool" where
  "db_ok d = (key c_id (campaigns d) \<and> submissions_ok d \<and> events_ok d \<and> jobs_ok d \<and> rounds_ok d \<and>
     entries_ok d \<and> leaders_ok d \<and> logs_ok d)"

lemmas table_ok_defs = submissions_ok_def events_ok_def jobs_ok_def rounds_ok_def entries_ok_def
  leaders_ok_def logs_ok_def campaign_ids_def submission_ids_def round_ids_def

lemma empty_db_ok: "db_ok empty_db"
  by (simp add: db_ok_def table_ok_defs empty_db_def uniq_def)

section \<open>Facts about statements\<close>

lemma uniq_Nil [simp]: "uniq P k []"
  by (simp add: uniq_def)

lemma uniq_snoc [simp]:
  "uniq P k (xs @ [x]) \<longleftrightarrow> uniq P k xs \<and> (P x \<longrightarrow> (\<forall>y \<in> set xs. P y \<longrightarrow> k y \<noteq> k x))"
  by (auto simp: uniq_def image_iff)

lemma uniq_filter: "uniq P k xs \<Longrightarrow> uniq P k (filter Q xs)"
  by (induction xs) (auto simp: uniq_def)

lemma uniqD: "uniq P k xs \<Longrightarrow> x \<in> set xs \<Longrightarrow> y \<in> set xs \<Longrightarrow> P x \<Longrightarrow> P y \<Longrightarrow> k x = k y \<Longrightarrow> x = y"
  unfolding uniq_def distinct_map by (auto dest: inj_onD)

lemma update_where_Nil [simp]: "update_where P f [] = []"
  by (simp add: update_where_def)

lemma update_where_Cons [simp]:
  "update_where P f (x # xs) = (if P x then f x else x) # update_where P f xs"
  by (simp add: update_where_def)

lemma set_update_where: "set (update_where P f xs) = (\<lambda>x. if P x then f x else x) ` set xs"
  by (simp add: update_where_def)

lemma length_update_where [simp]: "length (update_where P f xs) = length xs"
  by (simp add: update_where_def)

lemma in_update_where:
  "y \<in> set (update_where P f xs) \<longleftrightarrow> (\<exists>x \<in> set xs. y = (if P x then f x else x))"
  by (auto simp: set_update_where)

lemma ball_update_where:
  "(\<forall>y \<in> set (update_where P f xs). R y) \<longleftrightarrow> (\<forall>x \<in> set xs. R (if P x then f x else x))"
  by (simp only: set_update_where ball_simps)

lemma touched_iff: "touched P xs \<longleftrightarrow> (\<exists>x \<in> set xs. P x)"
  by (auto simp: touched_def filter_empty_conv)

lemma touched_update_where:
  "touched R (update_where P f xs) \<longleftrightarrow> (\<exists>x \<in> set xs. R (if P x then f x else x))"
  by (simp only: touched_iff set_update_where bex_simps)

lemma uniq_update_where:
  assumes "uniq Q k xs" and "\<And>x. x \<in> set xs \<Longrightarrow> P x \<Longrightarrow> Q (f x) \<Longrightarrow> Q x"
    and "\<And>x. x \<in> set xs \<Longrightarrow> P x \<Longrightarrow> k (f x) = k x"
  shows "uniq Q k (update_where P f xs)"
  using assms
proof (induction xs)
  case (Cons x xs)
  have sub: "k ` set (filter Q (update_where P f xs)) \<subseteq> k ` set (filter Q xs)"
    using Cons.prems(2,3) by (fastforce simp: in_update_where split: if_splits)
  have IH: "uniq Q k (update_where P f xs)"
    using Cons.prems by (intro Cons.IH) (auto simp: uniq_def split: if_splits)
  have "Q (if P x then f x else x) \<Longrightarrow> Q x" and "k (if P x then f x else x) = k x"
    using Cons.prems(2,3) by (auto split: if_splits)
  with IH sub Cons.prems(1) show ?case
    by (auto simp: uniq_def split: if_splits)
qed simp

lemma image_update_where:
  assumes "\<And>x. x \<in> set xs \<Longrightarrow> P x \<Longrightarrow> k (f x) = k x"
  shows "k ` set (update_where P f xs) = k ` set xs"
proof -
  have "k ` set (update_where P f xs) = (\<lambda>x. k (if P x then f x else x)) ` set xs"
    by (simp only: set_update_where image_image)
  also have "\<dots> = k ` set xs"
    using assms by (intro image_cong) auto
  finally show ?thesis .
qed

lemma find_eq_None: "find P xs = None \<longleftrightarrow> (\<forall>x \<in> set xs. \<not> P x)"
  by (induction xs) auto

lemma find_key:
  assumes "key k xs" and "x \<in> set xs" and "k x = i"
  shows "find (\<lambda>y. k y = i) xs = Some x"
proof (cases "find (\<lambda>y. k y = i) xs")
  case None
  with assms show ?thesis by (auto simp: find_eq_None)
next
  case (Some y)
  with find_SomeD [OF Some] uniqD [OF assms(1), of x y] assms show ?thesis by auto
qed

lemma find_update_where:
  assumes "\<And>x. x \<in> set xs \<Longrightarrow> k (f x) = k x"
  shows "find (\<lambda>y. k y = i) (update_where P f xs) =
    map_option (\<lambda>x. if P x then f x else x) (find (\<lambda>y. k y = i) xs)"
  using assms by (induction xs) auto

lemma campaign_of_iff [sel_simps]: "campaign_of d cid \<noteq> None \<longleftrightarrow> cid \<in> campaign_ids d"
  by (auto simp: campaign_of_def campaign_ids_def find_eq_None)

lemma submission_of_iff [sel_simps]: "submission_of d sid \<noteq> None \<longleftrightarrow> sid \<in> submission_ids d"
  by (auto simp: submission_of_def submission_ids_def find_eq_None)

lemma round_of_iff [sel_simps]: "round_of d rid \<noteq> None \<longleftrightarrow> rid \<in> round_ids d"
  by (auto simp: round_of_def round_ids_def find_eq_None)

lemma round_of_SomeD: "round_of d rid = Some r \<Longrightarrow> r \<in> set (rounds d) \<and> r_id r = rid"
  unfolding round_of_def by (drule find_SomeD) simp

lemma submission_of_SomeD: "submission_of d sid = Some s \<Longrightarrow> s \<in> set (submissions d) \<and> s_id s = sid"
  unfolding submission_of_def by (drule find_SomeD) simp

lemma leader_of_SomeD: "leader_of d cid = Some l \<Longrightarrow> l \<in> set (leaders d) \<and> l_campaign_id l = cid"
  unfolding leader_of_def by (drule find_SomeD) simp

lemma live_simps [simp]: "live RPending" "live RRunning" "\<not> live RComplete" "\<not> live RVoid"
  by (simp_all add: live_def)

section \<open>What a write to one table keeps\<close>

lemma db_okD:
  assumes "db_ok d"
  shows "submissions_ok d" and "events_ok d" and "jobs_ok d" and "rounds_ok d" and "entries_ok d"
    and "leaders_ok d" and "logs_ok d"
  using assms by (simp_all add: db_ok_def)

lemma db_ok_events:
  assumes "db_ok d" and "events_ok (d\<lparr>events := es, next_event := n\<rparr>)"
  shows "db_ok (d\<lparr>events := es, next_event := n\<rparr>)"
  using assms by (simp add: db_ok_def table_ok_defs)

lemma db_ok_jobs:
  assumes "db_ok d" and "jobs_ok (d\<lparr>jobs := js\<rparr>)"
  shows "db_ok (d\<lparr>jobs := js\<rparr>)"
  using assms by (simp add: db_ok_def table_ok_defs)

lemma db_ok_rounds:
  assumes "db_ok d" and "rounds_ok (d\<lparr>rounds := rs\<rparr>)" and "round_ids d \<subseteq> r_id ` set rs"
  shows "db_ok (d\<lparr>rounds := rs\<rparr>)"
proof -
  have "entries_ok (d\<lparr>rounds := rs\<rparr>)" "leaders_ok (d\<lparr>rounds := rs\<rparr>)"
    using assms by (auto simp: db_ok_def entries_ok_def leaders_ok_def round_ids_def submission_ids_def
        campaign_ids_def)
  with assms(1,2) show ?thesis by (simp add: db_ok_def table_ok_defs)
qed

lemma db_ok_entries:
  assumes "db_ok d" and "entries_ok (d\<lparr>round_entries := ns\<rparr>)"
  shows "db_ok (d\<lparr>round_entries := ns\<rparr>)"
  using assms by (simp add: db_ok_def table_ok_defs)

lemma db_ok_leaders:
  assumes "db_ok d" and "leaders_ok (d\<lparr>leaders := ls\<rparr>)"
  shows "db_ok (d\<lparr>leaders := ls\<rparr>)"
  using assms by (simp add: db_ok_def table_ok_defs)

lemma db_ok_submissions:
  assumes "db_ok d" and "submissions_ok (d\<lparr>submissions := ss\<rparr>)" and "submission_ids d \<subseteq> s_id ` set ss"
  shows "db_ok (d\<lparr>submissions := ss\<rparr>)"
proof -
  have "entries_ok (d\<lparr>submissions := ss\<rparr>)" "leaders_ok (d\<lparr>submissions := ss\<rparr>)"
    using assms by (auto simp: db_ok_def entries_ok_def leaders_ok_def
        round_ids_def submission_ids_def campaign_ids_def)
  moreover have "events_ok (d\<lparr>submissions := ss\<rparr>)" "jobs_ok (d\<lparr>submissions := ss\<rparr>)"
    using db_okD(2,3) [OF assms(1)] assms(3) unfolding events_ok_def jobs_ok_def submission_ids_def
    by (simp_all add: subset_trans [OF _ assms(3) [unfolded submission_ids_def]])
  ultimately  show ?thesis using assms(1,2) by (simp add: db_ok_def table_ok_defs)
qed

section \<open>The event log\<close>

lemma add_event_simps [simp]:
  "campaigns (add_event now sid st ref x d) = campaigns d"
  "submissions (add_event now sid st ref x d) = submissions d"
  "jobs (add_event now sid st ref x d) = jobs d"
  "rounds (add_event now sid st ref x d) = rounds d"
  "round_entries (add_event now sid st ref x d) = round_entries d"
  "leaders (add_event now sid st ref x d) = leaders d"
  "leader_history (add_event now sid st ref x d) = leader_history d"
  "weight_sets (add_event now sid st ref x d) = weight_sets d"
  "next_event (add_event now sid st ref x d) = next_event d + 1"
  "submission_ids (add_event now sid st ref x d) = submission_ids d"
  "campaign_ids (add_event now sid st ref x d) = campaign_ids d"
  "round_ids (add_event now sid st ref x d) = round_ids d"
  "events (add_event now sid st ref x d) = events d @ [\<lparr>e_id = next_event d, e_submission_id = sid,
     e_state = st, e_evidence_ref = ref, e_detail = x, e_created_at = now\<rparr>]"
  by (simp_all add: add_event_def submission_ids_def campaign_ids_def round_ids_def)

lemma insert_event_eq_Inr:
  "insert_event now sid st ref x d = Inr d' \<longleftrightarrow>
     sid \<in> submission_ids d \<and> d' = add_event now sid st ref x d"
  by (auto simp: insert_event_def fk_submission_def fk_def rbind_eq_Inr submission_of_iff simp del: not_None_eq)

lemma insert_event_ok:
  "sid \<in> submission_ids d \<Longrightarrow> insert_event now sid st ref x d = Inr (add_event now sid st ref x d)"
  by (simp add: insert_event_eq_Inr)

lemma db_ok_add_event:
  assumes "db_ok d" and "sid \<in> submission_ids d"
  shows "db_ok (add_event now sid st ref x d)"
  unfolding add_event_def using assms
  by (intro db_ok_events) (auto simp: db_ok_def events_ok_def submission_ids_def)

text \<open>The clock does not run backwards: no stored event is later than the transaction.\<close>

definition log_ok :: "ts \<Rightarrow> db \<Rightarrow> bool" where
  "log_ok now d = (\<forall>e \<in> set (events d). e_created_at e \<le> now \<and> e_id e < next_event d)"

text \<open>What the rest of the code relies on: an append decides the latest entry of its key alone.\<close>

locale event_log =
  fixes ok :: "'s \<Rightarrow> bool" and put :: "'k \<Rightarrow> 'v \<Rightarrow> 's \<Rightarrow> 's" and latest :: "'s \<Rightarrow> 'k \<Rightarrow> 'v option"
  assumes ok_put: "ok s \<Longrightarrow> ok (put k v s)"
    and latest_put: "ok s \<Longrightarrow> latest (put k v s) k' = (if k' = k then Some v else latest s k')"
begin

lemma ok_puts: "ok s \<Longrightarrow> ok (fold (\<lambda>(k, v). put k v) kvs s)"
  by (induction kvs arbitrary: s) (auto intro: ok_put)

lemma latest_puts:
  "ok s \<Longrightarrow> latest (fold (\<lambda>(k, v). put k v) kvs s) k =
     (case map_of (rev kvs) k of None \<Rightarrow> latest s k | Some v \<Rightarrow> Some v)"
proof (induction kvs arbitrary: s)
  case (Cons kv kvs)
  obtain k' v where "kv = (k', v)" by fastforce
  with Cons show ?case
    by (auto simp: ok_put latest_put map_add_def split: option.splits)
qed simp

text \<open>Appending the same value for several keys leaves it as the latest of each of them.\<close>

lemma latest_put_all:
  assumes "ok s"
  shows "latest (fold (\<lambda>k. put k v) ks s) k = (if k \<in> set ks then Some v else latest s k)"
  using assms by (induction ks arbitrary: s) (auto simp: ok_put latest_put)

end

type_synonym event_body = "submission_state \<times> string option \<times> jdict"

definition event_body :: "event_row \<Rightarrow> event_body" where
  "event_body e = (e_state e, e_evidence_ref e, e_detail e)"

definition put_event :: "ts \<Rightarrow> uuid \<Rightarrow> event_body \<Rightarrow> db \<Rightarrow> db" where
  "put_event now sid v d = (case v of (st, ref, x) \<Rightarrow> add_event now sid st ref x d)"

definition latest_body :: "db \<Rightarrow> uuid \<Rightarrow> event_body option" where
  "latest_body d sid = map_option event_body (latest_event d sid)"

lemma best_from_snoc:
  "best_from lt b (xs @ [x]) = (let m = best_from lt b xs in if lt m x then x else m)"
  by (induction xs arbitrary: b) auto

lemma best_snoc_max:
  assumes "\<And>y. y \<in> set xs \<Longrightarrow> lt y x"
  shows "best lt (xs @ [x]) = Some x"
proof (cases xs)
  case (Cons b ys)
  have "best_from lt b ys \<in> set xs" using best_from_in [of lt b ys] Cons by auto
  with assms Cons show ?thesis by (simp add: best_from_snoc Let_def)
qed simp

lemma latest_event_add:
  assumes "log_ok now d"
  shows "latest_event (add_event now sid st ref x d) sid' = (if sid' = sid
    then Some \<lparr>e_id = next_event d, e_submission_id = sid, e_state = st, e_evidence_ref = ref,
      e_detail = x, e_created_at = now\<rparr> else latest_event d sid')"
  using assms by (auto simp: latest_event_def events_of_def log_ok_def event_before_def event_key_def
      intro!: best_snoc_max)

interpretation elog: event_log "log_ok now" "put_event now" latest_body for now
proof
  fix k s v
  assume "log_ok now s"
  then show "log_ok now (put_event now k v s)"
    by (fastforce simp: log_ok_def put_event_def split: prod.splits)
next
  fix k k' v and s :: db
  assume "log_ok now s"
  then show "latest_body (put_event now k v s) k' = (if k' = k then Some v else latest_body s k')"
    by (auto simp: latest_body_def put_event_def latest_event_add event_body_def split: prod.splits)
qed

lemma latest_state_body: "latest_state d sid = map_option fst (latest_body d sid)"
  by (cases "latest_event d sid") (auto simp: latest_state_def latest_body_def event_body_def)

lemma latest_state_add_event:
  assumes "log_ok now d"
  shows "latest_state (add_event now sid st ref x d) sid' =
    (if sid' = sid then Some st else latest_state d sid')"
  using elog.latest_put [OF assms, of sid "(st, ref, x)" sid']
  by (simp add: latest_state_body put_event_def)

lemma log_ok_add_event: "log_ok now d \<Longrightarrow> log_ok now (add_event now sid st ref x d)"
  using elog.ok_put [of now d sid "(st, ref, x)"] by (simp add: put_event_def)

text \<open>A batch of appends by one statement, \<open>INSERT \<dots> SELECT\<close> or a loop of inserts.\<close>

lemma rfold_insert_event:
  assumes "\<And>x. x \<in> set xs \<Longrightarrow> f x \<in> submission_ids d"
  shows "rfold (\<lambda>x. insert_event now (f x) st ref (g x)) xs d =
    Inr (fold (\<lambda>x. add_event now (f x) st ref (g x)) xs d)"
  using assms by (induction xs arbitrary: d) (auto simp: insert_event_ok)

lemma prefix_fold_add_event:
  "prefix (events d) (events (fold (\<lambda>x. add_event now (f x) st ref (g x)) xs d))"
proof (induction xs arbitrary: d)
  case (Cons x xs)
  have "prefix (events d) (events (add_event now (f x) st ref (g x) d))" by simp
  also have "prefix \<dots> (events (fold (\<lambda>x. add_event now (f x) st ref (g x)) (x # xs) d))"
    using Cons.IH [of "add_event now (f x) st ref (g x) d"] by (simp del: add_event_simps)
  finally show ?case .
qed simp

lemma fold_add_event_field:
  assumes "\<And>sid x d. h (add_event now sid st ref x d) = h d"
  shows "h (fold (\<lambda>x. add_event now (f x) st ref (g x)) xs d) = h d"
  using assms by (induction xs arbitrary: d) auto

lemmas fold_add_event_frame [simp] =
  fold_add_event_field [of campaigns, OF add_event_simps(1)]
  fold_add_event_field [of submissions, OF add_event_simps(2)]
  fold_add_event_field [of jobs, OF add_event_simps(3)]
  fold_add_event_field [of rounds, OF add_event_simps(4)]
  fold_add_event_field [of round_entries, OF add_event_simps(5)]
  fold_add_event_field [of leaders, OF add_event_simps(6)]
  fold_add_event_field [of leader_history, OF add_event_simps(7)]
  fold_add_event_field [of weight_sets, OF add_event_simps(8)]
  fold_add_event_field [of submission_ids, OF add_event_simps(10)]
  fold_add_event_field [of campaign_ids, OF add_event_simps(11)]
  fold_add_event_field [of round_ids, OF add_event_simps(12)]

end
