(* ===== verification/Store.thy ===== *)
theory Store
  imports Tables
begin

text \<open>
  The writers of \<open>campaign/store.py\<close> and the exclusion read of \<open>campaign/exclusion.py\<close>: intake
  of a submission, its event log, and the gate job queue. Every operation is one database
  transaction, so it returns either an error, with the state as it was, or the state after the
  commit.
\<close>

section \<open>Manual exclusion of a hotkey\<close>

definition action_disqualified :: string where
  "action_disqualified = ''disqualified''"

definition action_waived :: string where
  "action_waived = ''waived''"

definition manual_campaign_event :: "event_row \<Rightarrow> bool" where
  "manual_campaign_event e = (e_state e = Disqualified \<and>
     jtext (e_detail e) ''source'' = Some (JStr ''manual'') \<and>
     jtext (e_detail e) ''scope'' = Some (JStr ''campaign''))"

definition of_hotkey :: "db \<Rightarrow> uuid \<Rightarrow> string \<Rightarrow> uuid \<Rightarrow> bool" where
  "of_hotkey d cid hk sid =
     (\<exists>s \<in> set (submissions d). s_id s = sid \<and> s_campaign_id s = cid \<and> s_hotkey s = hk)"

definition action_text :: "event_row \<Rightarrow> json" where
  "action_text e = (case jtext (e_detail e) ''action'' of
     None \<Rightarrow> JStr action_disqualified | Some v \<Rightarrow> v)"

definition latest_campaign_hotkey_action :: "db \<Rightarrow> uuid \<Rightarrow> string \<Rightarrow> json option" where
  "latest_campaign_hotkey_action d cid hk = map_option action_text
     (best event_before (filter (\<lambda>e. of_hotkey d cid hk (e_submission_id e) \<and>
        manual_campaign_event e) (events d)))"

definition campaign_hotkey_is_disqualified :: "db \<Rightarrow> uuid \<Rightarrow> string \<Rightarrow> bool" where
  "campaign_hotkey_is_disqualified d cid hk =
     (case latest_campaign_hotkey_action d cid hk of None \<Rightarrow> False
      | Some a \<Rightarrow> a \<noteq> JStr action_waived)"

section \<open>Intake\<close>

record new_submission =
  ns_campaign_id :: uuid
  ns_patch_hash :: string
  ns_hotkey :: string
  ns_baseline_commit :: string
  ns_retrieval_url :: string
  ns_commit_block :: "int option"
  ns_payment_block :: "int option"
  ns_payment_tx :: "int option"
  ns_fingerprint :: "string option"
  ns_event_detail :: "jdict option"

definition committed_as :: "db \<Rightarrow> string \<Rightarrow> uuid \<Rightarrow> bool" where
  "committed_as d fp sid = (\<exists>e \<in> set (events d). e_submission_id e = sid \<and> e_state e = Committed \<and>
     jtext (e_detail e) ''patch_fingerprint'' = Some (JStr fp))"

text \<open>The first submission of the campaign with this fingerprint: \<open>ORDER BY s.committed_at, s.id\<close>.\<close>

definition fingerprint_original :: "db \<Rightarrow> uuid \<Rightarrow> string \<Rightarrow> uuid option" where
  "fingerprint_original d cid fp = map_option s_id
     (best (\<lambda>a b. (s_committed_at b, s_id b) < (s_committed_at a, s_id a))
       (filter (\<lambda>s. s_campaign_id s = cid \<and> committed_as d fp (s_id s)) (submissions d)))"

definition same_payment :: "int option \<Rightarrow> int option \<Rightarrow> submission_row \<Rightarrow> bool" where
  "same_payment pb pt s = (pb \<noteq> None \<and> pt \<noteq> None \<and> s_payment_block s = pb \<and> s_payment_tx s = pt)"

definition new_row :: "ts \<Rightarrow> uuid \<Rightarrow> new_submission \<Rightarrow> submission_row" where
  "new_row now sid ns = \<lparr>s_id = sid, s_campaign_id = ns_campaign_id ns,
     s_patch_hash = lower (strip (ns_patch_hash ns)), s_hotkey = ns_hotkey ns,
     s_baseline_commit = lower (ns_baseline_commit ns), s_retrieval_url = ns_retrieval_url ns,
     s_commit_block = ns_commit_block ns, s_payment_block = ns_payment_block ns,
     s_payment_tx = ns_payment_tx ns, s_committed_at = now, s_engine_image_ref = None,
     s_created_at = now\<rparr>"

text \<open>
  \<open>INSERT INTO submissions \<dots> ON CONFLICT (campaign_id, patch_hash) DO NOTHING RETURNING id\<close>:
  a conflict on another unique index (the primary key, or the replay guard on the payment
  reference) raises.
\<close>

definition insert_submission_row :: "ts \<Rightarrow> uuid \<Rightarrow> new_submission \<Rightarrow> db \<Rightarrow> (bool \<times> db) res" where
  "insert_submission_row now sid ns d = (let row = new_row now sid ns in
     if \<exists>s \<in> set (submissions d). s_campaign_id s = s_campaign_id row \<and> s_patch_hash s = s_patch_hash row
     then Inr (False, d)
     else if submission_of d sid \<noteq> None then Inl (UniqueViolation ''submissions_pkey'')
     else if \<exists>s \<in> set (submissions d). same_payment (s_payment_block row) (s_payment_tx row) s
     then Inl (UniqueViolation ''submissions_payment_ref_idx'')
     else Inr (True, d\<lparr>submissions := submissions d @ [row]\<rparr>))"

definition committed_detail :: "new_submission \<Rightarrow> jdict" where
  "committed_detail ns = (let
     d0 = [(''commit_block'', opt_int (ns_commit_block ns)), (''hotkey'', JStr (ns_hotkey ns))];
     d1 = (case ns_fingerprint ns of None \<Rightarrow> d0 | Some fp \<Rightarrow> jput d0 ''patch_fingerprint'' (JStr fp));
     d2 = (case ns_payment_block ns of None \<Rightarrow> d1 | Some b \<Rightarrow>
             jput (jput d1 ''payment_block'' (JInt b)) ''payment_tx'' (opt_int (ns_payment_tx ns)))
     in jupdate d2 (case ns_event_detail ns of None \<Rightarrow> [] | Some e \<Rightarrow> e))"

text \<open>\<open>INSERT INTO submission_jobs \<dots> ON CONFLICT (submission_id) DO NOTHING\<close>.\<close>

definition insert_job :: "ts \<Rightarrow> uuid \<Rightarrow> db \<Rightarrow> db res" where
  "insert_job now sid d =
     (if \<exists>j \<in> set (jobs d). j_submission_id j = sid then Inr d
      else rbind (fk_submission d (Some sid)) (\<lambda>_.
        Inr (d\<lparr>jobs := jobs d @ [\<lparr>j_id = next_job d, j_submission_id = sid, j_status = JobPending,
               j_attempts = 0, j_last_error = None, j_phase = None, j_phase_started_at = None,
               j_heartbeat_at = None, j_progress = None, j_created_at = now, j_updated_at = now\<rparr>],
               next_job := next_job d + 1\<rparr>)))"

definition insert_submission ::
  "ts \<Rightarrow> uuid \<Rightarrow> new_submission \<Rightarrow> db \<Rightarrow> (uuid option \<times> db) res" where
  "insert_submission now sid ns d =
     rbind (rguard (campaign_of d (ns_campaign_id ns) \<noteq> None) (ValueError ''unknown campaign'')) (\<lambda>_.
     rbind (rguard (\<not> campaign_hotkey_is_disqualified d (ns_campaign_id ns) (ns_hotkey ns))
       CampaignHotkeyDisqualified) (\<lambda>_.
     let duplicate_of = (case ns_fingerprint ns of None \<Rightarrow> None
                         | Some fp \<Rightarrow> fingerprint_original d (ns_campaign_id ns) fp) in
     rbind (insert_submission_row now sid ns d) (\<lambda>(inserted, d1).
     if \<not> inserted then Inr (None, d1)
     else rbind (insert_event now sid Committed None (committed_detail ns) d1) (\<lambda>d2.
       case duplicate_of of
         Some orig \<Rightarrow> rbind (insert_event now sid RejectedDuplicate None
                        [(''original_submission_id'', JStr orig)] d2) (\<lambda>d3. Inr (None, d3))
       | None \<Rightarrow> rbind (insert_job now sid d2) (\<lambda>d3. Inr (Some sid, d3))))))"

definition payment_ref_consumed :: "db \<Rightarrow> int \<Rightarrow> int \<Rightarrow> bool" where
  "payment_ref_consumed d pb pt =
     (\<exists>s \<in> set (submissions d). s_payment_block s = Some pb \<and> s_payment_tx s = Some pt)"

section \<open>Events\<close>

definition append_event ::
  "ts \<Rightarrow> uuid \<Rightarrow> submission_state \<Rightarrow> string option \<Rightarrow> jdict option \<Rightarrow> db \<Rightarrow> db res" where
  "append_event now sid st ref detail d =
     insert_event now sid st ref (case detail of None \<Rightarrow> [] | Some x \<Rightarrow> x) d"

definition terminal_state :: "submission_state \<Rightarrow> bool" where
  "terminal_state st = (st \<in> {Rejected, RejectedDuplicate, Scored, Disqualified})"

definition submission_has_terminal_event :: "db \<Rightarrow> uuid \<Rightarrow> bool" where
  "submission_has_terminal_event d sid =
     (\<exists>e \<in> set (events d). e_submission_id e = sid \<and> terminal_state (e_state e))"

definition set_engine_image :: "uuid \<Rightarrow> string \<Rightarrow> db \<Rightarrow> db" where
  "set_engine_image sid ref d = d\<lparr>submissions :=
     update_where (\<lambda>s. s_id s = sid) (\<lambda>s. s\<lparr>s_engine_image_ref := Some ref\<rparr>) (submissions d)\<rparr>"

section \<open>The gate job queue\<close>

definition clear_activity :: "ts \<Rightarrow> job_row \<Rightarrow> job_row" where
  "clear_activity now j = j\<lparr>j_phase := None, j_phase_started_at := None, j_heartbeat_at := None,
     j_progress := None, j_updated_at := now\<rparr>"

text \<open>The row a writer addresses: by job id when it has one, else by submission.\<close>

definition job_target :: "uuid \<Rightarrow> int option \<Rightarrow> job_row \<Rightarrow> bool" where
  "job_target sid job_id j = (case job_id of Some i \<Rightarrow> j_id j = i | None \<Rightarrow> j_submission_id j = sid)"

definition set_job_status ::
  "ts \<Rightarrow> uuid \<Rightarrow> job_status \<Rightarrow> int option \<Rightarrow> string option \<Rightarrow> bool \<Rightarrow> db \<Rightarrow> db" where
  "set_job_status now sid st job_id err bump d = d\<lparr>jobs := update_where (job_target sid job_id)
     (\<lambda>j. clear_activity now (j\<lparr>j_status := st, j_last_error := err,
        j_attempts := j_attempts j + (if bump then 1 else 0)\<rparr>)) (jobs d)\<rparr>"

definition deferred_error_prefix :: string where
  "deferred_error_prefix = ''llm_review_deferred:''"

definition running_attempt :: "int \<Rightarrow> int \<Rightarrow> job_row \<Rightarrow> bool" where
  "running_attempt job_id attempt j =
     (j_id j = job_id \<and> j_attempts j = attempt \<and> j_status j = JobRunning)"

definition defer_job :: "ts \<Rightarrow> int \<Rightarrow> int \<Rightarrow> string \<Rightarrow> db \<Rightarrow> bool \<times> db" where
  "defer_job now job_id attempt err d =
     (touched (running_attempt job_id attempt) (jobs d),
      d\<lparr>jobs := update_where (running_attempt job_id attempt)
        (\<lambda>j. clear_activity now (j\<lparr>j_status := JobPending,
           j_last_error := Some (deferred_error_prefix @ '' '' @ err)\<rparr>)) (jobs d)\<rparr>)"

text \<open>The phases the \<open>CHECK\<close> constraints of \<open>submission_jobs\<close> and \<open>rounds\<close> admit.\<close>

definition known_phases :: "string list" where
  "known_phases = [''provisioning'', ''bootstrapping'', ''pulling_image'', ''downloading_model'',
     ''starting_engine'', ''correctness'', ''sla_bench'', ''teardown'']"

text \<open>\<open>Json(progress) if progress else None\<close>: an empty dict is stored as null.\<close>

definition truthy_dict :: "jdict option \<Rightarrow> jdict option" where
  "truthy_dict p = (case p of Some [] \<Rightarrow> None | _ \<Rightarrow> p)"

definition set_job_phase ::
  "ts \<Rightarrow> int \<Rightarrow> int \<Rightarrow> string \<Rightarrow> jdict option \<Rightarrow> db \<Rightarrow> (bool \<times> db) res" where
  "set_job_phase now job_id attempt phase progress d = (let P = running_attempt job_id attempt in
     rbind (rguard (\<not> touched P (jobs d) \<or> phase \<in> set known_phases) (CheckViolation ''phase'')) (\<lambda>_.
     Inr (touched P (jobs d), d\<lparr>jobs := update_where P
       (\<lambda>j. j\<lparr>j_phase := Some phase,
          j_phase_started_at := (if j_phase j \<noteq> Some phase then Some now else j_phase_started_at j),
          j_heartbeat_at := Some now, j_progress := truthy_dict progress, j_updated_at := now\<rparr>)
       (jobs d)\<rparr>)))"

definition touch_job_heartbeat :: "ts \<Rightarrow> int \<Rightarrow> int \<Rightarrow> db \<Rightarrow> bool \<times> db" where
  "touch_job_heartbeat now job_id attempt d = (touched (running_attempt job_id attempt) (jobs d),
     d\<lparr>jobs := update_where (running_attempt job_id attempt)
       (\<lambda>j. j\<lparr>j_heartbeat_at := Some now, j_updated_at := now\<rparr>) (jobs d)\<rparr>)"

definition complete_gates_job :: "ts \<Rightarrow> uuid \<Rightarrow> int option \<Rightarrow> bool \<Rightarrow> db \<Rightarrow> db res" where
  "complete_gates_job now sid job_id enqueue_round d = (let
     d1 = d\<lparr>jobs := update_where (job_target sid job_id)
            (\<lambda>j. j\<lparr>j_status := JobDone, j_last_error := None, j_updated_at := now\<rparr>) (jobs d)\<rparr>
     in if enqueue_round then insert_event now sid BenchQueued None [] d1 else Inr d1)"

definition count_pending_jobs :: "db \<Rightarrow> nat" where
  "count_pending_jobs d = length (filter (\<lambda>j. j_status j = JobPending) (jobs d))"

text \<open>
  \<open>s LIKE p || '%'\<close>: an underscore of the pattern matches any character, as in
  \<open>llm_review_deferred:%\<close>.
\<close>

fun like_prefix :: "string \<Rightarrow> string \<Rightarrow> bool" where
  "like_prefix [] s = True"
| "like_prefix (p # ps) [] = False"
| "like_prefix (p # ps) (c # cs) = ((p = CHR ''_'' \<or> p = c) \<and> like_prefix ps cs)"

definition claimable_job :: "ts \<Rightarrow> int \<Rightarrow> job_row \<Rightarrow> bool" where
  "claimable_job now retry_us j = (j_status j = JobPending \<and>
     \<not> (like_prefix deferred_error_prefix (case j_last_error j of None \<Rightarrow> [] | Some e \<Rightarrow> e) \<and>
        j_updated_at j > now - retry_us))"

definition start_attempt :: "ts \<Rightarrow> job_row \<Rightarrow> job_row" where
  "start_attempt now j = j\<lparr>j_status := JobRunning, j_attempts := j_attempts j + 1, j_phase := None,
     j_phase_started_at := None, j_heartbeat_at := Some now, j_progress := None, j_updated_at := now\<rparr>"

text \<open>The claimed job: submission, campaign, job id and attempt of the joined row.\<close>

definition claim_next_job ::
  "ts \<Rightarrow> int \<Rightarrow> db \<Rightarrow> (submission_row \<times> campaign_row \<times> int \<times> int) option \<times> db" where
  "claim_next_job now retry_us d =
     (case best (\<lambda>a b. j_created_at b < j_created_at a) (filter (claimable_job now retry_us) (jobs d)) of
        None \<Rightarrow> (None, d)
      | Some j \<Rightarrow> let d1 = d\<lparr>jobs := update_where (\<lambda>x. j_id x = j_id j) (start_attempt now) (jobs d)\<rparr> in
          (case submission_of d (j_submission_id j) of None \<Rightarrow> (None, d1)
           | Some s \<Rightarrow> (case campaign_of d (s_campaign_id s) of None \<Rightarrow> (None, d1)
               | Some c \<Rightarrow> (Some (s, c, j_id j, j_attempts j + 1), d1))))"

section \<open>Reads of the submission log\<close>

definition get_submission_for_campaign :: "db \<Rightarrow> uuid \<Rightarrow> string \<Rightarrow> submission_row option" where
  "get_submission_for_campaign d cid ph =
     find (\<lambda>s. s_campaign_id s = cid \<and> s_patch_hash s = ph) (submissions d)"

definition count_submission_campaigns :: "db \<Rightarrow> string \<Rightarrow> nat" where
  "count_submission_campaigns d ph = length (filter (\<lambda>s. s_patch_hash s = ph) (submissions d))"

definition list_latest_states :: "db \<Rightarrow> uuid list \<Rightarrow> (uuid \<times> submission_state option) list" where
  "list_latest_states d sids = map (\<lambda>s. (s, latest_state d s)) (rev (remdups (rev sids)))"

definition list_events :: "db \<Rightarrow> uuid \<Rightarrow> event_row list" where
  "list_events d sid = sort_key event_key (events_of d sid)"

definition list_submission_jobs :: "db \<Rightarrow> uuid \<Rightarrow> job_row list" where
  "list_submission_jobs d sid = sort_key j_id (filter (\<lambda>j. j_submission_id j = sid) (jobs d))"

text \<open>\<open>ORDER BY committed_at DESC, id DESC LIMIT l OFFSET o\<close>.\<close>

definition list_submissions :: "db \<Rightarrow> uuid \<Rightarrow> nat \<Rightarrow> nat \<Rightarrow> nat \<times> submission_row list" where
  "list_submissions d cid limit offset =
     (let rows = filter (\<lambda>s. s_campaign_id s = cid) (submissions d) in
      (length rows, take limit (drop offset (rev (sort_key (\<lambda>s. (s_committed_at s, s_id s)) rows)))))"

definition assert_scoring_rule_mutable :: "string \<Rightarrow> unit res" where
  "assert_scoring_rule_mutable st = rguard (st = ''draft'')
     (ValueError ''scoring_rule is fixed once a campaign leaves draft'')"

section \<open>Every writer keeps the schema's constraints\<close>

lemma insert_submission_row_cases:
  assumes "insert_submission_row now sid ns d = Inr (ins, d')"
  shows "(\<not> ins \<and> d' = d \<and> (\<exists>s \<in> set (submissions d). s_campaign_id s = ns_campaign_id ns \<and>
       s_patch_hash s = lower (strip (ns_patch_hash ns)))) \<or>
    (ins \<and> sid \<notin> submission_ids d \<and> d' = d\<lparr>submissions := submissions d @ [new_row now sid ns]\<rparr> \<and>
     \<not> (\<exists>s \<in> set (submissions d). s_campaign_id s = ns_campaign_id ns \<and>
          s_patch_hash s = lower (strip (ns_patch_hash ns))) \<and>
     \<not> (\<exists>s \<in> set (submissions d). same_payment (ns_payment_block ns) (ns_payment_tx ns) s))"
  using assms submission_of_iff [of d sid]
  by (auto simp: insert_submission_row_def Let_def new_row_def split: if_splits)

lemma insert_submission_row_ok:
  assumes "db_ok d" and "ns_campaign_id ns \<in> campaign_ids d"
    and "insert_submission_row now sid ns d = Inr (ins, d')"
  shows "db_ok d' \<and> (ins \<longrightarrow> sid \<in> submission_ids d')"
proof -
  have "db_ok (d\<lparr>submissions := submissions d @ [new_row now sid ns]\<rparr>)"
    if fresh: "sid \<notin> submission_ids d" and
      hash: "\<not> (\<exists>s \<in> set (submissions d). s_campaign_id s = ns_campaign_id ns \<and>
        s_patch_hash s = lower (strip (ns_patch_hash ns)))" and
      pay: "\<not> (\<exists>s \<in> set (submissions d). same_payment (ns_payment_block ns) (ns_payment_tx ns) s)"
  proof (rule db_ok_submissions [OF assms(1)])
    show "submissions_ok (d\<lparr>submissions := submissions d @ [new_row now sid ns]\<rparr>)"
      using db_okD(1) [OF assms(1)] fresh hash pay assms(2)
      by (auto simp: submissions_ok_def new_row_def submission_ids_def campaign_ids_def has_payment_def
          same_payment_def)
  qed (auto simp: submission_ids_def)
  with insert_submission_row_cases [OF assms(3)] assms(1) show ?thesis
    by (auto simp: submission_ids_def new_row_def)
qed

lemma insert_job_ok:
  assumes "db_ok d" and "insert_job now sid d = Inr d'"
  shows "db_ok d'"
proof (cases "\<exists>j \<in> set (jobs d). j_submission_id j = sid")
  case True
  with assms show ?thesis by (auto simp: insert_job_def)
next
  case False
  with assms(2) have sid: "sid \<in> submission_ids d"
    using submission_of_iff [of d sid]
    by (auto simp: insert_job_def fk_submission_def fk_def rbind_eq_Inr)
  let ?j = "\<lparr>j_id = next_job d, j_submission_id = sid, j_status = JobPending,
       j_attempts = 0, j_last_error = None, j_phase = None, j_phase_started_at = None,
       j_heartbeat_at = None, j_progress = None, j_created_at = now, j_updated_at = now\<rparr>"
  have d': "d' = d\<lparr>jobs := jobs d @ [?j], next_job := next_job d + 1\<rparr>"
    using assms(2) False by (auto simp: insert_job_def rbind_eq_Inr)
  have "jobs_ok d'"
    using db_okD(3) [OF assms(1)] False sid unfolding d'
    by (auto simp: jobs_ok_def submission_ids_def)
  with assms(1) show ?thesis unfolding d' by (simp add: db_ok_def table_ok_defs)
qed

lemma insert_submission_db_ok:
  assumes "db_ok d" and "insert_submission now sid ns d = Inr (r, d')"
  shows "db_ok d'"
proof -
  obtain ins d1 where camp: "ns_campaign_id ns \<in> campaign_ids d"
    and row: "insert_submission_row now sid ns d = Inr (ins, d1)"
    using assms(2) campaign_of_iff [of d "ns_campaign_id ns"]
    by (auto simp: insert_submission_def rbind_eq_Inr Let_def)
  note ok = insert_submission_row_ok [OF assms(1) camp row]
  show ?thesis
  proof (cases ins)
    case False
    with assms(2) row ok show ?thesis
      by (auto simp: insert_submission_def rbind_eq_Inr Let_def)
  next
    case True
    then have e: "db_ok (add_event now sid st ref x d1)"
      "sid \<in> submission_ids (add_event now sid st ref x d1)" for st ref x
      using ok by (auto intro: db_ok_add_event)
    show ?thesis using assms(2) row True e ok
      by (auto simp: insert_submission_def rbind_eq_Inr Let_def insert_event_eq_Inr
          intro: db_ok_add_event insert_job_ok split: option.splits)
  qed
qed

text \<open>An update of job rows that keeps their identity.\<close>

lemma db_ok_update_jobs:
  assumes "db_ok d" and "\<And>j. j_id (f j) = j_id j" and "\<And>j. j_submission_id (f j) = j_submission_id j"
  shows "db_ok (d\<lparr>jobs := update_where P f (jobs d)\<rparr>)"
proof (rule db_ok_jobs [OF assms(1)])
  show "jobs_ok (d\<lparr>jobs := update_where P f (jobs d)\<rparr>)"
    using db_okD(3) [OF assms(1)] assms(2,3)
    by (auto simp: jobs_ok_def submission_ids_def in_update_where image_update_where
        intro!: uniq_update_where)
qed

lemma clear_activity_id [simp]:
  "j_id (clear_activity now j) = j_id j"
  "j_submission_id (clear_activity now j) = j_submission_id j"
  "j_status (clear_activity now j) = j_status j"
  "j_attempts (clear_activity now j) = j_attempts j"
  by (simp_all add: clear_activity_def)

lemma set_job_status_db_ok: "db_ok d \<Longrightarrow> db_ok (set_job_status now sid st job_id err bump d)"
  unfolding set_job_status_def by (rule db_ok_update_jobs) auto

lemma defer_job_db_ok: "db_ok d \<Longrightarrow> db_ok (snd (defer_job now job_id attempt err d))"
  unfolding defer_job_def by (auto intro: db_ok_update_jobs)

lemma set_job_phase_db_ok:
  "db_ok d \<Longrightarrow> set_job_phase now job_id attempt phase progress d = Inr (b, d') \<Longrightarrow> db_ok d'"
  by (auto simp: set_job_phase_def Let_def rbind_eq_Inr intro!: db_ok_update_jobs)

lemma touch_job_heartbeat_db_ok: "db_ok d \<Longrightarrow> db_ok (snd (touch_job_heartbeat now job_id attempt d))"
  unfolding touch_job_heartbeat_def by (auto intro: db_ok_update_jobs)

lemma complete_gates_job_db_ok:
  assumes "db_ok d" and "complete_gates_job now sid job_id enq d = Inr d'"
  shows "db_ok d'"
proof -
  let ?d = "d\<lparr>jobs := update_where (job_target sid job_id)
    (\<lambda>j. j\<lparr>j_status := JobDone, j_last_error := None, j_updated_at := now\<rparr>) (jobs d)\<rparr>"
  have "db_ok ?d" using assms(1) by (rule db_ok_update_jobs) auto
  with assms(2) show ?thesis
    by (auto simp: complete_gates_job_def Let_def insert_event_eq_Inr intro: db_ok_add_event split: if_splits)
qed

lemma start_attempt_id [simp]:
  "j_id (start_attempt now j) = j_id j" "j_submission_id (start_attempt now j) = j_submission_id j"
  by (simp_all add: start_attempt_def)

lemma claim_next_job_db_ok: "db_ok d \<Longrightarrow> db_ok (snd (claim_next_job now retry_us d))"
  unfolding claim_next_job_def
  by (auto simp: Let_def intro!: db_ok_update_jobs split: option.splits)

lemma set_engine_image_db_ok:
  assumes "db_ok d"
  shows "db_ok (set_engine_image sid ref d)"
  unfolding set_engine_image_def
proof (rule db_ok_submissions [OF assms])
  let ?f = "\<lambda>s. s\<lparr>s_engine_image_ref := Some ref\<rparr>" and ?P = "\<lambda>s. s_id s = sid"
  show "submissions_ok (d\<lparr>submissions := update_where ?P ?f (submissions d)\<rparr>)"
    using db_okD(1) [OF assms]
    by (auto simp: submissions_ok_def campaign_ids_def image_update_where has_payment_def
        intro!: uniq_update_where)
  show "submission_ids d \<subseteq> s_id ` set (update_where ?P ?f (submissions d))"
    by (simp add: submission_ids_def image_update_where)
qed

lemma append_event_db_ok:
  "db_ok d \<Longrightarrow> append_event now sid st ref x d = Inr d' \<Longrightarrow> db_ok d'"
  by (auto simp: append_event_def insert_event_eq_Inr intro: db_ok_add_event)

section \<open>Intake\<close>

definition already_known :: "db \<Rightarrow> new_submission \<Rightarrow> bool" where
  "already_known d ns = (\<exists>s \<in> set (submissions d). s_campaign_id s = ns_campaign_id ns \<and>
     s_patch_hash s = lower (strip (ns_patch_hash ns)))"

definition original_of :: "db \<Rightarrow> new_submission \<Rightarrow> uuid option" where
  "original_of d ns = (case ns_fingerprint ns of None \<Rightarrow> None
     | Some fp \<Rightarrow> fingerprint_original d (ns_campaign_id ns) fp)"

lemma insert_submission_unfold:
  assumes "campaign_of d (ns_campaign_id ns) \<noteq> None"
    and "\<not> campaign_hotkey_is_disqualified d (ns_campaign_id ns) (ns_hotkey ns)"
  shows "insert_submission now sid ns d = rbind (insert_submission_row now sid ns d) (\<lambda>(inserted, d1).
     if \<not> inserted then Inr (None, d1)
     else rbind (insert_event now sid Committed None (committed_detail ns) d1) (\<lambda>d2.
       case original_of d ns of
         Some orig \<Rightarrow> rbind (insert_event now sid RejectedDuplicate None
                        [(''original_submission_id'', JStr orig)] d2) (\<lambda>d3. Inr (None, d3))
       | None \<Rightarrow> rbind (insert_job now sid d2) (\<lambda>d3. Inr (Some sid, d3))))"
  using assms by (simp add: insert_submission_def original_of_def Let_def cong: if_cong)

lemma insert_submission_guards:
  assumes "insert_submission now sid ns d = Inr (r, d')"
  shows "campaign_of d (ns_campaign_id ns) \<noteq> None"
    and "\<not> campaign_hotkey_is_disqualified d (ns_campaign_id ns) (ns_hotkey ns)"
  using assms by (auto simp: insert_submission_def rbind_eq_Inr)

text \<open>The state after a row has been inserted: one new submission, then its events and its job.\<close>

definition with_row :: "ts \<Rightarrow> uuid \<Rightarrow> new_submission \<Rightarrow> db \<Rightarrow> db" where
  "with_row now sid ns d = add_event now sid Committed None (committed_detail ns)
     (d\<lparr>submissions := submissions d @ [new_row now sid ns]\<rparr>)"

lemma insert_submission_new:
  assumes "insert_submission now sid ns d = Inr (r, d')" and "\<not> already_known d ns"
  shows "sid \<notin> submission_ids d \<and> (case original_of d ns of
      Some orig \<Rightarrow> r = None \<and> d' = add_event now sid RejectedDuplicate None
        [(''original_submission_id'', JStr orig)] (with_row now sid ns d)
    | None \<Rightarrow> r = Some sid \<and> insert_job now sid (with_row now sid ns d) = Inr d')"
proof -
  note g = insert_submission_guards [OF assms(1)]
  obtain ins d1 where row: "insert_submission_row now sid ns d = Inr (ins, d1)"
    using assms(1) unfolding insert_submission_unfold [OF g] by (auto simp: rbind_eq_Inr)
  from insert_submission_row_cases [OF row] assms(2)
  have ins: "ins" "sid \<notin> submission_ids d"
    and d1: "d1 = d\<lparr>submissions := submissions d @ [new_row now sid ns]\<rparr>"
    by (auto simp: already_known_def)
  have w: "with_row now sid ns d = add_event now sid Committed None (committed_detail ns) d1"
    by (simp add: with_row_def d1)
  show ?thesis
  proof (cases "original_of d ns")
    case None
    with assms(1) row ins show ?thesis
      unfolding insert_submission_unfold [OF g] w by (auto simp: rbind_eq_Inr insert_event_eq_Inr)
  next
    case (Some orig)
    with assms(1) row ins show ?thesis
      unfolding insert_submission_unfold [OF g] w by (auto simp: rbind_eq_Inr insert_event_eq_Inr)
  qed
qed

lemma insert_submission_known:
  assumes "insert_submission now sid ns d = Inr (r, d')" and "already_known d ns"
  shows "r = None \<and> d' = d"
proof -
  note g = insert_submission_guards [OF assms(1)]
  obtain ins d1 where row: "insert_submission_row now sid ns d = Inr (ins, d1)"
    using assms(1) unfolding insert_submission_unfold [OF g] by (auto simp: rbind_eq_Inr)
  from insert_submission_row_cases [OF row] assms(2) have "\<not> ins" "d1 = d"
    by (auto simp: already_known_def)
  with assms(1) row show ?thesis
    unfolding insert_submission_unfold [OF g] by simp
qed

lemma insert_job_frame:
  assumes "insert_job now sid d = Inr d'"
  shows "submissions d' = submissions d" "events d' = events d" "next_event d' = next_event d"
    "latest_state d' = latest_state d"
  using assms by (auto simp: insert_job_def rbind_eq_Inr latest_state_def latest_event_def events_of_def
      fun_eq_iff split: if_splits)

lemma with_row_log:
  assumes "log_ok now d"
  shows "log_ok now (with_row now sid ns d)"
    and "latest_state (with_row now sid ns d) s = (if s = sid then Some Committed else latest_state d s)"
proof -
  let ?d = "d\<lparr>submissions := submissions d @ [new_row now sid ns]\<rparr>"
  have ok: "log_ok now ?d" using assms by (simp add: log_ok_def)
  then show "log_ok now (with_row now sid ns d)"
    unfolding with_row_def by (rule log_ok_add_event)
  show "latest_state (with_row now sid ns d) s = (if s = sid then Some Committed else latest_state d s)"
    unfolding with_row_def using ok
    by (simp add: latest_state_add_event) (simp add: latest_state_def latest_event_def events_of_def)
qed

text \<open>
  What intake does when it returns. A patch the campaign already holds changes nothing. A new
  one gets exactly one submission row; if an earlier submission of the campaign was committed
  with the same fingerprint it ends in \<open>rejected_duplicate\<close> with no gate job and the caller gets
  no id, and otherwise it is \<open>committed\<close> with one pending gate job. No other submission changes
  its state.
\<close>

theorem intake_outcome:
  assumes "db_ok d" and "log_ok now d" and "insert_submission now sid ns d = Inr (r, d')"
  shows "if already_known d ns then r = None \<and> d' = d
    else submissions d' = submissions d @ [new_row now sid ns] \<and> sid \<notin> submission_ids d \<and>
      (\<forall>s. s \<noteq> sid \<longrightarrow> latest_state d' s = latest_state d s) \<and>
      (case original_of d ns of
         Some orig \<Rightarrow> r = None \<and> latest_state d' sid = Some RejectedDuplicate \<and> jobs d' = jobs d
       | None \<Rightarrow> r = Some sid \<and> latest_state d' sid = Some Committed \<and>
           map j_status (filter (\<lambda>j. j_submission_id j = sid) (jobs d')) = [JobPending])"
proof (cases "already_known d ns")
  case True
  with insert_submission_known [OF assms(3)] show ?thesis by simp
next
  case False
  note new = insert_submission_new [OF assms(3) False]
  have w [simp]: "submissions (with_row now sid ns d) = submissions d @ [new_row now sid ns]"
    "jobs (with_row now sid ns d) = jobs d"
    by (simp_all add: with_row_def)
  note log = with_row_log [OF assms(2), of sid ns]
  show ?thesis
  proof (cases "original_of d ns")
    case (Some orig)
    with False new show ?thesis
      by (auto simp: latest_state_add_event [OF log(1)] log(2))
  next
    case None
    with new have job: "insert_job now sid (with_row now sid ns d) = Inr d'" and r: "r = Some sid"
      and fresh: "sid \<notin> submission_ids d"
      by auto
    have nojob: "\<forall>j \<in> set (jobs d). j_submission_id j \<noteq> sid"
      using db_okD(3) [OF assms(1)] fresh by (auto simp: jobs_ok_def)
    then have "map j_status (filter (\<lambda>j. j_submission_id j = sid) (jobs d')) = [JobPending]"
      using job by (auto simp: insert_job_def rbind_eq_Inr filter_empty_conv)
    with False None r fresh show ?thesis
      using insert_job_frame [OF job] by (simp add: log(2))
  qed
qed

definition ex_c :: campaign_row where
  "ex_c = \<lparr>c_id = ''c1'', c_status = ''open'', c_baseline_repo = ''repo'', c_baseline_commit = ''ab'',
     c_base_image_digest = [], c_gpu_skus = [''h100''], c_allowed_paths = [], c_denied_paths = [], c_bench = None, c_engine = None, c_sampling_rule = None, c_scoring_rule = [], c_emission_rule = None,
     c_submission_fee_history = JArr [JObj [(''effective_from_block'', JInt 0), (''amount_tao'', JStr ''0.5''),
       (''recipient'', JStr ''vault'')]], c_created_at = 1\<rparr>"

definition ex_db0 :: db where
  "ex_db0 = empty_db\<lparr>campaigns := [ex_c]\<rparr>"

definition ex_ns :: new_submission where
  "ex_ns = \<lparr>ns_campaign_id = ''c1'', ns_patch_hash = ''aa'', ns_hotkey = ''hk'',
     ns_baseline_commit = ''AB'', ns_retrieval_url = ''u'', ns_commit_block = Some 7,
     ns_payment_block = Some 3, ns_payment_tx = Some 1, ns_fingerprint = Some ''fp'',
     ns_event_detail = None\<rparr>"

lemma ex_db0_ok: "db_ok ex_db0" "log_ok now ex_db0"
  by (simp_all add: ex_db0_def empty_db_def db_ok_def table_ok_defs log_ok_def ex_c_def uniq_def)

lemma ex_db0_reads:
  "campaign_of ex_db0 ''c1'' = Some ex_c" "\<not> campaign_hotkey_is_disqualified ex_db0 ''c1'' hk"
  "\<not> already_known ex_db0 ns" "original_of ex_db0 ns = None" "submission_ids ex_db0 = {}"
  by (simp_all add: ex_db0_def empty_db_def campaign_of_def ex_c_def campaign_hotkey_is_disqualified_def
      latest_campaign_hotkey_action_def already_known_def original_of_def fingerprint_original_def
      submission_ids_def split: option.splits)

lemma ex_intake: "\<exists>d'. insert_submission 5 ''s1'' ex_ns ex_db0 = Inr (Some ''s1'', d')"
proof -
  have c: "campaign_of ex_db0 (ns_campaign_id ex_ns) \<noteq> None"
    "\<not> campaign_hotkey_is_disqualified ex_db0 (ns_campaign_id ex_ns) (ns_hotkey ex_ns)"
    using ex_db0_reads by (simp_all add: ex_ns_def)
  have "insert_submission_row 5 ''s1'' ex_ns ex_db0 =
      Inr (True, ex_db0\<lparr>submissions := [new_row 5 ''s1'' ex_ns]\<rparr>)"
    by (simp add: insert_submission_row_def ex_db0_def empty_db_def submission_of_def)
  moreover have sid: "''s1'' \<in> submission_ids (ex_db0\<lparr>submissions := [new_row 5 ''s1'' ex_ns]\<rparr>)"
    by (simp add: submission_ids_def new_row_def)
  moreover have "\<exists>d3. insert_job 5 ''s1'' (add_event 5 ''s1'' Committed None x
      (ex_db0\<lparr>submissions := [new_row 5 ''s1'' ex_ns]\<rparr>)) = Inr d3" for x
    using sid by (simp add: insert_job_def fk_submission_def fk_def submission_of_def new_row_def
        ex_db0_def empty_db_def)
  ultimately show ?thesis
    unfolding insert_submission_unfold [OF c] by (auto simp: ex_db0_reads insert_event_ok rbind_eq_Inr)
qed

theorem intake_outcome_witness:
  "\<exists>d'. insert_submission 5 ''s1'' ex_ns ex_db0 = Inr (Some ''s1'', d') \<and>
     latest_state d' ''s1'' = Some Committed \<and>
     map j_status (filter (\<lambda>j. j_submission_id j = ''s1'') (jobs d')) = [JobPending]"
proof -
  obtain d' where r: "insert_submission 5 ''s1'' ex_ns ex_db0 = Inr (Some ''s1'', d')"
    using ex_intake by blast
  from intake_outcome [OF ex_db0_ok r] r show ?thesis by (simp add: ex_db0_reads)
qed

text \<open>
  A fee payment backs one submission: intake of a patch the campaign does not hold yet, with
  a payment that already backs a submission of any campaign, raises the unique violation of the
  payment index, whatever else the record says.
\<close>

theorem payment_replay_refused:
  assumes "campaign_of d (ns_campaign_id ns) \<noteq> None"
    and "\<not> campaign_hotkey_is_disqualified d (ns_campaign_id ns) (ns_hotkey ns)"
    and "\<not> already_known d ns" and "sid \<notin> submission_ids d"
    and "ns_payment_block ns = Some pb" and "ns_payment_tx ns = Some pt"
  shows "(insert_submission now sid ns d = Inl (UniqueViolation ''submissions_payment_ref_idx'')) =
    payment_ref_consumed d pb pt"
proof -
  have "submission_of d sid = None" using submission_of_iff [of d sid] assms(4) by auto
  then have row: "insert_submission_row now sid ns d = (if payment_ref_consumed d pb pt
    then Inl (UniqueViolation ''submissions_payment_ref_idx'')
    else Inr (True, d\<lparr>submissions := submissions d @ [new_row now sid ns]\<rparr>))"
    using assms(3,5,6)
    by (auto simp: insert_submission_row_def Let_def new_row_def already_known_def same_payment_def
        payment_ref_consumed_def)
  have "sid \<in> submission_ids (d\<lparr>submissions := submissions d @ [new_row now sid ns]\<rparr>)"
    by (simp add: submission_ids_def new_row_def)
  then show ?thesis
    unfolding insert_submission_unfold [OF assms(1,2)] row
    by (auto simp: insert_event_ok insert_job_def fk_submission_def fk_def rbind_eq_Inl rbind_eq_Inr
        split: option.splits if_splits)
qed

definition ex_paid_db :: db where
  "ex_paid_db = ex_db0\<lparr>submissions := [new_row 5 ''s1'' ex_ns]\<rparr>"

theorem payment_replay_refused_witness:
  "insert_submission 9 ''s2'' (ex_ns\<lparr>ns_patch_hash := ''bb''\<rparr>) ex_paid_db =
     Inl (UniqueViolation ''submissions_payment_ref_idx'')"
proof -
  let ?ns = "ex_ns\<lparr>ns_patch_hash := ''bb''\<rparr>"
  have strips: "lower (strip ''aa'') = ''aa''" "lower (strip ''bb'') = ''bb''"
    by (simp_all add: strip_no_space py_isspace_def ccode_def lower_def lower_char_def)
  have "campaign_of ex_paid_db (ns_campaign_id ?ns) \<noteq> None"
    "\<not> campaign_hotkey_is_disqualified ex_paid_db (ns_campaign_id ?ns) (ns_hotkey ?ns)"
    using ex_db0_reads
    by (simp_all add: ex_paid_db_def ex_ns_def campaign_of_def campaign_hotkey_is_disqualified_def
        latest_campaign_hotkey_action_def ex_db0_def empty_db_def)
  moreover have "\<not> already_known ex_paid_db ?ns" "''s2'' \<notin> submission_ids ex_paid_db"
    by (simp_all add: ex_paid_db_def already_known_def ex_ns_def new_row_def strips
        submission_ids_def)
  moreover have "payment_ref_consumed ex_paid_db 3 1"
    by (simp add: payment_ref_consumed_def ex_paid_db_def new_row_def ex_ns_def)
  ultimately show ?thesis
    using payment_replay_refused [of ex_paid_db ?ns "''s2''" 3 1 9] by (simp add: ex_ns_def)
qed

section \<open>The gate job queue\<close>

lemma claim_next_jobE:
  assumes "claim_next_job now retry_us d = (Some (s, c, jid, att), d')"
  obtains j where "j \<in> set (jobs d)" "claimable_job now retry_us j" "j_id j = jid" "att = j_attempts j + 1"
    "submission_of d (j_submission_id j) = Some s" "campaign_of d (s_campaign_id s) = Some c"
    "\<forall>k \<in> set (jobs d). claimable_job now retry_us k \<longrightarrow> j_created_at j \<le> j_created_at k"
    "d' = d\<lparr>jobs := update_where (\<lambda>x. j_id x = jid) (start_attempt now) (jobs d)\<rparr>"
proof -
  let ?lt = "\<lambda>a b. j_created_at b < j_created_at a"
  obtain j where j: "best ?lt (filter (claimable_job now retry_us) (jobs d)) = Some j"
    and rest: "submission_of d (j_submission_id j) = Some s" "campaign_of d (s_campaign_id s) = Some c"
      "jid = j_id j" "att = j_attempts j + 1"
      "d' = d\<lparr>jobs := update_where (\<lambda>x. j_id x = j_id j) (start_attempt now) (jobs d)\<rparr>"
    using assms by (auto simp: claim_next_job_def Let_def split: option.splits)
  have "\<not> ?lt j k" if "k \<in> set (jobs d)" "claimable_job now retry_us k" for k
    by (rule best_max [OF j]) (use that in auto)
  then have "\<forall>k \<in> set (jobs d). claimable_job now retry_us k \<longrightarrow> j_created_at j \<le> j_created_at k"
    by (simp add: not_less)
  with best_in [OF j] rest that [of j] show ?thesis by auto
qed

lemma update_where_id: "\<not> touched P xs \<Longrightarrow> update_where P f xs = xs"
  by (induction xs) (auto simp: touched_def split: if_splits)

lemma fenced_out:
  assumes "\<not> touched (running_attempt jid att) (jobs d)"
  shows "defer_job now jid att err d = (False, d)" and "touch_job_heartbeat now jid att d = (False, d)"
    and "set_job_phase now jid att phase progress d = Inr (False, d)"
  using assms by (simp_all add: defer_job_def touch_job_heartbeat_def set_job_phase_def update_where_id Let_def)


definition ex_job :: job_row where
  "ex_job = \<lparr>j_id = 1, j_submission_id = ''s1'', j_status = JobPending, j_attempts = 0,
     j_last_error = None, j_phase = None, j_phase_started_at = None, j_heartbeat_at = None,
     j_progress = None, j_created_at = 5, j_updated_at = 5\<rparr>"

definition ex_job_db :: db where
  "ex_job_db = ex_paid_db\<lparr>jobs := [ex_job], next_job := 2\<rparr>"

lemma ex_paid_db_ok: "db_ok ex_paid_db"
  by (simp add: ex_paid_db_def ex_db0_def empty_db_def db_ok_def table_ok_defs ex_c_def uniq_def
      new_row_def ex_ns_def has_payment_def)

lemma ex_job_db_ok: "db_ok ex_job_db"
  using ex_paid_db_ok
  by (simp add: ex_job_db_def db_ok_def table_ok_defs ex_paid_db_def ex_job_def uniq_def new_row_def)


text \<open>
  Completing the gates hands the submission over without a gap: in one transaction the job is
  done and the submission is in the round queue, no job row of another submission changes, and
  no other submission changes its state.
\<close>

theorem gates_handover:
  assumes "db_ok d" and "log_ok now d" and "complete_gates_job now sid None True d = Inr d'"
  shows "latest_state d' sid = Some BenchQueued \<and>
    (\<forall>j \<in> set (jobs d'). j_submission_id j = sid \<longrightarrow> j_status j = JobDone) \<and>
    filter (\<lambda>j. j_submission_id j \<noteq> sid) (jobs d') = filter (\<lambda>j. j_submission_id j \<noteq> sid) (jobs d) \<and>
    (\<forall>s. s \<noteq> sid \<longrightarrow> latest_state d' s = latest_state d s)"
proof -
  let ?f = "\<lambda>j. j\<lparr>j_status := JobDone, j_last_error := None, j_updated_at := now\<rparr>"
  let ?d = "d\<lparr>jobs := update_where (job_target sid None) ?f (jobs d)\<rparr>"
  have d': "d' = add_event now sid BenchQueued None [] ?d"
    using assms(3) by (simp add: complete_gates_job_def insert_event_eq_Inr)
  have ok: "log_ok now ?d" using assms(2) by (simp add: log_ok_def)
  have same: "latest_state ?d = latest_state d"
    by (simp add: fun_eq_iff latest_state_def latest_event_def events_of_def)
  have "filter (\<lambda>j. j_submission_id j \<noteq> sid) (update_where (job_target sid None) ?f xs) =
      filter (\<lambda>j. j_submission_id j \<noteq> sid) xs" for xs
    by (induction xs) (auto simp: job_target_def)
  moreover have "\<forall>j \<in> set (jobs d'). j_submission_id j = sid \<longrightarrow> j_status j = JobDone"
    unfolding d' by (auto simp: ball_update_where job_target_def)
  ultimately show ?thesis
    unfolding d' using ok same by (simp add: latest_state_add_event)
qed

theorem gates_handover_witness:
  "\<exists>d'. complete_gates_job 9 ''s1'' None True ex_job_db = Inr d' \<and> latest_state d' ''s1'' = Some BenchQueued"
proof -
  have log: "log_ok 9 ex_job_db"
    by (simp add: log_ok_def ex_job_db_def ex_paid_db_def ex_db0_def empty_db_def)
  have "\<exists>d'. complete_gates_job 9 ''s1'' None True ex_job_db = Inr d'"
    by (simp add: complete_gates_job_def insert_event_eq_Inr submission_ids_def ex_job_db_def ex_paid_db_def
        new_row_def)
  then obtain d' where r: "complete_gates_job 9 ''s1'' None True ex_job_db = Inr d'" by blast
  from gates_handover [OF ex_job_db_ok log r] r show ?thesis by blast
qed

end
