(* ===== verification/VoidDetail.thy ===== *)
theory VoidDetail
  imports PyValue
begin

text \<open>
  \<open>round/void_detail.py\<close>: the scrubbing of the free text that is published with a voided round.
  The regular expressions are written as scanners. In each of them a repeated class is followed
  by a character outside that class, so greedy matching never backtracks into it and a scanner
  with \<^const>\<open>dropWhile\<close> matches what the expression matches. \<open>IGNORECASE\<close> compares with
  \<^const>\<open>lower\<close>, which agrees with it on the characters below 256 for ASCII patterns.
\<close>

section \<open>Character classes\<close>

definition in_range :: "nat \<Rightarrow> nat \<Rightarrow> char \<Rightarrow> bool" where
  "in_range a b c = (a \<le> ccode c \<and> ccode c \<le> b)"

definition is_alpha :: "char \<Rightarrow> bool" where
  "is_alpha c = (in_range 65 90 c \<or> in_range 97 122 c)"

definition is_alnum :: "char \<Rightarrow> bool" where
  "is_alnum c = (is_alpha c \<or> is_ascii_digit c)"

text \<open>\<open>\w\<close> on the characters below 256: ASCII and Latin-1 letters and digits, and the underscore.\<close>

definition is_word :: "char \<Rightarrow> bool" where
  "is_word c = (is_alnum c \<or> c = CHR ''_'' \<or> ccode c \<in> {170, 178, 179, 181, 185, 186, 188, 189, 190} \<or>
     (192 \<le> ccode c \<and> ccode c \<noteq> 215 \<and> ccode c \<noteq> 247))"

definition is_quote :: "char \<Rightarrow> bool" where
  "is_quote c = (c = CHR 0x22 \<or> c = CHR 0x27)"

definition is_backslash :: "char \<Rightarrow> bool" where
  "is_backslash c = (c = CHR 0x5C)"

definition is_control :: "char \<Rightarrow> bool" where
  "is_control c = (in_range 0 8 c \<or> ccode c = 11 \<or> ccode c = 12 \<or> in_range 14 31 c \<or> ccode c = 127)"

definition is_name_char :: "char \<Rightarrow> bool" where
  "is_name_char c = (is_alnum c \<or> c \<in> {CHR ''_'', CHR ''.'', CHR ''-''})"

definition is_unquoted_end :: "char \<Rightarrow> bool" where
  "is_unquoted_end c = (ccode c \<in> {32, 9, 13, 10})"

definition is_blank :: "char \<Rightarrow> bool" where
  "is_blank c = (ccode c = 32 \<or> ccode c = 9)"

section \<open>Matching and substitution\<close>

text \<open>
  A matcher returns the length of its match at the start of the text. \<open>re_sub\<close> replaces every
  leftmost match, as \<open>re.sub\<close> does for an expression that never matches the empty string.
\<close>

type_synonym matcher = "string \<Rightarrow> nat option"

function re_sub :: "matcher \<Rightarrow> (string \<Rightarrow> string) \<Rightarrow> string \<Rightarrow> string" where
  "re_sub m f [] = []"
| "re_sub m f (c # cs) = (case m (c # cs) of
     Some (Suc n) \<Rightarrow> f (take (Suc n) (c # cs)) @ re_sub m f (drop n cs)
   | _ \<Rightarrow> c # re_sub m f cs)"
  by pat_completeness auto
termination
  by (relation "measure (\<lambda>(m, f, s). length s)") auto

fun lit :: "string \<Rightarrow> matcher" where
  "lit p s = (if lower (take (length p) s) = p then Some (length p) else None)"

fun first_of :: "matcher list \<Rightarrow> matcher" where
  "first_of [] s = None"
| "first_of (m # ms) s = (case m s of None \<Rightarrow> first_of ms s | r \<Rightarrow> r)"

definition seq2 :: "matcher \<Rightarrow> matcher \<Rightarrow> matcher" where
  "seq2 a b s = (case a s of None \<Rightarrow> None | Some n \<Rightarrow> map_option ((+) n) (b (drop n s)))"

definition many :: "nat \<Rightarrow> (char \<Rightarrow> bool) \<Rightarrow> matcher" where
  "many k P s = (let n = length (takeWhile P s) in if k \<le> n then Some n else None)"

definition opt_of :: "matcher \<Rightarrow> matcher" where
  "opt_of m s = (case m s of None \<Rightarrow> Some 0 | r \<Rightarrow> r)"

fun one :: "(char \<Rightarrow> bool) \<Rightarrow> matcher" where
  "one P [] = None"
| "one P (c # _) = (if P c then Some 1 else None)"

fun seqs :: "matcher list \<Rightarrow> matcher" where
  "seqs [] s = Some 0"
| "seqs (m # ms) s = seq2 m (seqs ms) s"

section \<open>The expressions of the module\<close>

definition redacted :: string where
  "redacted = ''[redacted]''"

definition max_void_detail :: nat where
  "max_void_detail = 500"

definition scan_headroom :: nat where
  "scan_headroom = 8"

definition ansi :: matcher where
  "ansi = seqs [one (\<lambda>c. ccode c = 27), one (\<lambda>c. c = CHR ''[''),
     many 0 (\<lambda>c. is_ascii_digit c \<or> c = CHR '';'' \<or> c = CHR ''?''), many 0 (in_range 32 47),
     one (in_range 64 126)]"

definition url_head :: matcher where
  "url_head = seqs [lit ''http'', opt_of (lit ''s''), lit ''://'',
     many 0 (\<lambda>c. \<not> py_isspace c \<and> c \<noteq> CHR ''?'')]"

definition url_query :: matcher where
  "url_query = seqs [url_head, lit ''?'', many 0 (\<lambda>c. \<not> py_isspace c)]"

definition cut_query :: "string \<Rightarrow> string" where
  "cut_query s = (case url_head s of None \<Rightarrow> s | Some n \<Rightarrow> take n s @ ''?'' @ redacted)"

definition sep_in_word :: matcher where
  "sep_in_word = opt_of (one (\<lambda>c. c = CHR ''_'' \<or> c = CHR ''-''))"

definition sensitive_word :: matcher where
  "sensitive_word = first_of [lit ''signature'', lit ''credential'', lit ''token'', lit ''secret'',
     lit ''password'', lit ''passwd'', seqs [lit ''api'', sep_in_word, lit ''key''],
     seqs [lit ''access'', sep_in_word, lit ''key''], seqs [lit ''auth'', opt_of (lit ''orization'')]]"

definition quote_mark :: matcher where
  "quote_mark = seqs [many 0 is_backslash, one is_quote]"

definition scheme :: matcher where
  "scheme = seqs [first_of [lit ''bearer'', lit ''basic'', lit ''token''], many 1 is_blank]"

definition auth_value :: matcher where
  "auth_value s = (let v = takeWhile (\<lambda>c. \<not> py_isspace c \<and> \<not> is_quote c) s in
     if 8 \<le> length v \<and> (\<exists>c \<in> set v. is_ascii_digit c) then Some (length v) else None)"

definition word_dash :: "char \<Rightarrow> bool" where
  "word_dash c = (is_word c \<or> c = CHR ''-'')"

definition secret_shape :: matcher where
  "secret_shape = first_of
     [seqs [first_of [lit ''bearer'', lit ''basic''], many 1 is_blank, auth_value],
      seqs [lit ''eyj'', many 4 word_dash, lit ''.'', many 1 word_dash, lit ''.'', many 0 word_dash],
      seqs [first_of [lit ''sk'', lit ''pk'', lit ''rk''], lit ''-'', many 8 word_dash],
      seqs [lit ''akia'', many 12 is_alnum],
      seqs [lit ''gh'', one (\<lambda>c. lower_char c \<in> set ''pousr''), lit ''_'', many 16 is_alnum],
      seqs [lit ''xox'', one (\<lambda>c. lower_char c \<in> set ''abprs''), lit ''-'',
        many 8 (\<lambda>c. is_alnum c \<or> c = CHR ''-'')]]"

section \<open>Credential pairs\<close>

text \<open>
  The scanners of the source walk an index over the text; here they consume the rest of the
  text, \<open>text[i:]\<close>, and return how far they walked.
\<close>

fun quoted_value_end :: "char \<Rightarrow> nat \<Rightarrow> string \<Rightarrow> nat" where
  "quoted_value_end q b [] = 0"
| "quoted_value_end q b (c # cs) =
     (if is_backslash c then Suc (quoted_value_end q (Suc b) cs)
      else if c = q \<and> even b then 1
      else Suc (quoted_value_end q 0 cs))"

text \<open>The value that starts at an opening quote of \<open>n\<close> characters, whose last is the quote.\<close>

definition quoted_span :: "nat \<Rightarrow> string \<Rightarrow> nat" where
  "quoted_span n s = n + quoted_value_end (s ! (n - 1)) 0 (drop n s)"

definition value_end :: "string \<Rightarrow> nat" where
  "value_end s = (case quote_mark s of Some n \<Rightarrow> quoted_span n s
     | None \<Rightarrow> (let k = (case scheme s of Some n \<Rightarrow> n | None \<Rightarrow> 0); r = drop k s in
         k + (case quote_mark r of Some n \<Rightarrow> quoted_span n r
              | None \<Rightarrow> length (takeWhile (\<lambda>c. \<not> is_unquoted_end c) r))))"

text \<open>How far the name, with its opening quote, reaches back into the text before the word.\<close>

definition name_back :: "string \<Rightarrow> nat" where
  "name_back before = (let r = rev before; n = length (takeWhile is_name_char r); r1 = drop n r in
     case r1 of [] \<Rightarrow> n
     | c # r2 \<Rightarrow> if is_quote c then n + 1 + length (takeWhile is_backslash r2) else n)"

definition name_end :: "string \<Rightarrow> nat" where
  "name_end s = length (takeWhile is_name_char s)"

text \<open>Group 1 (the optional closing quote) and the end of the separator.\<close>

definition separator :: "string \<Rightarrow> (nat \<times> nat) option" where
  "separator s = (let g = (case quote_mark s of Some n \<Rightarrow> n | None \<Rightarrow> 0) in
     map_option (\<lambda>n. (g, g + n))
       (seqs [many 0 py_isspace, one (\<lambda>c. c = CHR ''='' \<or> c = CHR '':''), many 0 py_isspace] (drop g s)))"

text \<open>\<open>finditer\<close>: the start and the end of every leftmost match, from position \<open>i\<close> on.\<close>

function finditer :: "matcher \<Rightarrow> nat \<Rightarrow> string \<Rightarrow> (nat \<times> nat) list" where
  "finditer m i [] = []"
| "finditer m i (c # cs) = (case m (c # cs) of
     Some (Suc n) \<Rightarrow> (i, i + Suc n) # finditer m (i + Suc n) (drop n cs)
   | _ \<Rightarrow> finditer m (Suc i) cs)"
  by pat_completeness auto
termination
  by (relation "measure (\<lambda>(m, i, s). length s)") auto

definition slice :: "string \<Rightarrow> nat \<Rightarrow> nat \<Rightarrow> string" where
  "slice s i j = drop i (take j s)"

definition redact_word :: "string \<Rightarrow> nat \<times> nat \<Rightarrow> string \<times> nat \<Rightarrow> string \<times> nat" where
  "redact_word s w st = (case (w, st) of ((ws, we), (out, pos)) \<Rightarrow>
     if ws < pos then (out, pos)
     else let ne = we + name_end (drop we s) in
       case separator (drop ne s) of None \<Rightarrow> (out, pos)
       | Some (g, k) \<Rightarrow> let ve = ne + k + value_end (drop (ne + k) s) in
           if startswith (lower (slice s we ne)) ''s'' \<and> isdigit (strip (slice s (ne + k) ve))
           then (out, pos)
           else let ns = max (ws - name_back (take ws s)) pos in
             (out @ slice s pos ns @ slice s ns ne @ slice s ne (ne + g) @ ''='' @ redacted, ve))"

definition redact_pairs :: "string \<Rightarrow> string" where
  "redact_pairs s = (case foldl (\<lambda>st w. redact_word s w st) ([], 0) (finditer sensitive_word 0 s) of
     (out, pos) \<Rightarrow> out @ drop pos s)"

function squeeze :: "string \<Rightarrow> string" where
  "squeeze [] = []"
| "squeeze (c # cs) = (if py_isspace c then '' '' @ squeeze (dropWhile py_isspace cs) else c # squeeze cs)"
  by pat_completeness auto
termination
  by (relation "measure length") (auto simp: le_imp_less_Suc length_dropWhile_le)

definition truncate_detail :: "nat \<Rightarrow> string \<Rightarrow> string" where
  "truncate_detail limit s = (if limit < length s then rstrip (take (limit - 3) s) @ ''...'' else s)"

definition sanitize_limit :: "nat \<Rightarrow> string \<Rightarrow> string" where
  "sanitize_limit limit detail = (let
     t0 = take (limit * scan_headroom) (re_sub ansi (\<lambda>_. []) detail);
     t1 = re_sub url_query cut_query t0;
     t2 = redact_pairs t1;
     t3 = re_sub secret_shape (\<lambda>_. redacted) t2;
     t4 = map (\<lambda>c. if is_control c then CHR '' '' else c) t3;
     t5 = strip (squeeze t4)
     in truncate_detail limit t5)"

definition sanitize_void_detail :: "string \<Rightarrow> string" where
  "sanitize_void_detail detail = (if detail = [] then [] else sanitize_limit max_void_detail detail)"

end
