(* ===== verification/Rounds.thy ===== *)
theory Rounds
  imports Store VoidDetail
begin

text \<open>
  \<open>round/store.py\<close>: creation, claiming, settlement and voiding of rounds, the crown table and its
  history, manual exclusion, and the reads the weight loop uses. One definition per function;
  a function that returns \<open>bool\<close> returns it beside the new state. Locks are not modelled: every
  operation is one transaction and transactions run one after the other.
\<close>

section \<open>Queues and creation\<close>

definition queued :: "db \<Rightarrow> uuid \<Rightarrow> submission_row \<Rightarrow> bool" where
  "queued d cid s = (s_campaign_id s = cid \<and> latest_state d (s_id s) = Some BenchQueued)"

record queue_row =
  q_campaign_id :: uuid
  q_queued :: nat
  q_oldest :: ts

text \<open>One row per campaign (\<open>GROUP BY\<close>), in the order its first queued submission is read.\<close>

definition campaigns_with_queue :: "db \<Rightarrow> queue_row list" where
  "campaigns_with_queue d = (let
     rows = filter (\<lambda>s. (case campaign_of d (s_campaign_id s) of None \<Rightarrow> False
              | Some c \<Rightarrow> c_status c = ''open'') \<and>
              latest_state d (s_id s) = Some BenchQueued \<and> \<not> has_live_round d (s_campaign_id s))
            (submissions d);
     since = (\<lambda>s. case latest_event d (s_id s) of None \<Rightarrow> 0 | Some e \<Rightarrow> e_created_at e)
     in map (\<lambda>cid. let mine = filter (\<lambda>s. s_campaign_id s = cid) rows in
           \<lparr>q_campaign_id = cid, q_queued = length mine, q_oldest = Min (set (map since mine))\<rparr>)
         (remdups (map s_campaign_id rows)))"

record cohort_row =
  k_id :: uuid
  k_image_ref :: "string option"
  k_commit_block :: "int option"

type_synonym dedupe = "cohort_row list \<Rightarrow> cohort_row list \<times> (uuid \<times> uuid) list"

text \<open>\<open>ORDER BY s.commit_block ASC, s.id ASC LIMIT n\<close>.\<close>

definition commit_key :: "submission_row \<Rightarrow> (bool \<times> int) \<times> uuid" where
  "commit_key s = (nulls_last (s_commit_block s), s_id s)"

definition cohort_of :: "db \<Rightarrow> uuid \<Rightarrow> nat \<Rightarrow> cohort_row list" where
  "cohort_of d cid limit = map (\<lambda>s. \<lparr>k_id = s_id s, k_image_ref = s_engine_image_ref s,
       k_commit_block = s_commit_block s\<rparr>)
     (take limit (sort_key commit_key (filter (queued d cid) (submissions d))))"

record round_spec =
  rs_campaign_id :: uuid
  rs_cohort_limit :: nat
  rs_gpu_sku :: string
  rs_baseline_image_ref :: string
  rs_seed_block :: int
  rs_seed_block_hash :: string
  rs_seed_hex :: string
  rs_trace_sha256 :: string
  rs_sampling_receipt :: jdict
  rs_scoring_rule :: jdict

record created_round =
  cr_round_id :: uuid
  cr_ordinal :: int
  cr_challenger_ids :: "uuid list"
  cr_duplicate_ids :: "uuid list"

text \<open>\<open>SELECT COALESCE(MAX(ordinal), 0) + 1\<close>.\<close>

definition next_ordinal :: "db \<Rightarrow> uuid \<Rightarrow> int" where
  "next_ordinal d cid = (case map r_ordinal (filter (\<lambda>r. r_campaign_id r = cid) (rounds d)) of
     [] \<Rightarrow> 0 | k # ks \<Rightarrow> fold max ks k) + 1"

definition insert_round ::
  "ts \<Rightarrow> uuid \<Rightarrow> int \<Rightarrow> uuid option \<Rightarrow> round_spec \<Rightarrow> db \<Rightarrow> db res" where
  "insert_round now rid ordinal incumbent sp d =
     rbind (fk_campaign d (rs_campaign_id sp)) (\<lambda>_.
     rbind (fk_submission d incumbent) (\<lambda>_.
     rbind (rguard (rid \<notin> round_ids d) (UniqueViolation ''rounds_pkey'')) (\<lambda>_.
     rbind (rguard (\<not> (\<exists>r \<in> set (rounds d). r_campaign_id r = rs_campaign_id sp \<and> r_ordinal r = ordinal))
       (UniqueViolation ''rounds_campaign_id_ordinal_key'')) (\<lambda>_.
     rbind (rguard (\<not> has_live_round d (rs_campaign_id sp))
       (UniqueViolation ''rounds_one_live_per_campaign_idx'')) (\<lambda>_.
     Inr (d\<lparr>rounds := rounds d @ [\<lparr>r_id = rid, r_campaign_id = rs_campaign_id sp,
       r_ordinal = ordinal, r_gpu_sku = rs_gpu_sku sp, r_seed_block = rs_seed_block sp,
       r_seed_block_hash = rs_seed_block_hash sp, r_seed_hex = rs_seed_hex sp,
       r_trace_sha256 = rs_trace_sha256 sp, r_sampling_receipt = rs_sampling_receipt sp,
       r_scoring_rule = rs_scoring_rule sp, r_status = RPending, r_void_reason = None,
       r_void_detail = None, r_incumbent = incumbent, r_winner = None, r_leader_changed = None,
       r_baseline_drift = None, r_phase = None, r_phase_started_at = None, r_heartbeat_at = None,
       r_progress = None, r_provision_attempts = 0, r_retry_after = None, r_created_at = now,
       r_started_at = None, r_completed_at = None\<rparr>]\<rparr>))))))"

definition insert_entry ::
  "uuid \<Rightarrow> uuid option \<Rightarrow> entry_role \<Rightarrow> string option \<Rightarrow> db \<Rightarrow> db res" where
  "insert_entry rid sid ro img d = (case img of
     None \<Rightarrow> Inl (NotNullViolation ''engine_image_ref'')
   | Some ref \<Rightarrow>
     rbind (rguard (ro = Baseline \<longleftrightarrow> sid = None) (CheckViolation ''round_entries'')) (\<lambda>_.
     rbind (fk_round d rid) (\<lambda>_. rbind (fk_submission d sid) (\<lambda>_.
     rbind (rguard (\<not> (\<exists>n \<in> set (round_entries d). n_round_id n = rid \<and> n_submission_id n = sid))
       (UniqueViolation ''round_entries_round_id_submission_id_key'')) (\<lambda>_.
     Inr (d\<lparr>round_entries := round_entries d @ [\<lparr>n_id = next_entry d, n_round_id = rid,
       n_submission_id = sid, n_role = ro, n_image_ref = ref, n_status = EPending, n_score = None,
       n_disqualify_reason = None, n_report = [], n_evidence_s3_url = None, n_started_at = None,
       n_completed_at = None\<rparr>], next_entry := next_entry d + 1\<rparr>))))))"

definition assigned_detail :: "uuid \<Rightarrow> int \<Rightarrow> jdict" where
  "assigned_detail rid ordinal = [(''round_id'', JStr rid), (''ordinal'', JInt ordinal)]"

definition seat_challenger :: "ts \<Rightarrow> uuid \<Rightarrow> int \<Rightarrow> cohort_row \<Rightarrow> db \<Rightarrow> db res" where
  "seat_challenger now rid ordinal row d =
     rbind (insert_entry rid (Some (k_id row)) Challenger (k_image_ref row) d)
       (insert_event now (k_id row) RoundAssigned None (assigned_detail rid ordinal))"

definition reject_duplicate :: "ts \<Rightarrow> uuid \<times> uuid \<Rightarrow> db \<Rightarrow> db res" where
  "reject_duplicate now p = insert_event now (fst p) Rejected None
     [(''reason'', JStr ''duplicate_image''), (''kept_submission_id'', JStr (snd p))]"

definition seat_leader :: "uuid \<Rightarrow> leader_row option \<Rightarrow> db \<Rightarrow> db res" where
  "seat_leader rid l d = (case l of None \<Rightarrow> Inr d
     | Some x \<Rightarrow> insert_entry rid (Some (l_submission_id x)) Leader (Some (l_image_ref x)) d)"

definition fill_round ::
  "ts \<Rightarrow> uuid \<Rightarrow> int \<Rightarrow> round_spec \<Rightarrow> cohort_row list \<Rightarrow> (uuid \<times> uuid) list \<Rightarrow> db \<Rightarrow> db res" where
  "fill_round now rid ordinal sp keepers duplicates d = (let leader = leader_of d (rs_campaign_id sp) in
     rbind (insert_round now rid ordinal (map_option l_submission_id leader) sp d) (\<lambda>d1.
     rbind (insert_entry rid None Baseline (Some (rs_baseline_image_ref sp)) d1) (\<lambda>d2.
     rbind (seat_leader rid leader d2) (\<lambda>d3.
     rbind (rfold (seat_challenger now rid ordinal) keepers d3)
       (rfold (reject_duplicate now) duplicates)))))"

definition create_round ::
  "ts \<Rightarrow> uuid \<Rightarrow> dedupe \<Rightarrow> round_spec \<Rightarrow> db \<Rightarrow> (created_round option \<times> db) res" where
  "create_round now rid dedupe sp d =
     (case campaign_of d (rs_campaign_id sp) of None \<Rightarrow> Inr (None, d)
      | Some c \<Rightarrow> if c_status c \<noteq> ''open'' then Inr (None, d)
     else if has_live_round d (rs_campaign_id sp) then Inr (None, d)
     else (case dedupe (cohort_of d (rs_campaign_id sp) (rs_cohort_limit sp)) of (keepers, duplicates) \<Rightarrow>
       if keepers = [] then Inr (None, d)
       else let ordinal = next_ordinal d (rs_campaign_id sp) in
         (case fill_round now rid ordinal sp keepers duplicates d of
            Inl (UniqueViolation v) \<Rightarrow> Inr (None, d)
          | Inl e \<Rightarrow> Inl e
          | Inr d' \<Rightarrow> Inr (Some \<lparr>cr_round_id = rid, cr_ordinal = ordinal,
              cr_challenger_ids = map k_id keepers, cr_duplicate_ids = map fst duplicates\<rparr>, d'))))"

section \<open>Running, deferring and voiding\<close>

definition is_running :: "uuid \<Rightarrow> round_row \<Rightarrow> bool" where
  "is_running rid r = (r_id r = rid \<and> r_status r = RRunning)"

definition requeue_detail :: "uuid \<Rightarrow> string \<Rightarrow> jdict" where
  "requeue_detail rid reason = [(''round_id'', JStr rid), (''void_reason'', JStr reason)]"

definition requeue_entry :: "ts \<Rightarrow> uuid \<Rightarrow> string \<Rightarrow> round_entry_row \<Rightarrow> db \<Rightarrow> db res" where
  "requeue_entry now rid reason n d = (case n_submission_id n of
     None \<Rightarrow> Inl (NotNullViolation ''submission_id'')
   | Some sid \<Rightarrow> insert_event now sid BenchQueued None (requeue_detail rid reason) d)"

definition reset_disqualified :: "uuid \<Rightarrow> db \<Rightarrow> db" where
  "reset_disqualified rid d = d\<lparr>round_entries :=
     update_where (\<lambda>n. n_round_id n = rid \<and> n_status n = EDisqualified)
       (\<lambda>n. n\<lparr>n_status := EPending, n_disqualify_reason := None\<rparr>) (round_entries d)\<rparr>"

definition requeueable :: "uuid \<Rightarrow> round_entry_row \<Rightarrow> bool" where
  "requeueable rid n = (n_round_id n = rid \<and> n_role n = Challenger \<and> \<not> settled (n_status n))"

definition requeue_challengers :: "ts \<Rightarrow> uuid \<Rightarrow> string \<Rightarrow> db \<Rightarrow> db res" where
  "requeue_challengers now rid reason d = (let d1 = reset_disqualified rid d in
     rfold (requeue_entry now rid reason) (filter (requeueable rid) (round_entries d1)) d1)"

definition void_heartbeat_stale :: string where
  "void_heartbeat_stale = ''heartbeat_stale''"

definition mark_void :: "ts \<Rightarrow> string \<Rightarrow> string option \<Rightarrow> round_row \<Rightarrow> round_row" where
  "mark_void now reason detail r = r\<lparr>r_status := RVoid, r_void_reason := Some reason,
     r_void_detail := detail, r_completed_at := Some now\<rparr>"

definition stale :: "ts \<Rightarrow> int \<Rightarrow> round_row \<Rightarrow> bool" where
  "stale now stale_s r = (r_status r = RRunning \<and>
     (case (case r_heartbeat_at r of Some h \<Rightarrow> Some h | None \<Rightarrow> r_started_at r) of
        None \<Rightarrow> False | Some t \<Rightarrow> t < now - stale_s * 1000000))"

definition stale_detail :: "int \<Rightarrow> string" where
  "stale_detail stale_s = ''no heartbeat for over '' @ str_of_int stale_s @
     ''s; the pod stopped reporting and the round was reaped''"

definition reap_stale_rounds :: "ts \<Rightarrow> int \<Rightarrow> db \<Rightarrow> (round_row list \<times> db) res" where
  "reap_stale_rounds now stale_s d = (let
     voided = filter (stale now stale_s) (rounds d);
     d1 = d\<lparr>rounds := update_where (stale now stale_s)
            (mark_void now void_heartbeat_stale (Some (stale_detail stale_s))) (rounds d)\<rparr>
     in rbind (rfold (\<lambda>r. requeue_challengers now (r_id r) void_heartbeat_stale) voided d1)
          (\<lambda>d2. Inr (voided, d2)))"

definition infra_failed_follow_up_states :: "bool \<Rightarrow> submission_state list" where
  "infra_failed_follow_up_states had_prior =
     (if had_prior then [InfraFailed] else [InfraFailed, BenchQueued])"

definition claimable_round :: "ts \<Rightarrow> db \<Rightarrow> round_row \<Rightarrow> bool" where
  "claimable_round now d r = (r_status r = RPending \<and>
     (case campaign_of d (r_campaign_id r) of None \<Rightarrow> False | Some c \<Rightarrow> c_status c = ''open'') \<and>
     (case r_retry_after r of None \<Rightarrow> True | Some t \<Rightarrow> t \<le> now))"

definition start_round :: "ts \<Rightarrow> round_row \<Rightarrow> round_row" where
  "start_round now r = r\<lparr>r_status := RRunning, r_started_at := Some now, r_heartbeat_at := Some now,
     r_phase := None, r_progress := None\<rparr>"

definition claim_pending_round :: "ts \<Rightarrow> db \<Rightarrow> round_row option \<times> db" where
  "claim_pending_round now d =
     (case best (\<lambda>a b. r_created_at b < r_created_at a) (filter (claimable_round now d) (rounds d)) of
        None \<Rightarrow> (None, d)
      | Some r \<Rightarrow> (Some (start_round now r),
          d\<lparr>rounds := update_where (\<lambda>x. r_id x = r_id r) (start_round now) (rounds d)\<rparr>))"

definition defer_round_for_capacity :: "ts \<Rightarrow> uuid \<Rightarrow> int \<Rightarrow> db \<Rightarrow> bool \<times> db" where
  "defer_round_for_capacity now rid delay_us d = (touched (is_running rid) (rounds d),
     d\<lparr>rounds := update_where (is_running rid) (\<lambda>r. r\<lparr>r_status := RPending,
       r_provision_attempts := r_provision_attempts r + 1, r_retry_after := Some (now + delay_us),
       r_started_at := None, r_heartbeat_at := None, r_phase := None, r_phase_started_at := None,
       r_progress := None\<rparr>) (rounds d)\<rparr>)"

definition set_round_phase :: "ts \<Rightarrow> uuid \<Rightarrow> string \<Rightarrow> jdict option \<Rightarrow> db \<Rightarrow> (bool \<times> db) res" where
  "set_round_phase now rid phase progress d =
     rbind (rguard (\<not> touched (is_running rid) (rounds d) \<or> phase \<in> set known_phases)
       (CheckViolation ''phase'')) (\<lambda>_.
     Inr (touched (is_running rid) (rounds d), d\<lparr>rounds := update_where (is_running rid)
       (\<lambda>r. r\<lparr>r_phase := Some phase,
          r_phase_started_at := (if r_phase r \<noteq> Some phase then Some now else r_phase_started_at r),
          r_heartbeat_at := Some now, r_progress := truthy_dict progress\<rparr>) (rounds d)\<rparr>))"

definition touch_round_heartbeat :: "ts \<Rightarrow> uuid \<Rightarrow> db \<Rightarrow> bool \<times> db" where
  "touch_round_heartbeat now rid d = (touched (is_running rid) (rounds d),
     d\<lparr>rounds := update_where (is_running rid) (\<lambda>r. r\<lparr>r_heartbeat_at := Some now\<rparr>) (rounds d)\<rparr>)"

definition lock_running_round :: "db \<Rightarrow> uuid \<Rightarrow> bool" where
  "lock_running_round d rid = touched (is_running rid) (rounds d)"

definition update_round_entry_live_status ::
  "int \<Rightarrow> string \<Rightarrow> string option \<Rightarrow> db \<Rightarrow> (bool \<times> db) res" where
  "update_round_entry_live_status eid st reason d = (case status_of_string st of
     None \<Rightarrow> Inl (ValueError ''unknown entry status'')
   | Some st' \<Rightarrow> (case find (\<lambda>n. n_id n = eid) (round_entries d) of
       None \<Rightarrow> Inr (False, d)
     | Some n0 \<Rightarrow> if \<not> lock_running_round d (n_round_id n0) then Inr (False, d)
       else let P = (\<lambda>n. n_id n = eid \<and> (n_status n = EPending \<or> n_status n = ERunning)) in
         Inr (touched P (round_entries d), d\<lparr>round_entries := update_where P
           (\<lambda>n. n\<lparr>n_status := st', n_disqualify_reason :=
              (case reason of Some x \<Rightarrow> Some x | None \<Rightarrow> n_disqualify_reason n)\<rparr>) (round_entries d)\<rparr>)))"

definition void_round :: "ts \<Rightarrow> uuid \<Rightarrow> string \<Rightarrow> string \<Rightarrow> db \<Rightarrow> (bool \<times> db) res" where
  "void_round now rid reason detail d = (let scrubbed = sanitize_void_detail detail in
     if \<not> touched (is_running rid) (rounds d) then Inr (False, d)
     else rbind (requeue_challengers now rid reason (d\<lparr>rounds := update_where (is_running rid)
            (mark_void now reason (if scrubbed = [] then None else Some scrubbed)) (rounds d)\<rparr>))
          (\<lambda>d1. Inr (True, d1)))"

section \<open>Settlement\<close>

text \<open>The result of one entry, as the worker reports it to \<open>complete_round\<close>.\<close>

record entry_result =
  x_id :: int
  x_submission_id :: "uuid option"
  x_role :: entry_role
  x_status :: entry_status
  x_score :: "pyfloat option"
  x_disqualify_reason :: "string option"
  x_report :: "jdict option"
  x_hotkey :: "string option"
  x_image_ref :: "string option"

definition opt_num :: "pyfloat option \<Rightarrow> json" where
  "opt_num x = (case x of None \<Rightarrow> JNull | Some v \<Rightarrow> JFloat v)"

definition infra_detail :: "uuid \<Rightarrow> int \<Rightarrow> entry_result \<Rightarrow> jdict" where
  "infra_detail rid ordinal x = [(''round_id'', JStr rid), (''ordinal'', JInt ordinal),
     (''reason'', opt_str (x_disqualify_reason x))]"

definition verdict_detail :: "uuid \<Rightarrow> int \<Rightarrow> entry_result \<Rightarrow> jdict" where
  "verdict_detail rid ordinal x = [(''round_id'', JStr rid), (''ordinal'', JInt ordinal),
     (''score'', opt_num (x_score x)), (''reason'', opt_str (x_disqualify_reason x))]"

definition had_infra_failure :: "db \<Rightarrow> uuid \<Rightarrow> bool" where
  "had_infra_failure d sid = (\<exists>e \<in> set (events d). e_submission_id e = sid \<and> e_state e = InfraFailed)"

definition write_entry :: "ts \<Rightarrow> uuid \<Rightarrow> string option \<Rightarrow> entry_result \<Rightarrow> db \<Rightarrow> db" where
  "write_entry now rid evidence x d = d\<lparr>round_entries :=
     update_where (\<lambda>n. n_id n = x_id x \<and> n_round_id n = rid)
       (\<lambda>n. n\<lparr>n_status := x_status x, n_score := x_score x,
          n_disqualify_reason := x_disqualify_reason x,
          n_report := (case x_report x of None \<Rightarrow> [] | Some r \<Rightarrow> r),
          n_evidence_s3_url := (case evidence of Some u \<Rightarrow> Some u | None \<Rightarrow> n_evidence_s3_url n),
          n_completed_at := Some now\<rparr>) (round_entries d)\<rparr>"

definition follow_up :: "db \<Rightarrow> uuid \<Rightarrow> entry_result \<Rightarrow> submission_state list" where
  "follow_up d sid x = (if x_role x \<noteq> Challenger then [InfraFailed]
     else infra_failed_follow_up_states (had_infra_failure d sid))"

definition settle_entry ::
  "ts \<Rightarrow> uuid \<Rightarrow> int \<Rightarrow> string option \<Rightarrow> entry_result \<Rightarrow> db \<Rightarrow> db res" where
  "settle_entry now rid ordinal evidence x d = (let d1 = write_entry now rid evidence x d in
     case x_submission_id x of None \<Rightarrow> Inr d1
     | Some sid \<Rightarrow> (case x_status x of
         EInfraFailed \<Rightarrow> rfold (\<lambda>st. insert_event now sid st None (infra_detail rid ordinal x))
           (follow_up d1 sid x) d1
       | EScored \<Rightarrow> insert_event now sid Scored None (verdict_detail rid ordinal x) d1
       | EDisqualified \<Rightarrow> insert_event now sid Disqualified None (verdict_detail rid ordinal x) d1
       | _ \<Rightarrow> Inr d1))"

definition or_str :: "string option \<Rightarrow> string option \<Rightarrow> string option" where
  "or_str a b = (case a of Some (c # cs) \<Rightarrow> a | _ \<Rightarrow> b)"

text \<open>The hotkey and image of the winner: from its entry, else from its submission.\<close>

definition winner_identity :: "db \<Rightarrow> entry_result list \<Rightarrow> uuid \<Rightarrow> (string option \<times> string option)" where
  "winner_identity d xs sid = (let
     w = find (\<lambda>x. x_submission_id x = Some sid) xs;
     hk = (case w of None \<Rightarrow> None | Some x \<Rightarrow> x_hotkey x);
     img = (case w of None \<Rightarrow> None | Some x \<Rightarrow> x_image_ref x)
     in if hk \<noteq> None \<and> img \<noteq> None then (hk, img)
        else case submission_of d sid of None \<Rightarrow> (hk, img)
          | Some s \<Rightarrow> (or_str hk (Some (s_hotkey s)), or_str img (s_engine_image_ref s)))"

definition crown :: "leader_row \<Rightarrow> leader_row \<Rightarrow> leader_row" where
  "crown new old = (if l_submission_id old \<noteq> l_submission_id new then new
     else new\<lparr>l_won_at_round_id := l_won_at_round_id old, l_won_at_ordinal := l_won_at_ordinal old\<rparr>)"

text \<open>\<open>INSERT INTO leaders \<dots> ON CONFLICT (campaign_id) DO UPDATE\<close>.\<close>

definition upsert_leader :: "leader_row \<Rightarrow> db \<Rightarrow> db res" where
  "upsert_leader new d =
     rbind (fk_campaign d (l_campaign_id new)) (\<lambda>_.
     rbind (fk_submission d (Some (l_submission_id new))) (\<lambda>_.
     rbind (fk_round d (l_won_at_round_id new)) (\<lambda>_.
     Inr (case leader_of d (l_campaign_id new) of
        None \<Rightarrow> d\<lparr>leaders := leaders d @ [new]\<rparr>
      | Some old \<Rightarrow> d\<lparr>leaders := update_where (\<lambda>l. l_campaign_id l = l_campaign_id new)
          (crown new) (leaders d)\<rparr>))))"

definition delete_leader :: "uuid \<Rightarrow> db \<Rightarrow> db" where
  "delete_leader cid d = d\<lparr>leaders := filter (\<lambda>l. l_campaign_id l \<noteq> cid) (leaders d)\<rparr>"

definition write_crown ::
  "ts \<Rightarrow> uuid \<Rightarrow> uuid \<Rightarrow> int \<Rightarrow> rank_decision \<Rightarrow> entry_result list \<Rightarrow> db \<Rightarrow> db res" where
  "write_crown now rid cid ordinal dec xs d =
     (if rd_event dec = Some Vacated then Inr (delete_leader cid d)
      else case rd_leader_submission_id dec of None \<Rightarrow> Inr d
      | Some sid \<Rightarrow> (case winner_identity d xs sid of
          (Some hk, Some img) \<Rightarrow> (case rd_leader_score dec of
             None \<Rightarrow> Inl (NotNullViolation ''last_score'')
           | Some sc \<Rightarrow> upsert_leader \<lparr>l_campaign_id = cid, l_submission_id = sid, l_image_ref = img,
               l_hotkey = hk, l_won_at_round_id = rid, l_won_at_ordinal = ordinal, l_last_score = sc,
               l_last_scored_round_id = Some rid, l_updated_at = now\<rparr> d)
        | _ \<Rightarrow> Inl (PyRuntimeError ''complete_round: winner is missing hotkey or image ref'')))"

definition insert_history :: "history_row \<Rightarrow> db \<Rightarrow> db res" where
  "insert_history h d =
     rbind (fk_campaign d (h_campaign_id h)) (\<lambda>_. rbind (fk_round d (h_round_id h)) (\<lambda>_.
     rbind (fk_submission d (h_new_submission_id h)) (\<lambda>_.
     rbind (fk_submission d (h_prev_submission_id h)) (\<lambda>_.
     Inr (d\<lparr>leader_history := leader_history d @ [h\<lparr>h_id := next_history d\<rparr>],
            next_history := next_history d + 1\<rparr>)))))"

definition hotkey_of :: "db \<Rightarrow> uuid option \<Rightarrow> string option" where
  "hotkey_of d sid = (case sid of None \<Rightarrow> None | Some i \<Rightarrow> map_option s_hotkey (submission_of d i))"

definition write_history ::
  "ts \<Rightarrow> uuid \<Rightarrow> uuid \<Rightarrow> int \<Rightarrow> rank_decision \<Rightarrow> pyfloat \<Rightarrow> db \<Rightarrow> db res" where
  "write_history now rid cid ordinal dec eps d = (case rd_event dec of None \<Rightarrow> Inr d
     | Some ev \<Rightarrow> insert_history \<lparr>h_id = 0, h_campaign_id = cid, h_round_id = rid, h_ordinal = ordinal,
         h_event = ev, h_new_submission_id = rd_leader_submission_id dec,
         h_new_hotkey = hotkey_of d (rd_leader_submission_id dec), h_new_score = rd_leader_score dec,
         h_prev_submission_id = rd_prev_submission_id dec,
         h_prev_hotkey = hotkey_of d (rd_prev_submission_id dec), h_prev_score = rd_prev_score dec,
         h_overtake_threshold = rd_overtake_threshold dec, h_epsilon = eps, h_created_at = now\<rparr> d)"

definition finish_round :: "ts \<Rightarrow> rank_decision \<Rightarrow> pyfloat option \<Rightarrow> round_row \<Rightarrow> round_row" where
  "finish_round now dec drift r = r\<lparr>r_status := RComplete, r_winner := rd_leader_submission_id dec,
     r_leader_changed := Some (rd_leader_changed dec), r_baseline_drift := drift,
     r_completed_at := Some now\<rparr>"

definition complete_round ::
  "ts \<Rightarrow> uuid \<Rightarrow> uuid \<Rightarrow> int \<Rightarrow> rank_decision \<Rightarrow> entry_result list \<Rightarrow> pyfloat option \<Rightarrow> pyfloat \<Rightarrow>
   string option \<Rightarrow> db \<Rightarrow> (bool \<times> db) res" where
  "complete_round now rid cid ordinal dec xs drift eps evidence d =
     (if \<not> lock_running_round d rid then Inr (False, d)
      else rbind (rfold (settle_entry now rid ordinal evidence) xs d) (\<lambda>d1.
           rbind (write_crown now rid cid ordinal dec xs d1) (\<lambda>d2.
           rbind (write_history now rid cid ordinal dec eps d2) (\<lambda>d3.
           if \<not> touched (is_running rid) (rounds d3) then Inr (False, d)
           else Inr (True, d3\<lparr>rounds := update_where (is_running rid) (finish_round now dec drift)
                  (rounds d3)\<rparr>)))))"

section \<open>Every writer keeps the schema's constraints\<close>

lemma db_ok_update_rounds:
  assumes "db_ok d"
    and "\<And>r. r_id (f r) = r_id r" "\<And>r. r_campaign_id (f r) = r_campaign_id r"
      "\<And>r. r_ordinal (f r) = r_ordinal r"
    and "\<And>r. r \<in> set (rounds d) \<Longrightarrow> P r \<Longrightarrow> live (r_status (f r)) \<Longrightarrow> live (r_status r)"
    and "\<And>r. r \<in> set (rounds d) \<Longrightarrow> P r \<Longrightarrow> r_status (f r) = RRunning \<Longrightarrow>
      r_heartbeat_at (f r) \<noteq> None \<and> r_started_at (f r) \<noteq> None"
  shows "db_ok (d\<lparr>rounds := update_where P f (rounds d)\<rparr>)"
proof (rule db_ok_rounds [OF assms(1)])
  have "key r_id (update_where P f (rounds d))"
    "key (\<lambda>r. (r_campaign_id r, r_ordinal r)) (update_where P f (rounds d))"
    "uniq (\<lambda>r. live (r_status r)) r_campaign_id (update_where P f (rounds d))"
    using db_okD(4) [OF assms(1)] assms(2-5) by (auto simp: rounds_ok_def intro!: uniq_update_where)
  then show "rounds_ok (d\<lparr>rounds := update_where P f (rounds d)\<rparr>)"
    using db_okD(4) [OF assms(1)] assms(3,6)
    by (simp add: rounds_ok_def campaign_ids_def image_update_where ball_update_where)
  show "round_ids d \<subseteq> r_id ` set (update_where P f (rounds d))"
    using assms(2) by (simp add: round_ids_def image_update_where)
qed

lemma db_ok_update_entries:
  assumes "db_ok d"
    and "\<And>n. n_id (f n) = n_id n" "\<And>n. n_round_id (f n) = n_round_id n"
      "\<And>n. n_submission_id (f n) = n_submission_id n" "\<And>n. n_role (f n) = n_role n"
  shows "db_ok (d\<lparr>round_entries := update_where P f (round_entries d)\<rparr>)"
proof (rule db_ok_entries [OF assms(1)])
  have "key n_id (update_where P f (round_entries d))"
    "key (\<lambda>n. (n_round_id n, n_submission_id n)) (update_where P f (round_entries d))"
    using db_okD(5) [OF assms(1)] assms(2-4) by (auto simp: entries_ok_def intro!: uniq_update_where)
  then show "entries_ok (d\<lparr>round_entries := update_where P f (round_entries d)\<rparr>)"
    using db_okD(5) [OF assms(1)] assms(2-5)
    by (simp add: entries_ok_def round_ids_def submission_ids_def ball_update_where role_ok_def)
qed

lemma fold_add_event_db_ok:
  assumes "db_ok d" and "\<And>x. x \<in> set xs \<Longrightarrow> f x \<in> submission_ids d"
  shows "db_ok (fold (\<lambda>x. add_event now (f x) st ref (g x)) xs d)"
  using assms
proof (induction xs arbitrary: d)
  case (Cons x xs)
  have "db_ok (add_event now (f x) st ref (g x) d)"
    using Cons.prems by (auto intro: db_ok_add_event)
  then show ?case using Cons.prems(2) by (auto intro: Cons.IH)
qed simp

lemma insert_entry_eq_Inr:
  "insert_entry rid sid ro img d = Inr d' \<longleftrightarrow> (\<exists>ref. img = Some ref \<and> (ro = Baseline \<longleftrightarrow> sid = None) \<and>
     rid \<in> round_ids d \<and> (\<forall>i. sid = Some i \<longrightarrow> i \<in> submission_ids d) \<and>
     \<not> (\<exists>n \<in> set (round_entries d). n_round_id n = rid \<and> n_submission_id n = sid) \<and>
     d' = d\<lparr>round_entries := round_entries d @ [\<lparr>n_id = next_entry d, n_round_id = rid,
       n_submission_id = sid, n_role = ro, n_image_ref = ref, n_status = EPending, n_score = None,
       n_disqualify_reason = None, n_report = [], n_evidence_s3_url = None, n_started_at = None,
       n_completed_at = None\<rparr>], next_entry := next_entry d + 1\<rparr>)"
  using round_of_iff [of d rid] submission_of_iff [of d]
  by (auto simp: insert_entry_def rbind_eq_Inr fk_round_def fk_submission_def fk_def split: option.splits)

lemma insert_entry_db_ok:
  assumes "db_ok d" and "insert_entry rid sid ro img d = Inr d'"
  shows "db_ok d'"
proof -
  obtain n where d': "d' = d\<lparr>round_entries := round_entries d @ [n], next_entry := next_entry d + 1\<rparr>"
    and n: "n_id n = next_entry d" "n_round_id n \<in> round_ids d" "role_ok n"
      "\<forall>i. n_submission_id n = Some i \<longrightarrow> i \<in> submission_ids d"
      "\<forall>m \<in> set (round_entries d). (n_round_id m, n_submission_id m) \<noteq> (n_round_id n, n_submission_id n)"
    using assms(2) unfolding insert_entry_eq_Inr by (auto simp: role_ok_def)
  have "entries_ok d'"
    using db_okD(5) [OF assms(1)] n unfolding d'
    by (auto simp: entries_ok_def round_ids_def submission_ids_def)
  with assms(1) show ?thesis unfolding d' by (simp add: db_ok_def table_ok_defs)
qed

lemma insert_round_db_ok:
  assumes "db_ok d" and "insert_round now rid ordinal inc sp d = Inr d'"
  shows "db_ok d'"
proof -
  obtain r where d': "d' = d\<lparr>rounds := rounds d @ [r]\<rparr>" and r: "r_id r = rid"
      "r_campaign_id r = rs_campaign_id sp" "r_ordinal r = ordinal" "r_status r = RPending"
    and g: "rs_campaign_id sp \<in> campaign_ids d" "rid \<notin> round_ids d" "\<not> has_live_round d (rs_campaign_id sp)"
      "\<not> (\<exists>r \<in> set (rounds d). r_campaign_id r = rs_campaign_id sp \<and> r_ordinal r = ordinal)"
    using assms(2) campaign_of_iff [of d "rs_campaign_id sp"]
    by (auto simp: insert_round_def rbind_eq_Inr fk_campaign_def fk_def)
  show ?thesis unfolding d'
  proof (rule db_ok_rounds [OF assms(1)])
    show "rounds_ok (d\<lparr>rounds := rounds d @ [r]\<rparr>)"
      using db_okD(4) [OF assms(1)] r g
      by (auto simp: rounds_ok_def round_ids_def campaign_ids_def has_live_round_def image_iff)
  qed (auto simp: round_ids_def)
qed

lemma seat_challenger_db_ok:
  "db_ok d \<Longrightarrow> seat_challenger now rid ordinal row d = Inr d' \<Longrightarrow> db_ok d'"
  by (auto simp: seat_challenger_def rbind_eq_Inr insert_event_eq_Inr
      intro: db_ok_add_event insert_entry_db_ok)

lemma fill_round_db_ok:
  assumes "db_ok d" and "fill_round now rid ordinal sp ks ds d = Inr d'"
  shows "db_ok d'"
proof -
  obtain d1 d2 d3 d4 where
    1: "insert_round now rid ordinal (map_option l_submission_id (leader_of d (rs_campaign_id sp))) sp d = Inr d1"
    and 2: "insert_entry rid None Baseline (Some (rs_baseline_image_ref sp)) d1 = Inr d2"
    and 3: "seat_leader rid (leader_of d (rs_campaign_id sp)) d2 = Inr d3"
    and 4: "rfold (seat_challenger now rid ordinal) ks d3 = Inr d4"
    and 5: "rfold (reject_duplicate now) ds d4 = Inr d'"
    using assms(2) by (auto simp: fill_round_def Let_def rbind_eq_Inr)
  have "db_ok d2" using insert_round_db_ok [OF assms(1) 1] insert_entry_db_ok [OF _ 2] by blast
  with 3 have "db_ok d3"
    by (auto simp: seat_leader_def intro: insert_entry_db_ok split: option.splits)
  with 4 have "db_ok d4" by (rule rfold_invariant) (rule seat_challenger_db_ok)
  with 5 show ?thesis
    by (rule rfold_invariant) (auto simp: reject_duplicate_def insert_event_eq_Inr intro: db_ok_add_event)
qed

lemma create_round_cases:
  assumes "create_round now rid dedupe sp d = Inr (r, d')"
  shows "(r = None \<and> d' = d) \<or> (\<exists>c ks ds. campaign_of d (rs_campaign_id sp) = Some c \<and>
    c_status c = ''open'' \<and> \<not> has_live_round d (rs_campaign_id sp) \<and>
    dedupe (cohort_of d (rs_campaign_id sp) (rs_cohort_limit sp)) = (ks, ds) \<and> ks \<noteq> [] \<and>
    fill_round now rid (next_ordinal d (rs_campaign_id sp)) sp ks ds d = Inr d' \<and>
    r = Some \<lparr>cr_round_id = rid, cr_ordinal = next_ordinal d (rs_campaign_id sp),
      cr_challenger_ids = map k_id ks, cr_duplicate_ids = map fst ds\<rparr>)"
  using assms
  by (auto simp: create_round_def Let_def split: option.splits if_splits prod.splits sum.splits pyerr.splits)

lemma create_round_db_ok:
  "db_ok d \<Longrightarrow> create_round now rid dedupe sp d = Inr (r, d') \<Longrightarrow> db_ok d'"
  using create_round_cases fill_round_db_ok by blast

lemma is_running_live: "is_running rid r \<Longrightarrow> live (r_status r)"
  by (simp add: is_running_def)

lemma reset_disqualified_db_ok: "db_ok d \<Longrightarrow> db_ok (reset_disqualified rid d)"
  unfolding reset_disqualified_def by (rule db_ok_update_entries) auto

lemma claim_pending_round_db_ok: "db_ok d \<Longrightarrow> db_ok (snd (claim_pending_round now d))"
proof (cases "best (\<lambda>a b. r_created_at b < r_created_at a) (filter (claimable_round now d) (rounds d))")
  case (Some r)
  assume ok: "db_ok d"
  from best_in [OF Some] have r: "r \<in> set (rounds d)" "r_status r = RPending"
    by (auto simp: claimable_round_def)
  have "r_status x = RPending" if "x \<in> set (rounds d)" "r_id x = r_id r" for x
    using db_okD(4) [OF ok] that r uniqD [of "\<lambda>_. True" r_id "rounds d" x r]
    by (simp add: rounds_ok_def)
  then have "db_ok (d\<lparr>rounds := update_where (\<lambda>x. r_id x = r_id r) (start_round now) (rounds d)\<rparr>)"
    using ok r by (intro db_ok_update_rounds) (auto simp: start_round_def)
  with Some show ?thesis by (simp add: claim_pending_round_def)
qed (simp add: claim_pending_round_def)

lemma defer_round_db_ok: "db_ok d \<Longrightarrow> db_ok (snd (defer_round_for_capacity now rid delay d))"
  unfolding defer_round_for_capacity_def
  by (auto intro!: db_ok_update_rounds dest: is_running_live)

lemma set_round_phase_db_ok:
  assumes "db_ok d" and "set_round_phase now rid phase progress d = Inr (b, d')"
  shows "db_ok d'"
  using assms db_okD(4) [OF assms(1)]
  by (auto simp: set_round_phase_def rbind_eq_Inr rounds_ok_def is_running_def intro!: db_ok_update_rounds)

lemma touch_round_heartbeat_db_ok: "db_ok d \<Longrightarrow> db_ok (snd (touch_round_heartbeat now rid d))"
  using db_okD(4) [of d] unfolding touch_round_heartbeat_def
  by (auto simp: rounds_ok_def is_running_def intro!: db_ok_update_rounds)

lemma update_live_status_db_ok:
  "db_ok d \<Longrightarrow> update_round_entry_live_status eid st reason d = Inr (b, d') \<Longrightarrow> db_ok d'"
  by (auto simp: update_round_entry_live_status_def Let_def intro!: db_ok_update_entries
      split: option.splits if_splits)

section \<open>Requeueing\<close>

text \<open>
  The challengers a void sends back: every challenger of the round that holds no score. A
  disqualification reported while the round ran is not a verdict and does not count.
\<close>

definition unscored_challenger :: "uuid \<Rightarrow> round_entry_row \<Rightarrow> bool" where
  "unscored_challenger rid n = (n_round_id n = rid \<and> n_role n = Challenger \<and> n_status n \<noteq> EScored)"

definition unscored :: "db \<Rightarrow> uuid \<Rightarrow> uuid list" where
  "unscored d rid = map (the \<circ> n_submission_id) (filter (unscored_challenger rid) (round_entries d))"

definition same_but_events :: "db \<Rightarrow> db \<Rightarrow> bool" where
  "same_but_events d d' = (campaigns d' = campaigns d \<and> submissions d' = submissions d \<and>
     jobs d' = jobs d \<and> rounds d' = rounds d \<and> leaders d' = leaders d \<and>
     leader_history d' = leader_history d \<and> weight_sets d' = weight_sets d)"

text \<open>What a row of the round keeps while the round lives: everything but its progress, and whether it holds a score.\<close>

definition entry_mark :: "round_entry_row \<Rightarrow> (int \<times> uuid \<times> uuid option \<times> entry_role \<times> string) \<times> bool" where
  "entry_mark n = ((n_id n, n_round_id n, n_submission_id n, n_role n, n_image_ref n), n_status n = EScored)"

definition marks :: "db \<Rightarrow> ((int \<times> uuid \<times> uuid option \<times> entry_role \<times> string) \<times> bool) list" where
  "marks d = map entry_mark (round_entries d)"

lemma marks_reset [simp]: "marks (reset_disqualified rid d) = marks d"
  by (simp add: marks_def reset_disqualified_def update_where_def entry_mark_def)

lemma marks_rounds [simp]: "marks (d\<lparr>rounds := rs\<rparr>) = marks d"
  by (simp add: marks_def)

lemma marks_add_event [simp]: "marks (add_event now sid st ref x d) = marks d"
  by (simp add: marks_def)

lemma reset_disqualified_simps [simp]:
  "campaigns (reset_disqualified rid d) = campaigns d" "submissions (reset_disqualified rid d) = submissions d"
  "events (reset_disqualified rid d) = events d" "jobs (reset_disqualified rid d) = jobs d"
  "rounds (reset_disqualified rid d) = rounds d" "leaders (reset_disqualified rid d) = leaders d"
  "leader_history (reset_disqualified rid d) = leader_history d"
  "weight_sets (reset_disqualified rid d) = weight_sets d"
  "next_event (reset_disqualified rid d) = next_event d"
  "submission_ids (reset_disqualified rid d) = submission_ids d"
  by (simp_all add: reset_disqualified_def submission_ids_def)

lemma requeueable_after_reset:
  "map (the \<circ> n_submission_id) (filter (requeueable rid) (round_entries (reset_disqualified rid d))) = unscored d rid"
proof -
  have "map (the \<circ> n_submission_id) (filter (requeueable rid)
      (update_where (\<lambda>n. n_round_id n = rid \<and> n_status n = EDisqualified)
        (\<lambda>n. n\<lparr>n_status := EPending, n_disqualify_reason := None\<rparr>) ns)) =
    map (the \<circ> n_submission_id) (filter (unscored_challenger rid) ns)" for ns
    by (induction ns) (auto simp: requeueable_def unscored_challenger_def settled_def)
  then show ?thesis by (simp add: unscored_def reset_disqualified_def)
qed

lemma unscored_reset_other:
  assumes "rid' \<noteq> rid"
  shows "unscored (reset_disqualified rid d) rid' = unscored d rid'"
proof -
  have "map (the \<circ> n_submission_id) (filter (unscored_challenger rid')
      (update_where (\<lambda>n. n_round_id n = rid \<and> n_status n = EDisqualified)
        (\<lambda>n. n\<lparr>n_status := EPending, n_disqualify_reason := None\<rparr>) ns)) =
    map (the \<circ> n_submission_id) (filter (unscored_challenger rid') ns)" for ns
    using assms by (induction ns) (auto simp: unscored_challenger_def)
  then show ?thesis by (simp add: unscored_def reset_disqualified_def)
qed

lemma challenger_submission:
  assumes "db_ok d" and "n \<in> set (round_entries d)" and "n_role n = Challenger"
  obtains sid where "n_submission_id n = Some sid" "sid \<in> submission_ids d"
  using db_okD(5) [OF assms(1)] assms(2,3) that
  by (cases "n_submission_id n") (auto simp: entries_ok_def role_ok_def)

lemma requeue_challengers_eq:
  assumes "db_ok d"
  shows "requeue_challengers now rid reason d = Inr (fold (\<lambda>sid. add_event now sid BenchQueued None
    (requeue_detail rid reason)) (unscored d rid) (reset_disqualified rid d))"
proof -
  let ?d = "reset_disqualified rid d"
  let ?ns = "filter (requeueable rid) (round_entries ?d)"
  have ok: "db_ok ?d" using assms by (rule reset_disqualified_db_ok)
  have sub: "n_submission_id n = Some (the (n_submission_id n)) \<and> the (n_submission_id n) \<in> submission_ids ?d"
    if "n \<in> set ?ns" for n
  proof -
    have "n \<in> set (round_entries ?d)" "n_role n = Challenger" using that by (auto simp: requeueable_def)
    then obtain sid where "n_submission_id n = Some sid" "sid \<in> submission_ids ?d"
      by (rule challenger_submission [OF ok])
    then show ?thesis by simp
  qed
  have "rfold (requeue_entry now rid reason) ?ns ?d =
      rfold (\<lambda>n. insert_event now (the (n_submission_id n)) BenchQueued None (requeue_detail rid reason)) ?ns ?d"
  proof (rule rfold_cong)
    fix n t assume "n \<in> set ?ns"
    from sub [OF this] obtain sid where "n_submission_id n = Some sid" by blast
    then show "requeue_entry now rid reason n t =
        insert_event now (the (n_submission_id n)) BenchQueued None (requeue_detail rid reason) t"
      by (simp add: requeue_entry_def)
  qed
  also have "rfold (\<lambda>n. insert_event now (the (n_submission_id n)) BenchQueued None (requeue_detail rid reason)) ?ns ?d =
      Inr (fold (\<lambda>n. add_event now (the (n_submission_id n)) BenchQueued None (requeue_detail rid reason)) ?ns ?d)"
    by (rule rfold_insert_event) (use sub in auto)
  also have "fold (\<lambda>n. add_event now (the (n_submission_id n)) BenchQueued None (requeue_detail rid reason)) ?ns ?d =
      fold (\<lambda>sid. add_event now sid BenchQueued None (requeue_detail rid reason)) (unscored d rid) ?d"
    by (simp add: fold_map comp_def flip: requeueable_after_reset)
  finally show ?thesis by (simp add: requeue_challengers_def Let_def)
qed

lemma fold_add_event_log:
  assumes "log_ok now d"
  shows "log_ok now (fold (\<lambda>s. add_event now s st ref x) sids d)"
    and "latest_state (fold (\<lambda>s. add_event now s st ref x) sids d) s =
      (if s \<in> set sids then Some st else latest_state d s)"
proof -
  have eq: "fold (\<lambda>s. add_event now s st ref x) sids d = fold (\<lambda>s. put_event now s (st, ref, x)) sids d"
    by (induction sids arbitrary: d) (simp_all add: put_event_def)
  show "log_ok now (fold (\<lambda>s. add_event now s st ref x) sids d)"
    using assms by (induction sids arbitrary: d) (auto intro: log_ok_add_event)
  show "latest_state (fold (\<lambda>s. add_event now s st ref x) sids d) s =
      (if s \<in> set sids then Some st else latest_state d s)"
    unfolding eq latest_state_body elog.latest_put_all [OF assms] by simp
qed

lemma unscored_in_submissions:
  "db_ok d \<Longrightarrow> s \<in> set (unscored d rid) \<Longrightarrow> s \<in> submission_ids d"
  by (auto simp: unscored_def unscored_challenger_def elim!: challenger_submission)

lemma requeue_step:
  assumes "db_ok d" and "log_ok now d"
  obtains d' where "requeue_challengers now rid reason d = Inr d'" "db_ok d'" "log_ok now d'"
    "same_but_events d d'" "prefix (events d) (events d')" "marks d' = marks d"
    "\<And>s. latest_state d' s = (if s \<in> set (unscored d rid) then Some BenchQueued else latest_state d s)"
    "\<And>rid'. rid' \<noteq> rid \<Longrightarrow> unscored d' rid' = unscored d rid'"
proof -
  let ?d = "reset_disqualified rid d"
  let ?F = "fold (\<lambda>sid. add_event now sid BenchQueued None (requeue_detail rid reason)) (unscored d rid)"
  have ok: "db_ok ?d" using assms(1) by (rule reset_disqualified_db_ok)
  have log: "log_ok now ?d" and latest: "latest_state ?d = latest_state d"
    using assms(2) by (simp_all add: log_ok_def fun_eq_iff latest_state_def latest_event_def events_of_def)
  have "db_ok (?F ?d)"
    using ok unscored_in_submissions [OF assms(1)] by (intro fold_add_event_db_ok) auto
  moreover have "same_but_events d (?F ?d)"
    by (simp add: same_but_events_def)
  moreover have "unscored (?F ?d) rid' = unscored d rid'" if "rid' \<noteq> rid" for rid'
    using unscored_reset_other [OF that, of d] by (simp add: unscored_def)
  moreover have "prefix (events d) (events (?F ?d))"
    using prefix_fold_add_event [of ?d] by simp
  moreover have "marks (?F ?d) = marks d"
    by (simp add: fold_add_event_field [of marks, OF marks_add_event])
  ultimately show ?thesis
    using that [of "?F ?d"] fold_add_event_log [OF log] latest requeue_challengers_eq [OF assms(1)] by simp
qed

section \<open>Voiding and reaping\<close>

lemma void_rounds_db_ok:
  assumes "db_ok d"
  shows "db_ok (d\<lparr>rounds := update_where P (mark_void now reason detail) (rounds d)\<rparr>)"
  using assms by (rule db_ok_update_rounds) (auto simp: mark_void_def)

lemma log_ok_rounds [simp]: "log_ok now (d\<lparr>rounds := rs\<rparr>) = log_ok now d"
  by (simp add: log_ok_def)

lemma latest_state_rounds [simp]: "latest_state (d\<lparr>rounds := rs\<rparr>) = latest_state d"
  by (simp add: fun_eq_iff latest_state_def latest_event_def events_of_def)

lemma unscored_rounds [simp]: "unscored (d\<lparr>rounds := rs\<rparr>) = unscored d"
  by (simp add: fun_eq_iff unscored_def)

lemma requeue_many:
  assumes "db_ok d" and "log_ok now d" and "distinct (map r_id rs)"
  shows "\<exists>d'. rfold (\<lambda>r. requeue_challengers now (r_id r) reason) rs d = Inr d' \<and> db_ok d' \<and>
    log_ok now d' \<and> same_but_events d d' \<and> prefix (events d) (events d') \<and> marks d' = marks d \<and>
    (\<forall>s. latest_state d' s = (if \<exists>r \<in> set rs. s \<in> set (unscored d (r_id r)) then Some BenchQueued
       else latest_state d s))"
  using assms
proof (induction rs arbitrary: d)
  case Nil
  then show ?case by (simp add: same_but_events_def)
next
  case (Cons r rs)
  obtain d1 where d1: "requeue_challengers now (r_id r) reason d = Inr d1" "db_ok d1" "log_ok now d1"
    "same_but_events d d1" "prefix (events d) (events d1)" "marks d1 = marks d"
    "\<And>s. latest_state d1 s = (if s \<in> set (unscored d (r_id r)) then Some BenchQueued else latest_state d s)"
    "\<And>rid'. rid' \<noteq> r_id r \<Longrightarrow> unscored d1 rid' = unscored d rid'"
    using requeue_step [OF Cons.prems(1,2)] by metis
  have un: "unscored d1 (r_id q) = unscored d (r_id q)" if "q \<in> set rs" for q
    using Cons.prems(3) that by (intro d1(8)) (auto simp: image_iff)
  obtain d2 where d2: "rfold (\<lambda>r. requeue_challengers now (r_id r) reason) rs d1 = Inr d2" "db_ok d2"
    "log_ok now d2" "same_but_events d1 d2" "prefix (events d1) (events d2)" "marks d2 = marks d1"
    "\<forall>s. latest_state d2 s = (if \<exists>r \<in> set rs. s \<in> set (unscored d1 (r_id r)) then Some BenchQueued
       else latest_state d1 s)"
    using Cons.IH [OF d1(2,3)] Cons.prems(3) by auto
  have "prefix (events d) (events d2)" using d1(5) d2(5) by (rule prefix_order.trans)
  moreover have "latest_state d2 s = (if \<exists>q \<in> set (r # rs). s \<in> set (unscored d (r_id q)) then Some BenchQueued
      else latest_state d s)" for s
    using d2(7) un by (auto simp: d1(7))
  ultimately show ?case
    using d1(1,4,6) d2(1-4,6) by (auto simp: same_but_events_def)
qed

lemma void_round_effect:
  assumes "db_ok d" and "log_ok now d"
  shows "\<exists>b d'. void_round now rid reason detail d = Inr (b, d') \<and>
    b = (\<exists>r \<in> set (rounds d). r_id r = rid \<and> r_status r = RRunning) \<and>
    (\<not> b \<longrightarrow> d' = d) \<and>
    (b \<longrightarrow> rounds d' = update_where (is_running rid) (mark_void now reason
         (if sanitize_void_detail detail = [] then None else Some (sanitize_void_detail detail))) (rounds d) \<and>
       (\<forall>s. latest_state d' s = (if s \<in> set (unscored d rid) then Some BenchQueued else latest_state d s)) \<and>
       leaders d' = leaders d \<and> leader_history d' = leader_history d \<and> submissions d' = submissions d) \<and>
    db_ok d' \<and> log_ok now d' \<and> marks d' = marks d \<and> prefix (events d) (events d') \<and> campaigns d' = campaigns d"
proof (cases "touched (is_running rid) (rounds d)")
  case False
  then show ?thesis using assms by (auto simp: void_round_def touched_iff is_running_def)
next
  case True
  let ?rs = "update_where (is_running rid) (mark_void now reason
    (if sanitize_void_detail detail = [] then None else Some (sanitize_void_detail detail))) (rounds d)"
  have "db_ok (d\<lparr>rounds := ?rs\<rparr>)" "log_ok now (d\<lparr>rounds := ?rs\<rparr>)"
    using assms by (auto intro: void_rounds_db_ok)
  then show ?thesis
  proof (rule requeue_step [of _ now rid reason])
    fix d'
    assume d': "requeue_challengers now rid reason (d\<lparr>rounds := ?rs\<rparr>) = Inr d'"
      "same_but_events (d\<lparr>rounds := ?rs\<rparr>) d'" "db_ok d'" "log_ok now d'"
      "prefix (events (d\<lparr>rounds := ?rs\<rparr>)) (events d')" "marks d' = marks (d\<lparr>rounds := ?rs\<rparr>)"
      "\<And>s. latest_state d' s = (if s \<in> set (unscored (d\<lparr>rounds := ?rs\<rparr>) rid) then Some BenchQueued
         else latest_state (d\<lparr>rounds := ?rs\<rparr>) s)"
    have "void_round now rid reason detail d = Inr (True, d')"
      using True d'(1) by (simp add: void_round_def Let_def)
    then show ?thesis
      using True d'(2-) by (auto simp: touched_iff is_running_def same_but_events_def)
  qed
qed

text \<open>
  Voiding a running round always commits, and what it does is exactly this: the round becomes
  void with the scrubbed detail, every challenger of the round without a score is back in the
  queue (a disqualification streamed by the pod included), every other submission keeps its
  state, and the crown, its history and the other rounds are untouched. On a round that is not
  running it does nothing.
\<close>

theorem void_round_requeues:
  assumes "db_ok d" and "log_ok now d"
  shows "\<exists>b d'. void_round now rid reason detail d = Inr (b, d') \<and>
    b = (\<exists>r \<in> set (rounds d). r_id r = rid \<and> r_status r = RRunning) \<and>
    (\<not> b \<longrightarrow> d' = d) \<and>
    (b \<longrightarrow> rounds d' = update_where (is_running rid) (mark_void now reason
         (if sanitize_void_detail detail = [] then None else Some (sanitize_void_detail detail))) (rounds d) \<and>
       (\<forall>s. latest_state d' s = (if s \<in> set (unscored d rid) then Some BenchQueued else latest_state d s)) \<and>
       leaders d' = leaders d \<and> leader_history d' = leader_history d \<and> submissions d' = submissions d)"
proof -
  obtain b d' where "void_round now rid reason detail d = Inr (b, d')"
    "b = (\<exists>r \<in> set (rounds d). r_id r = rid \<and> r_status r = RRunning)" "\<not> b \<longrightarrow> d' = d"
    "b \<longrightarrow> rounds d' = update_where (is_running rid) (mark_void now reason
         (if sanitize_void_detail detail = [] then None else Some (sanitize_void_detail detail))) (rounds d) \<and>
       (\<forall>s. latest_state d' s = (if s \<in> set (unscored d rid) then Some BenchQueued else latest_state d s)) \<and>
       leaders d' = leaders d \<and> leader_history d' = leader_history d \<and> submissions d' = submissions d"
    using void_round_effect [OF assms, of rid reason detail] by blast
  then show ?thesis by blast
qed

lemma reap_effect:
  assumes "db_ok d" and "log_ok now d"
  shows "\<exists>d'. reap_stale_rounds now stale_s d = Inr (filter (stale now stale_s) (rounds d), d') \<and> db_ok d' \<and>
    rounds d' = update_where (stale now stale_s)
      (mark_void now void_heartbeat_stale (Some (stale_detail stale_s))) (rounds d) \<and>
    (\<forall>s. latest_state d' s = (if \<exists>r \<in> set (rounds d). stale now stale_s r \<and> s \<in> set (unscored d (r_id r))
       then Some BenchQueued else latest_state d s)) \<and>
    leaders d' = leaders d \<and> leader_history d' = leader_history d \<and> log_ok now d' \<and> marks d' = marks d \<and>
    prefix (events d) (events d') \<and> submissions d' = submissions d \<and> campaigns d' = campaigns d"
proof -
  let ?rs = "update_where (stale now stale_s)
    (mark_void now void_heartbeat_stale (Some (stale_detail stale_s))) (rounds d)"
  let ?d = "d\<lparr>rounds := ?rs\<rparr>" and ?v = "filter (stale now stale_s) (rounds d)"
  have ok: "db_ok ?d" "log_ok now ?d" using assms by (auto intro: void_rounds_db_ok)
  have dist: "distinct (map r_id ?v)"
    using db_okD(4) [OF assms(1)] by (simp add: rounds_ok_def uniq_def distinct_map_filter)
  obtain d' where d': "rfold (\<lambda>r. requeue_challengers now (r_id r) void_heartbeat_stale) ?v ?d = Inr d'"
    "db_ok d'" "log_ok now d'" "same_but_events ?d d'" "prefix (events ?d) (events d')" "marks d' = marks ?d"
    "\<forall>s. latest_state d' s = (if \<exists>r \<in> set ?v. s \<in> set (unscored ?d (r_id r)) then Some BenchQueued
       else latest_state ?d s)"
    using requeue_many [OF ok dist] by blast
  show ?thesis
    by (rule exI [of _ d']) (use d' in \<open>auto simp: reap_stale_rounds_def Let_def same_but_events_def\<close>)
qed

text \<open>
  The reaper never fails and voids exactly the running rounds whose last sign of life is
  older than the limit; every challenger of such a round without a score is back in the queue,
  and no other submission changes its state.
\<close>

theorem reap_requeues:
  assumes "db_ok d" and "log_ok now d"
  shows "\<exists>d'. reap_stale_rounds now stale_s d = Inr (filter (stale now stale_s) (rounds d), d') \<and> db_ok d' \<and>
    rounds d' = update_where (stale now stale_s)
      (mark_void now void_heartbeat_stale (Some (stale_detail stale_s))) (rounds d) \<and>
    (\<forall>s. latest_state d' s = (if \<exists>r \<in> set (rounds d). stale now stale_s r \<and> s \<in> set (unscored d (r_id r))
       then Some BenchQueued else latest_state d s)) \<and>
    leaders d' = leaders d \<and> leader_history d' = leader_history d"
  using reap_effect [OF assms, of stale_s] by blast

section \<open>Settlement\<close>

text \<open>The state a settled entry leaves its submission in.\<close>

definition verdict :: "db \<Rightarrow> uuid \<Rightarrow> entry_result \<Rightarrow> submission_state option" where
  "verdict d sid x = (case x_status x of
     EScored \<Rightarrow> Some Scored
   | EDisqualified \<Rightarrow> Some Disqualified
   | EInfraFailed \<Rightarrow> Some (if x_role x = Challenger \<and> \<not> had_infra_failure d sid then BenchQueued else InfraFailed)
   | _ \<Rightarrow> None)"

lemma write_entry_simps [simp]:
  "campaigns (write_entry now rid ev x d) = campaigns d" "submissions (write_entry now rid ev x d) = submissions d"
  "events (write_entry now rid ev x d) = events d" "jobs (write_entry now rid ev x d) = jobs d"
  "rounds (write_entry now rid ev x d) = rounds d" "leaders (write_entry now rid ev x d) = leaders d"
  "leader_history (write_entry now rid ev x d) = leader_history d"
  "weight_sets (write_entry now rid ev x d) = weight_sets d"
  "next_event (write_entry now rid ev x d) = next_event d"
  "submission_ids (write_entry now rid ev x d) = submission_ids d"
  "latest_state (write_entry now rid ev x d) = latest_state d"
  "log_ok now' (write_entry now rid ev x d) = log_ok now' d"
  "had_infra_failure (write_entry now rid ev x d) sid = had_infra_failure d sid"
  by (simp_all add: write_entry_def submission_ids_def latest_state_def latest_event_def events_of_def
      fun_eq_iff log_ok_def had_infra_failure_def)

lemma write_entry_db_ok: "db_ok d \<Longrightarrow> db_ok (write_entry now rid ev x d)"
  unfolding write_entry_def by (rule db_ok_update_entries) auto

lemma settle_entry_eq:
  assumes "settle_entry now rid ord ev x d = Inr d'"
  shows "(d' = write_entry now rid ev x d \<and>
       (x_submission_id x = None \<or> x_status x = EPending \<or> x_status x = ERunning)) \<or>
    (\<exists>sid states det. x_submission_id x = Some sid \<and> sid \<in> submission_ids d \<and>
       d' = fold (\<lambda>st. add_event now sid st None det) states (write_entry now rid ev x d) \<and>
       states \<noteq> [] \<and> verdict d sid x = Some (last states) \<and>
       (x_status x = EInfraFailed \<longleftrightarrow> InfraFailed \<in> set states))"
proof (cases "x_submission_id x")
  case None
  with assms show ?thesis by (simp add: settle_entry_def)
next
  case (Some sid)
  let ?w = "write_entry now rid ev x d"
  have rf: "rfold (\<lambda>st. insert_event now sid st None det) sts e = Inr e' \<Longrightarrow>
      (sts \<noteq> [] \<longrightarrow> sid \<in> submission_ids e) \<and> e' = fold (\<lambda>st. add_event now sid st None det) sts e" for sts e e' det
    by (induction sts arbitrary: e) (auto simp: rbind_eq_Inr insert_event_eq_Inr split: if_splits)
  show ?thesis
  proof (cases "x_status x")
    case EScored
    then show ?thesis using assms Some
      by (intro disjI2 exI [of _ sid] exI [of _ "[Scored]"] exI [of _ "verdict_detail rid ord x"])
        (auto simp: settle_entry_def insert_event_eq_Inr verdict_def)
  next
    case EDisqualified
    then show ?thesis using assms Some
      by (intro disjI2 exI [of _ sid] exI [of _ "[Disqualified]"] exI [of _ "verdict_detail rid ord x"])
        (auto simp: settle_entry_def insert_event_eq_Inr verdict_def)
  next
    case EInfraFailed
    have sts: "follow_up ?w sid x \<noteq> []" "InfraFailed \<in> set (follow_up ?w sid x)"
      "verdict d sid x = Some (last (follow_up ?w sid x))"
      using EInfraFailed by (auto simp: follow_up_def infra_failed_follow_up_states_def verdict_def)
    have "(follow_up ?w sid x \<noteq> [] \<longrightarrow> sid \<in> submission_ids ?w) \<and>
        d' = fold (\<lambda>st. add_event now sid st None (infra_detail rid ord x)) (follow_up ?w sid x) ?w"
      using assms EInfraFailed Some by (intro rf) (simp add: settle_entry_def Let_def)
    with sts EInfraFailed Some show ?thesis
      by (intro disjI2 exI [of _ sid] exI [of _ "follow_up ?w sid x"] exI [of _ "infra_detail rid ord x"]) simp
  qed (use assms Some in \<open>auto simp: settle_entry_def\<close>)
qed

lemma fold_states_log:
  assumes "log_ok now d" and "sts \<noteq> []"
  shows "log_ok now (fold (\<lambda>st. add_event now sid st None det) sts d)"
    and "latest_state (fold (\<lambda>st. add_event now sid st None det) sts d) s =
      (if s = sid then Some (last sts) else latest_state d s)"
    and "had_infra_failure (fold (\<lambda>st. add_event now sid st None det) sts d) s =
      (had_infra_failure d s \<or> (s = sid \<and> InfraFailed \<in> set sts))"
  using assms
proof (induction sts rule: rev_induct)
  case (snoc st sts)
  case 1
  then show ?case using snoc by (cases "sts = []") (auto intro: log_ok_add_event)
  case 2
  then show ?case using snoc by (cases "sts = []") (auto simp: latest_state_add_event)
  case 3
  then show ?case using snoc by (cases "sts = []") (auto simp: had_infra_failure_def)
qed simp_all

lemma fold_states_field:
  assumes "\<And>st d. h (add_event now sid st None det d) = h d"
  shows "h (fold (\<lambda>st. add_event now sid st None det) sts d) = h d"
  using assms by (induction sts arbitrary: d) auto

lemma fold_states_db_ok:
  assumes "db_ok d" and "sid \<in> submission_ids d"
  shows "db_ok (fold (\<lambda>st. add_event now sid st None det) sts d)"
  using assms by (induction sts arbitrary: d) (auto simp: db_ok_add_event)

text \<open>What settling one entry does, in the terms the settlement of a round needs.\<close>

definition entry_settled :: "ts \<Rightarrow> entry_result \<Rightarrow> db \<Rightarrow> db \<Rightarrow> bool" where
  "entry_settled now x d d' = (same_but_events d d' \<and> log_ok now d' \<and>
     (\<forall>s. latest_state d' s = (case x_submission_id x of
        Some sid \<Rightarrow> if s = sid \<and> verdict d sid x \<noteq> None then verdict d sid x else latest_state d s
      | None \<Rightarrow> latest_state d s)) \<and>
     (\<forall>s. had_infra_failure d' s =
        (had_infra_failure d s \<or> (x_submission_id x = Some s \<and> x_status x = EInfraFailed))))"

lemma settle_entry_settled:
  assumes "log_ok now d" and "settle_entry now rid ord ev x d = Inr d'"
  shows "entry_settled now x d d'"
  using settle_entry_eq [OF assms(2)]
proof (elim disjE exE conjE)
  assume d': "d' = write_entry now rid ev x d"
  show ?thesis if "x_submission_id x = None"
    using that assms(1) unfolding d' by (simp add: entry_settled_def same_but_events_def)
  show ?thesis if "x_status x = EPending"
    using that assms(1) unfolding d'
    by (simp add: entry_settled_def same_but_events_def verdict_def split: option.splits)
  show ?thesis if "x_status x = ERunning"
    using that assms(1) unfolding d'
    by (simp add: entry_settled_def same_but_events_def verdict_def split: option.splits)
next
  fix sid sts det
  assume sid: "x_submission_id x = Some sid" "sid \<in> submission_ids d"
    and d': "d' = fold (\<lambda>st. add_event now sid st None det) sts (write_entry now rid ev x d)"
    and sts: "sts \<noteq> []" "verdict d sid x = Some (last sts)" "(x_status x = EInfraFailed) = (InfraFailed \<in> set sts)"
  have "log_ok now (write_entry now rid ev x d)" using assms(1) by simp
  note log = fold_states_log [OF this sts(1), of sid det]
  have "same_but_events d d'"
    unfolding d' same_but_events_def
    by (simp add: fold_states_field [of campaigns] fold_states_field [of submissions] fold_states_field [of jobs]
        fold_states_field [of rounds] fold_states_field [of leaders] fold_states_field [of leader_history]
        fold_states_field [of weight_sets])
  with log sid sts show ?thesis
    unfolding entry_settled_def d' by auto
qed

lemma settle_entry_db_ok:
  assumes "db_ok d" and "settle_entry now rid ord ev x d = Inr d'"
  shows "db_ok d'"
  using settle_entry_eq [OF assms(2)] write_entry_db_ok [OF assms(1)]
  by (auto intro!: fold_states_db_ok)

lemma settle_entries:
  assumes "log_ok now d" and "rfold (settle_entry now rid ord ev) xs d = Inr d'"
    and "distinct (List.map_filter x_submission_id xs)"
  shows "same_but_events d d' \<and> log_ok now d' \<and>
    (\<forall>s. s \<notin> set (List.map_filter x_submission_id xs) \<longrightarrow> latest_state d' s = latest_state d s \<and>
       had_infra_failure d' s = had_infra_failure d s) \<and>
    (\<forall>x \<in> set xs. \<forall>sid. x_submission_id x = Some sid \<longrightarrow>
       latest_state d' sid = (if verdict d sid x \<noteq> None then verdict d sid x else latest_state d sid) \<and>
       (x_status x = EInfraFailed \<longrightarrow> had_infra_failure d' sid))"
  using assms
proof (induction xs arbitrary: d)
  case Nil
  then show ?case by (simp add: same_but_events_def)
next
  case (Cons x xs)
  obtain d1 where d1: "settle_entry now rid ord ev x d = Inr d1"
    and rest: "rfold (settle_entry now rid ord ev) xs d1 = Inr d'"
    using Cons.prems(2) by (auto simp: rbind_eq_Inr)
  have s1: "entry_settled now x d d1" using Cons.prems(1) d1 by (rule settle_entry_settled)
  have dist: "distinct (List.map_filter x_submission_id xs)"
    using Cons.prems(3) by (auto simp: map_filter_simps split: option.splits)
  have log1: "log_ok now d1" using s1 by (simp add: entry_settled_def)
  note IH = Cons.IH [OF log1 rest dist]
  have own: "s \<notin> set (List.map_filter x_submission_id xs)" if "x_submission_id x = Some s" for s
    using Cons.prems(3) that by (auto simp: map_filter_simps)
  have v: "verdict d1 sid y = verdict d sid y \<and> latest_state d1 sid = latest_state d sid"
    if "y \<in> set xs" "x_submission_id y = Some sid" for y sid
  proof -
    have "x_submission_id x \<noteq> Some sid"
      using own [of sid] that by (auto simp: in_map_filter)
    then show ?thesis using s1
      by (auto simp: entry_settled_def verdict_def split: option.splits entry_status.splits)
  qed
  have "same_but_events d d'" using s1 IH by (auto simp: entry_settled_def same_but_events_def)
  moreover have "latest_state d' sid = (if verdict d sid y \<noteq> None then verdict d sid y else latest_state d sid) \<and>
      (x_status y = EInfraFailed \<longrightarrow> had_infra_failure d' sid)"
    if "y \<in> set (x # xs)" "x_submission_id y = Some sid" for y sid
  proof (cases "y \<in> set xs")
    case True
    with that IH v [of y sid] show ?thesis by simp
  next
    case False
    with that have y: "y = x" by simp
    with own that(2) IH s1 show ?thesis by (auto simp: entry_settled_def)
  qed
  moreover have "latest_state d' s = latest_state d s \<and> had_infra_failure d' s = had_infra_failure d s"
    if "s \<notin> set (List.map_filter x_submission_id (x # xs))" for s
  proof -
    have "s \<notin> set (List.map_filter x_submission_id xs)" "x_submission_id x \<noteq> Some s"
      using that by (auto simp: map_filter_simps split: option.splits)
    then show ?thesis using IH s1 by (auto simp: entry_settled_def split: option.splits)
  qed
  ultimately show ?case using IH by blast
qed

lemma upsert_leader_eq_Inr:
  "upsert_leader new d = Inr d' \<longleftrightarrow> l_campaign_id new \<in> campaign_ids d \<and>
     l_submission_id new \<in> submission_ids d \<and> l_won_at_round_id new \<in> round_ids d \<and>
     d' = (case leader_of d (l_campaign_id new) of None \<Rightarrow> d\<lparr>leaders := leaders d @ [new]\<rparr>
       | Some old \<Rightarrow> d\<lparr>leaders := update_where (\<lambda>l. l_campaign_id l = l_campaign_id new) (crown new) (leaders d)\<rparr>)"
  using campaign_of_iff [of d "l_campaign_id new"] submission_of_iff [of d "l_submission_id new"]
    round_of_iff [of d "l_won_at_round_id new"]
  by (auto simp: upsert_leader_def rbind_eq_Inr fk_campaign_def fk_submission_def fk_round_def fk_def)

lemma crown_simps [simp]:
  "l_campaign_id (crown new old) = l_campaign_id new" "l_submission_id (crown new old) = l_submission_id new"
  "l_last_score (crown new old) = l_last_score new" "l_hotkey (crown new old) = l_hotkey new"
  by (simp_all add: crown_def)

lemma upsert_leader_db_ok:
  assumes "db_ok d" and "upsert_leader new d = Inr d'"
  shows "db_ok d'"
proof (cases "leader_of d (l_campaign_id new)")
  case None
  with assms(2) have d': "d' = d\<lparr>leaders := leaders d @ [new]\<rparr>"
    and ids: "l_campaign_id new \<in> campaign_ids d" "l_submission_id new \<in> submission_ids d"
      "l_won_at_round_id new \<in> round_ids d"
    by (auto simp: upsert_leader_eq_Inr)
  have "\<forall>l \<in> set (leaders d). l_campaign_id l \<noteq> l_campaign_id new"
    using None by (simp add: leader_of_def find_eq_None)
  then show ?thesis
    unfolding d' using ids db_okD(6) [OF assms(1)]
    by (intro db_ok_leaders [OF assms(1)])
      (auto simp: leaders_ok_def campaign_ids_def submission_ids_def round_ids_def)
next
  case (Some old)
  let ?ls = "update_where (\<lambda>l. l_campaign_id l = l_campaign_id new) (crown new) (leaders d)"
  have d': "d' = d\<lparr>leaders := ?ls\<rparr>"
    and ids: "l_campaign_id new \<in> campaign_ids d" "l_submission_id new \<in> submission_ids d"
      "l_won_at_round_id new \<in> round_ids d"
    using Some assms(2) by (auto simp: upsert_leader_eq_Inr)
  have "l_won_at_round_id (crown new l) \<in> round_ids d" if "l \<in> set (leaders d)" for l
    using that ids(3) db_okD(6) [OF assms(1)] by (auto simp: crown_def leaders_ok_def)
  moreover have "key l_campaign_id ?ls"
    using db_okD(6) [OF assms(1)] by (auto simp: leaders_ok_def intro!: uniq_update_where)
  ultimately show ?thesis
    unfolding d' using ids db_okD(6) [OF assms(1)]
    by (intro db_ok_leaders [OF assms(1)])
      (simp add: leaders_ok_def campaign_ids_def submission_ids_def round_ids_def ball_update_where)
qed

lemma delete_leader_db_ok: "db_ok d \<Longrightarrow> db_ok (delete_leader cid d)"
  unfolding delete_leader_def using db_okD(6) [of d]
  by (intro db_ok_leaders)
    (auto simp: leaders_ok_def campaign_ids_def submission_ids_def round_ids_def intro: uniq_filter)

lemma insert_history_eq_Inr:
  "insert_history h d = Inr d' \<Longrightarrow>
     d' = d\<lparr>leader_history := leader_history d @ [h\<lparr>h_id := next_history d\<rparr>], next_history := next_history d + 1\<rparr>"
  by (auto simp: insert_history_def rbind_eq_Inr)

lemma insert_history_db_ok:
  assumes "db_ok d" and "insert_history h d = Inr d'"
  shows "db_ok d'"
  using assms(1) unfolding insert_history_eq_Inr [OF assms(2)]
  by (auto simp: db_ok_def table_ok_defs)

lemma write_crown_db_ok:
  "db_ok d \<Longrightarrow> write_crown now rid cid ord dec xs d = Inr d' \<Longrightarrow> db_ok d'"
  by (auto simp: write_crown_def intro: delete_leader_db_ok upsert_leader_db_ok split: if_splits option.splits prod.splits)

lemma write_history_db_ok:
  "db_ok d \<Longrightarrow> write_history now rid cid ord dec eps d = Inr d' \<Longrightarrow> db_ok d'"
  by (auto simp: write_history_def intro: insert_history_db_ok split: option.splits)

lemma complete_round_cases:
  assumes "complete_round now rid cid ord dec xs drift eps ev d = Inr (b, d')"
  shows "(\<not> b \<and> d' = d) \<or> (b \<and> lock_running_round d rid \<and>
    (\<exists>d1 d2 d3. rfold (settle_entry now rid ord ev) xs d = Inr d1 \<and>
       write_crown now rid cid ord dec xs d1 = Inr d2 \<and> write_history now rid cid ord dec eps d2 = Inr d3 \<and>
       d' = d3\<lparr>rounds := update_where (is_running rid) (finish_round now dec drift) (rounds d3)\<rparr>))"
  using assms by (auto simp: complete_round_def rbind_eq_Inr split: if_splits)

lemma complete_round_db_ok:
  assumes "db_ok d" and "complete_round now rid cid ord dec xs drift eps ev d = Inr (b, d')"
  shows "db_ok d'"
  using complete_round_cases [OF assms(2)]
proof (elim disjE conjE exE)
  fix d1 d2 d3
  assume 1: "rfold (settle_entry now rid ord ev) xs d = Inr d1"
    and 2: "write_crown now rid cid ord dec xs d1 = Inr d2"
    and 3: "write_history now rid cid ord dec eps d2 = Inr d3"
    and d': "d' = d3\<lparr>rounds := update_where (is_running rid) (finish_round now dec drift) (rounds d3)\<rparr>"
  have "db_ok d1" using 1 assms(1) by (rule rfold_invariant) (rule settle_entry_db_ok)
  then have "db_ok d3" using write_crown_db_ok [OF _ 2] write_history_db_ok [OF _ 3] by blast
  then show ?thesis unfolding d'
    by (rule db_ok_update_rounds) (auto simp: finish_round_def)
qed (use assms(1) in simp)

lemma write_crown_frame:
  assumes "write_crown now rid cid ord dec xs d = Inr d'"
  shows "\<exists>ls. d' = d\<lparr>leaders := ls\<rparr>"
proof -
  have "\<exists>ls. d = d\<lparr>leaders := ls\<rparr>" by (rule exI [of _ "leaders d"]) simp
  with assms show ?thesis
    by (auto simp: write_crown_def delete_leader_def upsert_leader_eq_Inr
        split: if_splits option.splits prod.splits)
qed

lemma write_history_frame:
  assumes "write_history now rid cid ord dec eps d = Inr d'"
  shows "leaders d' = leaders d \<and> events d' = events d \<and> next_event d' = next_event d \<and>
    submissions d' = submissions d \<and> rounds d' = rounds d \<and> round_entries d' = round_entries d \<and>
    (\<exists>hs. leader_history d' = leader_history d @ hs \<and> length hs = (if rd_event dec = None then 0 else 1) \<and>
       map h_event hs = (case rd_event dec of None \<Rightarrow> [] | Some e \<Rightarrow> [e]))"
  using assms by (auto simp: write_history_def dest!: insert_history_eq_Inr split: option.splits)

text \<open>
  C26. The verdicts of a settled round. When the settlement lands, a scored or disqualified
  submission ends in that state; a challenger whose image never ran is requeued the first time
  and left in \<open>infra_failed\<close> once it has failed so before, and from then on counts as having
  failed; a leader that infra-failed is never requeued; and no submission outside the round
  changes its state.
\<close>

theorem settlement_verdicts:
  assumes "log_ok now d" and "distinct (List.map_filter x_submission_id xs)"
    and "complete_round now rid cid ord dec xs drift eps ev d = Inr (True, d')"
  shows "(\<forall>x \<in> set xs. \<forall>sid. x_submission_id x = Some sid \<longrightarrow>
      (x_status x = EScored \<longrightarrow> latest_state d' sid = Some Scored) \<and>
      (x_status x = EDisqualified \<longrightarrow> latest_state d' sid = Some Disqualified) \<and>
      (x_status x = EInfraFailed \<longrightarrow> had_infra_failure d' sid \<and>
        latest_state d' sid = Some (if x_role x = Challenger \<and> \<not> had_infra_failure d sid
          then BenchQueued else InfraFailed))) \<and>
    (\<forall>s. s \<notin> set (List.map_filter x_submission_id xs) \<longrightarrow> latest_state d' s = latest_state d s) \<and>
    rounds d' = update_where (is_running rid) (finish_round now dec drift) (rounds d)"
proof -
  obtain d1 d2 d3 where 1: "rfold (settle_entry now rid ord ev) xs d = Inr d1"
    and 2: "write_crown now rid cid ord dec xs d1 = Inr d2"
    and 3: "write_history now rid cid ord dec eps d2 = Inr d3"
    and d': "d' = d3\<lparr>rounds := update_where (is_running rid) (finish_round now dec drift) (rounds d3)\<rparr>"
    using complete_round_cases [OF assms(3)] by blast
  note se = settle_entries [OF assms(1) 1 assms(2)]
  have ev: "events d' = events d1" and rs: "rounds d3 = rounds d"
    using write_crown_frame [OF 2] write_history_frame [OF 3] se unfolding d'
    by (auto simp: same_but_events_def)
  then have lat: "latest_state d' = latest_state d1" "had_infra_failure d' = had_infra_failure d1"
    by (simp_all add: fun_eq_iff latest_state_def latest_event_def events_of_def had_infra_failure_def)
  have "rounds d' = update_where (is_running rid) (finish_round now dec drift) (rounds d)"
    unfolding d' by (simp add: rs)
  with se show ?thesis unfolding lat by (auto simp: verdict_def)
qed

lemma leader_of_update:
  assumes "l_campaign_id new = cid"
  shows "leader_of (d\<lparr>leaders := update_where (\<lambda>l. l_campaign_id l = cid) (crown new) (leaders d)\<rparr>) cid' =
     (if cid' = cid then map_option (crown new) (leader_of d cid) else leader_of d cid')"
proof -
  have "find (\<lambda>l. l_campaign_id l = cid') (update_where (\<lambda>l. l_campaign_id l = cid) (crown new) ls) =
      (if cid' = cid then map_option (crown new) (find (\<lambda>l. l_campaign_id l = cid) ls)
       else find (\<lambda>l. l_campaign_id l = cid') ls)" for ls
    using assms by (induction ls) auto
  from this [of "leaders d"] show ?thesis by (simp add: leader_of_def)
qed

lemma leader_of_delete:
  "leader_of (delete_leader cid d) cid' = (if cid' = cid then None else leader_of d cid')"
proof -
  have "find (\<lambda>l. l_campaign_id l = cid') (filter (\<lambda>l. l_campaign_id l \<noteq> cid) ls) =
      (if cid' = cid then None else find (\<lambda>l. l_campaign_id l = cid') ls)" for ls
    by (induction ls) auto
  from this [of "leaders d"] show ?thesis by (simp add: leader_of_def delete_leader_def)
qed

lemma leader_of_snoc:
  "leader_of d (l_campaign_id new) = None \<Longrightarrow>
   leader_of (d\<lparr>leaders := leaders d @ [new]\<rparr>) cid' =
     (if cid' = l_campaign_id new then Some new else leader_of d cid')"
  by (auto simp: leader_of_def find_append split: option.splits)

lemma upsert_leader_of:
  assumes "upsert_leader new d = Inr d'"
  shows "leader_of d' cid' = (if cid' = l_campaign_id new
    then Some (case leader_of d cid' of None \<Rightarrow> new | Some old \<Rightarrow> crown new old) else leader_of d cid')"
proof (cases "leader_of d (l_campaign_id new)")
  case None
  with assms have "d' = d\<lparr>leaders := leaders d @ [new]\<rparr>" by (simp add: upsert_leader_eq_Inr)
  with None show ?thesis by (simp add: leader_of_snoc)
next
  case (Some old)
  with assms have d': "d' = d\<lparr>leaders := update_where (\<lambda>l. l_campaign_id l = l_campaign_id new)
    (crown new) (leaders d)\<rparr>" by (simp add: upsert_leader_eq_Inr)
  show ?thesis unfolding d' leader_of_update [OF refl] using Some by auto
qed

lemma write_crown_effect:
  assumes "write_crown now rid cid ord dec xs d = Inr d'"
  shows "(\<forall>c. c \<noteq> cid \<longrightarrow> leader_of d' c = leader_of d c) \<and>
    (if rd_event dec = Some Vacated then leader_of d' cid = None
     else case rd_leader_submission_id dec of None \<Rightarrow> leader_of d' cid = leader_of d cid
     | Some sid \<Rightarrow> \<exists>l. leader_of d' cid = Some l \<and> l_submission_id l = sid \<and>
         rd_leader_score dec = Some (l_last_score l) \<and>
         (case leader_of d cid of
            Some old \<Rightarrow> if l_submission_id old = sid
              then l_won_at_round_id l = l_won_at_round_id old \<and> l_won_at_ordinal l = l_won_at_ordinal old
              else l_won_at_round_id l = rid \<and> l_won_at_ordinal l = ord
          | None \<Rightarrow> l_won_at_round_id l = rid \<and> l_won_at_ordinal l = ord))"
proof (cases "rd_event dec = Some Vacated")
  case True
  with assms have "d' = delete_leader cid d" by (simp add: write_crown_def)
  with True show ?thesis by (simp add: leader_of_delete)
next
  case False
  show ?thesis
  proof (cases "rd_leader_submission_id dec")
    case None
    with False assms show ?thesis by (simp add: write_crown_def)
  next
    case (Some sid)
    with False assms obtain hk img sc where sc: "rd_leader_score dec = Some sc"
      and up: "upsert_leader \<lparr>l_campaign_id = cid, l_submission_id = sid, l_image_ref = img,
        l_hotkey = hk, l_won_at_round_id = rid, l_won_at_ordinal = ord, l_last_score = sc,
        l_last_scored_round_id = Some rid, l_updated_at = now\<rparr> d = Inr d'"
      by (auto simp: write_crown_def split: option.splits prod.splits)
    show ?thesis
      using False Some sc upsert_leader_of [OF up] by (auto simp: crown_def split: option.splits)
  qed
qed

text \<open>
  C27. What settlement does to the crown: only the campaign's own row changes; a vacating decision
  removes it; a decision that names a leader leaves exactly that submission on the throne with
  the decision's score; and the round the crown was won in, which is the decay clock of the
  emission, survives a successful defence and is reset on a change of leader. One history row is
  appended exactly when the decision carries an event.
\<close>

theorem settlement_crown:
  assumes "log_ok now d" and "distinct (List.map_filter x_submission_id xs)"
    and "complete_round now rid cid ord dec xs drift eps ev d = Inr (True, d')"
  shows "(\<forall>c. c \<noteq> cid \<longrightarrow> leader_of d' c = leader_of d c) \<and>
    (if rd_event dec = Some Vacated then leader_of d' cid = None
     else case rd_leader_submission_id dec of None \<Rightarrow> leader_of d' cid = leader_of d cid
     | Some sid \<Rightarrow> \<exists>l. leader_of d' cid = Some l \<and> l_submission_id l = sid \<and>
         rd_leader_score dec = Some (l_last_score l) \<and>
         (case leader_of d cid of
            Some old \<Rightarrow> if l_submission_id old = sid
              then l_won_at_round_id l = l_won_at_round_id old \<and> l_won_at_ordinal l = l_won_at_ordinal old
              else l_won_at_round_id l = rid \<and> l_won_at_ordinal l = ord
          | None \<Rightarrow> l_won_at_round_id l = rid \<and> l_won_at_ordinal l = ord)) \<and>
    (\<exists>hs. leader_history d' = leader_history d @ hs \<and>
       map h_event hs = (case rd_event dec of None \<Rightarrow> [] | Some e \<Rightarrow> [e]))"
proof -
  obtain d1 d2 d3 where 1: "rfold (settle_entry now rid ord ev) xs d = Inr d1"
    and 2: "write_crown now rid cid ord dec xs d1 = Inr d2"
    and 3: "write_history now rid cid ord dec eps d2 = Inr d3"
    and d': "d' = d3\<lparr>rounds := update_where (is_running rid) (finish_round now dec drift) (rounds d3)\<rparr>"
    using complete_round_cases [OF assms(3)] by blast
  have same: "leaders d1 = leaders d" "leader_history d1 = leader_history d"
    using settle_entries [OF assms(1) 1 assms(2)] by (auto simp: same_but_events_def)
  have l: "leader_of d' = leader_of d2" "leader_of d1 = leader_of d"
    using write_history_frame [OF 3] same by (simp_all add: d' leader_of_def fun_eq_iff)
  have "leader_history d2 = leader_history d"
    using write_crown_frame [OF 2] same by auto
  with write_history_frame [OF 3] have "\<exists>hs. leader_history d' = leader_history d @ hs \<and>
      map h_event hs = (case rd_event dec of None \<Rightarrow> [] | Some e \<Rightarrow> [e])"
    by (auto simp: d')
  with write_crown_effect [OF 2] show ?thesis unfolding l by blast
qed

text \<open>No write addresses a round that is not running: every operation on it reports so.\<close>

lemma not_running_fenced:
  assumes "\<not> touched (is_running rid) (rounds d)"
  shows "void_round now rid reason detail d = Inr (False, d)"
    and "complete_round now rid cid ord dec xs drift eps ev d = Inr (False, d)"
    and "touch_round_heartbeat now rid d = (False, d)"
    and "defer_round_for_capacity now rid delay d = (False, d)"
    and "set_round_phase now rid phase progress d = Inr (False, d)"
  using assms
  by (simp_all add: void_round_def complete_round_def lock_running_round_def touch_round_heartbeat_def
      defer_round_for_capacity_def set_round_phase_def update_where_id)

lemma void_round_stops:
  assumes "db_ok d" and "log_ok now d" and "void_round now rid reason detail d = Inr (True, d')"
  shows "\<not> touched (is_running rid) (rounds d')"
  using void_round_effect [OF assms(1,2), of rid reason detail] assms(3)
  by (auto simp: touched_update_where is_running_def mark_void_def)

lemma complete_round_stops:
  assumes "complete_round now rid cid ord dec xs drift eps ev d = Inr (True, d')"
  shows "\<not> touched (is_running rid) (rounds d')"
  using complete_round_cases [OF assms]
  by (auto simp: touched_update_where is_running_def finish_round_def split: if_splits)

text \<open>
  A round is settled once. Whichever of a settlement and a void commits first on a running
  round, every later settlement, void, deferral, heartbeat or phase report on it, with whatever
  arguments, returns that it did not land and leaves the whole database as it is.
\<close>

theorem round_settled_once:
  assumes "db_ok d" and "log_ok now d"
    and "complete_round now rid cid ord dec xs drift eps ev d = Inr (True, d') \<or>
      void_round now rid reason detail d = Inr (True, d')"
  shows "void_round t rid reason' detail' d' = Inr (False, d') \<and>
    complete_round t rid cid' ord' dec' xs' drift' eps' ev' d' = Inr (False, d') \<and>
    defer_round_for_capacity t rid delay d' = (False, d') \<and>
    touch_round_heartbeat t rid d' = (False, d') \<and>
    set_round_phase t rid phase progress d' = Inr (False, d')"
proof -
  have "\<not> touched (is_running rid) (rounds d')"
    using assms(3) complete_round_stops void_round_stops [OF assms(1,2)] by blast
  then show ?thesis by (simp add: not_running_fenced)
qed

section \<open>A running round, for the witnesses\<close>

definition ex_sub :: "uuid \<Rightarrow> string \<Rightarrow> int \<Rightarrow> submission_row" where
  "ex_sub sid hk block = \<lparr>s_id = sid, s_campaign_id = ''c1'', s_patch_hash = sid, s_hotkey = hk,
     s_baseline_commit = ''ab'', s_retrieval_url = ''u'', s_commit_block = Some block,
     s_payment_block = None, s_payment_tx = None, s_committed_at = block,
     s_engine_image_ref = Some sid, s_created_at = block\<rparr>"

definition ex_event :: "int \<Rightarrow> uuid \<Rightarrow> submission_state \<Rightarrow> event_row" where
  "ex_event i sid st = \<lparr>e_id = i, e_submission_id = sid, e_state = st, e_evidence_ref = None,
     e_detail = [], e_created_at = i\<rparr>"

definition ex_entry :: "int \<Rightarrow> uuid option \<Rightarrow> entry_role \<Rightarrow> entry_status \<Rightarrow> round_entry_row" where
  "ex_entry i sid ro st = \<lparr>n_id = i, n_round_id = ''r1'', n_submission_id = sid, n_role = ro,
     n_image_ref = ''i'', n_status = st, n_score = None, n_disqualify_reason = None, n_report = [],
     n_evidence_s3_url = None, n_started_at = None, n_completed_at = None\<rparr>"

definition ex_round :: round_row where
  "ex_round = \<lparr>r_id = ''r1'', r_campaign_id = ''c1'', r_ordinal = 1, r_gpu_sku = ''h100'',
     r_seed_block = 5, r_seed_block_hash = ''h'', r_seed_hex = ''s'', r_trace_sha256 = ''t'',
     r_sampling_receipt = [], r_scoring_rule = [], r_status = RRunning, r_void_reason = None,
     r_void_detail = None, r_incumbent = None, r_winner = None, r_leader_changed = None,
     r_baseline_drift = None, r_phase = None, r_phase_started_at = None, r_heartbeat_at = Some 10,
     r_progress = None, r_provision_attempts = 0, r_retry_after = None, r_created_at = 9,
     r_started_at = Some 10, r_completed_at = None\<rparr>"

definition ex_round_db :: db where
  "ex_round_db = ex_db0\<lparr>submissions := [ex_sub ''s1'' ''hk1'' 3, ex_sub ''s2'' ''hk2'' 4],
     events := [ex_event 1 ''s1'' RoundAssigned, ex_event 2 ''s2'' RoundAssigned], next_event := 3,
     rounds := [ex_round],
     round_entries := [ex_entry 1 None Baseline EPending, ex_entry 2 (Some ''s1'') Challenger EDisqualified,
       ex_entry 3 (Some ''s2'') Challenger EPending], next_entry := 4\<rparr>"

lemma ex_round_db_ok: "db_ok ex_round_db" "log_ok 20 ex_round_db"
  by (simp_all add: ex_round_db_def ex_db0_def empty_db_def db_ok_def table_ok_defs uniq_def log_ok_def ex_c_def
      ex_sub_def ex_event_def ex_entry_def ex_round_def role_ok_def has_payment_def)

lemma ex_unscored: "unscored ex_round_db ''r1'' = [''s1'', ''s2'']"
  by (simp add: unscored_def ex_round_db_def unscored_challenger_def ex_entry_def)

theorem void_round_requeues_witness:
  "\<exists>d'. void_round 20 ''r1'' ''pod_failed'' [] ex_round_db = Inr (True, d') \<and>
     latest_state d' ''s1'' = Some BenchQueued \<and> latest_state d' ''s2'' = Some BenchQueued"
proof -
  have "\<exists>r \<in> set (rounds ex_round_db). r_id r = ''r1'' \<and> r_status r = RRunning"
    by (simp add: ex_round_db_def ex_round_def)
  moreover obtain b d' where d': "void_round 20 ''r1'' ''pod_failed'' [] ex_round_db = Inr (b, d')"
    "b = (\<exists>r \<in> set (rounds ex_round_db). r_id r = ''r1'' \<and> r_status r = RRunning)"
    "b \<longrightarrow> (\<forall>s. latest_state d' s = (if s \<in> set (unscored ex_round_db ''r1'') then Some BenchQueued
       else latest_state ex_round_db s))"
    using void_round_requeues [OF ex_round_db_ok, of "''r1''" "''pod_failed''" "[]"] by auto
  ultimately show ?thesis by (intro exI [of _ d']) (simp add: ex_unscored)
qed

theorem reap_requeues_witness:
  "\<exists>d'. reap_stale_rounds 10000000 1 (ex_round_db) = Inr ([ex_round], d') \<and>
     latest_state d' ''s1'' = Some BenchQueued"
proof -
  have log: "log_ok 10000000 ex_round_db"
    by (simp add: log_ok_def ex_round_db_def ex_event_def)
  have st: "filter (stale 10000000 1) (rounds ex_round_db) = [ex_round]"
    by (simp add: ex_round_db_def stale_def ex_round_def)
  have "ex_round \<in> set (rounds ex_round_db) \<and> stale 10000000 1 ex_round"
    by (simp add: ex_round_db_def stale_def ex_round_def)
  moreover have "''s1'' \<in> set (unscored ex_round_db (r_id ex_round))"
    by (simp add: ex_round_def ex_unscored)
  ultimately show ?thesis
    using reap_requeues [OF ex_round_db_ok(1) log, of 1] unfolding st by auto
qed

definition ex_results :: "entry_result list" where
  "ex_results =
     [\<lparr>x_id = 1, x_submission_id = None, x_role = Baseline, x_status = EScored, x_score = Some (Fin 0),
        x_disqualify_reason = None, x_report = None, x_hotkey = None, x_image_ref = None\<rparr>,
      \<lparr>x_id = 2, x_submission_id = Some ''s1'', x_role = Challenger, x_status = EInfraFailed, x_score = None,
        x_disqualify_reason = None, x_report = None, x_hotkey = None, x_image_ref = None\<rparr>,
      \<lparr>x_id = 3, x_submission_id = Some ''s2'', x_role = Challenger, x_status = EScored,
        x_score = Some (Fin 1), x_disqualify_reason = None, x_report = None, x_hotkey = Some ''hk2'',
        x_image_ref = Some ''i''\<rparr>]"

definition ex_decision :: rank_decision where
  "ex_decision = no_decision\<lparr>rd_event := Some Seated, rd_leader_submission_id := Some ''s2'',
     rd_leader_score := Some (Fin 1), rd_overtake_threshold := Some (Fin 0)\<rparr>"

lemma ex_complete:
  "\<exists>d'. complete_round 20 ''r1'' ''c1'' 1 ex_decision ex_results (Some (Fin 0)) (Fin 0) None ex_round_db =
     Inr (True, d')"
  by (simp add: complete_round_def lock_running_round_def touched_iff is_running_def ex_round_db_def
      ex_round_def ex_results_def ex_decision_def settle_entry_def insert_event_def fk_submission_def
      fk_def submission_of_def ex_sub_def follow_up_def infra_failed_follow_up_states_def had_infra_failure_def
      ex_event_def write_entry_def write_crown_def winner_identity_def upsert_leader_def fk_campaign_def
      campaign_of_def ex_db0_def ex_c_def fk_round_def round_of_def leader_of_def empty_db_def
      write_history_def insert_history_def Let_def add_event_def no_decision_def)

lemma ex_results_distinct: "distinct (List.map_filter x_submission_id ex_results)"
  by (simp add: ex_results_def map_filter_simps)

theorem settlement_verdicts_witness:
  "\<exists>d'. complete_round 20 ''r1'' ''c1'' 1 ex_decision ex_results (Some (Fin 0)) (Fin 0) None ex_round_db =
     Inr (True, d') \<and> latest_state d' ''s1'' = Some BenchQueued \<and> latest_state d' ''s2'' = Some Scored"
proof -
  obtain d' where r: "complete_round 20 ''r1'' ''c1'' 1 ex_decision ex_results (Some (Fin 0)) (Fin 0) None
      ex_round_db = Inr (True, d')"
    using ex_complete by blast
  have "\<not> had_infra_failure ex_round_db ''s1''"
    by (simp add: had_infra_failure_def ex_round_db_def ex_event_def)
  with settlement_verdicts [OF ex_round_db_ok(2) ex_results_distinct r] r show ?thesis
    by (simp add: ex_results_def)
qed

theorem settlement_crown_witness:
  "\<exists>d' l. complete_round 20 ''r1'' ''c1'' 1 ex_decision ex_results (Some (Fin 0)) (Fin 0) None ex_round_db =
     Inr (True, d') \<and> leader_of d' ''c1'' = Some l \<and> l_submission_id l = ''s2'' \<and> l_won_at_round_id l = ''r1''"
proof -
  obtain d' where r: "complete_round 20 ''r1'' ''c1'' 1 ex_decision ex_results (Some (Fin 0)) (Fin 0) None
      ex_round_db = Inr (True, d')"
    using ex_complete by blast
  have "leader_of ex_round_db ''c1'' = None"
    by (simp add: leader_of_def ex_round_db_def ex_db0_def empty_db_def)
  with settlement_crown [OF ex_round_db_ok(2) ex_results_distinct r] r show ?thesis
    by (auto simp: ex_decision_def)
qed

theorem round_settled_once_witness:
  "\<exists>d'. complete_round 20 ''r1'' ''c1'' 1 ex_decision ex_results (Some (Fin 0)) (Fin 0) None ex_round_db =
     Inr (True, d') \<and> void_round 21 ''r1'' ''pod_failed'' [] d' = Inr (False, d')"
proof -
  obtain d' where r: "complete_round 20 ''r1'' ''c1'' 1 ex_decision ex_results (Some (Fin 0)) (Fin 0) None
      ex_round_db = Inr (True, d')"
    using ex_complete by blast
  from round_settled_once [OF ex_round_db_ok disjI1 [OF r], of 21 "''pod_failed''" "[]"] r
  show ?thesis by blast
qed

end
