(* ===== verification/Exclusion.thy ===== *)
theory Exclusion
  imports Rounds
begin

text \<open>
  The rest of \<open>round/store.py\<close>: vacating a crown, excluding a hotkey from a campaign and waiving
  the exclusion, the rows the weight loop reads and appends, and the read models of the public
  API.
\<close>

section \<open>Vacating an idle crown\<close>

definition list_idle_seated_leaders :: "db \<Rightarrow> leader_row list" where
  "list_idle_seated_leaders d = filter (\<lambda>l. \<not> has_live_round d (l_campaign_id l)) (leaders d)"

definition vacated_row :: "ts \<Rightarrow> uuid \<Rightarrow> leader_row \<Rightarrow> pyfloat \<Rightarrow> history_row" where
  "vacated_row now cid l eps = \<lparr>h_id = 0, h_campaign_id = cid, h_round_id = l_won_at_round_id l,
     h_ordinal = l_won_at_ordinal l, h_event = Vacated, h_new_submission_id = None,
     h_new_hotkey = None, h_new_score = None, h_prev_submission_id = Some (l_submission_id l),
     h_prev_hotkey = Some (l_hotkey l), h_prev_score = Some (l_last_score l),
     h_overtake_threshold = None, h_epsilon = eps, h_created_at = now\<rparr>"

definition vacate_leader_if_idle :: "ts \<Rightarrow> uuid \<Rightarrow> pyfloat \<Rightarrow> db \<Rightarrow> (bool \<times> db) res" where
  "vacate_leader_if_idle now cid eps d =
     (if campaign_of d cid = None then Inr (False, d)
      else case leader_of d cid of None \<Rightarrow> Inr (False, d)
      | Some l \<Rightarrow> if has_live_round d cid then Inr (False, d)
          else rbind (insert_history (vacated_row now cid l eps) (delete_leader cid d))
                 (\<lambda>d1. Inr (True, d1)))"

section \<open>Excluding a hotkey\<close>

definition manual_detail :: "string \<Rightarrow> string \<Rightarrow> string \<Rightarrow> jdict" where
  "manual_detail action reason operator = [(''source'', JStr ''manual''), (''scope'', JStr ''campaign''),
     (''action'', JStr action), (''reason'', JStr reason), (''operator'', JStr operator)]"

record disqualification =
  dq_campaign_id :: uuid
  dq_hotkey :: string
  dq_created :: bool
  dq_submissions_disqualified :: nat
  dq_pending_jobs_stopped :: nat
  dq_leader_vacated :: bool
  dq_replacement_submission_id :: "uuid option"
  dq_replacement_hotkey :: "string option"

definition required_fields :: "string \<Rightarrow> string \<Rightarrow> string \<Rightarrow> string \<Rightarrow> string \<Rightarrow> unit res" where
  "required_fields hk reason ref operator who =
     rbind (rguard (hk \<noteq> []) (ValueError ''hotkey is required'')) (\<lambda>_.
     rbind (rguard (reason \<noteq> []) (ValueError ''reason is required'')) (\<lambda>_.
     rbind (rguard (ref \<noteq> []) (ValueError ''evidence_ref is required'')) (\<lambda>_.
     rguard (operator \<noteq> []) (ValueError (who @ '' is required'')))))"

definition mine :: "uuid \<Rightarrow> string \<Rightarrow> submission_row \<Rightarrow> bool" where
  "mine cid hk s = (s_campaign_id s = cid \<and> s_hotkey s = hk)"

definition job_of_hotkey :: "db \<Rightarrow> uuid \<Rightarrow> string \<Rightarrow> job_row \<Rightarrow> bool" where
  "job_of_hotkey d cid hk j = of_hotkey d cid hk (j_submission_id j)"

definition stop_pending_jobs :: "ts \<Rightarrow> uuid \<Rightarrow> string \<Rightarrow> db \<Rightarrow> db" where
  "stop_pending_jobs now cid hk d = d\<lparr>jobs :=
     update_where (\<lambda>j. job_of_hotkey d cid hk j \<and> j_status j = JobPending)
       (\<lambda>j. clear_activity now (j\<lparr>j_status := JobDone,
          j_last_error := Some ''campaign_hotkey_disqualified''\<rparr>)) (jobs d)\<rparr>"

text \<open>The runner-up of the round the leader last scored in, and who may not take the crown.\<close>

definition may_replace :: "db \<Rightarrow> uuid \<Rightarrow> uuid \<Rightarrow> leader_row \<Rightarrow> round_entry_row \<times> submission_row \<Rightarrow> bool" where
  "may_replace d cid rid l p = (case p of (n, s) \<Rightarrow>
     n_round_id n = rid \<and> n_submission_id n = Some (s_id s) \<and> s_id s \<noteq> l_submission_id l \<and>
     round_of d rid \<noteq> None \<and> n_status n = EScored \<and>
     (case n_score n of None \<Rightarrow> False | Some v \<Rightarrow> num_lt (Fin 0) v) \<and>
     latest_state d (s_id s) = Some Scored \<and> \<not> campaign_hotkey_is_disqualified d cid (s_hotkey s))"

definition entry_score :: "round_entry_row \<Rightarrow> pyfloat" where
  "entry_score n = (case n_score n of Some v \<Rightarrow> v | None \<Rightarrow> NaN)"

text \<open>\<open>ORDER BY e.score DESC, s.commit_block ASC, s.id ASC\<close>: \<open>b\<close> comes before \<open>a\<close>.\<close>

definition replaces_before :: "round_entry_row \<times> submission_row \<Rightarrow> round_entry_row \<times> submission_row \<Rightarrow> bool" where
  "replaces_before a b = (num_lt (entry_score (fst a)) (entry_score (fst b)) \<or>
     (entry_score (fst a) = entry_score (fst b) \<and> commit_key (snd b) < commit_key (snd a)))"

definition replacement_for ::
  "db \<Rightarrow> uuid \<Rightarrow> leader_row \<Rightarrow> (round_entry_row \<times> submission_row) option" where
  "replacement_for d cid l = (let
     rid = (case l_last_scored_round_id l of Some r \<Rightarrow> r | None \<Rightarrow> l_won_at_round_id l)
     in best replaces_before (filter (may_replace d cid rid l)
          (List.product (round_entries d) (submissions d))))"

definition seated_row :: "ts \<Rightarrow> uuid \<Rightarrow> int \<Rightarrow> round_entry_row \<Rightarrow> submission_row \<Rightarrow> pyfloat \<Rightarrow> history_row" where
  "seated_row now cid ordinal n s eps = \<lparr>h_id = 0, h_campaign_id = cid, h_round_id = n_round_id n,
     h_ordinal = ordinal, h_event = Seated, h_new_submission_id = Some (s_id s),
     h_new_hotkey = Some (s_hotkey s), h_new_score = n_score n, h_prev_submission_id = None,
     h_prev_hotkey = None, h_prev_score = None, h_overtake_threshold = Some (Fin 0), h_epsilon = eps,
     h_created_at = now\<rparr>"

definition seat_replacement ::
  "ts \<Rightarrow> uuid \<Rightarrow> pyfloat \<Rightarrow> round_entry_row \<times> submission_row \<Rightarrow> db \<Rightarrow> db res" where
  "seat_replacement now cid eps p d = (case p of (n, s) \<Rightarrow>
     (case (round_of d (n_round_id n), n_score n) of
        (Some r, Some sc) \<Rightarrow>
          rbind (fk_campaign d cid) (\<lambda>_. rbind (fk_submission d (Some (s_id s))) (\<lambda>_.
          insert_history (seated_row now cid (r_ordinal r) n s eps)
            (d\<lparr>leaders := leaders d @ [\<lparr>l_campaign_id = cid, l_submission_id = s_id s,
               l_image_ref = n_image_ref n, l_hotkey = s_hotkey s, l_won_at_round_id = n_round_id n,
               l_won_at_ordinal = r_ordinal r, l_last_score = sc,
               l_last_scored_round_id = Some (n_round_id n), l_updated_at = now\<rparr>]\<rparr>)))
      | _ \<Rightarrow> Inl (NotNullViolation ''last_score'')))"

text \<open>\<open>DELETE FROM leaders WHERE campaign_id = cid AND hotkey = hk\<close> and what follows it.\<close>

definition replace_leader ::
  "ts \<Rightarrow> uuid \<Rightarrow> string \<Rightarrow> pyfloat \<Rightarrow> leader_row \<Rightarrow> db \<Rightarrow> ((round_entry_row \<times> submission_row) option \<times> db) res" where
  "replace_leader now cid hk eps l d = (let
     replacement = replacement_for d cid l;
     d1 = d\<lparr>leaders := filter (\<lambda>x. \<not> (l_campaign_id x = cid \<and> l_hotkey x = hk)) (leaders d)\<rparr>
     in rbind (insert_history (vacated_row now cid l eps) d1) (\<lambda>d2.
        case replacement of None \<Rightarrow> Inr (None, d2)
        | Some p \<Rightarrow> rbind (seat_replacement now cid eps p d2) (\<lambda>d3. Inr (Some p, d3))))"

definition exclude_submissions ::
  "ts \<Rightarrow> uuid \<Rightarrow> string \<Rightarrow> string \<Rightarrow> jdict \<Rightarrow> db \<Rightarrow> db res" where
  "exclude_submissions now cid hk ref detail d =
     rfold (\<lambda>s. insert_event now (s_id s) Disqualified (Some ref) detail)
       (filter (mine cid hk) (submissions d)) d"

text \<open>Whether the exclusion is new: no manual action yet, or the latest one is a waiver.\<close>

definition exclusion_is_new :: "db \<Rightarrow> uuid \<Rightarrow> string \<Rightarrow> bool" where
  "exclusion_is_new d cid hk = (case latest_campaign_hotkey_action d cid hk of None \<Rightarrow> True
     | Some a \<Rightarrow> a = JStr action_waived)"

definition apply_exclusion :: "ts \<Rightarrow> uuid \<Rightarrow> string \<Rightarrow> string \<Rightarrow> jdict \<Rightarrow> db \<Rightarrow> db res" where
  "apply_exclusion now cid hk ref detail d = (let d1 = stop_pending_jobs now cid hk d in
     if exclusion_is_new d cid hk then exclude_submissions now cid hk ref detail d1 else Inr d1)"

definition leader_with_hotkey :: "db \<Rightarrow> uuid \<Rightarrow> string \<Rightarrow> leader_row option" where
  "leader_with_hotkey d cid hk = find (\<lambda>l. l_campaign_id l = cid \<and> l_hotkey l = hk) (leaders d)"

definition reassign_crown ::
  "ts \<Rightarrow> uuid \<Rightarrow> string \<Rightarrow> pyfloat \<Rightarrow> db \<Rightarrow> ((round_entry_row \<times> submission_row) option \<times> db) res" where
  "reassign_crown now cid hk eps d = (case leader_with_hotkey d cid hk of
     None \<Rightarrow> Inr (None, d) | Some l \<Rightarrow> replace_leader now cid hk eps l d)"

definition exclusion_guards :: "uuid \<Rightarrow> string \<Rightarrow> db \<Rightarrow> unit res" where
  "exclusion_guards cid hk d =
     rbind (rguard (campaign_of d cid \<noteq> None) (ValueError ''unknown campaign'')) (\<lambda>_.
     rbind (rguard (\<not> has_live_round d cid)
       (CampaignHotkeyDisqualificationError ''campaign has a pending or running round'')) (\<lambda>_.
     rbind (rguard (filter (mine cid hk) (submissions d) \<noteq> [])
       (ValueError ''hotkey has no submissions in this campaign'')) (\<lambda>_.
     rguard (\<not> (\<exists>j \<in> set (jobs d). job_of_hotkey d cid hk j \<and> j_status j = JobRunning))
       (CampaignHotkeyDisqualificationError ''hotkey has a running gate job''))))"

definition disqualify_campaign_hotkey ::
  "ts \<Rightarrow> uuid \<Rightarrow> string \<Rightarrow> string \<Rightarrow> string \<Rightarrow> string \<Rightarrow> pyfloat \<Rightarrow> db \<Rightarrow> (disqualification \<times> db) res" where
  "disqualify_campaign_hotkey now cid hotkey0 reason0 ref0 by0 eps d = (let
     hk = strip hotkey0; reason = strip reason0; ref = strip ref0; operator = strip by0 in
     rbind (required_fields hk reason ref operator ''disqualified_by'') (\<lambda>_.
     rbind (exclusion_guards cid hk d) (\<lambda>_.
     rbind (apply_exclusion now cid hk ref (manual_detail action_disqualified reason operator) d) (\<lambda>d2.
     rbind (reassign_crown now cid hk eps d2) (\<lambda>(replacement, d3).
     Inr (\<lparr>dq_campaign_id = cid, dq_hotkey = hk, dq_created = exclusion_is_new d cid hk,
        dq_submissions_disqualified =
          (if exclusion_is_new d cid hk then length (filter (mine cid hk) (submissions d)) else 0),
        dq_pending_jobs_stopped =
          length (filter (\<lambda>j. job_of_hotkey d cid hk j \<and> j_status j = JobPending) (jobs d)),
        dq_leader_vacated = (leader_with_hotkey d2 cid hk \<noteq> None),
        dq_replacement_submission_id = map_option (s_id \<circ> snd) replacement,
        dq_replacement_hotkey = map_option (s_hotkey \<circ> snd) replacement\<rparr>, d3))))))"

text \<open>The newest submission of the hotkey: \<open>ORDER BY s.created_at DESC, s.id DESC LIMIT 1\<close>.\<close>

definition newest_submission :: "db \<Rightarrow> uuid \<Rightarrow> string \<Rightarrow> submission_row option" where
  "newest_submission d cid hk =
     best (\<lambda>a b. (s_created_at a, s_id a) < (s_created_at b, s_id b)) (filter (mine cid hk) (submissions d))"

record waiver =
  wv_campaign_id :: uuid
  wv_hotkey :: string
  wv_created :: bool

definition waive_campaign_hotkey ::
  "ts \<Rightarrow> uuid \<Rightarrow> string \<Rightarrow> string \<Rightarrow> string \<Rightarrow> string \<Rightarrow> db \<Rightarrow> (waiver \<times> db) res" where
  "waive_campaign_hotkey now cid hotkey0 reason0 ref0 by0 d = (let
     hk = strip hotkey0; reason = strip reason0; ref = strip ref0; operator = strip by0 in
     rbind (required_fields hk reason ref operator ''waived_by'') (\<lambda>_.
     rbind (rguard (campaign_of d cid \<noteq> None) (ValueError ''unknown campaign'')) (\<lambda>_.
     case newest_submission d cid hk of
       None \<Rightarrow> Inl (ValueError ''hotkey has no submissions in this campaign'')
     | Some s \<Rightarrow> (case latest_campaign_hotkey_action d cid hk of
         None \<Rightarrow> Inl (ValueError ''hotkey is not disqualified from this campaign'')
       | Some a \<Rightarrow> let created = (a \<noteq> JStr action_waived) in
           rbind (if created then insert_event now (s_id s) Disqualified (Some ref)
                    (manual_detail action_waived reason operator) d else Inr d)
             (\<lambda>d1. Inr (\<lparr>wv_campaign_id = cid, wv_hotkey = hk, wv_created = created\<rparr>, d1))))))"

section \<open>Weight sets\<close>

text \<open>\<open>ORDER BY c.created_at\<close>, with the leader and its round left-joined.\<close>

definition list_open_campaign_emissions :: "db \<Rightarrow> campaign_emission list" where
  "list_open_campaign_emissions d = map (\<lambda>c. let l = leader_of d (c_id c) in
       \<lparr>ce_campaign_id = c_id c, ce_status = c_status c, ce_emission_rule = c_emission_rule c,
        ce_leader_hotkey = map_option l_hotkey l,
        ce_seed_block = (case l of None \<Rightarrow> None
          | Some x \<Rightarrow> map_option r_seed_block (round_of d (l_won_at_round_id x)))\<rparr>)
     (sort_key c_created_at (filter (\<lambda>c. c_status c = ''open'') (campaigns d)))"

definition insert_weight_set ::
  "ts \<Rightarrow> int \<Rightarrow> int \<Rightarrow> int \<Rightarrow> pyfloat list \<Rightarrow> breakdown_row list \<Rightarrow> db \<Rightarrow> int \<times> db" where
  "insert_weight_set now block version burn ws bd d = (next_weight d,
     d\<lparr>weight_sets := weight_sets d @ [\<lparr>w_id = next_weight d, w_computed_at_block = block,
         w_version_key = version, w_burn_uid = burn, w_weights = ws, w_breakdown = bd,
         w_set_ok = None, w_set_error = None, w_created_at = now\<rparr>],
       next_weight := next_weight d + 1\<rparr>)"

definition mark_weight_set_result :: "int \<Rightarrow> bool \<Rightarrow> string option \<Rightarrow> db \<Rightarrow> db" where
  "mark_weight_set_result row_id ok err d = d\<lparr>weight_sets :=
     update_where (\<lambda>w. w_id w = row_id \<and> w_set_ok w = None)
       (\<lambda>w. w\<lparr>w_set_ok := Some ok, w_set_error := err\<rparr>) (weight_sets d)\<rparr>"

definition newer_weight :: "weight_set_row \<Rightarrow> weight_set_row \<Rightarrow> bool" where
  "newer_weight a b = ((w_created_at a, w_id a) < (w_created_at b, w_id b))"

definition get_latest_weight_set :: "db \<Rightarrow> weight_set_row option" where
  "get_latest_weight_set d = best newer_weight (weight_sets d)"

definition get_latest_chain_set_block :: "db \<Rightarrow> int option" where
  "get_latest_chain_set_block d = map_option w_computed_at_block
     (best newer_weight (filter (\<lambda>w. w_set_ok w \<noteq> None) (weight_sets d)))"

text \<open>\<open>ORDER BY completed_at DESC, id DESC\<close> over rows whose \<open>completed_at\<close> is not null.\<close>

definition completion :: "round_row \<Rightarrow> ts" where
  "completion r = (case r_completed_at r of None \<Rightarrow> 0 | Some t \<Rightarrow> t)"

definition completed_before :: "round_row \<Rightarrow> round_row \<Rightarrow> bool" where
  "completed_before a b = ((completion a, r_id a) < (completion b, r_id b))"

definition get_latest_completed_round_marker :: "db \<Rightarrow> uuid option" where
  "get_latest_completed_round_marker d = map_option r_id (best completed_before
     (filter (\<lambda>r. r_status r = RComplete \<and> r_completed_at r \<noteq> None) (rounds d)))"

definition get_latest_stored_round_marker :: "db \<Rightarrow> uuid option" where
  "get_latest_stored_round_marker d = (case get_latest_weight_set d of None \<Rightarrow> None
     | Some w \<Rightarrow> map_option r_id (best completed_before
         (filter (\<lambda>r. r_status r = RComplete \<and>
            (case r_completed_at r of None \<Rightarrow> False | Some t \<Rightarrow> t \<le> w_created_at w)) (rounds d))))"

section \<open>Read models\<close>

definition get_leader :: "db \<Rightarrow> uuid \<Rightarrow> (leader_row \<times> string) option" where
  "get_leader d cid = (case leader_of d cid of None \<Rightarrow> None
     | Some l \<Rightarrow> map_option (\<lambda>s. (l, s_patch_hash s)) (submission_of d (l_submission_id l)))"

definition list_rounds :: "db \<Rightarrow> uuid \<Rightarrow> nat \<Rightarrow> nat \<Rightarrow> (nat \<times> (round_row \<times> nat) list) option" where
  "list_rounds d cid limit offset = (if campaign_of d cid = None then None
     else let rows = filter (\<lambda>r. r_campaign_id r = cid) (rounds d) in
       Some (length rows, map (\<lambda>r. (r, length (filter (\<lambda>n. n_round_id n = r_id r) (round_entries d))))
         (take limit (drop offset (rev (sort_key r_ordinal rows))))))"

definition list_round_entries :: "db \<Rightarrow> uuid \<Rightarrow> (round_entry_row \<times> submission_row option) list" where
  "list_round_entries d rid = map (\<lambda>n. (n, case n_submission_id n of None \<Rightarrow> None
       | Some sid \<Rightarrow> submission_of d sid))
     (sort_key n_id (filter (\<lambda>n. n_round_id n = rid) (round_entries d)))"

definition get_round_entry_report :: "db \<Rightarrow> uuid \<Rightarrow> int \<Rightarrow> (round_entry_row \<times> round_row) option" where
  "get_round_entry_report d rid eid =
     (case find (\<lambda>n. n_round_id n = rid \<and> n_id n = eid) (round_entries d) of None \<Rightarrow> None
      | Some n \<Rightarrow> map_option (Pair n) (round_of d rid))"

text \<open>One point of the chart per round; the winner's score is the line, the others the scatter.\<close>

record score_point =
  sp_round_id :: uuid
  sp_ordinal :: int
  sp_status :: round_status
  sp_leader_score :: "pyfloat option"
  sp_entries :: "round_entry_row list"

definition plot_entry :: "round_row \<Rightarrow> score_point \<Rightarrow> round_entry_row \<Rightarrow> score_point" where
  "plot_entry r p n = (if n_submission_id n = None then p
     else if r_winner r \<noteq> None \<and> r_winner r = n_submission_id n then p\<lparr>sp_leader_score := n_score n\<rparr>
     else p\<lparr>sp_entries := sp_entries p @ [n]\<rparr>)"

definition list_score_progress :: "db \<Rightarrow> uuid \<Rightarrow> score_point list" where
  "list_score_progress d cid = map (\<lambda>r. foldl (plot_entry r)
       \<lparr>sp_round_id = r_id r, sp_ordinal = r_ordinal r, sp_status = r_status r,
        sp_leader_score = None, sp_entries = []\<rparr>
       (sort_key n_id (filter (\<lambda>n. n_round_id n = r_id r \<and> n_role n \<noteq> Baseline) (round_entries d))))
     (sort_key r_ordinal (filter (\<lambda>r. r_campaign_id r = cid) (rounds d)))"

definition final_entry :: "entry_status \<Rightarrow> bool" where
  "final_entry st = (st = EScored \<or> st = EDisqualified \<or> st = EInfraFailed)"

text \<open>The entries of a submission in rounds that are not void, each with its round.\<close>

definition entries_of_submission :: "db \<Rightarrow> uuid \<Rightarrow> (round_entry_row \<times> round_row) list" where
  "entries_of_submission d sid = filter (\<lambda>(n, r). n_round_id n = r_id r \<and>
       n_submission_id n = Some sid \<and> r_status r \<noteq> RVoid) (List.product (round_entries d) (rounds d))"

text \<open>\<open>ORDER BY (status IN (...)) DESC, r.ordinal DESC\<close>: \<open>b\<close> is shown rather than \<open>a\<close>.\<close>

definition shown_before :: "round_entry_row \<times> round_row \<Rightarrow> round_entry_row \<times> round_row \<Rightarrow> bool" where
  "shown_before a b = ((final_entry (n_status (fst a)), r_ordinal (snd a)) <
     (final_entry (n_status (fst b)), r_ordinal (snd b)))"

text \<open>\<open>MIN(r.completed_at)\<close> over the finalized evaluations; nulls do not count.\<close>

definition evaluated_at :: "(round_entry_row \<times> round_row) list \<Rightarrow> ts option" where
  "evaluated_at ps = (let ts = List.map_filter (\<lambda>(n, r).
       if r_status r = RComplete \<and> settled (n_status n) then r_completed_at r else None) ps in
     if ts = [] then None else Some (Min (set ts)))"

definition submission_round_entry :: "db \<Rightarrow> uuid \<Rightarrow> ((round_entry_row \<times> round_row) \<times> ts option) option" where
  "submission_round_entry d sid = (let ps = entries_of_submission d sid in
     map_option (\<lambda>p. (p, evaluated_at ps)) (best shown_before ps))"

definition list_submission_round_entries ::
  "db \<Rightarrow> uuid list \<Rightarrow> (uuid \<times> ((round_entry_row \<times> round_row) \<times> ts option)) list" where
  "list_submission_round_entries d sids = List.map_filter
     (\<lambda>sid. map_option (Pair sid) (submission_round_entry d sid)) (remdups sids)"

definition list_patch_evaluation_times :: "db \<Rightarrow> uuid list \<Rightarrow> (uuid \<times> ts option) list" where
  "list_patch_evaluation_times d sids = List.map_filter (\<lambda>sid.
     let ps = filter (\<lambda>(n, r). r_status r = RComplete \<and> settled (n_status n)) (entries_of_submission d sid) in
     if ps = [] then None else Some (sid, evaluated_at ps)) (remdups sids)"

section \<open>Every writer keeps the schema's constraints\<close>

lemma vacate_leader_db_ok:
  "db_ok d \<Longrightarrow> vacate_leader_if_idle now cid eps d = Inr (b, d') \<Longrightarrow> db_ok d'"
  by (auto simp: vacate_leader_if_idle_def rbind_eq_Inr intro: insert_history_db_ok delete_leader_db_ok
      split: if_splits option.splits)

lemma stop_pending_jobs_db_ok: "db_ok d \<Longrightarrow> db_ok (stop_pending_jobs now cid hk d)"
  unfolding stop_pending_jobs_def by (rule db_ok_update_jobs) auto

lemma stop_pending_jobs_simps [simp]:
  "campaigns (stop_pending_jobs now cid hk d) = campaigns d"
  "submissions (stop_pending_jobs now cid hk d) = submissions d"
  "events (stop_pending_jobs now cid hk d) = events d"
  "next_event (stop_pending_jobs now cid hk d) = next_event d"
  "rounds (stop_pending_jobs now cid hk d) = rounds d" "leaders (stop_pending_jobs now cid hk d) = leaders d"
  "submission_ids (stop_pending_jobs now cid hk d) = submission_ids d"
  "round_entries (stop_pending_jobs now cid hk d) = round_entries d"
  by (simp_all add: stop_pending_jobs_def submission_ids_def)

lemma exclude_submissions_eq:
  "exclude_submissions now cid hk ref x d = Inr (fold (\<lambda>s. add_event now (s_id s) Disqualified (Some ref) x)
     (filter (mine cid hk) (submissions d)) d)"
  unfolding exclude_submissions_def by (rule rfold_insert_event) (auto simp: submission_ids_def)

lemma exclude_submissions_db_ok:
  assumes "db_ok d" and "exclude_submissions now cid hk ref x d = Inr d'"
  shows "db_ok d'"
proof -
  have "db_ok (fold (\<lambda>s. add_event now (s_id s) Disqualified (Some ref) x) (filter (mine cid hk) (submissions d)) d)"
    using assms(1) by (rule fold_add_event_db_ok) (auto simp: submission_ids_def)
  with assms(2) show ?thesis by (simp add: exclude_submissions_eq)
qed

definition no_crown_for :: "uuid \<Rightarrow> db \<Rightarrow> bool" where
  "no_crown_for cid d = (\<forall>l \<in> set (leaders d). l_campaign_id l \<noteq> cid)"

lemma seat_replacement_db_ok:
  assumes "db_ok d" and "no_crown_for cid d" and "seat_replacement now cid eps (n, s) d = Inr d'"
  shows "db_ok d'"
proof -
  obtain r sc where r: "round_of d (n_round_id n) = Some r" "n_score n = Some sc"
    and c: "cid \<in> campaign_ids d" "s_id s \<in> submission_ids d"
    and h: "insert_history (seated_row now cid (r_ordinal r) n s eps)
            (d\<lparr>leaders := leaders d @ [\<lparr>l_campaign_id = cid, l_submission_id = s_id s,
               l_image_ref = n_image_ref n, l_hotkey = s_hotkey s, l_won_at_round_id = n_round_id n,
               l_won_at_ordinal = r_ordinal r, l_last_score = sc,
               l_last_scored_round_id = Some (n_round_id n), l_updated_at = now\<rparr>]\<rparr>) = Inr d'"
    using assms(3) campaign_of_iff [of d cid] submission_of_iff [of d "s_id s"]
    by (auto simp: seat_replacement_def rbind_eq_Inr fk_campaign_def fk_submission_def fk_def
        split: option.splits)
  have "n_round_id n \<in> round_ids d" using round_of_iff [of d "n_round_id n"] r(1) by auto
  then have "db_ok (d\<lparr>leaders := leaders d @ [\<lparr>l_campaign_id = cid, l_submission_id = s_id s,
      l_image_ref = n_image_ref n, l_hotkey = s_hotkey s, l_won_at_round_id = n_round_id n,
      l_won_at_ordinal = r_ordinal r, l_last_score = sc,
      l_last_scored_round_id = Some (n_round_id n), l_updated_at = now\<rparr>]\<rparr>)"
    using db_okD(6) [OF assms(1)] assms(2) c
    by (intro db_ok_leaders [OF assms(1)])
      (auto simp: leaders_ok_def no_crown_for_def campaign_ids_def submission_ids_def round_ids_def)
  then show ?thesis using h by (rule insert_history_db_ok)
qed

text \<open>Deleting the leader's row empties the throne, because a campaign has one row.\<close>

lemma delete_hotkey_leader:
  assumes "db_ok d" and "leader_with_hotkey d cid hk = Some l"
  defines "d1 \<equiv> d\<lparr>leaders := filter (\<lambda>x. \<not> (l_campaign_id x = cid \<and> l_hotkey x = hk)) (leaders d)\<rparr>"
  shows "db_ok d1" and "no_crown_for cid d1"
proof -
  have l: "l \<in> set (leaders d)" "l_campaign_id l = cid" "l_hotkey l = hk"
    using find_SomeD [OF assms(2) [unfolded leader_with_hotkey_def]] by auto
  have one: "x = l" if "x \<in> set (leaders d)" "l_campaign_id x = cid" for x
    using db_okD(6) [OF assms(1)] that l uniqD [of "\<lambda>_. True" l_campaign_id "leaders d" x l]
    by (simp add: leaders_ok_def)
  show "no_crown_for cid d1" unfolding no_crown_for_def
  proof
    fix x assume "x \<in> set (leaders d1)"
    then have x: "x \<in> set (leaders d)" "\<not> (l_campaign_id x = cid \<and> l_hotkey x = hk)" by (simp_all add: d1_def)
    then show "l_campaign_id x \<noteq> cid" using one [of x] l(2,3) by metis
  qed
  show "db_ok d1"
    unfolding d1_def using db_okD(6) [OF assms(1)]
    by (intro db_ok_leaders [OF assms(1)])
      (auto simp: leaders_ok_def campaign_ids_def submission_ids_def round_ids_def intro: uniq_filter)
qed

lemma replace_leader_cases:
  assumes "replace_leader now cid hk eps l d = Inr (p, d')"
  defines "d1 \<equiv> d\<lparr>leaders := filter (\<lambda>x. \<not> (l_campaign_id x = cid \<and> l_hotkey x = hk)) (leaders d)\<rparr>"
  shows "\<exists>d2. insert_history (vacated_row now cid l eps) d1 = Inr d2 \<and> p = replacement_for d cid l \<and>
    (case p of None \<Rightarrow> d' = d2 | Some q \<Rightarrow> seat_replacement now cid eps q d2 = Inr d')"
proof -
  obtain d2 where h: "insert_history (vacated_row now cid l eps) d1 = Inr d2"
    using assms(1) by (auto simp: replace_leader_def Let_def rbind_eq_Inr d1_def)
  have r: "(case replacement_for d cid l of None \<Rightarrow> Inr (None, d2)
      | Some q \<Rightarrow> rbind (seat_replacement now cid eps q d2) (\<lambda>d3. Inr (Some q, d3))) = Inr (p, d')"
    using assms(1) unfolding replace_leader_def Let_def d1_def [symmetric] h by simp
  show ?thesis
  proof (cases "replacement_for d cid l")
    case None
    with r h show ?thesis by auto
  next
    case (Some q)
    have "seat_replacement now cid eps q d2 = Inr d' \<and> p = Some q"
      using r unfolding Some option.case rbind_eq_Inr by (elim exE conjE) simp
    then show ?thesis using h Some by simp
  qed
qed

lemma replace_leader_db_ok:
  assumes "db_ok d" and "leader_with_hotkey d cid hk = Some l"
    and "replace_leader now cid hk eps l d = Inr (p, d')"
  shows "db_ok d'"
proof -
  let ?d1 = "d\<lparr>leaders := filter (\<lambda>x. \<not> (l_campaign_id x = cid \<and> l_hotkey x = hk)) (leaders d)\<rparr>"
  obtain d2 where h: "insert_history (vacated_row now cid l eps) ?d1 = Inr d2"
    and p: "case p of None \<Rightarrow> d' = d2 | Some q \<Rightarrow> seat_replacement now cid eps q d2 = Inr d'"
    using replace_leader_cases [OF assms(3)] by auto
  note del = delete_hotkey_leader [OF assms(1,2)]
  have "db_ok d2" using del(1) h by (rule insert_history_db_ok)
  moreover have "no_crown_for cid d2"
    using del(2) unfolding insert_history_eq_Inr [OF h] by (simp add: no_crown_for_def)
  ultimately show ?thesis
    using p by (auto intro: seat_replacement_db_ok split: option.splits)
qed

text \<open>The parts of a disqualification that went through.\<close>

lemma disqualifyE:
  assumes "disqualify_campaign_hotkey now cid hotkey0 reason0 ref0 by0 eps d = Inr (r, d')"
  obtains d2 p where "exclusion_guards cid (strip hotkey0) d = Inr ()"
    "apply_exclusion now cid (strip hotkey0) (strip ref0)
       (manual_detail action_disqualified (strip reason0) (strip by0)) d = Inr d2"
    "reassign_crown now cid (strip hotkey0) eps d2 = Inr (p, d')"
    "dq_replacement_hotkey r = map_option (s_hotkey \<circ> snd) p"
  using assms unfolding disqualify_campaign_hotkey_def Let_def rbind_eq_Inr
  by (elim exE conjE) (auto split: prod.splits)

lemma apply_exclusion_db_ok:
  "db_ok d \<Longrightarrow> apply_exclusion now cid hk ref x d = Inr d' \<Longrightarrow> db_ok d'"
  by (auto simp: apply_exclusion_def Let_def
      intro: exclude_submissions_db_ok stop_pending_jobs_db_ok split: if_splits)

lemma reassign_crown_db_ok:
  "db_ok d \<Longrightarrow> reassign_crown now cid hk eps d = Inr (p, d') \<Longrightarrow> db_ok d'"
  by (auto simp: reassign_crown_def intro: replace_leader_db_ok split: option.splits)

lemma disqualify_db_ok:
  assumes "db_ok d" and "disqualify_campaign_hotkey now cid hotkey0 reason0 ref0 by0 eps d = Inr (r, d')"
  shows "db_ok d'"
  using assms(2) by (rule disqualifyE) (metis assms(1) apply_exclusion_db_ok reassign_crown_db_ok)

lemma waive_db_ok:
  "db_ok d \<Longrightarrow> waive_campaign_hotkey now cid hk reason ref who d = Inr (r, d') \<Longrightarrow> db_ok d'"
  by (auto simp: waive_campaign_hotkey_def Let_def rbind_eq_Inr insert_event_eq_Inr
      intro: db_ok_add_event split: option.splits if_splits)

lemma insert_weight_set_db_ok: "db_ok d \<Longrightarrow> db_ok (snd (insert_weight_set now b v u ws bd d))"
  by (auto simp: insert_weight_set_def db_ok_def table_ok_defs)

lemma mark_weight_set_db_ok:
  assumes "db_ok d"
  shows "db_ok (mark_weight_set_result i ok err d)"
proof -
  have "logs_ok (mark_weight_set_result i ok err d)"
    using db_okD(7) [OF assms] unfolding logs_ok_def mark_weight_set_result_def
    by (auto simp: ball_update_where intro!: uniq_update_where)
  with assms show ?thesis
    by (simp add: db_ok_def table_ok_defs mark_weight_set_result_def)
qed

end
