(* ===== verification/Registry.thy ===== *)
theory Registry
  imports PyValue
begin

text \<open>
  \<open>builder/registry.py\<close> and the naming half of \<open>builder/digest.py\<close>: image references and
  digests. The configured owner and image names are arguments.
\<close>

section \<open>Substrings\<close>

text \<open>\<open>s.rsplit(p, 1)[1]\<close> when \<open>p\<close> occurs in \<open>s\<close>.\<close>

fun after_last :: "string \<Rightarrow> string \<Rightarrow> string option" where
  "after_last p [] = None"
| "after_last p (c # cs) = (case after_last p cs of Some r \<Rightarrow> Some r
     | None \<Rightarrow> if startswith (c # cs) p then Some (drop (length p) (c # cs)) else None)"

text \<open>\<open>s.rsplit(p, 1)[0]\<close> for a single character.\<close>

definition before_last :: "char \<Rightarrow> string \<Rightarrow> string" where
  "before_last c s = rev (tl (dropWhile (\<lambda>x. x \<noteq> c) (rev s)))"

definition before_first :: "char \<Rightarrow> string \<Rightarrow> string" where
  "before_first c s = takeWhile (\<lambda>x. x \<noteq> c) s"

definition after_first :: "char \<Rightarrow> string \<Rightarrow> string" where
  "after_first c s = tl (dropWhile (\<lambda>x. x \<noteq> c) s)"

section \<open>Digests\<close>

definition sha_prefix :: string where
  "sha_prefix = ''sha256:''"

definition at_sha :: string where
  "at_sha = ''@sha256:''"

definition is_sha256 :: "string \<Rightarrow> bool" where
  "is_sha256 s = (startswith s sha_prefix \<and> length (drop 7 s) = 64 \<and> (\<forall>c \<in> set (drop 7 s). is_hex_lower c))"

text \<open>
  \<open>^sha256:[0-9a-f]{64}$\<close> on a lower-case text: the dollar also matches before a final newline.
\<close>

definition sha256_re :: "string \<Rightarrow> bool" where
  "sha256_re s = (startswith s sha_prefix \<and> (let h = take 64 (drop 7 s); rest = drop 71 s in
     length h = 64 \<and> (\<forall>c \<in> set h. is_hex_lower c) \<and> (rest = [] \<or> rest = [CHR 0x0A])))"

definition digest_text :: "string \<Rightarrow> string" where
  "digest_text digest = (let s = lower (strip digest) in
     case after_last at_sha s of
       Some r \<Rightarrow> sha_prefix @ before_first (CHR ''#'') r
     | None \<Rightarrow> if startswith s sha_prefix then s else sha_prefix @ s)"

definition normalize_digest :: "string \<Rightarrow> string res" where
  "normalize_digest digest = (let s = digest_text digest in
     if sha256_re s then Inr s else Inl (ValueError ''invalid image digest''))"

section \<open>References\<close>

definition strip_sha_prefix :: "string \<Rightarrow> string" where
  "strip_sha_prefix tag = (if startswith tag sha_prefix then after_first (CHR '':'') tag else tag)"

definition engine_image_ref :: "string \<Rightarrow> string \<Rightarrow> string \<Rightarrow> string" where
  "engine_image_ref owner img patch_hash =
     ''ghcr.io/'' @ owner @ ''/'' @ img @ '':'' @ take 64 (strip_sha_prefix (lower patch_hash))"

definition short_tag :: "string \<Rightarrow> string" where
  "short_tag patch_hash = take 12 (strip_sha_prefix (lower patch_hash))"

definition pullable_digest_ref :: "string \<Rightarrow> string \<Rightarrow> string \<Rightarrow> string res" where
  "pullable_digest_ref owner img ref = (let s = strip ref; l = lower s in
     if after_last at_sha l \<noteq> None \<and> \<not> startswith l sha_prefix
     then rbind (normalize_digest s) (\<lambda>digest. Inr (before_first (CHR ''@'') s @ ''@'' @ digest))
     else rbind (normalize_digest s) (\<lambda>digest. Inr (''ghcr.io/'' @ owner @ ''/'' @ img @ ''@'' @ digest)))"

definition baseline_engine_image_ref :: "string \<Rightarrow> string \<Rightarrow> string \<Rightarrow> string res" where
  "baseline_engine_image_ref owner engine_image digest = pullable_digest_ref owner engine_image digest"

definition baseline_build_image_ref :: "string \<Rightarrow> string \<Rightarrow> string \<Rightarrow> string res" where
  "baseline_build_image_ref owner baseline_image digest = pullable_digest_ref owner baseline_image digest"

text \<open>\<open>host, rest = image_ref.split("/", 1)\<close> raises when there is no slash.\<close>

definition tag_ref_to_name :: "string \<Rightarrow> string res" where
  "tag_ref_to_name ref =
     (if CHR ''@'' \<in> set ref then Inr (before_first (CHR ''@'') ref)
      else if count_list ref (CHR '':'') = 1 then Inr (before_last (CHR '':'') ref)
      else if CHR ''/'' \<notin> set ref then Inl (ValueError ''not enough values to unpack'')
      else let host = before_first (CHR ''/'') ref; rest = after_first (CHR ''/'') ref in
        Inr (if CHR '':'' \<in> set rest then host @ ''/'' @ before_last (CHR '':'') rest else ref))"

definition digest_pinned_ref :: "string \<Rightarrow> string \<Rightarrow> string res" where
  "digest_pinned_ref tag_or_name digest = rbind (tag_ref_to_name tag_or_name) (\<lambda>name.
     let d = lower digest in
     Inr (name @ ''@'' @ (if startswith d sha_prefix then d else sha_prefix @ d)))"

definition mock_digest_from_patch_hash :: "string \<Rightarrow> string" where
  "mock_digest_from_patch_hash patch_hash = (let
     h0 = strip_sha_prefix (strip (lower patch_hash));
     h1 = filter is_hex_lower h0
     in sha_prefix @ (if length h1 < 64 then take 64 (h1 @ replicate 64 (CHR ''0'')) else take 64 h1))"

section \<open>Facts about substrings\<close>

lemma sha_prefix_chars: "length sha_prefix = 7" "\<forall>c \<in> set sha_prefix. \<not> py_isspace c \<and> c \<noteq> CHR ''@''"
  "lower sha_prefix = sha_prefix"
  by (simp_all add: sha_prefix_def py_isspace_def ccode_def lower_def lower_char_def)

lemma startswith_append [simp]: "startswith (p @ s) p"
  by (simp add: startswith_def)

lemma startswith_iff: "startswith s p \<longleftrightarrow> (\<exists>r. s = p @ r)"
  unfolding startswith_def by (metis append_eq_conv_conj append_take_drop_id)

lemma after_last_None: "CHR ''@'' \<notin> set s \<Longrightarrow> after_last at_sha s = None"
  by (induction s) (auto simp: at_sha_def startswith_def)

lemma after_last_append:
  assumes "after_last p t = Some r"
  shows "after_last p (s @ t) = Some r"
  using assms by (induction s) auto

lemma after_last_at_sha:
  assumes "CHR ''@'' \<notin> set h"
  shows "after_last at_sha (s @ at_sha @ h) = Some h"
proof -
  have tail: "after_last at_sha (sha_prefix @ h) = None"
    using assms sha_prefix_chars(2) by (intro after_last_None) auto
  have at: "at_sha = CHR ''@'' # sha_prefix"
    by (simp add: at_sha_def sha_prefix_def)
  have "after_last at_sha (CHR ''@'' # sha_prefix @ h) = Some h"
    using tail by (simp add: startswith_def at)
  then have "after_last at_sha (at_sha @ h) = Some h" by (simp add: at)
  then show ?thesis by (rule after_last_append)
qed

lemma hex_not_at: "is_hex_lower c \<Longrightarrow> c \<noteq> CHR ''@'' \<and> c \<noteq> CHR ''#''"
  by (auto simp: is_hex_lower_def is_ascii_digit_def ccode_def)

lemma is_sha256E:
  assumes "is_sha256 s"
  obtains h where "s = sha_prefix @ h" "length h = 64" "\<forall>c \<in> set h. is_hex_lower c"
proof
  show "s = sha_prefix @ drop 7 s"
    using assms unfolding is_sha256_def startswith_def sha_prefix_chars(1) by (metis append_take_drop_id)
qed (use assms in \<open>auto simp: is_sha256_def\<close>)

lemma is_sha256I:
  assumes "length h = 64" and "\<forall>c \<in> set h. is_hex_lower c"
  shows "is_sha256 (sha_prefix @ h)"
proof -
  have "drop 7 (sha_prefix @ h) = h" using sha_prefix_chars(1) by simp
  with assms show ?thesis by (simp add: is_sha256_def)
qed

lemma sha256_re_cases:
  assumes "sha256_re s"
  obtains h where "length h = 64" "\<forall>c \<in> set h. is_hex_lower c"
    "s = sha_prefix @ h \<or> s = sha_prefix @ h @ [CHR 0x0A]"
proof
  let ?h = "take 64 (drop 7 s)"
  show "length ?h = 64" "\<forall>c \<in> set ?h. is_hex_lower c"
    using assms by (simp_all add: sha256_re_def Let_def)
  obtain r where r: "s = sha_prefix @ r"
    using assms by (auto simp: sha256_re_def startswith_iff)
  have "drop 7 s = r" "drop 71 s = drop 64 r" using sha_prefix_chars(1) by (simp_all add: r)
  then have "r = ?h @ drop 71 s" by (metis append_take_drop_id)
  moreover have "drop 71 s = [] \<or> drop 71 s = [CHR 0x0A]"
    using assms by (simp add: sha256_re_def Let_def)
  ultimately show "s = sha_prefix @ ?h \<or> s = sha_prefix @ ?h @ [CHR 0x0A]"
    unfolding r by auto
qed

lemma sha256_re_plain:
  assumes "length h = 64" and "\<forall>c \<in> set h. is_hex_lower c"
  shows "sha256_re (sha_prefix @ h)"
proof -
  have "drop 7 (sha_prefix @ h) = h" "drop 71 (sha_prefix @ h) = []"
    using sha_prefix_chars(1) assms(1) by simp_all
  with assms show ?thesis by (simp add: sha256_re_def)
qed

lemma lower_append [simp]: "lower (s @ t) = lower s @ lower t"
  by (simp add: lower_def)

lemma lower_hex_id: "\<forall>c \<in> set h. is_hex_lower c \<Longrightarrow> lower h = h"
  by (simp add: lower_def lower_hex map_idI)

text \<open>A bare canonical digest, with or without a final newline, normalizes to itself.\<close>

lemma normalize_plain:
  assumes "length h = 64" and "\<forall>c \<in> set h. is_hex_lower c"
  shows "normalize_digest (sha_prefix @ h) = Inr (sha_prefix @ h)"
    and "normalize_digest (sha_prefix @ h @ [CHR 0x0A]) = Inr (sha_prefix @ h)"
proof -
  have ns: "\<forall>c \<in> set (sha_prefix @ h). \<not> py_isspace c"
    using assms(2) sha_prefix_chars(2) hex_not_space by auto
  have low: "lower (sha_prefix @ h) = sha_prefix @ h"
    using lower_hex_id [OF assms(2)] sha_prefix_chars(3) by simp
  have at: "after_last at_sha (sha_prefix @ h) = None"
    using assms(2) sha_prefix_chars(2) hex_not_at by (intro after_last_None) auto
  have "digest_text s = sha_prefix @ h" if "strip s = sha_prefix @ h" for s
    unfolding digest_text_def that low by (simp add: at)
  then have n: "normalize_digest s = Inr (sha_prefix @ h)" if "strip s = sha_prefix @ h" for s
    using that sha256_re_plain [OF assms] by (simp add: normalize_digest_def)
  show "normalize_digest (sha_prefix @ h) = Inr (sha_prefix @ h)"
    using ns by (intro n strip_no_space)
  have nl: "py_isspace (CHR 0x0A)" by (simp add: py_isspace_def ccode_def)
  have "lstrip (sha_prefix @ h @ [CHR 0x0A]) = (sha_prefix @ h) @ [CHR 0x0A]"
    by (simp add: lstrip_def sha_prefix_def py_isspace_def ccode_def)
  moreover have "rstrip ((sha_prefix @ h) @ [CHR 0x0A]) = rstrip (sha_prefix @ h)"
    using nl by (simp add: rstrip_def)
  moreover have "rstrip (sha_prefix @ h) = sha_prefix @ h"
    using ns by (intro rstrip_no_space) (metis last_in_set)
  ultimately show "normalize_digest (sha_prefix @ h @ [CHR 0x0A]) = Inr (sha_prefix @ h)"
    by (intro n) (simp add: strip_def)
qed

text \<open>
  What an accepted digest is: up to one trailing newline it is \<open>sha256:\<close> and 64 lower-case hex
  digits, and normalizing it again gives that digest.
\<close>

theorem normalize_digest_canonical:
  assumes "normalize_digest s = Inr t"
  shows "is_sha256 (rstrip t) \<and> (t = rstrip t \<or> t = rstrip t @ [CHR 0x0A]) \<and>
    normalize_digest t = Inr (rstrip t)"
proof -
  have "sha256_re t" using assms by (auto simp: normalize_digest_def Let_def split: if_splits)
  then obtain h where h: "length h = 64" "\<forall>c \<in> set h. is_hex_lower c"
    "t = sha_prefix @ h \<or> t = sha_prefix @ h @ [CHR 0x0A]"
    by (rule sha256_re_cases)
  have "\<forall>c \<in> set (sha_prefix @ h). \<not> py_isspace c"
    using h(2) sha_prefix_chars(2) hex_not_space by auto
  then have r: "rstrip (sha_prefix @ h) = sha_prefix @ h"
    by (intro rstrip_no_space) (metis last_in_set)
  have "py_isspace (CHR 0x0A)" by (simp add: py_isspace_def ccode_def)
  then have "rstrip ((sha_prefix @ h) @ [CHR 0x0A]) = sha_prefix @ h"
    using r by (simp add: rstrip_def)
  with r h(3) have "rstrip t = sha_prefix @ h" by auto
  with h normalize_plain [OF h(1,2)] is_sha256I [OF h(1,2)] show ?thesis by auto
qed

text \<open>
  A reference pinned by digest names the image by that digest alone: whatever registry name
  and letter case it is written with, it normalizes to the same text.
\<close>

theorem normalize_digest_of_ref:
  assumes "length h = 64" and "\<forall>c \<in> set (lower h). is_hex_lower c"
  shows "normalize_digest (name @ at_sha @ h) = Inr (sha_prefix @ lower h)"
proof -
  have hs: "\<not> py_isspace (last (name @ at_sha @ h))"
  proof -
    have "h \<noteq> []" using assms(1) by auto
    then have "lower_char (last h) \<in> set (lower h)" by (simp add: lower_def)
    with assms(2) have "\<not> py_isspace (lower_char (last h))" using hex_not_space by blast
    with \<open>h \<noteq> []\<close> show ?thesis by simp
  qed
  define u where "u = dropWhile py_isspace name"
  have at: "\<not> py_isspace (CHR ''@'')" by (simp add: py_isspace_def ccode_def)
  have ls: "lstrip (name @ at_sha @ h) = u @ at_sha @ h"
  proof (cases "\<forall>c \<in> set name. py_isspace c")
    case True
    with at show ?thesis by (simp add: lstrip_def u_def dropWhile_append at_sha_def)
  next
    case False
    then show ?thesis by (auto simp: lstrip_def u_def dropWhile_append)
  qed
  have "last (u @ at_sha @ h) = last (name @ at_sha @ h)"
    by (simp add: at_sha_def)
  with hs ls have s: "strip (name @ at_sha @ h) = u @ at_sha @ h"
    by (simp add: strip_def rstrip_no_space)
  have la: "lower at_sha = at_sha" by (simp add: at_sha_def lower_def lower_char_def ccode_def)
  have "after_last at_sha (lower (u @ at_sha @ h)) = Some (lower h)"
    using assms(2) hex_not_at by (auto simp: la intro: after_last_at_sha)
  moreover have "before_first (CHR ''#'') (lower h) = lower h"
    using assms(2) hex_not_at by (auto simp: before_first_def takeWhile_eq_all_conv)
  ultimately have "digest_text (name @ at_sha @ h) = sha_prefix @ lower h"
    unfolding digest_text_def s by (simp add: Let_def)
  with assms sha256_re_plain [of "lower h"] show ?thesis
    by (simp add: normalize_digest_def)
qed

text \<open>
  The digest is not always canonical: a newline between the digest and a fragment passes the
  pattern, because the dollar of the expression matches before a final newline, and it stays in
  the result.
\<close>

theorem normalize_digest_keeps_newline:
  "normalize_digest (''r'' @ at_sha @ replicate 64 (CHR ''a'') @ [CHR 0x0A] @ ''#f'') =
     Inr (sha_prefix @ replicate 64 (CHR ''a'') @ [CHR 0x0A])"
proof -
  let ?h = "replicate 64 (CHR ''a'')"
  let ?s = "''r'' @ at_sha @ ?h @ [CHR 0x0A] @ ''#f''"
  have st: "strip ?s = ?s"
    by (simp add: strip_def lstrip_def rstrip_def py_isspace_def ccode_def)
  have low: "lower ?s = ''r'' @ at_sha @ (?h @ [CHR 0x0A] @ ''#f'')"
    by (simp add: lower_def lower_char_def ccode_def at_sha_def)
  have "after_last at_sha (''r'' @ at_sha @ (?h @ [CHR 0x0A] @ ''#f'')) = Some (?h @ [CHR 0x0A] @ ''#f'')"
    by (rule after_last_at_sha) simp
  moreover have "before_first (CHR ''#'') (?h @ [CHR 0x0A] @ ''#f'') = ?h @ [CHR 0x0A]"
    unfolding before_first_def by (subst takeWhile_append2) auto
  ultimately have "digest_text ?s = sha_prefix @ ?h @ [CHR 0x0A]"
    unfolding digest_text_def st low by (simp add: Let_def)
  moreover have "sha256_re (sha_prefix @ ?h @ [CHR 0x0A])"
  proof -
    have "drop 7 (sha_prefix @ ?h @ [CHR 0x0A]) = ?h @ [CHR 0x0A]"
      "drop 71 (sha_prefix @ ?h @ [CHR 0x0A]) = [CHR 0x0A]"
      using sha_prefix_chars(1) by simp_all
    moreover have "is_hex_lower (CHR ''a'')" by (simp add: is_hex_lower_def ccode_def)
    ultimately show ?thesis by (simp add: sha256_re_def sha_prefix_chars(1))
  qed
  ultimately show ?thesis by (simp add: normalize_digest_def)
qed

theorem normalize_digest_canonical_witness:
  "is_sha256 (rstrip (sha_prefix @ replicate 64 (CHR ''a'') @ [CHR 0x0A])) \<and>
   normalize_digest (sha_prefix @ replicate 64 (CHR ''a'')) = Inr (sha_prefix @ replicate 64 (CHR ''a''))"
proof -
  have h: "length (replicate 64 (CHR ''a'')) = 64" "\<forall>c \<in> set (replicate 64 (CHR ''a'')). is_hex_lower c"
    by (simp_all add: is_hex_lower_def ccode_def)
  have "is_sha256 (rstrip (sha_prefix @ replicate 64 (CHR ''a'')))"
    using normalize_digest_canonical [OF normalize_plain(1) [OF h]] by blast
  moreover have "py_isspace (CHR 0x0A)" by (simp add: py_isspace_def ccode_def)
  then have "rstrip ((sha_prefix @ replicate 64 (CHR ''a'')) @ [CHR 0x0A]) = rstrip (sha_prefix @ replicate 64 (CHR ''a''))"
    by (simp add: rstrip_def)
  ultimately show ?thesis using normalize_plain(1) [OF h] by simp
qed

theorem normalize_digest_of_ref_witness:
  "normalize_digest (''ghcr.io/o/e'' @ at_sha @ replicate 64 (CHR ''0'')) = Inr (sha_prefix @ replicate 64 (CHR ''0''))"
proof -
  have "lower (replicate 64 (CHR ''0'')) = replicate 64 (CHR ''0'')"
    by (simp add: lower_def lower_char_def ccode_def)
  moreover have "is_hex_lower (CHR ''0'')" by (simp add: is_hex_lower_def is_ascii_digit_def ccode_def)
  ultimately show ?thesis
    using normalize_digest_of_ref [of "replicate 64 (CHR ''0'')" "''ghcr.io/o/e''"] by simp
qed

end
