(* ===== verification/Concurrency.thy ===== *)
theory Concurrency
  imports PyValue "HOL-Library.Char_ord" "HOL-Library.List_Lexorder" "HOL-Library.Multiset"
begin

text \<open>
  The tier contracts of \<open>bench/concurrency.py\<close>: validation of tiers and weights, the grouping of a
  trace's requests into admission groups, the completion time of each tier and the occupancy sweep
  over the replay. A request of the trace is any value with a tier; a replay row is a record.
  Offsets are the floats the replay recorded.
\<close>

section \<open>Dynamic checks\<close>

text \<open>\<open>any(\<dots>)\<close> with a test that may raise, and truth of a JSON value.\<close>

fun rany :: "('a \<Rightarrow> bool res) \<Rightarrow> 'a list \<Rightarrow> bool res" where
  "rany p [] = Inr False"
| "rany p (x # xs) = rbind (p x) (\<lambda>b. if b then Inr True else rany p xs)"

definition jtruthy :: "json \<Rightarrow> bool" where
  "jtruthy v = (case v of JNull \<Rightarrow> False | JBool b \<Rightarrow> b | JInt i \<Rightarrow> i \<noteq> 0 | JFloat x \<Rightarrow> x \<noteq> Fin 0
     | JStr s \<Rightarrow> s \<noteq> [] | JArr xs \<Rightarrow> xs \<noteq> [] | JObj d \<Rightarrow> d \<noteq> [])"

text \<open>
  \<open>isinstance(v, bool) or not isinstance(v, (int, float)) or not math.isfinite(v) or low v\<close>, where
  the last test is on the exact value. An integer above the range of floats raises in
  \<open>math.isfinite\<close>.
\<close>

definition bad_number :: "(pyfloat \<Rightarrow> bool) \<Rightarrow> json \<Rightarrow> bool res" where
  "bad_number low v = (case jnum v of None \<Rightarrow> Inr True
     | Some x \<Rightarrow> rbind (jisfinite v) (\<lambda>fin. Inr (\<not> fin \<or> low x)))"

text \<open>\<open>sum(values)\<close>: integers add exactly until the first float, then every addition rounds.\<close>

fun jadd :: "json \<Rightarrow> json \<Rightarrow> json res" where
  "jadd (JInt i) (JInt k) = Inr (JInt (i + k))"
| "jadd a b = rbind (jfloat a) (\<lambda>x. rbind (jfloat b) (\<lambda>y. Inr (JFloat (fadd x y))))"

definition jsum :: "json list \<Rightarrow> json res" where
  "jsum vs = rfold (\<lambda>v acc. jadd acc v) vs (JInt 0)"

text \<open>\<open>sorted\<close> by a strict order, stable; \<open>statistics.median\<close> of floats that are not \<open>NaN\<close>: the middle, or half the sum of the two middle ones.\<close>

fun insort_by :: "('a \<Rightarrow> 'a \<Rightarrow> bool) \<Rightarrow> 'a \<Rightarrow> 'a list \<Rightarrow> 'a list" where
  "insort_by lt x [] = [x]"
| "insort_by lt x (y # ys) = (if lt x y then x # y # ys else y # insort_by lt x ys)"

definition sort_by :: "('a \<Rightarrow> 'a \<Rightarrow> bool) \<Rightarrow> 'a list \<Rightarrow> 'a list" where
  "sort_by lt xs = fold (insort_by lt) xs []"

definition fsorted :: "pyfloat list \<Rightarrow> pyfloat list" where
  "fsorted xs = sort_by flt xs"

definition fmedian :: "pyfloat list \<Rightarrow> pyfloat res" where
  "fmedian xs = (let s = fsorted xs; n = length s in
     if n = 0 then Inl (ValueError ''no median for empty data'')
     else if odd n then Inr (s ! (n div 2))
     else fdiv (fadd (s ! (n div 2 - 1)) (s ! (n div 2))) (Fin 2))"

definition fmax_list :: "pyfloat list \<Rightarrow> pyfloat option" where
  "fmax_list xs = best flt xs"

definition fmin_list :: "pyfloat list \<Rightarrow> pyfloat option" where
  "fmin_list xs = best (\<lambda>a b. flt b a) xs"

section \<open>Tiers\<close>

definition TIERS :: "string list" where
  "TIERS = [''2k'', ''4k'', ''8k'', ''16k'']"

definition ALL_TIERS :: "string list" where
  "ALL_TIERS = TIERS @ [''32k'', ''64k'', ''128k'']"

definition CONCURRENCIES :: "int list" where
  "CONCURRENCIES = [1, 2, 4, 8, 16, 32]"

definition WEIGHTED_RULE :: string where
  "WEIGHTED_RULE = ''weighted_tier_completion_speedup''"

definition validate_concurrency :: "json \<Rightarrow> int res" where
  "validate_concurrency v = (case v of
     JInt i \<Rightarrow> if i \<in> set CONCURRENCIES then Inr i else Inl (ValueError ''request_concurrency'')
   | _ \<Rightarrow> Inl (ValueError ''request_concurrency''))"

definition validate_request_timeout :: "json \<Rightarrow> pyfloat res" where
  "validate_request_timeout v = rbind (bad_number (\<lambda>x. fle x (Fin 0)) v) (\<lambda>bad.
     if bad then Inl (ValueError ''request_timeout_s must be a finite positive number'') else jfloat v)"

definition str_items :: "json list \<Rightarrow> string list" where
  "str_items xs = [s. JStr s \<leftarrow> xs]"

definition int_items :: "json list \<Rightarrow> int list" where
  "int_items xs = [i. JInt i \<leftarrow> xs]"

definition in_tier_order :: "string list \<Rightarrow> bool" where
  "in_tier_order ts = (ts = filter (\<lambda>t. t \<in> set ts) ALL_TIERS)"

text \<open>The listed tiers must be strings and stand in the order of \<open>ALL_TIERS\<close>, each once.\<close>

definition input_tiers :: "json \<Rightarrow> string list res" where
  "input_tiers v = (case v of JNull \<Rightarrow> Inr TIERS
     | JArr xs \<Rightarrow> let ts = str_items xs in
         if xs = [] \<or> length ts \<noteq> length xs \<or> \<not> in_tier_order ts
         then Inl (ValueError ''input_tiers must be a nonempty ordered subset'') else Inr ts
     | _ \<Rightarrow> Inl (ValueError ''input_tiers must be a nonempty ordered subset''))"

definition default_tier_weights :: jdict where
  "default_tier_weights = map (\<lambda>t. (t, JFloat (Fin (1/4)))) TIERS"

definition tier_weights :: "jdict \<Rightarrow> (string \<times> pyfloat) list res" where
  "tier_weights rule = (case (case map_of rule ''tier_weights'' of
       None \<Rightarrow> JObj default_tier_weights | Some v \<Rightarrow> v) of
     JObj ws \<Rightarrow> if ws = [] \<or> \<not> set (keys ws) \<subseteq> set ALL_TIERS
       then Inl (ValueError ''tier_weights must name a nonempty subset of the tiers'')
       else rbind (rany (bad_number (\<lambda>x. flt x (Fin 0))) (map snd ws)) (\<lambda>bad.
         if bad then Inl (ValueError ''tier_weights must be finite, nonnegative and sum to one'')
         else rbind (rbind (jsum (map snd ws)) jfloat) (\<lambda>total.
         if \<not> isclose_abs total (Fin 1) (flit (1/10^9))
         then Inl (ValueError ''tier_weights must be finite, nonnegative and sum to one'')
         else rmap (\<lambda>t. rbind (jfloat (jget ws t)) (\<lambda>w. Inr (t, w)))
           (filter (\<lambda>t. has_key ws t) ALL_TIERS)))
   | _ \<Rightarrow> Inl (ValueError ''tier_weights must name a nonempty subset of the tiers''))"

text \<open>\<open>x == 5\<close> in Python: the integer, or the float of that value; \<open>True == 1\<close>.\<close>

definition jeq_int :: "json \<Rightarrow> int \<Rightarrow> bool" where
  "jeq_int v n = (case v of JInt i \<Rightarrow> i = n | JFloat x \<Rightarrow> x = Fin (of_int n)
     | JBool b \<Rightarrow> n = (if b then 1 else 0) | _ \<Rightarrow> False)"

definition validate_tier_contract :: "jdict \<Rightarrow> jdict \<Rightarrow> unit res" where
  "validate_tier_contract sampling scoring =
     rbind (input_tiers (jget sampling ''input_tiers'')) (\<lambda>selected.
     rbind (rguard (\<not> (jeq_int (jget sampling ''algo_version'') 5 \<and> \<not> set selected \<subseteq> set TIERS))
       (ValueError ''extended input_tiers require algo_version 6'')) (\<lambda>_.
     rbind (rguard (\<not> (jeq_int (jget sampling ''algo_version'') 6 \<and> \<not> has_key sampling ''input_tiers''))
       (ValueError ''Exgentic v6 requires explicit input_tiers'')) (\<lambda>_.
     rbind (tier_weights scoring) (\<lambda>ws.
     rguard (set selected = set (keys ws)) (ValueError ''tier_weights must match sampling input_tiers'')))))"

definition DEFAULT_TIER_SIZE :: int where
  "DEFAULT_TIER_SIZE = 8"

definition group_count :: "json \<Rightarrow> json res" where
  "group_count g = (case g of JObj d \<Rightarrow> Inr (jget d ''count'') | _ \<Rightarrow> Inl (AttributeError ''get''))"

definition tier_size :: "jdict \<Rightarrow> int res" where
  "tier_size workload = (let v = jget workload ''length_groups'' in
     rbind (if \<not> jtruthy v then Inr [] else (case v of
         JArr gs \<Rightarrow> rmap group_count gs
       | JStr _ \<Rightarrow> Inl (AttributeError ''get'') | JObj _ \<Rightarrow> Inl (AttributeError ''get'')
       | _ \<Rightarrow> Inl (PyTypeError ''object is not iterable''))) (\<lambda>counts.
     let ns = int_items counts in
     if counts = [] then Inr DEFAULT_TIER_SIZE
     else if length ns \<noteq> length counts \<or> (\<exists>i \<in> set ns. i < 1)
     then Inl (ValueError ''length_groups counts must be positive integers'')
     else Inr (fold max (tl ns) (hd ns))))"

section \<open>Admission groups\<close>

text \<open>One round over the queues, then the next: \<open>queue[i] for i \<dots> for queue in queues if i < len(queue)\<close>.\<close>

definition round_robin :: "'a list list \<Rightarrow> 'a list" where
  "round_robin qs = concat (map (\<lambda>i. concat (map (\<lambda>q. if i < length q then [q ! i] else []) qs))
     [0..<fold max (map length qs) 0])"

text \<open>\<open>xs[offset : offset + n] for offset in range(0, len(xs), n)\<close>.\<close>

function chunks :: "nat \<Rightarrow> 'a list \<Rightarrow> 'a list list" where
  "chunks n xs = (if xs = [] \<or> n = 0 then [] else take n xs # chunks n (drop n xs))"
  by pat_completeness auto
termination by (relation "measure (\<lambda>(n, xs). length xs)") auto

declare chunks.simps [simp del]

definition request_groups ::
  "('r \<Rightarrow> string) \<Rightarrow> 'r list \<Rightarrow> json \<Rightarrow> json \<Rightarrow> json \<Rightarrow> 'r list list res" where
  "request_groups tier_of requests concurrency tiers0 sz =
     rbind (input_tiers tiers0) (\<lambda>tiers.
     rbind (validate_concurrency concurrency) (\<lambda>conc.
     rbind (case sz of JInt n \<Rightarrow> if n < 1 then Inl (ValueError ''tier size must be a positive integer'') else Inr n
              | _ \<Rightarrow> Inl (ValueError ''tier size must be a positive integer'')) (\<lambda>n.
     let tiers_per_group = nat (max 1 (conc div n)) in
     rbind (rguard (\<forall>r \<in> set requests. tier_of r \<in> set tiers)
       (EngineError ''concurrency replay requires configured input tiers'')) (\<lambda>_.
     rbind (rguard (\<forall>t \<in> set tiers. \<exists>r \<in> set requests. tier_of r = t)
       (EngineError ''concurrency replay requires a nonempty eligible set in every tier'')) (\<lambda>_.
     Inr (map (\<lambda>ts. round_robin (map (\<lambda>t. filter (\<lambda>r. tier_of r = t) requests) ts))
       (chunks tiers_per_group tiers)))))))"

section \<open>Tier completion\<close>

record replay_row =
  rr_rep :: int
  rr_tier :: string
  rr_request_id :: string
  rr_error :: "string option"
  rr_group_start :: pyfloat
  rr_completion :: pyfloat
  rr_admission :: pyfloat
  rr_release :: pyfloat
  rr_requested :: int
  rr_effective :: int
  rr_token_timing :: "bool option"

definition failed_row :: "replay_row \<Rightarrow> bool" where
  "failed_row r = (case rr_error r of None \<Rightarrow> False | Some e \<Rightarrow> e \<noteq> [])"

record tier_metric =
  tm_request_ids :: "string list"
  tm_repetitions :: "pyfloat list"
  tm_completion :: pyfloat
  tm_relative_range :: pyfloat

text \<open>One repetition of one tier: its sorted request ids and its elapsed seconds.\<close>

definition tier_sample :: "replay_row list \<Rightarrow> string \<Rightarrow> int \<Rightarrow> string list option \<Rightarrow> (string list \<times> pyfloat) res" where
  "tier_sample rows tier rep expected = (let
     selected = filter (\<lambda>r. rr_rep r = rep \<and> rr_tier r = tier) rows;
     ids = sort (map rr_request_id selected);
     starts = remdups (map rr_group_start selected) in
     rbind (rguard (ids \<noteq> [] \<and> distinct ids \<and> (expected = None \<or> expected = Some ids))
       (EngineError ''tier evidence has missing, duplicate or changed request IDs'')) (\<lambda>_.
     rbind (rguard (\<forall>r \<in> set selected. \<not> failed_row r)
       (EngineError ''failed responses cannot form a tier completion measurement'')) (\<lambda>_.
     rbind (rguard (length starts = 1) (EngineError ''tier evidence must share a group start'')) (\<lambda>_.
     rbind (case fmax_list (map rr_completion selected) of None \<Rightarrow> Inl (ValueError ''max() arg is an empty sequence'')
              | Some m \<Rightarrow> fdiv (fsub m (hd starts)) (Fin 1000)) (\<lambda>elapsed.
     rbind (rguard (isfinite elapsed \<and> \<not> fle elapsed (Fin 0))
       (EngineError ''invalid tier completion duration'')) (\<lambda>_.
     Inr (ids, elapsed)))))))"

fun tier_samples ::
  "replay_row list \<Rightarrow> string \<Rightarrow> int list \<Rightarrow> string list option \<Rightarrow> (string list option \<times> pyfloat list) res" where
  "tier_samples rows tier [] expected = Inr (expected, [])"
| "tier_samples rows tier (rep # reps) expected =
     rbind (tier_sample rows tier rep expected) (\<lambda>(ids, elapsed).
     rbind (tier_samples rows tier reps (Some ids)) (\<lambda>(e, xs). Inr (e, elapsed # xs)))"

definition tier_metric_of :: "replay_row list \<Rightarrow> int \<Rightarrow> string \<Rightarrow> (string \<times> tier_metric) res" where
  "tier_metric_of rows repetitions tier =
     rbind (tier_samples rows tier [1..repetitions] None) (\<lambda>(ids, samples).
     rbind (fmedian samples) (\<lambda>median.
     case (fmax_list samples, fmin_list samples) of
       (Some hi, Some lo) \<Rightarrow> rbind (fdiv (fsub hi lo) median) (\<lambda>rng.
         Inr (tier, \<lparr>tm_request_ids = (case ids of None \<Rightarrow> [] | Some i \<Rightarrow> i), tm_repetitions = samples,
           tm_completion = median, tm_relative_range = rng\<rparr>))
     | _ \<Rightarrow> Inl (ValueError ''max() arg is an empty sequence'')))"

definition tier_completion_metrics ::
  "replay_row list \<Rightarrow> int \<Rightarrow> json \<Rightarrow> (string \<times> tier_metric) list res" where
  "tier_completion_metrics rows repetitions tiers0 = rbind (input_tiers tiers0) (\<lambda>tiers.
     rbind (rguard (\<forall>r \<in> set rows. rr_tier r \<in> set tiers)
       (EngineError ''tier evidence contains an unselected input tier'')) (\<lambda>_.
     rmap (tier_metric_of rows repetitions) tiers))"

section \<open>Occupancy of the client's slots\<close>

text \<open>Events in tuple order: at equal times a release \<open>-1\<close> sorts before an admission \<open>1\<close>.\<close>

definition slot_before :: "pyfloat \<times> int \<Rightarrow> pyfloat \<times> int \<Rightarrow> bool" where
  "slot_before a b = (flt (fst a) (fst b) \<or> (fst a = fst b \<and> snd a < snd b))"

definition slot_events :: "replay_row list \<Rightarrow> (pyfloat \<times> int) list" where
  "slot_events rows = sort_by slot_before
     (map (\<lambda>r. (rr_admission r, 1)) rows @ map (\<lambda>r. (rr_release r, - 1)) rows)"

record sweep =
  sw_previous :: pyfloat
  sw_occupied :: int
  sw_peak :: int
  sw_area :: pyfloat

definition sweep_step :: "pyfloat \<times> int \<Rightarrow> sweep \<Rightarrow> sweep" where
  "sweep_step e s = (let occ = sw_occupied s + snd e in
     \<lparr>sw_previous = fst e, sw_occupied = occ, sw_peak = max (sw_peak s) occ,
      sw_area = fadd (sw_area s) (fmul (Fin (of_int (sw_occupied s))) (fsub (fst e) (sw_previous s)))\<rparr>)"

definition sweep_slots :: "pyfloat \<Rightarrow> replay_row list \<Rightarrow> sweep" where
  "sweep_slots start rows = fold sweep_step (slot_events rows)
     \<lparr>sw_previous = start, sw_occupied = 0, sw_peak = 0, sw_area = Fin 0\<rparr>"

record observation =
  ob_rep :: int
  ob_start :: pyfloat
  ob_request_ids :: "string list"
  ob_requested :: int
  ob_effective :: int
  ob_peak :: int
  ob_untimed :: "string list"
  ob_mean :: pyfloat

definition observe_group :: "replay_row list \<Rightarrow> int \<times> pyfloat \<Rightarrow> observation res" where
  "observe_group rows k = (let
     group = filter (\<lambda>r. (rr_rep r, rr_group_start r) = k) rows;
     s = sweep_slots (snd k) group;
     duration = fsub (sw_previous s) (snd k) in
     case group of [] \<Rightarrow> Inl (IndexError ''list index out of range'')
     | g # _ \<Rightarrow> rbind (if flt (Fin 0) duration then fdiv (sw_area s) duration else Inr (Fin 0)) (\<lambda>mean.
         Inr \<lparr>ob_rep = fst k, ob_start = snd k, ob_request_ids = sort (map rr_request_id group),
           ob_requested = rr_requested g, ob_effective = rr_effective g, ob_peak = sw_peak s,
           ob_untimed = sort (map rr_request_id (filter (\<lambda>r. rr_token_timing r = Some False) group)),
           ob_mean = mean\<rparr>))"

definition group_key_before :: "int \<times> pyfloat \<Rightarrow> int \<times> pyfloat \<Rightarrow> bool" where
  "group_key_before a b = (fst a < fst b \<or> (fst a = fst b \<and> flt (snd a) (snd b)))"

definition concurrency_observations :: "replay_row list \<Rightarrow> observation list res" where
  "concurrency_observations rows = rmap (observe_group rows)
     (sort_by group_key_before (remdups (map (\<lambda>r. (rr_rep r, rr_group_start r)) rows)))"

section \<open>Facts about the groups\<close>

lemma take_nth: "concat (map (\<lambda>i. if i < length xs then [xs ! i] else []) [0..<n]) = take n xs"
  by (induction n) (auto simp: take_Suc_conv_app_nth)

lemma fold_max_base: "(a :: nat) \<le> fold max xs a"
  by (induction xs arbitrary: a) (auto intro: le_trans [OF max.cobounded2])

lemma fold_max_ge: "x \<in> set xs \<Longrightarrow> (x :: nat) \<le> fold max xs a"
proof (induction xs arbitrary: a)
  case (Cons y ys)
  then show ?case using fold_max_base [of "max y a" ys] by auto
qed simp

definition tier_queue :: "('r \<Rightarrow> string) \<Rightarrow> 'r list \<Rightarrow> string \<Rightarrow> 'r list" where
  "tier_queue tier_of requests t = filter (\<lambda>r. tier_of r = t) requests"

lemma tier_queue_nth: "i < length (tier_queue f rs t) \<Longrightarrow> f (tier_queue f rs t ! i) = t"
  using nth_mem [of i "tier_queue f rs t"] by (simp add: tier_queue_def)

lemma round_robin_pick:
  "distinct ts \<Longrightarrow>
   concat (map (\<lambda>u. filter (\<lambda>r. f r = t)
     (if i < length (tier_queue f rs u) then [tier_queue f rs u ! i] else [])) ts) =
   (if t \<in> set ts \<and> i < length (tier_queue f rs t) then [tier_queue f rs t ! i] else [])"
  by (induction ts) (auto simp: tier_queue_nth)

text \<open>Round robin over the queues of different tiers keeps each queue in its order.\<close>

lemma round_robin_queue:
  assumes "distinct ts"
  shows "filter (\<lambda>r. f r = t) (round_robin (map (tier_queue f rs) ts)) =
    (if t \<in> set ts then tier_queue f rs t else [])"
proof -
  let ?n = "fold max (map length (map (tier_queue f rs) ts)) 0"
  have "filter (\<lambda>r. f r = t) (round_robin (map (tier_queue f rs) ts)) =
    concat (map (\<lambda>i. if t \<in> set ts \<and> i < length (tier_queue f rs t) then [tier_queue f rs t ! i] else []) [0..<?n])"
    unfolding round_robin_def filter_concat map_map comp_def round_robin_pick [OF assms] ..
  also have "\<dots> = (if t \<in> set ts then tier_queue f rs t else [])"
    using fold_max_ge [of "length (tier_queue f rs t)" "map length (map (tier_queue f rs) ts)" 0]
    by (auto simp: take_nth)
  finally show ?thesis .
qed

lemma groups_queue:
  "distinct (concat css) \<Longrightarrow>
   filter (\<lambda>r. f r = t) (concat (map (\<lambda>ts. round_robin (map (tier_queue f rs) ts)) css)) =
   (if t \<in> set (concat css) then tier_queue f rs t else [])"
  by (induction css) (auto simp: round_robin_queue)

lemma concat_chunks: "0 < n \<Longrightarrow> concat (chunks n xs) = xs"
proof (induction n xs rule: chunks.induct)
  case (1 n xs)
  then show ?case by (subst chunks.simps) simp
qed

lemma chunks_length: "c \<in> set (chunks n xs) \<Longrightarrow> length c \<le> n"
proof (induction n xs rule: chunks.induct)
  case (1 n xs)
  then show ?case by (subst (asm) (2) chunks.simps) (auto split: if_splits)
qed

lemma distinct_ALL_TIERS: "distinct ALL_TIERS"
  by (simp add: ALL_TIERS_def TIERS_def)

lemma input_tiers_ok:
  assumes "input_tiers v = Inr ts"
  shows "distinct ts" and "ts \<noteq> []" and "set ts \<subseteq> set ALL_TIERS"
proof -
  have "ts = TIERS \<or> (in_tier_order ts \<and> ts \<noteq> [])"
    using assms by (auto simp: input_tiers_def Let_def split: json.splits if_splits)
  moreover have "distinct TIERS \<and> TIERS \<noteq> [] \<and> set TIERS \<subseteq> set ALL_TIERS"
    by (auto simp: ALL_TIERS_def TIERS_def)
  moreover have "distinct us \<and> set us \<subseteq> set ALL_TIERS" if "in_tier_order us" for us
    using that distinct_filter [OF distinct_ALL_TIERS] filter_is_subset unfolding in_tier_order_def by metis
  ultimately show "distinct ts" "ts \<noteq> []" "set ts \<subseteq> set ALL_TIERS" by auto
qed

lemma mset_eq_by_tier:
  assumes "\<And>t. filter (\<lambda>r. f r = t) xs = filter (\<lambda>r. f r = t) ys"
  shows "mset xs = mset ys"
proof (rule multiset_eqI)
  fix r
  have "count (mset zs) r = count (mset (filter (\<lambda>x. f x = f r) zs)) r" for zs
    by (induction zs) auto
  then show "count (mset xs) r = count (mset ys) r" using assms by metis
qed

lemma request_groups_cases:
  assumes "request_groups f rs conc tiers sz = Inr gs"
  obtains ts c n where "input_tiers tiers = Inr ts" "conc = JInt c" "sz = JInt n" "1 \<le> n"
    "\<forall>r \<in> set rs. f r \<in> set ts" "\<forall>t \<in> set ts. \<exists>r \<in> set rs. f r = t"
    "gs = map (\<lambda>cs. round_robin (map (tier_queue f rs) cs)) (chunks (nat (max 1 (c div n))) ts)"
  using assms unfolding request_groups_def tier_queue_def [abs_def]
  by (auto simp: rbind_eq_Inr Let_def validate_concurrency_def split: json.splits if_splits)

text \<open>
  The admission groups are a schedule of the whole trace: every request stands in the groups
  exactly as often as in the trace, and within a tier the order of the trace is kept, whatever the
  concurrency, the tiers and the planned tier size.
\<close>

theorem request_groups_schedule:
  assumes "request_groups f rs conc tiers sz = Inr gs"
  shows "mset (concat gs) = mset rs \<and>
    (\<forall>t. filter (\<lambda>r. f r = t) (concat gs) = filter (\<lambda>r. f r = t) rs) \<and> [] \<notin> set gs"
proof -
  obtain ts c n where ts: "input_tiers tiers = Inr ts" "\<forall>r \<in> set rs. f r \<in> set ts"
      "\<forall>t \<in> set ts. \<exists>r \<in> set rs. f r = t"
    and gs: "gs = map (\<lambda>cs. round_robin (map (tier_queue f rs) cs)) (chunks (nat (max 1 (c div n))) ts)"
    using assms by (elim request_groups_cases)
  let ?cs = "chunks (nat (max 1 (c div n))) ts"
  have cc: "concat ?cs = ts" by (rule concat_chunks) simp
  have fifo: "filter (\<lambda>r. f r = t) (concat gs) = filter (\<lambda>r. f r = t) rs" for t
  proof -
    have "filter (\<lambda>r. f r = t) (concat gs) = (if t \<in> set ts then tier_queue f rs t else [])"
      unfolding gs using groups_queue [of ?cs f t rs] input_tiers_ok(1) [OF ts(1)] by (simp only: cc)
    also have "\<dots> = filter (\<lambda>r. f r = t) rs"
      using ts(2) by (auto simp: tier_queue_def intro!: filter_False [symmetric])
    finally show ?thesis .
  qed
  have "g \<noteq> []" if g: "g \<in> set gs" for g
  proof -
    obtain cs where cs: "cs \<in> set ?cs" "g = round_robin (map (tier_queue f rs) cs)"
      using g by (auto simp: gs)
    have "cs \<noteq> []" using cs(1)
      by (induction "nat (max 1 (c div n))" ts rule: chunks.induct) (subst (asm) (2) chunks.simps, auto split: if_splits)
    moreover have "distinct cs" "set cs \<subseteq> set ts"
      using cs(1) cc input_tiers_ok(1) [OF ts(1)] by (metis distinct_concat_iff, metis UN_upper set_concat)
    ultimately have "filter (\<lambda>r. f r = hd cs) g = tier_queue f rs (hd cs)" "hd cs \<in> set ts"
      using cs(2) round_robin_queue [of cs f "hd cs" rs] by auto
    moreover obtain r where "r \<in> set rs" "f r = hd cs" using ts(3) \<open>hd cs \<in> set ts\<close> by blast
    then have "r \<in> set (tier_queue f rs (hd cs))" by (simp add: tier_queue_def)
    ultimately show ?thesis by auto
  qed
  with mset_eq_by_tier [of f "concat gs" rs, OF fifo] fifo show ?thesis by auto
qed

theorem request_groups_schedule_witness:
  "mset (concat [[(''2k'', 1), (''4k'', 3), (''2k'', 2 :: nat)], [(''8k'', 4), (''16k'', 5)]]) =
   mset [(''2k'', 1), (''2k'', 2), (''4k'', 3), (''8k'', 4), (''16k'', 5)]"
proof -
  have "request_groups fst [(''2k'', 1), (''2k'', 2), (''4k'', 3), (''8k'', 4), (''16k'', 5 :: nat)]
      (JInt 4) (JArr [JStr ''2k'', JStr ''4k'', JStr ''8k'', JStr ''16k'']) (JInt 2) =
    Inr [[(''2k'', 1), (''4k'', 3), (''2k'', 2)], [(''8k'', 4), (''16k'', 5)]]"
    by code_simp
  then show ?thesis by (rule request_groups_schedule [THEN conjunct1])
qed

section \<open>Facts about the occupancy sweep\<close>

lemma mset_insort_by: "mset (insort_by lt x xs) = add_mset x (mset xs)"
  by (induction xs) auto

lemma mset_fold_insort: "mset (fold (insort_by lt) xs ys) = mset xs + mset ys"
  by (induction xs arbitrary: ys) (auto simp: mset_insort_by)

lemma mset_sort_by: "mset (sort_by lt xs) = mset xs"
  by (simp add: sort_by_def mset_fold_insort)

lemma set_sort_by: "set (sort_by lt xs) = set xs"
  by (metis mset_sort_by set_mset_mset)

definition total_on_rows :: "('a \<Rightarrow> 'a \<Rightarrow> bool) \<Rightarrow> 'a set \<Rightarrow> bool" where
  "total_on_rows lt A = ((\<forall>a \<in> A. \<forall>b \<in> A. lt a b \<longrightarrow> \<not> lt b a) \<and>
     (\<forall>a \<in> A. \<forall>b \<in> A. \<forall>c \<in> A. \<not> lt b a \<longrightarrow> \<not> lt c b \<longrightarrow> \<not> lt c a))"

lemma sorted_insort_by:
  assumes "total_on_rows lt A" and "insert x (set xs) \<subseteq> A" and "sorted_wrt (\<lambda>a b. \<not> lt b a) xs"
  shows "sorted_wrt (\<lambda>a b. \<not> lt b a) (insort_by lt x xs)"
  using assms(2,3)
proof (induction xs)
  case (Cons y ys)
  have set: "set (insort_by lt x ys) = insert x (set ys)"
    by (metis mset_insort_by set_mset_add_mset_insert set_mset_mset)
  show ?case
  proof (cases "lt x y")
    case True
    have "\<not> lt z x" if "z \<in> set (y # ys)" for z
    proof -
      have "\<not> lt y x" "z = y \<or> \<not> lt z y"
        using True that Cons.prems assms(1) unfolding total_on_rows_def by auto
      then show ?thesis using that Cons.prems(1) assms(1) unfolding total_on_rows_def by (metis insert_subset list.simps(15) subsetD)
    qed
    with True Cons.prems show ?thesis by simp
  next
    case False
    with Cons show ?thesis by (simp add: set)
  qed
qed simp

lemma sorted_sort_by:
  assumes "total_on_rows lt A" and "set xs \<subseteq> A"
  shows "sorted_wrt (\<lambda>a b. \<not> lt b a) (sort_by lt xs)"
proof -
  have "sorted_wrt (\<lambda>a b. \<not> lt b a) (fold (insort_by lt) xs ys)"
    if "set ys \<subseteq> A" "sorted_wrt (\<lambda>a b. \<not> lt b a) ys" for ys
    using that assms(2)
  proof (induction xs arbitrary: ys)
    case (Cons x xs)
    have "set (insort_by lt x ys) = insert x (set ys)"
      by (metis mset_insort_by set_mset_add_mset_insert set_mset_mset)
    with Cons sorted_insort_by [OF assms(1), of x ys] show ?case by auto
  qed simp
  then show ?thesis by (simp add: sort_by_def)
qed

definition finite_slot :: "pyfloat \<times> int \<Rightarrow> bool" where
  "finite_slot e = (isfinite (fst e) \<and> \<bar>snd e\<bar> = 1)"

lemma isfinite_iff: "isfinite x \<longleftrightarrow> (\<exists>q. x = Fin q)"
  by (cases x) (auto simp: isfinite_def)

lemma slot_total: "total_on_rows slot_before {e. finite_slot e}"
  by (auto simp: total_on_rows_def slot_before_def finite_slot_def isfinite_iff)

lemma slot_order: "finite_slot a \<Longrightarrow> finite_slot b \<Longrightarrow> \<not> slot_before b a \<Longrightarrow> fle (fst a) (fst b)"
  by (auto simp: slot_before_def finite_slot_def isfinite_iff)

definition net :: "(pyfloat \<times> int) list \<Rightarrow> pyfloat \<Rightarrow> int" where
  "net es t = sum_list (map snd (filter (\<lambda>e. fle (fst e) t) es))"

abbreviation running :: "(pyfloat \<times> int) list \<Rightarrow> nat \<Rightarrow> int" where
  "running es k \<equiv> sum_list (map snd (take k es))"

lemma sweep_occupied: "sw_occupied (fold sweep_step es s) = sw_occupied s + sum_list (map snd es)"
  by (induction es arbitrary: s) (auto simp: sweep_step_def Let_def)

lemma sweep_peak_snoc:
  "sw_peak (fold sweep_step (es @ [e]) s) =
     max (sw_peak (fold sweep_step es s)) (sw_occupied s + sum_list (map snd (es @ [e])))"
  by (simp add: sweep_step_def Let_def sweep_occupied)

text \<open>The peak is the largest running sum, the initial zero included.\<close>

lemma sweep_peak:
  assumes "sw_occupied s = 0" and "sw_peak s = 0"
  shows "(\<forall>k. running es k \<le> sw_peak (fold sweep_step es s)) \<and>
    (\<exists>k \<le> length es. sw_peak (fold sweep_step es s) = running es k)"
proof (induction es rule: rev_induct)
  case (snoc e es)
  let ?p = "sw_peak (fold sweep_step es s)"
  have p: "sw_peak (fold sweep_step (es @ [e]) s) = max ?p (running (es @ [e]) (Suc (length es)))"
    using assms(1) by (simp only: sweep_peak_snoc) simp
  have le: "running (es @ [e]) k \<le> max ?p (running (es @ [e]) (Suc (length es)))" for k
    using snoc.IH by (cases "k \<le> length es") (auto simp: le_max_iff_disj)
  obtain k where k: "k \<le> length es" "?p = running es k" using snoc.IH by blast
  show ?case unfolding p
  proof (intro conjI allI le)
    show "\<exists>k \<le> length (es @ [e]). max ?p (running (es @ [e]) (Suc (length es))) = running (es @ [e]) k"
    proof (cases "?p \<le> running (es @ [e]) (Suc (length es))")
      case True
      then show ?thesis by (intro exI [of _ "Suc (length es)"]) (simp add: max_def)
    next
      case False
      with k show ?thesis by (intro exI [of _ k]) (auto simp: max_def)
    qed
  qed
qed (use assms in simp)

lemma net_prefix:
  assumes "sorted_wrt (\<lambda>a b. \<not> slot_before b a) es" and "\<forall>e \<in> set es. finite_slot e" and "isfinite t"
  shows "\<exists>k \<le> length es. net es t = running es k"
proof -
  have "filter (\<lambda>e. fle (fst e) t) es = takeWhile (\<lambda>e. fle (fst e) t) es"
    using assms
  proof (induction es)
    case (Cons e es)
    show ?case
    proof (cases "fle (fst e) t")
      case False
      have "\<not> fle (fst x) t" if x: "x \<in> set es" for x
      proof -
        have "fle (fst e) (fst x)" "isfinite (fst x)"
          using Cons.prems x by (auto intro: slot_order simp: finite_slot_def)
        with False show ?thesis using fle_trans by blast
      qed
      with False show ?thesis by (simp add: filter_empty_conv)
    qed (use Cons in auto)
  qed simp
  then have "net es t = running es (length (takeWhile (\<lambda>e. fle (fst e) t) es))"
    unfolding net_def by (simp add: takeWhile_eq_take [symmetric])
  then show ?thesis using length_takeWhile_le by blast
qed

text \<open>After an admission, only admissions of the same instant are still to come in its batch.\<close>

lemma running_le_net:
  assumes "sorted_wrt (\<lambda>a b. \<not> slot_before b a) es" and "\<forall>e \<in> set es. finite_slot e"
    and "k < length es" and "snd (es ! k) = 1"
  shows "running es (Suc k) \<le> net es (fst (es ! k))"
proof -
  let ?t = "fst (es ! k)"
  have split: "es = take (Suc k) es @ drop (Suc k) es" by simp
  have early: "fle (fst x) ?t" if x: "x \<in> set (take (Suc k) es)" for x
  proof -
    obtain i where i: "i \<le> k" "x = es ! i"
      using x assms(3) by (auto simp: in_set_conv_nth less_Suc_eq_le)
    then have fin: "finite_slot x" "finite_slot (es ! k)" using assms(2,3) by auto
    have "\<not> slot_before (es ! k) x"
      using sorted_wrt_nth_less [OF assms(1), of i k] i assms(3) fin
      by (cases "i = k") (auto simp: slot_before_def finite_slot_def isfinite_iff)
    with fin show ?thesis by (intro slot_order)
  qed
  have late: "snd x = 1" if x: "x \<in> set (drop (Suc k) es)" "fle (fst x) ?t" for x
  proof -
    obtain j where j: "j < length (drop (Suc k) es)" "x = drop (Suc k) es ! j"
      using x(1) by (metis in_set_conv_nth)
    define i where "i = Suc k + j"
    have i: "k < i" "i < length es" "x = es ! i" using j by (auto simp: i_def)
    then have "finite_slot x" "finite_slot (es ! k)" using assms(2,3) by auto
    moreover have "\<not> slot_before x (es ! k)"
      using sorted_wrt_nth_less [OF assms(1), of k i] i by auto
    ultimately show ?thesis using x(2) assms(4)
      by (auto simp: slot_before_def finite_slot_def isfinite_iff)
  qed
  have "0 \<le> sum_list (map snd (filter (\<lambda>e. fle (fst e) ?t) (drop (Suc k) es)))"
    using late by (intro sum_list_nonneg) auto
  moreover have "filter (\<lambda>e. fle (fst e) ?t) (take (Suc k) es) = take (Suc k) es"
    using early by (auto simp: filter_id_conv)
  moreover have "net es ?t = sum_list (map snd (filter (\<lambda>e. fle (fst e) ?t) (take (Suc k) es))) +
      sum_list (map snd (filter (\<lambda>e. fle (fst e) ?t) (drop (Suc k) es)))"
    unfolding net_def by (metis filter_append map_append split sum_list_append)
  ultimately show ?thesis by simp
qed

lemma running_bounded:
  assumes "sorted_wrt (\<lambda>a b. \<not> slot_before b a) es" and "\<forall>e \<in> set es. finite_slot e"
  shows "k \<le> length es \<Longrightarrow> running es k \<le> 0 \<or>
    (\<exists>e \<in> set es. snd e = 1 \<and> running es k \<le> net es (fst e))"
proof (induction k)
  case (Suc k)
  then have step: "running es (Suc k) = running es k + snd (es ! k)"
    by (simp add: take_Suc_conv_app_nth)
  have "finite_slot (es ! k)" using assms(2) Suc.prems by simp
  then consider "snd (es ! k) = 1" | "snd (es ! k) = - 1" by (auto simp: finite_slot_def abs_if split: if_splits)
  then show ?case
  proof cases
    case 1
    with running_le_net [OF assms, of k] Suc.prems show ?thesis by (meson Suc_le_eq nth_mem)
  next
    case 2
    then have "running es (Suc k) \<le> running es k" using step by simp
    with Suc show ?thesis by fastforce
  qed
qed simp

section \<open>The observed peak\<close>

definition timed_row :: "replay_row \<Rightarrow> bool" where
  "timed_row r = (isfinite (rr_admission r) \<and> isfinite (rr_release r) \<and> fle (rr_admission r) (rr_release r))"

text \<open>The requests admitted and not released at an instant.\<close>

definition open_at :: "replay_row list \<Rightarrow> pyfloat \<Rightarrow> nat" where
  "open_at rows t = length (filter (\<lambda>r. fle (rr_admission r) t \<and> \<not> fle (rr_release r) t) rows)"

lemma length_filter_diff:
  "\<forall>r \<in> set rows. R r \<longrightarrow> A r \<Longrightarrow>
   int (length (filter A rows)) - int (length (filter R rows)) = int (length (filter (\<lambda>r. A r \<and> \<not> R r) rows))"
  by (induction rows) auto

lemma net_marks: "net (map (\<lambda>r. (f r, c)) rows) t = c * int (length (filter (\<lambda>r. fle (f r) t) rows))"
  by (induction rows) (auto simp: net_def algebra_simps)

lemma net_mset:
  assumes "mset es = mset es'"
  shows "net es t = net es' t"
proof -
  have "mset (map snd (filter (\<lambda>e. fle (fst e) t) es)) = mset (map snd (filter (\<lambda>e. fle (fst e) t) es'))"
    using assms by simp
  then show ?thesis unfolding net_def by (metis sum_mset_sum_list)
qed

lemma net_slot_events:
  assumes "\<forall>r \<in> set rows. timed_row r" and "isfinite t"
  shows "net (slot_events rows) t = int (open_at rows t)"
proof -
  let ?es = "map (\<lambda>r. (rr_admission r, 1)) rows @ map (\<lambda>r. (rr_release r, - 1)) rows"
  have "net (slot_events rows) t = net ?es t"
    unfolding slot_events_def by (intro net_mset mset_sort_by)
  also have "\<dots> = net (map (\<lambda>r. (rr_admission r, 1)) rows) t + net (map (\<lambda>r. (rr_release r, - 1)) rows) t"
    by (simp add: net_def)
  also have "\<dots> = int (open_at rows t)"
    unfolding net_marks open_at_def
    using assms by (subst length_filter_diff [symmetric]) (auto simp: timed_row_def intro: fle_trans)
  finally show ?thesis .
qed

lemma slot_events_ok:
  assumes "\<forall>r \<in> set rows. timed_row r"
  shows "sorted_wrt (\<lambda>a b. \<not> slot_before b a) (slot_events rows)"
    and "\<forall>e \<in> set (slot_events rows). finite_slot e"
proof -
  have fin: "set (map (\<lambda>r. (rr_admission r, 1)) rows @ map (\<lambda>r. (rr_release r, - 1)) rows) \<subseteq> {e. finite_slot e}"
    using assms by (auto simp: finite_slot_def timed_row_def)
  show "sorted_wrt (\<lambda>a b. \<not> slot_before b a) (slot_events rows)"
    and "\<forall>e \<in> set (slot_events rows). finite_slot e"
    unfolding slot_events_def set_sort_by
    using sorted_sort_by [OF slot_total fin] subsetD [OF fin] by simp_all
qed

text \<open>
  The peak of the slot sweep is the true maximum of concurrency: for rows whose release is not
  before their admission it is the number of requests in flight at some admission, and at no
  instant are more requests in flight.
\<close>

theorem observed_peak_exact:
  assumes "rows \<noteq> []" and "\<forall>r \<in> set rows. timed_row r"
  shows "(\<forall>q. int (open_at rows (Fin q)) \<le> sw_peak (sweep_slots start rows)) \<and>
    (\<exists>r \<in> set rows. sw_peak (sweep_slots start rows) = int (open_at rows (rr_admission r)))"
proof -
  let ?es = "slot_events rows"
  let ?p = "sw_peak (sweep_slots start rows)"
  note ok = slot_events_ok [OF assms(2)]
  have pk: "\<And>k. running ?es k \<le> ?p" "\<exists>k \<le> length ?es. ?p = running ?es k"
    using sweep_peak [of "\<lparr>sw_previous = start, sw_occupied = 0, sw_peak = 0, sw_area = Fin 0\<rparr>" ?es]
    by (auto simp: sweep_slots_def)
  have up: "int (open_at rows t) \<le> ?p" if "isfinite t" for t
    using net_prefix [OF ok that] net_slot_events [OF assms(2) that] pk(1) by metis
  obtain k where k: "k \<le> length ?es" "?p = running ?es k" using pk(2) by blast
  have "\<exists>r \<in> set rows. ?p \<le> int (open_at rows (rr_admission r))"
  proof (cases "running ?es k \<le> 0")
    case True
    with k assms(1) show ?thesis by (intro bexI [of _ "hd rows"]) auto
  next
    case False
    then obtain e where e: "e \<in> set ?es" "snd e = 1" "?p \<le> net ?es (fst e)"
      using running_bounded [OF ok k(1)] k(2) by auto
    then obtain r where r: "r \<in> set rows" "fst e = rr_admission r"
      by (auto simp: slot_events_def set_sort_by)
    with e assms(2) net_slot_events [OF assms(2), of "fst e"] show ?thesis
      by (auto simp: timed_row_def)
  qed
  then obtain r where r: "r \<in> set rows" "?p \<le> int (open_at rows (rr_admission r))" by blast
  have "int (open_at rows (rr_admission r)) \<le> ?p"
    using r(1) assms(2) by (intro up) (simp add: timed_row_def)
  with r up show ?thesis by (auto simp: isfinite_def intro!: bexI [of _ r])
qed

definition ex_row :: "string \<Rightarrow> rat \<Rightarrow> rat \<Rightarrow> replay_row" where
  "ex_row i a b = \<lparr>rr_rep = 1, rr_tier = ''2k'', rr_request_id = i, rr_error = None,
     rr_group_start = Fin 0, rr_completion = Fin b, rr_admission = Fin a, rr_release = Fin b,
     rr_requested = 2, rr_effective = 2, rr_token_timing = None\<rparr>"

theorem observed_peak_exact_witness:
  "\<exists>r \<in> set [ex_row ''a'' 0 5, ex_row ''b'' 1 3, ex_row ''c'' 3 6].
     sw_peak (sweep_slots (Fin 0) [ex_row ''a'' 0 5, ex_row ''b'' 1 3, ex_row ''c'' 3 6]) =
     int (open_at [ex_row ''a'' 0 5, ex_row ''b'' 1 3, ex_row ''c'' 3 6] (rr_admission r))"
  by (rule observed_peak_exact [THEN conjunct2]) (simp_all add: timed_row_def ex_row_def isfinite_def)

section \<open>Tier evidence\<close>

text \<open>One repetition is complete evidence for a tier.\<close>

definition complete_rep :: "replay_row list \<Rightarrow> string \<Rightarrow> string list \<Rightarrow> int \<Rightarrow> bool" where
  "complete_rep rows tier ids rep = (let sel = filter (\<lambda>r. rr_rep r = rep \<and> rr_tier r = tier) rows in
     sort (map rr_request_id sel) = ids \<and> (\<forall>r \<in> set sel. \<not> failed_row r))"

lemma tier_sample_ok:
  assumes "tier_sample rows tier rep expected = Inr (ids, x)"
  shows "complete_rep rows tier ids rep" and "expected = None \<or> expected = Some ids"
    and "ids \<noteq> []" and "distinct ids" and "isfinite x" and "\<not> fle x (Fin 0)"
  using assms by (auto simp: tier_sample_def complete_rep_def Let_def rbind_eq_Inr)

lemma tier_samples_ok:
  "tier_samples rows tier reps expected = Inr (e, xs) \<Longrightarrow> reps \<noteq> [] \<Longrightarrow>
   \<exists>ids. e = Some ids \<and> (expected = None \<or> expected = Some ids) \<and> ids \<noteq> [] \<and> distinct ids \<and>
     length xs = length reps \<and> (\<forall>rep \<in> set reps. complete_rep rows tier ids rep) \<and>
     (\<forall>x \<in> set xs. isfinite x \<and> \<not> fle x (Fin 0))"
proof (induction reps arbitrary: expected xs)
  case (Cons rep reps)
  obtain ids x ys where s: "tier_sample rows tier rep expected = Inr (ids, x)"
    and r: "tier_samples rows tier reps (Some ids) = Inr (e, ys)" and xs: "xs = x # ys"
    using Cons.prems(1) by (auto simp: rbind_eq_Inr split: prod.splits)
  note ok = tier_sample_ok [OF s]
  show ?case
  proof (cases "reps = []")
    case True
    with ok r xs show ?thesis by auto
  next
    case False
    with Cons.IH [OF r] ok xs show ?thesis by auto
  qed
qed simp

lemma tier_samples_Nil: "tier_samples rows tier [] None = Inr (e, xs) \<Longrightarrow> xs = []"
  by simp

lemma tier_metric_ok:
  assumes "tier_metric_of rows n tier = Inr (t, m)"
  shows "t = tier" and "tm_request_ids m \<noteq> []" and "distinct (tm_request_ids m)"
    and "\<forall>rep \<in> {1..n}. complete_rep rows tier (tm_request_ids m) rep"
    and "\<forall>x \<in> set (tm_repetitions m). isfinite x \<and> \<not> fle x (Fin 0)"
    and "length (tm_repetitions m) = nat n"
proof -
  obtain e xs where s: "tier_samples rows tier [1..n] None = Inr (e, xs)"
    using assms by (cases "tier_samples rows tier [1..n] None") (auto simp: tier_metric_of_def)
  obtain med where med: "fmedian xs = Inr med"
    using assms by (auto simp: tier_metric_of_def s rbind_eq_Inr)
  have m: "t = tier" "tm_request_ids m = (case e of None \<Rightarrow> [] | Some i \<Rightarrow> i)" "tm_repetitions m = xs"
    using assms by (auto simp: tier_metric_of_def s med rbind_eq_Inr split: option.splits)
  have "xs \<noteq> []" using med by (auto simp: fmedian_def fsorted_def sort_by_def)
  then have "[1..n] \<noteq> []" using s by (cases "[1..n]") auto
  with tier_samples_ok [OF s] m show "t = tier" "tm_request_ids m \<noteq> []" "distinct (tm_request_ids m)"
    "\<forall>rep \<in> {1..n}. complete_rep rows tier (tm_request_ids m) rep"
    "\<forall>x \<in> set (tm_repetitions m). isfinite x \<and> \<not> fle x (Fin 0)"
    "length (tm_repetitions m) = nat n" by auto
qed

text \<open>
  Tier completion times rest on complete evidence: when the metrics are computed there is one
  for every configured tier, and in each repetition the rows of a tier are successful and name the
  same request ids, each once, as in every other repetition.
\<close>

theorem tier_evidence_complete:
  assumes "input_tiers tiers = Inr ts" and "tier_completion_metrics rows n tiers = Inr ms"
  shows "map fst ms = ts \<and> (\<forall>(t, m) \<in> set ms. tm_request_ids m \<noteq> [] \<and> distinct (tm_request_ids m) \<and>
    length (tm_repetitions m) = nat n \<and> (\<forall>rep \<in> {1..n}. complete_rep rows t (tm_request_ids m) rep))"
proof -
  have ms: "rmap (tier_metric_of rows n) ts = Inr ms"
    using assms by (auto simp: tier_completion_metrics_def rbind_eq_Inr)
  have "map fst ms = ts"
  proof (rule nth_equalityI)
    show len: "length (map fst ms) = length ts" using rmap_length [OF ms] by simp
    fix i assume "i < length (map fst ms)"
    with len have "tier_metric_of rows n (ts ! i) = Inr (fst (ms ! i), snd (ms ! i))"
      using rmap_nth [OF ms, of i] by simp
    then show "map fst ms ! i = ts ! i"
      using tier_metric_ok(1) \<open>i < length (map fst ms)\<close> by fastforce
  qed
  moreover have "tm_request_ids m \<noteq> [] \<and> distinct (tm_request_ids m) \<and>
      length (tm_repetitions m) = nat n \<and> (\<forall>rep \<in> {1..n}. complete_rep rows t (tm_request_ids m) rep)"
    if tm: "(t, m) \<in> set ms" for t m
  proof -
    obtain u where "tier_metric_of rows n u = Inr (t, m)" using rmap_set [OF ms tm] by blast
    from tier_metric_ok [OF this] show ?thesis by simp
  qed
  ultimately show ?thesis by auto
qed

theorem tier_evidence_complete_witness:
  "\<exists>ms. tier_completion_metrics [ex_row ''a'' 0 1000] 1 (JArr [JStr ''2k'']) = Inr ms \<and> map fst ms = [''2k'']"
proof -
  have t: "input_tiers (JArr [JStr ''2k'']) = Inr [''2k'']" by code_simp
  have e: "[1..(1 :: int)] = [1]" by simp
  have m: "tier_completion_metrics [ex_row ''a'' 0 1000] 1 (JArr [JStr ''2k'']) =
     Inr [(''2k'', \<lparr>tm_request_ids = [''a''], tm_repetitions = [Fin 1],
       tm_completion = Fin 1, tm_relative_range = Fin 0\<rparr>)]"
    using rnd_small [of 1000] rnd0_of_small_int [of 1000] rnd_small [of 0]
    unfolding tier_completion_metrics_def t
    by (simp add: tier_metric_of_def e tier_sample_def ex_row_def failed_row_def fmax_list_def fmin_list_def
        fsub_def isfinite_def fmedian_def fsorted_def sort_by_def)
  show ?thesis by (intro exI conjI, rule m, rule tier_evidence_complete [OF t m, THEN conjunct1])
qed

end
