(* ===== verification/PyConv.thy ===== *)
theory PyConv
  imports Concurrency
begin

text \<open>
  Python's conversions \<open>float(v)\<close>, \<open>int(v)\<close> and \<open>str(v)\<close> of a value read from JSON. Parsing a
  number follows the grammar CPython accepts for \<open>str\<close> arguments: surrounding whitespace, one sign,
  single underscores between digits. \<open>str\<close> of a float or a container is a parameter \<open>show\<close> of the
  definitions that use it.
\<close>

section \<open>Numbers from text\<close>

definition is_digits :: "string \<Rightarrow> bool" where
  "is_digits s = (s \<noteq> [] \<and> list_all is_ascii_digit s)"

text \<open>Digits with single underscores between them; the digits without the underscores.\<close>

definition digits_us :: "string \<Rightarrow> string option" where
  "digits_us s = (let ps = split_on (CHR ''_'') s in if list_all is_digits ps then Some (concat ps) else None)"

definition opt_digits :: "string \<Rightarrow> string option" where
  "opt_digits s = (if s = [] then Some [] else digits_us s)"

definition take_sign :: "string \<Rightarrow> bool \<times> string" where
  "take_sign s = (case s of [] \<Rightarrow> (False, []) | c # cs \<Rightarrow>
     if c = CHR ''-'' then (True, cs) else if c = CHR ''+'' then (False, cs) else (False, s))"

definition exponent_of :: "string \<Rightarrow> int option" where
  "exponent_of s = (let (neg, t) = take_sign s in
     map_option (\<lambda>ds. (if neg then - 1 else 1) * int (digits_val ds)) (digits_us t))"

definition mantissa_of :: "string \<Rightarrow> rat option" where
  "mantissa_of s = (case split_on (CHR ''.'') s of
     [i] \<Rightarrow> map_option (\<lambda>ds. of_nat (digits_val ds)) (digits_us i)
   | [i, f] \<Rightarrow> (case (opt_digits i, opt_digits f) of
       (Some a, Some b) \<Rightarrow> if a = [] \<and> b = [] then None
         else Some (of_nat (digits_val (a @ b)) / 10 ^ length b)
     | _ \<Rightarrow> None)
   | _ \<Rightarrow> None)"

definition decimal_of :: "string \<Rightarrow> rat option" where
  "decimal_of s = (case split_on (CHR ''e'') s of
     [m] \<Rightarrow> mantissa_of m
   | [m, e] \<Rightarrow> (case (mantissa_of m, exponent_of e) of
       (Some q, Some k) \<Rightarrow> Some (q * 10 powi k) | _ \<Rightarrow> None)
   | _ \<Rightarrow> None)"

definition float_of_str :: "string \<Rightarrow> pyfloat res" where
  "float_of_str s = (let (neg, t) = take_sign (lower (strip s));
     sgn = (\<lambda>x. if neg then fneg x else x) in
     if t = ''inf'' \<or> t = ''infinity'' then Inr (sgn PInf)
     else if t = ''nan'' then Inr NaN
     else (case decimal_of t of None \<Rightarrow> Inl (ValueError ''could not convert string to float'')
           | Some q \<Rightarrow> Inr (sgn (rnd q))))"

text \<open>\<open>int(s)\<close>, with the default limit of 4300 digits.\<close>

definition int_of_str :: "string \<Rightarrow> int res" where
  "int_of_str s = (let (neg, t) = take_sign (strip s) in
     case digits_us t of None \<Rightarrow> Inl (ValueError ''invalid literal for int()'')
     | Some ds \<Rightarrow> if 4300 < length ds then Inl (ValueError ''Exceeds the limit for integer string conversion'')
         else Inr ((if neg then - 1 else 1) * int (digits_val ds)))"

section \<open>Conversions\<close>

definition py_float :: "json \<Rightarrow> pyfloat res" where
  "py_float v = (case v of JBool b \<Rightarrow> Inr (Fin (if b then 1 else 0)) | JInt i \<Rightarrow> float_of_int i
     | JFloat x \<Rightarrow> Inr x | JStr s \<Rightarrow> float_of_str s | _ \<Rightarrow> Inl (PyTypeError ''float() argument''))"

definition trunc :: "rat \<Rightarrow> int" where
  "trunc q = (if 0 \<le> q then \<lfloor>q\<rfloor> else \<lceil>q\<rceil>)"

definition py_int :: "json \<Rightarrow> int res" where
  "py_int v = (case v of JBool b \<Rightarrow> Inr (if b then 1 else 0) | JInt i \<Rightarrow> Inr i
     | JFloat x \<Rightarrow> (case x of Fin q \<Rightarrow> Inr (trunc q) | NaN \<Rightarrow> Inl (ValueError ''cannot convert float NaN to integer'')
         | _ \<Rightarrow> Inl OverflowError)
     | JStr s \<Rightarrow> int_of_str s | _ \<Rightarrow> Inl (PyTypeError ''int() argument''))"

definition py_str :: "(json \<Rightarrow> string) \<Rightarrow> json \<Rightarrow> string" where
  "py_str show v = (case v of JStr s \<Rightarrow> s | JNull \<Rightarrow> ''None'' | JBool b \<Rightarrow> (if b then ''True'' else ''False'')
     | JInt i \<Rightarrow> str_of_int i | _ \<Rightarrow> show v)"

text \<open>\<open>x or y\<close>, and \<open>math.ceil\<close> of a float.\<close>

definition py_or :: "json \<Rightarrow> json \<Rightarrow> json" where
  "py_or x y = (if jtruthy x then x else y)"

definition fceil :: "pyfloat \<Rightarrow> int res" where
  "fceil x = (case x of Fin q \<Rightarrow> Inr \<lceil>q\<rceil> | NaN \<Rightarrow> Inl (ValueError ''cannot convert float NaN to integer'')
     | _ \<Rightarrow> Inl OverflowError)"

definition fmin2 :: "pyfloat \<Rightarrow> pyfloat \<Rightarrow> pyfloat" where
  "fmin2 x y = (if flt y x then y else x)"

definition fmax2 :: "pyfloat \<Rightarrow> pyfloat \<Rightarrow> pyfloat" where
  "fmax2 x y = (if flt x y then y else x)"

lemma digits_us_str_of_nat: "digits_us (str_of_nat n) = Some (str_of_nat n)"
proof -
  have d: "\<forall>c \<in> set (str_of_nat n). is_ascii_digit c" by (rule str_of_nat_digits)
  then have "CHR ''_'' \<notin> set (str_of_nat n)" by (auto simp: is_ascii_digit_def ccode_def)
  then show ?thesis using d by (simp add: digits_us_def split_on_no_sep is_digits_def list_all_iff)
qed

text \<open>Decimal text of an integer reads back as that integer.\<close>

lemma int_of_str_of_int:
  assumes "length (str_of_nat (nat \<bar>i\<bar>)) \<le> 4300"
  shows "int_of_str (str_of_int i) = Inr i"
proof -
  have s: "strip (str_of_int i) = str_of_int i"
    using str_of_nat_digits digit_not_space
    by (intro strip_no_space) (auto simp: str_of_int_def py_isspace_def ccode_def)
  have "take_sign (str_of_nat n) = (False, str_of_nat n)" for n
  proof (cases "str_of_nat n")
    case (Cons c cs)
    with str_of_nat_digits [of n] have "is_ascii_digit c" by simp
    then have "c \<noteq> CHR ''-''" "c \<noteq> CHR ''+''" by (auto simp: is_ascii_digit_def ccode_def)
    with Cons show ?thesis by (simp add: take_sign_def)
  qed simp
  moreover have "take_sign (CHR ''-'' # t) = (True, t)" for t by (simp add: take_sign_def)
  ultimately show ?thesis
    using s assms by (cases "i < 0") (simp_all add: int_of_str_def str_of_int_def digits_us_str_of_nat)
qed

end
