(* ===== verification/Score.thy ===== *)
theory Score
  imports PyConv Weights
begin

text \<open>
  The scoring rules of \<open>bench/score.py\<close> and their validation in \<open>campaign/models.py\<close>: per-prompt
  timings in, one score out, in exact double arithmetic. A mapping from request ids is an
  association list in iteration order; timings are the floats the replay recorded. \<open>statistics.median\<close>
  is modelled on lists without \<open>NaN\<close>, which timings of representable duration cannot produce.
\<close>

section \<open>Data\<close>

record prompt_timing =
  ttft_s :: pyfloat
  itl_s :: "pyfloat list"
  completion_tokens :: int
  finish_reason :: "string option"

record prompt_score =
  ps_request_id :: string
  ps_speedup :: pyfloat
  ps_aligned_tokens :: int
  ps_baseline_e2e :: "pyfloat option"
  ps_candidate_e2e :: "pyfloat option"
  ps_reason :: "string option"
  ps_failed :: bool

record score_result =
  sc_score :: pyfloat
  sc_rule :: string
  sc_prompts :: "prompt_score list"
  sc_breakdown :: jdict

definition DEFAULT_SPEED_TOLERANCE :: pyfloat where
  "DEFAULT_SPEED_TOLERANCE = flit (9/10)"

definition REASON_NO_CANDIDATE_TIMING :: string where
  "REASON_NO_CANDIDATE_TIMING = ''no candidate timing''"

definition REASON_BASELINE_NO_TOKENS :: string where
  "REASON_BASELINE_NO_TOKENS = ''baseline emitted no tokens''"

definition REASON_BELOW_TOLERANCE :: string where
  "REASON_BELOW_TOLERANCE = ''candidate output below tolerance''"

definition REASON_INSUFFICIENT_TIMING :: string where
  "REASON_INSUFFICIENT_TIMING = ''insufficient timing''"

definition opt_float :: "pyfloat option \<Rightarrow> json" where
  "opt_float x = (case x of None \<Rightarrow> JNull | Some v \<Rightarrow> JFloat v)"

definition prompt_json :: "prompt_score \<Rightarrow> json" where
  "prompt_json p = JObj [(''request_id'', JStr (ps_request_id p)), (''speedup'', JFloat (ps_speedup p)),
     (''aligned_tokens'', JInt (ps_aligned_tokens p)), (''baseline_e2e_s'', opt_float (ps_baseline_e2e p)),
     (''candidate_e2e_s'', opt_float (ps_candidate_e2e p)), (''reason'', opt_str (ps_reason p)),
     (''candidate_failed'', JBool (ps_failed p))]"

definition to_report :: "score_result \<Rightarrow> jdict" where
  "to_report r = [(''rule'', JStr (sc_rule r)), (''score'', JFloat (sc_score r)),
     (''prompts'', JArr (map prompt_json (sc_prompts r))), (''score_breakdown'', JObj (sc_breakdown r))]"

section \<open>One prompt\<close>

definition aligned_e2e_s :: "prompt_timing \<Rightarrow> int \<Rightarrow> pyfloat option res" where
  "aligned_e2e_s t k =
     (if k < 1 \<or> completion_tokens t < k then Inr None
      else if int (length (itl_s t)) < k - 1 then Inr None
      else let gaps = take (nat (k - 1)) (itl_s t) in
        if \<exists>x \<in> set (ttft_s t # gaps). \<not> isfinite x \<or> flt x (Fin 0) then Inr None
        else rbind (fsum gaps) (\<lambda>s. Inr (Some (fadd (ttft_s t) s))))"

definition min_aligned_tokens :: "int \<Rightarrow> pyfloat \<Rightarrow> int res" where
  "min_aligned_tokens n tol = (if n < 2 then Inr n
     else rbind (float_of_int n) (\<lambda>x. rbind (fceil (fmul tol x)) (\<lambda>c. Inr (max 2 c))))"

definition zero_prompt :: "string \<Rightarrow> int \<Rightarrow> pyfloat option \<Rightarrow> pyfloat option \<Rightarrow> string \<Rightarrow> bool \<Rightarrow> prompt_score" where
  "zero_prompt rid k b c reason failed = \<lparr>ps_request_id = rid, ps_speedup = Fin 0, ps_aligned_tokens = k,
     ps_baseline_e2e = b, ps_candidate_e2e = c, ps_reason = Some reason, ps_failed = failed\<rparr>"

text \<open>Both engines reached the same token: the speedup, unless a time is missing or not positive.\<close>

definition timed_prompt :: "string \<Rightarrow> int \<Rightarrow> pyfloat option \<Rightarrow> pyfloat option \<Rightarrow> bool \<Rightarrow> prompt_score res" where
  "timed_prompt rid k be ce valid = (case (be, ce) of
     (Some x, Some y) \<Rightarrow>
       if fle x (Fin 0) then Inr (zero_prompt rid k be ce REASON_INSUFFICIENT_TIMING valid)
       else rbind (fdiv (fsub x y) x) (\<lambda>s.
         Inr \<lparr>ps_request_id = rid, ps_speedup = s, ps_aligned_tokens = k, ps_baseline_e2e = be,
           ps_candidate_e2e = ce, ps_reason = None, ps_failed = False\<rparr>)
   | _ \<Rightarrow> Inr (zero_prompt rid k be ce REASON_INSUFFICIENT_TIMING valid))"

definition prompt_speedup ::
  "string \<Rightarrow> prompt_timing \<Rightarrow> prompt_timing option \<Rightarrow> pyfloat \<Rightarrow> prompt_score res" where
  "prompt_speedup rid b c0 tol =
     rbind (aligned_e2e_s b (completion_tokens b)) (\<lambda>reference.
     let valid = (case reference of None \<Rightarrow> False | Some x \<Rightarrow> flt (Fin 0) x) in
     case c0 of None \<Rightarrow> Inr (zero_prompt rid 0 None None REASON_NO_CANDIDATE_TIMING valid)
     | Some c \<Rightarrow>
       if completion_tokens b < 1 then Inr (zero_prompt rid 0 None None REASON_BASELINE_NO_TOKENS False)
       else let k = min (completion_tokens b) (completion_tokens c) in
         rbind (min_aligned_tokens (completion_tokens b) tol) (\<lambda>need.
         if k < need then Inr (zero_prompt rid k None None REASON_BELOW_TOLERANCE valid)
         else rbind (aligned_e2e_s b k) (\<lambda>be. rbind (aligned_e2e_s c k) (\<lambda>ce.
           timed_prompt rid k be ce valid))))"

section \<open>The rule's parameters\<close>

definition failure_penalty :: "jdict \<Rightarrow> pyfloat res" where
  "failure_penalty rule = (let v = (case map_of rule ''failure_penalty'' of None \<Rightarrow> JInt 0 | Some x \<Rightarrow> x) in
     rbind (bad_number (\<lambda>x. flt x (Fin 0)) v) (\<lambda>bad.
     if bad then Inl (ValueError ''scoring_rule.failure_penalty must be a finite nonnegative number'')
     else jfloat v))"

definition baseline_drift_ceiling :: "jdict \<Rightarrow> pyfloat \<Rightarrow> pyfloat res" where
  "baseline_drift_ceiling rule dflt = (case map_of rule ''baseline_drift_ceiling'' of None \<Rightarrow> Inr dflt
     | Some v \<Rightarrow> (case jnum v of
         Some x \<Rightarrow> if flt (Fin 0) x \<and> fle x (Fin 1) then jfloat v
           else Inl (ValueError ''scoring_rule.baseline_drift_ceiling must be in (0, 1]'')
       | None \<Rightarrow> Inl (ValueError ''scoring_rule.baseline_drift_ceiling must be in (0, 1]'')))"

text \<open>\<open>sys.float_info.max\<close>.\<close>

definition float_max :: pyfloat where
  "float_max = Fin ((2 ^ 53 - 1) * 2 ^ 971)"

definition max_ttft_ratio :: "jdict \<Rightarrow> pyfloat option res" where
  "max_ttft_ratio rule = (case map_of rule ''max_ttft_ratio'' of None \<Rightarrow> Inr None
     | Some v \<Rightarrow> (case jnum v of
         Some x \<Rightarrow> if fle (Fin 1) x \<and> fle x float_max then rbind (jfloat v) (\<lambda>r. Inr (Some r))
           else Inl (ValueError ''scoring_rule.max_ttft_ratio must be a finite number >= 1'')
       | None \<Rightarrow> Inl (ValueError ''scoring_rule.max_ttft_ratio must be a finite number >= 1'')))"

definition median_ttft :: "prompt_timing list \<Rightarrow> pyfloat option res" where
  "median_ttft ts = (let vs = filter (\<lambda>x. isfinite x \<and> flt (Fin 0) x) (map ttft_s ts) in
     if vs = [] then Inr None else rbind (fmedian vs) (\<lambda>m. Inr (Some m)))"

type_synonym timings = "(string \<times> prompt_timing) list"

definition ttft_ratio :: "timings \<Rightarrow> timings \<Rightarrow> pyfloat option res" where
  "ttft_ratio baseline candidate =
     rbind (median_ttft (map snd baseline)) (\<lambda>base.
     rbind (median_ttft (List.map_filter (\<lambda>rid. map_of candidate rid) (keys baseline))) (\<lambda>cand.
     case (base, cand) of (Some b, Some c) \<Rightarrow> rbind (fdiv c b) (\<lambda>r. Inr (Some r)) | _ \<Rightarrow> Inr None))"

section \<open>The median rule\<close>

definition count_failed :: "prompt_score list \<Rightarrow> int" where
  "count_failed ps = int (length (filter ps_failed ps))"

definition median_e2e_speedup :: "jdict \<Rightarrow> timings \<Rightarrow> timings \<Rightarrow> score_result res" where
  "median_e2e_speedup rule baseline candidate =
     rbind (case map_of rule ''tolerance'' of None \<Rightarrow> Inr DEFAULT_SPEED_TOLERANCE | Some v \<Rightarrow> py_float v) (\<lambda>tol.
     rbind (failure_penalty rule) (\<lambda>coefficient.
     rbind (rmap (\<lambda>(rid, t). prompt_speedup rid t (map_of candidate rid) tol) baseline) (\<lambda>ps.
     rbind (if ps = [] then Inr (Fin 0) else fmedian (map ps_speedup ps)) (\<lambda>median.
     rbind (if ps = [] then Inr (Fin 0) else int_truediv (count_failed ps) (int (length ps))) (\<lambda>rate.
     Inr \<lparr>sc_score = fsub median (fmul coefficient rate), sc_rule = ''median_e2e_speedup'', sc_prompts = ps,
       sc_breakdown = [(''median_speedup'', JFloat median), (''scheduled_requests'', JInt (int (length ps))),
         (''failed_requests'', JInt (count_failed ps)), (''failure_rate'', JFloat rate),
         (''failure_penalty'', JFloat coefficient), (''penalty'', JFloat (fmul coefficient rate))]\<rparr>)))))"

section \<open>The weighted tier rule\<close>

record tier_evidence =
  te_request_ids :: "string list"
  te_completion :: json
  te_extrapolated :: "string list"

type_synonym tiers = "(string \<times> tier_evidence) list"

definition done_reason :: "prompt_timing \<Rightarrow> bool" where
  "done_reason t = (finish_reason t = Some ''stop'' \<or> finish_reason t = Some ''length'')"

definition weighted_prompt :: "timings \<Rightarrow> string \<times> prompt_timing \<Rightarrow> prompt_score res" where
  "weighted_prompt candidate p = (case p of (rid, t) \<Rightarrow> let c0 = map_of candidate rid in
     rbind (prompt_speedup rid t c0 DEFAULT_SPEED_TOLERANCE) (\<lambda>diag.
     rbind (case c0 of None \<Rightarrow> Inr True | Some c \<Rightarrow>
         rbind (min_aligned_tokens (completion_tokens t) DEFAULT_SPEED_TOLERANCE) (\<lambda>need.
         Inr (completion_tokens c < need \<or> \<not> done_reason c))) (\<lambda>failed.
     Inr (diag\<lparr>ps_failed := failed,
       ps_reason := (case c0 of Some c \<Rightarrow> if \<not> done_reason c then Some ''invalid completion finish reason''
           else ps_reason diag | None \<Rightarrow> ps_reason diag),
       ps_speedup := (if failed then Fin 0 else ps_speedup diag)\<rparr>))))"

record tier_detail =
  td_tier :: string
  td_weight :: pyfloat
  td_baseline :: json
  td_candidate :: json
  td_speedup :: pyfloat
  td_scheduled :: int
  td_extrapolated :: "string list"

definition tier_detail_json :: "tier_detail \<Rightarrow> json" where
  "tier_detail_json x = JObj [(''weight'', JFloat (td_weight x)), (''baseline_completion_s'', td_baseline x),
     (''candidate_completion_s'', td_candidate x), (''speedup'', JFloat (td_speedup x)),
     (''scheduled_requests'', JInt (td_scheduled x)),
     (''extrapolated_request_ids'', JArr (map JStr (td_extrapolated x)))]"

text \<open>\<open>a / b\<close> of two numbers: two integers divide exactly and round once.\<close>

fun jdiv :: "json \<Rightarrow> json \<Rightarrow> pyfloat res" where
  "jdiv (JInt a) (JInt b) = int_truediv a b"
| "jdiv a b = rbind (jfloat a) (\<lambda>x. rbind (jfloat b) (\<lambda>y. fdiv x y))"

definition tier_step ::
  "tiers \<Rightarrow> tiers \<Rightarrow> string \<times> pyfloat \<Rightarrow> string list \<times> tier_detail list \<Rightarrow> (string list \<times> tier_detail list) res" where
  "tier_step bts cts tw s = (case (map_of bts (fst tw), map_of cts (fst tw)) of
     (Some b, Some c) \<Rightarrow> let ids = te_request_ids b in
       rbind (rguard (ids \<noteq> [] \<and> distinct ids \<and> set (fst s) \<inter> set ids = {} \<and> set ids = set (te_request_ids c))
         (ValueError ''tier membership differs between baseline and candidate'')) (\<lambda>_.
       rbind (rany (bad_number (\<lambda>x. fle x (Fin 0))) [te_completion b, te_completion c]) (\<lambda>bad.
       rbind (rguard (\<not> bad) (ValueError ''invalid tier completion time'')) (\<lambda>_.
       rbind (jdiv (te_completion c) (te_completion b)) (\<lambda>q.
       Inr (fst s @ ids, snd s @ [\<lparr>td_tier = fst tw, td_weight = snd tw, td_baseline = te_completion b,
         td_candidate = te_completion c, td_speedup = fsub (Fin 1) q, td_scheduled = int (length ids),
         td_extrapolated = te_extrapolated c\<rparr>])))))
   | _ \<Rightarrow> Inl (KeyError (fst tw)))"

definition ttft_cap :: "jdict \<Rightarrow> timings \<Rightarrow> timings \<Rightarrow> pyfloat \<Rightarrow> (pyfloat \<times> jdict) res" where
  "ttft_cap rule baseline candidate raw = rbind (max_ttft_ratio rule) (\<lambda>limit.
     case limit of None \<Rightarrow> Inr (raw, [])
     | Some l \<Rightarrow> rbind (ttft_ratio baseline candidate) (\<lambda>ratio.
         let capped = (case ratio of None \<Rightarrow> False | Some r \<Rightarrow> flt l r) in
         Inr (if capped then fmin2 raw (Fin 0) else raw,
           [(''ttft_ratio'', opt_float ratio), (''max_ttft_ratio'', JFloat l), (''ttft_capped'', JBool capped)])))"

definition weighted_tier_completion_speedup ::
  "jdict \<Rightarrow> timings \<Rightarrow> timings \<Rightarrow> tiers option \<Rightarrow> tiers option \<Rightarrow> score_result res" where
  "weighted_tier_completion_speedup rule baseline candidate baseline_tiers candidate_tiers =
     rbind (tier_weights rule) (\<lambda>weights.
     rbind (failure_penalty rule) (\<lambda>coefficient.
     rbind (case (baseline_tiers, candidate_tiers) of
         (Some (b # bs), Some (c # cs)) \<Rightarrow> if baseline = []
            then Inl (ValueError ''weighted score requires complete baseline and candidate tier evidence'')
            else Inr (b # bs, c # cs)
       | _ \<Rightarrow> Inl (ValueError ''weighted score requires complete baseline and candidate tier evidence'')) (\<lambda>(bts, cts).
     rbind (rguard (set (keys bts) = set (keys weights) \<and> set (keys cts) = set (keys weights))
       (ValueError ''weighted score requires every configured tier'')) (\<lambda>_.
     rbind (rguard (\<forall>t \<in> set (map snd baseline). 1 \<le> completion_tokens t \<and> done_reason t)
       (ValueError ''weighted score requires valid baseline completions'')) (\<lambda>_.
     rbind (rmap (weighted_prompt candidate) baseline) (\<lambda>ps.
     rbind (rfold (tier_step bts cts) weights ([], [])) (\<lambda>(seen, details).
     rbind (rguard (set seen = set (keys baseline) \<and> set (keys candidate) \<subseteq> set seen)
       (ValueError ''tier membership does not match eligible request timings'')) (\<lambda>_.
     let raw = fsum_left (map (\<lambda>x. fmul (td_weight x) (td_speedup x)) details) in
     rbind (ttft_cap rule baseline candidate raw) (\<lambda>(eligible, ttft_fields).
     rbind (int_truediv (count_failed ps) (int (length ps))) (\<lambda>rate.
     Inr \<lparr>sc_score = fsub eligible (fmul coefficient rate), sc_rule = WEIGHTED_RULE, sc_prompts = ps,
       sc_breakdown = [(''weighted_speedup'', JFloat raw), (''eligible_speedup'', JFloat eligible)] @ ttft_fields @
         [(''tiers'', JObj (map (\<lambda>x. (td_tier x, tier_detail_json x)) details)),
          (''scheduled_requests'', JInt (int (length ps))), (''failed_requests'', JInt (count_failed ps)),
          (''failure_rate'', JFloat rate), (''failure_penalty'', JFloat coefficient),
          (''penalty'', JFloat (fmul coefficient rate))]\<rparr>))))))))))"

definition score_candidate ::
  "jdict \<Rightarrow> timings \<Rightarrow> timings \<Rightarrow> tiers option \<Rightarrow> tiers option \<Rightarrow> score_result res" where
  "score_candidate rule baseline candidate bts cts =
     (if jget rule ''name'' = JStr ''median_e2e_speedup'' then median_e2e_speedup rule baseline candidate
      else if jget rule ''name'' = JStr WEIGHTED_RULE
      then weighted_tier_completion_speedup rule baseline candidate bts cts
      else Inl (ValueError ''scoring_rule.name must be one of''))"

section \<open>Charging short completions\<close>

record short_row =
  sr_request_id :: string
  sr_completion_tokens :: int
  sr_error :: bool
  sr_group_start :: pyfloat
  sr_admission :: "pyfloat option"
  sr_dispatch :: "pyfloat option"
  sr_ttft :: "pyfloat option"
  sr_completion :: pyfloat

definition is_short :: "(string \<times> int) list \<Rightarrow> pyfloat \<Rightarrow> short_row \<Rightarrow> int option res" where
  "is_short refs tol r = (case map_of refs (sr_request_id r) of None \<Rightarrow> Inr None
     | Some n \<Rightarrow> if sr_error r then Inr None
         else rbind (min_aligned_tokens n tol) (\<lambda>need.
           Inr (if need \<le> sr_completion_tokens r then None else Some n)))"

definition decode_origin :: "short_row \<Rightarrow> pyfloat" where
  "decode_origin r = (let origin = (case sr_admission r of None \<Rightarrow> sr_group_start r | Some a \<Rightarrow> a) in
     case sr_ttft r of None \<Rightarrow> origin
     | Some t \<Rightarrow> fmin2 (fmax2 origin (fadd (case sr_dispatch r of None \<Rightarrow> origin | Some x \<Rightarrow> x) t)) (sr_completion r))"

definition extrapolate_row :: "(string \<times> int) list \<Rightarrow> pyfloat \<Rightarrow> short_row \<Rightarrow> (short_row \<times> bool) res" where
  "extrapolate_row refs tol r = rbind (is_short refs tol r) (\<lambda>sh. case sh of None \<Rightarrow> Inr (r, False)
     | Some n \<Rightarrow> let origin = decode_origin r; elapsed = fsub (sr_completion r) origin in
         rbind (float_of_int n) (\<lambda>x. rbind (float_of_int (max (sr_completion_tokens r) 1)) (\<lambda>y.
         rbind (fdiv (fmul elapsed x) y) (\<lambda>e.
         Inr (r\<lparr>sr_completion := fadd origin e\<rparr>, True)))))"

definition extrapolate_short_completions ::
  "short_row list \<Rightarrow> (string \<times> int) list \<Rightarrow> pyfloat \<Rightarrow> (short_row list \<times> string set) res" where
  "extrapolate_short_completions rows refs tol = rbind (rmap (extrapolate_row refs tol) rows) (\<lambda>xs.
     Inr (map fst xs, set (map (sr_request_id \<circ> fst) (filter snd xs))))"

section \<open>Counting what paid\<close>

fun bump :: "string \<Rightarrow> (string \<times> nat) list \<Rightarrow> (string \<times> nat) list" where
  "bump k [] = [(k, 1)]"
| "bump k ((k', n) # d) = (if k' = k then (k', n + 1) # d else (k', n) # bump k d)"

record prompt_summary =
  pm_total :: nat
  pm_scored :: int
  pm_zeroed :: nat
  pm_below_tolerance :: nat
  pm_by_reason :: "(string \<times> nat) list"

definition zero_reason :: "string option \<Rightarrow> jdict \<Rightarrow> json" where
  "zero_reason rule p = (let reason = jget p ''reason'' in
     case jget p ''candidate_failed'' of
       JBool b \<Rightarrow> if rule = Some WEIGHTED_RULE
         then (if b then py_or reason (JStr ''candidate completion failed'') else JNull) else reason
     | _ \<Rightarrow> reason)"

definition summarize_step ::
  "(json \<Rightarrow> string) \<Rightarrow> string option \<Rightarrow> json \<Rightarrow> nat \<times> (string \<times> nat) list \<Rightarrow> nat \<times> (string \<times> nat) list" where
  "summarize_step show rule p acc = (case p of
     JObj d \<Rightarrow> (fst acc + 1, if jtruthy (zero_reason rule d)
       then bump (py_str show (zero_reason rule d)) (snd acc) else snd acc)
   | _ \<Rightarrow> acc)"

definition summarize_prompt_scores :: "(json \<Rightarrow> string) \<Rightarrow> json list \<Rightarrow> string option \<Rightarrow> prompt_summary" where
  "summarize_prompt_scores show prompts rule = (let (total, by) = fold (summarize_step show rule) prompts (0, []);
     zeroed = sum_list (map snd by) in
     \<lparr>pm_total = total, pm_scored = int total - int zeroed, pm_zeroed = zeroed,
      pm_below_tolerance = (case map_of by REASON_BELOW_TOLERANCE of None \<Rightarrow> 0 | Some n \<Rightarrow> n),
      pm_by_reason = by\<rparr>)"

section \<open>Validation of a scoring rule\<close>

definition scoring_keys :: "string list" where
  "scoring_keys = [''name'', ''tier_weights'', ''failure_penalty'', ''baseline_drift_ceiling'', ''max_ttft_ratio'']"

definition weights_json :: "(string \<times> pyfloat) list \<Rightarrow> json" where
  "weights_json ws = JObj (map (\<lambda>(t, w). (t, JFloat w)) ws)"

definition validate_scoring_rule :: "json \<Rightarrow> jdict res" where
  "validate_scoring_rule v = (case v of
     JNull \<Rightarrow> Inr [(''name'', JStr ''median_e2e_speedup'')]
   | JObj rule \<Rightarrow> let name = name_field rule in
       rbind (rguard (name = ''median_e2e_speedup'' \<or> name = WEIGHTED_RULE)
         (ValueError ''scoring_rule.name must be one of'')) (\<lambda>_.
       rbind (failure_penalty rule) (\<lambda>pen.
       rbind (baseline_drift_ceiling rule (Fin 0)) (\<lambda>drift.
       if name = WEIGHTED_RULE then
         rbind (rguard (set (keys rule) \<subseteq> set scoring_keys) (ValueError ''unknown weighted scoring fields'')) (\<lambda>_.
         rbind (tier_weights rule) (\<lambda>ws.
         rbind (max_ttft_ratio rule) (\<lambda>ttft.
         Inr ([(''name'', JStr name), (''tier_weights'', weights_json ws), (''failure_penalty'', JFloat pen)] @
           (if has_key rule ''baseline_drift_ceiling'' then [(''baseline_drift_ceiling'', JFloat drift)] else []) @
           (case ttft of None \<Rightarrow> [] | Some r \<Rightarrow> [(''max_ttft_ratio'', JFloat r)])))))
       else Inr ((''name'', JStr name) # map (\<lambda>k. (k, jget rule k))
         (filter (\<lambda>k. k \<noteq> ''name'') (sort (keys rule)))))))
   | _ \<Rightarrow> Inl (ValueError ''scoring_rule must be an object''))"

section \<open>Signs in double arithmetic\<close>

lemma fmul_nonneg: "0 \<le> a \<Longrightarrow> 0 \<le> b \<Longrightarrow> fle (Fin 0) (fmul (Fin a) (Fin b))"
  using rnd_mono [of 0 "a * b"] by simp

lemma fsub_nonpos:
  assumes "\<not> flt (Fin 0) x" and "fle (Fin 0) p"
  shows "\<not> flt (Fin 0) (fsub x p)"
proof (cases "(x, p)" rule: prod.exhaust)
  case (Pair a b)
  show ?thesis
  proof (cases x)
    case (Fin q)
    show ?thesis
    proof (cases p)
      case (Fin r)
      have "fle (rnd (q - r)) (rnd 0)"
        using assms \<open>x = Fin q\<close> Fin by (intro rnd_mono) simp
      then show ?thesis using \<open>x = Fin q\<close> Fin by (simp add: fsub_def) (metis fle_flt_trans flt_irrefl)
    qed (use assms Fin in \<open>auto simp: fsub_def\<close>)
  qed (use assms in \<open>cases p; auto simp: fsub_def\<close>)+
qed

lemma finite_number:
  assumes "bad_number low v = Inr False" and "jfloat v = Inr x"
  obtains q y where "x = Fin q" "jnum v = Some y" "\<not> low y"
  using assms by (cases v) (auto simp: bad_number_def jisfinite_def rbind_eq_Inr isfinite_iff)

lemma failure_penalty_nonneg:
  assumes "failure_penalty rule = Inr c"
  obtains q where "c = Fin q" "0 \<le> q"
proof -
  obtain v where v: "bad_number (\<lambda>x. flt x (Fin 0)) v = Inr False" "jfloat v = Inr c"
    using assms unfolding failure_penalty_def Let_def
    by (auto simp: rbind_eq_Inr split: if_splits)
  obtain q y where q: "c = Fin q" "jnum v = Some y" "\<not> flt y (Fin 0)"
    using finite_number [OF v] by blast
  have "0 \<le> q"
  proof (cases v)
    case (JInt i)
    then have "rnd (of_int i) = Fin q" using v(2) q(1)
      by (auto simp: float_of_int_def to_finite_def split: pyfloat.splits)
    moreover have "fle (rnd 0) (rnd (of_int i))" using q JInt by (intro rnd_mono) auto
    ultimately show ?thesis by simp
  qed (use q v(2) in auto)
  with q that show thesis by blast
qed

lemma int_truediv_nonneg:
  assumes "int_truediv a b = Inr r" and "0 \<le> a" and "0 \<le> b"
  obtains q where "r = Fin q" "0 \<le> q"
proof -
  have "rnd (of_int a / of_int b) = r" "isfinite r"
    using assms by (auto simp: int_truediv_def to_finite_def isfinite_def split: if_splits pyfloat.splits)
  moreover have "fle (rnd 0) (rnd (of_int a / of_int b))" using assms(2,3) by (intro rnd_mono) simp
  ultimately show thesis using that by (auto simp: isfinite_iff)
qed

section \<open>What a weighted score is made of\<close>

lemma weightedE:
  assumes "weighted_tier_completion_speedup rule bl ca bts cts = Inr r"
  obtains ws coef b c ps seen det elig flds rate where
    "tier_weights rule = Inr ws" "failure_penalty rule = Inr coef"
    "bts = Some b" "cts = Some c" "bl \<noteq> []"
    "set (keys b) = set (keys ws)" "set (keys c) = set (keys ws)"
    "\<forall>t \<in> set (map snd bl). 1 \<le> completion_tokens t \<and> done_reason t"
    "rmap (weighted_prompt ca) bl = Inr ps"
    "rfold (tier_step b c) ws ([], []) = Inr (seen, det)"
    "set seen = set (keys bl)" "set (keys ca) \<subseteq> set seen"
    "ttft_cap rule bl ca (fsum_left (map (\<lambda>x. fmul (td_weight x) (td_speedup x)) det)) = Inr (elig, flds)"
    "int_truediv (count_failed ps) (int (length ps)) = Inr rate"
    "sc_score r = fsub elig (fmul coef rate)" "sc_prompts r = ps"
  using assms unfolding weighted_tier_completion_speedup_def rbind_eq_Inr Let_def
  by (elim exE conjE) (auto split: option.splits list.splits prod.splits if_splits simp: rbind_eq_Inr)

text \<open>
  C36. Trading first-token latency for throughput cannot win: a candidate whose median time to first
  token exceeds the campaign's cap relative to the baseline never gets a positive score.
\<close>

theorem ttft_cap_denies_credit:
  assumes "max_ttft_ratio rule = Inr (Some l)" and "ttft_ratio bl ca = Inr (Some x)" and "flt l x"
    and "weighted_tier_completion_speedup rule bl ca bts cts = Inr r"
  shows "\<not> flt (Fin 0) (sc_score r)"
  using assms(4)
proof (rule weightedE)
  fix ws coef b c ps seen det elig flds rate
  let ?raw = "fsum_left (map (\<lambda>x. fmul (td_weight x) (td_speedup x)) det)"
  assume pen: "failure_penalty rule = Inr coef"
    and cap: "ttft_cap rule bl ca ?raw = Inr (elig, flds)"
    and rate: "int_truediv (count_failed ps) (int (length ps)) = Inr rate"
    and score: "sc_score r = fsub elig (fmul coef rate)"
  have "elig = fmin2 ?raw (Fin 0)"
    using cap assms(1-3) by (auto simp: ttft_cap_def Let_def)
  then have "\<not> flt (Fin 0) elig" by (auto simp: fmin2_def)
  moreover have "fle (Fin 0) (fmul coef rate)"
    using failure_penalty_nonneg [OF pen] int_truediv_nonneg [OF rate]
    by (metis count_failed_def fmul_nonneg of_nat_0_le_iff)
  ultimately show ?thesis unfolding score by (rule fsub_nonpos)
qed

section \<open>Every eligible prompt counts\<close>

lemma prompt_speedup_missing:
  "prompt_speedup rid t None tol = Inr p \<Longrightarrow> ps_speedup p = Fin 0 \<and> ps_request_id p = rid"
  by (auto simp: prompt_speedup_def Let_def rbind_eq_Inr zero_prompt_def)

lemma timed_prompt_id: "timed_prompt rid k be ce v = Inr p \<Longrightarrow> ps_request_id p = rid"
  by (cases be; cases ce) (auto simp: timed_prompt_def zero_prompt_def rbind_eq_Inr split: if_splits)

lemma prompt_speedup_id: "prompt_speedup rid t c tol = Inr p \<Longrightarrow> ps_request_id p = rid"
  by (cases c) (auto simp: prompt_speedup_def Let_def rbind_eq_Inr zero_prompt_def dest: timed_prompt_id split: if_splits)

lemma weighted_prompt_ok:
  assumes "weighted_prompt ca (rid, t) = Inr p"
  shows "ps_request_id p = rid" and "map_of ca rid = None \<Longrightarrow> ps_failed p" and "ps_failed p \<Longrightarrow> ps_speedup p = Fin 0"
  using assms prompt_speedup_id
  by (auto simp: weighted_prompt_def Let_def rbind_eq_Inr split: option.splits)

lemma rmap_ids:
  assumes "rmap f xs = Inr ys" and "\<And>x y. x \<in> set xs \<Longrightarrow> f x = Inr y \<Longrightarrow> k y = h x"
  shows "map k ys = map h xs"
  using assms by (induction xs arbitrary: ys) (auto simp: rbind_eq_Inr)

lemma medianE:
  assumes "median_e2e_speedup rule bl ca = Inr r"
  obtains tol where "rmap (\<lambda>(rid, t). prompt_speedup rid t (map_of ca rid) tol) bl = Inr (sc_prompts r)"
  using assms unfolding median_e2e_speedup_def rbind_eq_Inr by (elim exE conjE) auto

text \<open>
  The baseline's prompts are the denominator under every rule: a score lists each of them once
  and in order, a prompt the candidate did not answer earns nothing, and under the weighted rule it
  counts as a failure.
\<close>

theorem missing_prompts_count:
  assumes "score_candidate rule bl ca bts cts = Inr r"
  shows "map ps_request_id (sc_prompts r) = keys bl \<and>
    (\<forall>p \<in> set (sc_prompts r). map_of ca (ps_request_id p) = None \<longrightarrow>
       ps_speedup p = Fin 0 \<and> (jget rule ''name'' = JStr WEIGHTED_RULE \<longrightarrow> ps_failed p))"
proof (cases "jget rule ''name'' = JStr ''median_e2e_speedup''")
  case True
  then have "median_e2e_speedup rule bl ca = Inr r" using assms by (simp add: score_candidate_def)
  then obtain tol where ps: "rmap (\<lambda>(rid, t). prompt_speedup rid t (map_of ca rid) tol) bl = Inr (sc_prompts r)"
    by (rule medianE)
  have "map ps_request_id (sc_prompts r) = map fst bl"
    using ps by (rule rmap_ids) (auto dest: prompt_speedup_id)
  moreover have "ps_speedup p = Fin 0" if "p \<in> set (sc_prompts r)" "map_of ca (ps_request_id p) = None" for p
    using rmap_set [OF ps that(1)] that(2) prompt_speedup_id prompt_speedup_missing
    by (fastforce split: prod.splits)
  ultimately show ?thesis using True by (simp add: keys_def WEIGHTED_RULE_def)
next
  case False
  then have w: "jget rule ''name'' = JStr WEIGHTED_RULE" "weighted_tier_completion_speedup rule bl ca bts cts = Inr r"
    using assms by (auto simp: score_candidate_def split: if_splits)
  from w(2) obtain ps where ps: "rmap (weighted_prompt ca) bl = Inr ps" "sc_prompts r = ps"
    by (rule weightedE) auto
  have "map ps_request_id ps = map fst bl"
    using ps(1) by (rule rmap_ids) (auto dest: weighted_prompt_ok(1))
  moreover have "ps_speedup p = Fin 0 \<and> ps_failed p" if p: "p \<in> set ps" "map_of ca (ps_request_id p) = None" for p
  proof -
    obtain rid t where "weighted_prompt ca (rid, t) = Inr p" using rmap_set [OF ps(1) p(1)] by auto
    from weighted_prompt_ok [OF this] p(2) show ?thesis by auto
  qed
  ultimately show ?thesis using ps(2) by (auto simp: keys_def)
qed

section \<open>The baseline against itself\<close>

lemma tolerance_range: "\<exists>q. DEFAULT_SPEED_TOLERANCE = Fin q \<and> 0 \<le> q \<and> q \<le> 1"
proof -
  have "DEFAULT_SPEED_TOLERANCE = Fin (rnd0 (9/10))"
    unfolding DEFAULT_SPEED_TOLERANCE_def by (rule rnd_small) simp
  moreover have "0 \<le> rnd0 (9/10 :: rat)" by (rule rnd0_nonneg) simp
  moreover have "rnd0 (9/10 :: rat) \<le> 1" using rnd0_mono [of "9/10" 1] by simp
  ultimately show ?thesis by blast
qed

lemma min_aligned_le:
  assumes "1 \<le> n" and "n < 2 ^ 53"
  obtains m where "min_aligned_tokens n DEFAULT_SPEED_TOLERANCE = Inr m" "m \<le> n"
proof (cases "n < 2")
  case False
  obtain q where q: "DEFAULT_SPEED_TOLERANCE = Fin q" "0 \<le> q" "q \<le> 1" using tolerance_range by blast
  have n: "rnd (of_int n) = Fin (of_int n)" using assms by (intro rnd_of_int) simp
  have le: "q * of_int n \<le> of_int n" using q assms(1) mult_right_mono [of q 1 "of_int n"] by simp
  have "\<bar>q * of_int n\<bar> \<le> 2 ^ 53"
  proof -
    have "\<bar>q * of_int n\<bar> = q * of_int n" using q(2) assms(1) by simp
    also have "\<dots> \<le> of_int n" by (rule le)
    also have "\<dots> \<le> of_int (2 ^ 53)" using assms(2) by (simp only: of_int_le_iff)
    finally show ?thesis by simp
  qed
  then have small: "\<bar>q * of_int n\<bar> \<le> 2 ^ 1023"
    by (rule order_trans) (rule power_increasing, simp_all)
  have "rnd0 (q * of_int n) \<le> rnd0 (of_int n)" by (rule rnd0_mono [OF le])
  also have "\<dots> = of_int n" using assms by (intro rnd0_of_small_int) simp
  finally have "\<lceil>rnd0 (q * of_int n)\<rceil> \<le> n" by (simp add: ceiling_le_iff)
  moreover have "min_aligned_tokens n DEFAULT_SPEED_TOLERANCE = Inr (max 2 \<lceil>rnd0 (q * of_int n)\<rceil>)"
    unfolding min_aligned_tokens_def float_of_int_def n q(1)
    using False rnd_small [OF small] by (simp add: to_finite_def fceil_def)
  ultimately show thesis using that False by fastforce
qed (use assms that in \<open>simp add: min_aligned_tokens_def\<close>)

lemma jdiv_self:
  assumes "bad_number (\<lambda>x. fle x (Fin 0)) v = Inr False"
  shows "jdiv v v = Inr (Fin 1)"
  using assms by (cases v)
    (auto simp: bad_number_def jisfinite_def rbind_eq_Inr isfinite_iff int_truediv_def to_finite_def)

lemma rany_False: "rany p xs = Inr False \<Longrightarrow> x \<in> set xs \<Longrightarrow> p x = Inr False"
  by (induction xs) (auto simp: rbind_eq_Inr split: if_splits)

lemma tier_weights_finite:
  assumes "tier_weights rule = Inr ws" and "(t, w) \<in> set ws"
  shows "isfinite w"
proof -
  obtain os where bad: "rany (bad_number (\<lambda>x. flt x (Fin 0))) (map snd os) = Inr False"
    and ws: "rmap (\<lambda>t. rbind (jfloat (jget os t)) (\<lambda>w. Inr (t, w))) (filter (\<lambda>t. has_key os t) ALL_TIERS) = Inr ws"
    using assms(1) unfolding tier_weights_def
    by (auto simp: rbind_eq_Inr split: json.splits if_splits)
  have key: "has_key os t" and w: "jfloat (jget os t) = Inr w"
    using rmap_set [OF ws assms(2)] by (auto simp: rbind_eq_Inr)
  obtain v where v: "map_of os t = Some v"
    using key by (cases "map_of os t") (auto simp: has_key_def map_of_eq_None_iff)
  then have "v \<in> set (map snd os)" by (auto dest!: map_of_SomeD intro: rev_image_eqI)
  then have "bad_number (\<lambda>x. flt x (Fin 0)) v = Inr False" using rany_False [OF bad] by blast
  with w v finite_number show ?thesis by (metis isfinite_iff jget_def option.simps(5))
qed

lemma tier_step_self:
  assumes "tier_step b b tw s = Inr s'" and "isfinite (snd tw)"
    and "\<forall>x \<in> set (snd s). fmul (td_weight x) (td_speedup x) = Fin 0"
  shows "\<forall>x \<in> set (snd s'). fmul (td_weight x) (td_speedup x) = Fin 0"
proof -
  obtain e where e: "map_of b (fst tw) = Some e"
    using assms(1) by (cases "map_of b (fst tw)") (auto simp: tier_step_def)
  have bad: "bad_number (\<lambda>x. fle x (Fin 0)) (te_completion e) = Inr False"
    using assms(1) e by (auto simp: tier_step_def Let_def rbind_eq_Inr split: if_splits)
  have "set (snd s') = insert \<lparr>td_tier = fst tw, td_weight = snd tw, td_baseline = te_completion e,
         td_candidate = te_completion e, td_speedup = Fin 0, td_scheduled = int (length (te_request_ids e)),
         td_extrapolated = te_extrapolated e\<rparr> (set (snd s))"
    using assms(1) e jdiv_self [OF bad] by (auto simp: tier_step_def Let_def rbind_eq_Inr fsub_def)
  with assms(2,3) show ?thesis by (auto simp: isfinite_iff)
qed

lemma fsum_left_zero: "\<forall>x \<in> set xs. x = Fin 0 \<Longrightarrow> fsum_left xs = Fin 0"
  unfolding fsum_left_def by (induction xs) auto

text \<open>
  The baseline cannot beat itself: scored against its own timings and tier times under the
  weighted rule, with any weights, penalty and cap, an engine has no failed request and the score
  is exactly zero, so it can never pass the crown threshold.
\<close>

theorem baseline_scores_zero:
  assumes "weighted_tier_completion_speedup rule bl bl (Some b) (Some b) = Inr r"
    and "distinct (keys bl)" and "\<forall>(rid, t) \<in> set bl. completion_tokens t < 2 ^ 53"
  shows "sc_score r = Fin 0 \<and> (\<forall>p \<in> set (sc_prompts r). \<not> ps_failed p)"
  using assms(1)
proof (rule weightedE)
  fix ws coef b' c' ps seen det elig flds rate
  assume ws: "tier_weights rule = Inr ws" and pen: "failure_penalty rule = Inr coef"
    and b': "Some b = Some b'" and c': "Some b = Some c'"
    and valid: "\<forall>t \<in> set (map snd bl). 1 \<le> completion_tokens t \<and> done_reason t"
    and ps: "rmap (weighted_prompt bl) bl = Inr ps"
    and det: "rfold (tier_step b' c') ws ([], []) = Inr (seen, det)"
    and cap: "ttft_cap rule bl bl (fsum_left (map (\<lambda>x. fmul (td_weight x) (td_speedup x)) det)) = Inr (elig, flds)"
    and rate: "int_truediv (count_failed ps) (int (length ps)) = Inr rate"
    and score: "sc_score r = fsub elig (fmul coef rate)" and prompts: "sc_prompts r = ps"
  have ok: "\<not> ps_failed p" if p: "p \<in> set ps" for p
  proof -
    obtain rid t where t: "(rid, t) \<in> set bl" "weighted_prompt bl (rid, t) = Inr p"
      using rmap_set [OF ps p] by auto
    have "map_of bl rid = Some t" using assms(2) t(1) by (simp add: keys_def)
    moreover have n: "1 \<le> completion_tokens t" "completion_tokens t < 2 ^ 53"
      using t(1) valid bspec [OF assms(3) t(1)] by auto
    obtain m where "min_aligned_tokens (completion_tokens t) DEFAULT_SPEED_TOLERANCE = Inr m"
        "m \<le> completion_tokens t"
      by (rule min_aligned_le [OF n])
    moreover have "done_reason t" using t(1) valid by auto
    ultimately show ?thesis using t(2) by (auto simp: weighted_prompt_def Let_def rbind_eq_Inr)
  qed
  have "\<forall>x \<in> set (snd (seen, det)). fmul (td_weight x) (td_speedup x) = Fin 0"
  proof (rule rfold_invariant [OF det, where P = "\<lambda>s. \<forall>x \<in> set (snd s). fmul (td_weight x) (td_speedup x) = Fin 0"])
    fix tw s s'
    assume tw: "tw \<in> set ws" and s: "\<forall>x \<in> set (snd s). fmul (td_weight x) (td_speedup x) = Fin 0"
      and step: "tier_step b' c' tw s = Inr s'"
    have "isfinite (snd tw)" using tier_weights_finite [OF ws, of "fst tw" "snd tw"] tw by simp
    with step s b' c' show "\<forall>x \<in> set (snd s'). fmul (td_weight x) (td_speedup x) = Fin 0"
      using tier_step_self by auto
  qed simp
  then have "fsum_left (map (\<lambda>x. fmul (td_weight x) (td_speedup x)) det) = Fin 0"
    by (intro fsum_left_zero) auto
  with cap have "elig = Fin 0"
    by (auto simp: ttft_cap_def Let_def rbind_eq_Inr fmin2_def split: option.splits if_splits)
  moreover have "count_failed ps = 0" using ok by (simp add: count_failed_def filter_empty_conv)
  with rate have "rate = Fin 0" by (auto simp: int_truediv_def to_finite_def split: if_splits)
  moreover obtain q where "coef = Fin q" using failure_penalty_nonneg [OF pen] by blast
  ultimately show ?thesis using ok prompts score by (simp add: fsub_def)
qed

section \<open>Counting and charging\<close>

lemma sum_bump: "sum_list (map snd (bump k d)) = Suc (sum_list (map snd d))"
  by (induction k d rule: bump.induct) auto

definition zeroed_prompt :: "string option \<Rightarrow> json \<Rightarrow> bool" where
  "zeroed_prompt rule p = (case p of JObj d \<Rightarrow> jtruthy (zero_reason rule d) | _ \<Rightarrow> False)"

definition is_object :: "json \<Rightarrow> bool" where
  "is_object p = (case p of JObj _ \<Rightarrow> True | _ \<Rightarrow> False)"

lemma summarize_fold:
  "fst (fold (summarize_step show rule) ps acc) = fst acc + length (filter is_object ps)"
  "sum_list (map snd (snd (fold (summarize_step show rule) ps acc))) =
     sum_list (map snd (snd acc)) + length (filter (zeroed_prompt rule) ps)"
  by (induction ps arbitrary: acc)
    (auto simp: summarize_step_def is_object_def zeroed_prompt_def sum_bump split: json.splits)

text \<open>
  The counts of a stored report add up: the total is the number of prompt objects, the zeroed
  ones are exactly those with a reason (under the weighted rule, those recorded as failed), and the
  rest are scored.
\<close>

theorem summary_adds_up:
  "pm_total (summarize_prompt_scores show ps rule) = length (filter is_object ps) \<and>
   pm_zeroed (summarize_prompt_scores show ps rule) = length (filter (zeroed_prompt rule) ps) \<and>
   pm_scored (summarize_prompt_scores show ps rule) =
     int (length (filter (\<lambda>p. is_object p \<and> \<not> zeroed_prompt rule p) ps))"
proof -
  have sub: "\<forall>p \<in> set ps. zeroed_prompt rule p \<longrightarrow> is_object p"
    by (auto simp: zeroed_prompt_def is_object_def split: json.splits)
  show ?thesis
    using summarize_fold [of "show" rule ps "(0, [])"] length_filter_diff [OF sub]
    by (simp add: summarize_prompt_scores_def Let_def case_prod_beta)
qed

lemma extrapolate_row_cases:
  assumes "extrapolate_row refs tol r = Inr (r', b)"
  shows "sr_request_id r' = sr_request_id r" and "\<not> b \<Longrightarrow> r' = r"
    and "b \<longleftrightarrow> (\<exists>n. is_short refs tol r = Inr (Some n))"
  using assms by (auto simp: extrapolate_row_def Let_def rbind_eq_Inr split: option.splits)

text \<open>
  Only short completions are charged: extrapolation keeps the rows and their order, leaves every
  row at or above the tolerance, every failed row and every row without a reference as measured,
  and reports exactly the others as scaled.
\<close>

theorem only_short_completions_charged:
  assumes "extrapolate_short_completions rows refs tol = Inr (rows', scaled)"
  shows "map sr_request_id rows' = map sr_request_id rows \<and>
    (\<forall>i < length rows. is_short refs tol (rows ! i) = Inr None \<longrightarrow> rows' ! i = rows ! i) \<and>
    scaled = sr_request_id ` {r \<in> set rows. \<exists>n. is_short refs tol r = Inr (Some n)}"
proof -
  obtain xs where xs: "rmap (extrapolate_row refs tol) rows = Inr xs" "rows' = map fst xs"
      "scaled = set (map (sr_request_id \<circ> fst) (filter snd xs))"
    using assms by (auto simp: extrapolate_short_completions_def rbind_eq_Inr)
  have nth: "extrapolate_row refs tol (rows ! i) = Inr (fst (xs ! i), snd (xs ! i))" if "i < length rows" for i
    using rmap_nth [OF xs(1) that] by simp
  have len: "length xs = length rows" by (rule rmap_length [OF xs(1)])
  have ids: "map (sr_request_id \<circ> fst) xs = map sr_request_id rows"
    using xs(1) by (rule rmap_ids) (auto dest: extrapolate_row_cases(1))
  have keep: "rows' ! i = rows ! i" if i: "i < length rows" "is_short refs tol (rows ! i) = Inr None" for i
    using extrapolate_row_cases(2,3) [OF nth [OF i(1)]] i len by (auto simp: xs(2))
  have "scaled = sr_request_id ` {r \<in> set rows. \<exists>n. is_short refs tol r = Inr (Some n)}" (is "_ = ?S")
  proof (rule set_eqI)
    fix k
    have "k \<in> scaled \<longleftrightarrow> (\<exists>i < length rows. snd (xs ! i) \<and> k = sr_request_id (fst (xs ! i)))"
      unfolding xs(3) using len by (auto simp: in_set_conv_nth)
    also have "\<dots> \<longleftrightarrow> (\<exists>i < length rows. (\<exists>n. is_short refs tol (rows ! i) = Inr (Some n)) \<and> k = sr_request_id (rows ! i))"
      using extrapolate_row_cases(1,3) [OF nth] by metis
    also have "\<dots> \<longleftrightarrow> k \<in> ?S" by (force simp: in_set_conv_nth)
    finally show "k \<in> scaled \<longleftrightarrow> k \<in> ?S" .
  qed
  with ids keep show ?thesis by (simp add: xs(2) comp_def)
qed

definition ex_short :: short_row where
  "ex_short = \<lparr>sr_request_id = ''a'', sr_completion_tokens = 1, sr_error = False, sr_group_start = Fin 0,
     sr_admission = None, sr_dispatch = None, sr_ttft = None, sr_completion = Fin 1\<rparr>"

section \<open>Witnesses\<close>

definition ex_timing :: prompt_timing where
  "ex_timing = \<lparr>ttft_s = Fin 1, itl_s = [], completion_tokens = 1, finish_reason = Some ''stop''\<rparr>"

definition ex_slow :: prompt_timing where
  "ex_slow = ex_timing\<lparr>ttft_s := Fin 4\<rparr>"

definition ex_tiers :: "int \<Rightarrow> tiers" where
  "ex_tiers n = [(''2k'', \<lparr>te_request_ids = [''a''], te_completion = JInt n, te_extrapolated = []\<rparr>)]"

definition ex_scoring_rule :: jdict where
  "ex_scoring_rule = [(''name'', JStr WEIGHTED_RULE), (''tier_weights'', JObj [(''2k'', JInt 1)]),
     (''max_ttft_ratio'', JInt 2)]"

lemma ex_rule_parts:
  "tier_weights ex_scoring_rule = Inr [(''2k'', Fin 1)]"
  "failure_penalty ex_scoring_rule = Inr (Fin 0)"
  "max_ttft_ratio ex_scoring_rule = Inr (Some (Fin 2))"
proof -
  have t: "filter (\<lambda>t. has_key [(''2k'', JInt 1)] t) ALL_TIERS = [''2k'']"
    by (simp add: ALL_TIERS_def TIERS_def has_key_def)
  have "rnd 2 = Fin 2" by (simp add: rnd_numeral)
  with t show "tier_weights ex_scoring_rule = Inr [(''2k'', Fin 1)]"
    by (simp add: tier_weights_def ex_scoring_rule_def keys_def bad_number_def jisfinite_def float_of_int_def
        to_finite_def isfinite_def jsum_def isclose_abs_def feq_def jget_def ALL_TIERS_def TIERS_def)
  have "fle (Fin 2) float_max"
    using power_increasing [of 1 971 "2 :: rat"] by (simp add: float_max_def)
  then show "max_ttft_ratio ex_scoring_rule = Inr (Some (Fin 2))"
    using \<open>rnd 2 = Fin 2\<close>
    by (simp add: max_ttft_ratio_def ex_scoring_rule_def float_of_int_def to_finite_def)
  show "failure_penalty ex_scoring_rule = Inr (Fin 0)"
    by (simp add: failure_penalty_def ex_scoring_rule_def bad_number_def jisfinite_def float_of_int_def
        to_finite_def isfinite_def)
qed

lemma ex_min_aligned: "min_aligned_tokens 1 DEFAULT_SPEED_TOLERANCE = Inr 1"
  by (simp add: min_aligned_tokens_def)

lemma ex_numbers: "rnd 4 = Fin 4" "rnd 2 = Fin 2" "rnd (1/2) = Fin (1/2)"
  using rnd_dyadic [of 1 1] by (simp_all add: rnd_numeral)

lemma ex_tier_step:
  "tier_step (ex_tiers 4) (ex_tiers 4) (''2k'', Fin 1) ([], []) = Inr ([''a''], [\<lparr>td_tier = ''2k'',
     td_weight = Fin 1, td_baseline = JInt 4, td_candidate = JInt 4, td_speedup = Fin 0, td_scheduled = 1,
     td_extrapolated = []\<rparr>])"
  "tier_step (ex_tiers 4) (ex_tiers 2) (''2k'', Fin 1) ([], []) = Inr ([''a''], [\<lparr>td_tier = ''2k'',
     td_weight = Fin 1, td_baseline = JInt 4, td_candidate = JInt 2, td_speedup = Fin (1/2), td_scheduled = 1,
     td_extrapolated = []\<rparr>])"
  using ex_numbers
  by (simp_all add: tier_step_def ex_tiers_def bad_number_def jisfinite_def float_of_int_def to_finite_def
      isfinite_def int_truediv_def fsub_def)

lemma ex_prompt:
  "weighted_prompt [(''a'', ex_timing)] (''a'', ex_timing) = Inr \<lparr>ps_request_id = ''a'', ps_speedup = Fin 0,
     ps_aligned_tokens = 1, ps_baseline_e2e = Some (Fin 1), ps_candidate_e2e = Some (Fin 1), ps_reason = None,
     ps_failed = False\<rparr>"
  "weighted_prompt [(''a'', ex_slow)] (''a'', ex_timing) = Inr \<lparr>ps_request_id = ''a'', ps_speedup = Fin (- 3),
     ps_aligned_tokens = 1, ps_baseline_e2e = Some (Fin 1), ps_candidate_e2e = Some (Fin 4), ps_reason = None,
     ps_failed = False\<rparr>"
  using ex_numbers rnd_of_int [of "- 3"]
  by (simp_all add: weighted_prompt_def prompt_speedup_def timed_prompt_def aligned_e2e_s_def ex_timing_def ex_slow_def
      ex_min_aligned done_reason_def isfinite_def fsum_def fvals_def to_finite_def fsub_def)

lemma ex_ttft_ratio:
  "ttft_ratio [(''a'', ex_timing)] [(''a'', ex_timing)] = Inr (Some (Fin 1))"
  "ttft_ratio [(''a'', ex_timing)] [(''a'', ex_slow)] = Inr (Some (Fin 4))"
  using ex_numbers
  by (simp_all add: ttft_ratio_def median_ttft_def keys_def ex_timing_def ex_slow_def fmedian_def fsorted_def
      sort_by_def isfinite_def map_filter_simps)

lemma ex_scored:
  "\<exists>r. weighted_tier_completion_speedup ex_scoring_rule [(''a'', ex_timing)] [(''a'', ex_timing)]
      (Some (ex_tiers 4)) (Some (ex_tiers 4)) = Inr r"
  "\<exists>r. weighted_tier_completion_speedup ex_scoring_rule [(''a'', ex_timing)] [(''a'', ex_slow)]
      (Some (ex_tiers 4)) (Some (ex_tiers 2)) = Inr r"
proof -
  have v: "1 \<le> completion_tokens ex_timing" "done_reason ex_timing"
    by (simp_all add: ex_timing_def done_reason_def)
  show "\<exists>r. weighted_tier_completion_speedup ex_scoring_rule [(''a'', ex_timing)] [(''a'', ex_timing)]
      (Some (ex_tiers 4)) (Some (ex_tiers 4)) = Inr r"
    "\<exists>r. weighted_tier_completion_speedup ex_scoring_rule [(''a'', ex_timing)] [(''a'', ex_slow)]
      (Some (ex_tiers 4)) (Some (ex_tiers 2)) = Inr r"
    using v unfolding weighted_tier_completion_speedup_def ex_rule_parts
    by (simp_all add: ex_prompt ex_tier_step [unfolded ex_tiers_def] ex_tiers_def keys_def ttft_cap_def
        ex_rule_parts ex_ttft_ratio Let_def count_failed_def int_truediv_def to_finite_def)
qed

theorem baseline_scores_zero_witness:
  "\<exists>r. weighted_tier_completion_speedup ex_scoring_rule [(''a'', ex_timing)] [(''a'', ex_timing)]
      (Some (ex_tiers 4)) (Some (ex_tiers 4)) = Inr r \<and> sc_score r = Fin 0"
proof -
  obtain r where r: "weighted_tier_completion_speedup ex_scoring_rule [(''a'', ex_timing)] [(''a'', ex_timing)]
      (Some (ex_tiers 4)) (Some (ex_tiers 4)) = Inr r" using ex_scored(1) by blast
  have "sc_score r = Fin 0"
    by (rule baseline_scores_zero [OF r, THEN conjunct1]) (simp_all add: keys_def ex_timing_def)
  with r show ?thesis by blast
qed

theorem ttft_cap_denies_credit_witness:
  "\<exists>r. weighted_tier_completion_speedup ex_scoring_rule [(''a'', ex_timing)] [(''a'', ex_slow)]
      (Some (ex_tiers 4)) (Some (ex_tiers 2)) = Inr r \<and> \<not> flt (Fin 0) (sc_score r)"
proof -
  obtain r where r: "weighted_tier_completion_speedup ex_scoring_rule [(''a'', ex_timing)] [(''a'', ex_slow)]
      (Some (ex_tiers 4)) (Some (ex_tiers 2)) = Inr r" using ex_scored(2) by blast
  have "\<not> flt (Fin 0) (sc_score r)"
    by (rule ttft_cap_denies_credit [OF ex_rule_parts(3) ex_ttft_ratio(2) _ r]) simp
  with r show ?thesis by blast
qed

theorem missing_prompts_count_witness:
  "\<exists>r. score_candidate ex_scoring_rule [(''a'', ex_timing)] [(''a'', ex_timing)]
      (Some (ex_tiers 4)) (Some (ex_tiers 4)) = Inr r \<and> map ps_request_id (sc_prompts r) = [''a'']"
proof -
  obtain r where "weighted_tier_completion_speedup ex_scoring_rule [(''a'', ex_timing)] [(''a'', ex_timing)]
      (Some (ex_tiers 4)) (Some (ex_tiers 4)) = Inr r" using ex_scored(1) by blast
  then have r: "score_candidate ex_scoring_rule [(''a'', ex_timing)] [(''a'', ex_timing)]
      (Some (ex_tiers 4)) (Some (ex_tiers 4)) = Inr r"
    by (simp add: score_candidate_def ex_scoring_rule_def jget_def WEIGHTED_RULE_def)
  show ?thesis using r missing_prompts_count [OF r, THEN conjunct1] by (auto simp: keys_def)
qed

theorem only_short_completions_charged_witness:
  "\<exists>rows' scaled. extrapolate_short_completions [ex_short] [(''a'', 2)] (Fin 1) = Inr (rows', scaled) \<and>
     scaled = sr_request_id ` {r \<in> set [ex_short]. \<exists>n. is_short [(''a'', 2)] (Fin 1) r = Inr (Some n)}"
proof -
  have "extrapolate_short_completions [ex_short] [(''a'', 2)] (Fin 1) =
      Inr ([ex_short\<lparr>sr_completion := Fin 2\<rparr>], {''a''})"
    using ex_numbers
    by (simp add: extrapolate_short_completions_def extrapolate_row_def is_short_def ex_short_def
        min_aligned_tokens_def float_of_int_def to_finite_def fceil_def decode_origin_def fsub_def
        del: set_filter filter_set)
  from only_short_completions_charged [OF this, THEN conjunct2, THEN conjunct2] this show ?thesis by blast
qed

end
