(* ===== verification/RoundJob.thy ===== *)
theory RoundJob
  imports Exclusion Registry Score
begin

text \<open>
  \<open>worker/round_job.py\<close> from the moment the harness ran: binding the pod's report to the request,
  mapping its entries to the round's rows, the crown decision, and the settlement or the void that
  follows, with the digest parsing and the report check of \<open>bench/validate.py\<close>. A report is the JSON
  value read from the pod. \<open>show\<close> is Python's \<open>str\<close> of a float or a container, \<open>sha256\<close> the hash of
  a byte string in hexadecimal. The reason of a report entry is text or null.
\<close>

section \<open>Digest-pinned images\<close>

definition digest_tail :: "string \<Rightarrow> bool" where
  "digest_tail r = (length (take 64 r) = 64 \<and> list_all is_hex_lower (take 64 r) \<and>
     (case drop 64 r of [] \<Rightarrow> True | c # cs \<Rightarrow> c = CHR ''#'' \<and> CHR 0x0A \<notin> set cs))"

text \<open>
  \<open>^(?:sha256:[0-9a-f]{64}|.+@sha256:[0-9a-f]{64})(?:#.*)?$\<close> ignoring case, on stripped text in lower
  case: a dot is any character but a newline.
\<close>

definition image_digest_re :: "string \<Rightarrow> bool" where
  "image_digest_re l = ((startswith l sha_prefix \<and> digest_tail (drop 7 l)) \<or>
     list_ex (\<lambda>i. CHR 0x0A \<notin> set (take i l) \<and> startswith (drop i l) at_sha \<and> digest_tail (drop (i + 8) l))
       [1..<length l])"

definition extract_image_digest :: "string \<Rightarrow> string res" where
  "extract_image_digest ref = (let s0 = strip ref in
     if \<not> image_digest_re (lower s0) then Inl (RequestValidationError ''engine image must be digest-referenced'')
     else let s = before_first (CHR ''#'') s0;
       hex_part = (if startswith (lower s) sha_prefix then drop 7 (lower s)
         else (case after_last at_sha (lower s) of Some h \<Rightarrow> h | None \<Rightarrow> drop 7 (lower s)));
       digest = sha_prefix @ hex_part in
     if sha256_re digest then Inr digest
     else Inl (RequestValidationError ''engine image digest malformed after parse''))"

definition is_digest_pinned_image :: "string \<Rightarrow> bool" where
  "is_digest_pinned_image ref = (case extract_image_digest ref of Inr _ \<Rightarrow> True | Inl _ \<Rightarrow> False)"

section \<open>The report's skeleton\<close>

text \<open>\<open>k in v\<close>, and \<open>v[k]\<close>, for a text key: strings and lists test for membership too.\<close>

fun occurs_in :: "string \<Rightarrow> string \<Rightarrow> bool" where
  "occurs_in p [] = (p = [])"
| "occurs_in p (c # cs) = (startswith (c # cs) p \<or> occurs_in p cs)"

definition jcontains :: "json \<Rightarrow> string \<Rightarrow> bool res" where
  "jcontains v k = (case v of JObj d \<Rightarrow> Inr (has_key d k) | JArr xs \<Rightarrow> Inr (JStr k \<in> set xs)
     | JStr s \<Rightarrow> Inr (occurs_in k s) | _ \<Rightarrow> Inl (PyTypeError ''argument is not iterable''))"

definition jindex :: "json \<Rightarrow> string \<Rightarrow> json res" where
  "jindex v k = (case v of JObj d \<Rightarrow> (if has_key d k then Inr (jget d k) else Inl (KeyError k))
     | _ \<Rightarrow> Inl (PyTypeError ''indices must be integers''))"

definition require_keys :: "json \<Rightarrow> string list \<Rightarrow> string \<Rightarrow> unit res" where
  "require_keys v ks ctx = rbind (rmap (\<lambda>k. jcontains v k) ks) (\<lambda>bs.
     rguard (list_all (\<lambda>b. b) bs) (RequestValidationError (ctx @ '': missing required fields'')))"

definition report_keys :: "string list" where
  "report_keys = [''schema_version'', ''task_id'', ''verdict'', ''started_at'', ''finished_at'',
     ''environment'', ''inputs_fingerprint'']"

definition environment_keys :: "string list" where
  "environment_keys = [''gpu'', ''driver_version'', ''cuda_version'', ''docker_version'', ''harness_version'',
     ''hostname_hash'']"

definition fingerprint_keys :: "string list" where
  "fingerprint_keys = [''baseline_image_digest'', ''candidate_image_digest'', ''model_repo'', ''model_revision'',
     ''model_weights_sha256'', ''trace_sha256'', ''request_sha256'']"

definition validate_report_dict :: "json \<Rightarrow> unit res" where
  "validate_report_dict r =
     rbind (require_keys r report_keys ''bench_report'') (\<lambda>_.
     rbind (jindex r ''verdict'') (\<lambda>v.
     rbind (rguard (v = JStr ''pass'' \<or> v = JStr ''error'') (RequestValidationError ''invalid verdict'')) (\<lambda>_.
     rbind (jindex r ''environment'') (\<lambda>env.
     rbind (require_keys env environment_keys ''environment'') (\<lambda>_.
     rbind (jindex r ''inputs_fingerprint'') (\<lambda>fp.
     rbind (require_keys fp fingerprint_keys ''inputs_fingerprint'') (\<lambda>_.
     rbind (jindex fp ''candidate_image_digest'') (\<lambda>c.
     rguard (case c of JArr _ \<Rightarrow> True | _ \<Rightarrow> False)
       (RequestValidationError ''candidate_image_digest must be a list'')))))))))"

section \<open>Void reasons\<close>

definition void_pod_provision_failed :: string where
  "void_pod_provision_failed = ''pod_provision_failed''"

definition void_pod_failed :: string where
  "void_pod_failed = ''pod_failed''"

definition void_round_timeout :: string where
  "void_round_timeout = ''round_timeout''"

definition reason_text :: "void_reason \<Rightarrow> string" where
  "reason_text r = (case r of VoidBaselineFailed \<Rightarrow> ''baseline_failed''
     | VoidLeaderInfraFailed \<Rightarrow> ''leader_infra_failed''
     | VoidNoSurvivingChallenger \<Rightarrow> ''no_surviving_challenger'' | VoidBaselineDrift \<Rightarrow> ''baseline_drift'')"

definition EXIT_DESTROY_FAILED :: int where
  "EXIT_DESTROY_FAILED = 75"

definition classify_round_failure :: "bool \<Rightarrow> bool \<Rightarrow> int option \<Rightarrow> bool \<Rightarrow> bool \<Rightarrow> string option" where
  "classify_round_failure provision_error timed_out exit_code has_report bound =
     (if provision_error then Some void_pod_provision_failed
      else if timed_out then Some void_round_timeout
      else if has_report \<and> bound \<and> exit_code = Some EXIT_DESTROY_FAILED then None
      else if \<not> has_report \<or> \<not> bound then Some void_pod_failed
      else if exit_code = Some 1 \<or> exit_code = Some 2 \<or> exit_code = Some 3 then Some void_pod_failed
      else if exit_code \<noteq> Some 0 \<and> exit_code \<noteq> Some EXIT_DESTROY_FAILED then Some void_pod_failed
      else None)"

text \<open>Seconds left on the round's clock; \<open>total_seconds\<close> divides microseconds, \<open>:.0f\<close> rounds to even.\<close>

definition elapsed_detail :: "pyfloat \<Rightarrow> string" where
  "elapsed_detail x = ''elapsed '' @ (case x of Fin q \<Rightarrow> str_of_int (rne q) | _ \<Rightarrow> ''inf'') @ ''s''"

definition remaining_round_budget_s :: "ts \<Rightarrow> ts \<Rightarrow> int \<Rightarrow> pyfloat res" where
  "remaining_round_budget_s started now max_duration =
     rbind (int_truediv (now - started) 1000000) (\<lambda>elapsed.
     rbind (float_of_int max_duration) (\<lambda>budget.
     let leftover = fsub budget elapsed in
     if fle leftover (Fin 0) then Inl (RoundInfraError void_round_timeout (elapsed_detail elapsed))
     else Inr leftover))"

section \<open>Binding the report to the request\<close>

definition infra :: "string \<Rightarrow> pyerr" where
  "infra detail = RoundInfraError void_pod_failed detail"

text \<open>\<open>except RequestValidationError as exc: raise RoundInfraError(VOID_POD_FAILED, \<dots>)\<close>.\<close>

definition as_infra :: "'a res \<Rightarrow> 'a res" where
  "as_infra r = (case r of Inl (RequestValidationError m) \<Rightarrow> Inl (infra m) | _ \<Rightarrow> r)"

definition jdict_of :: "json \<Rightarrow> jdict" where
  "jdict_of v = (case v of JObj d \<Rightarrow> d | _ \<Rightarrow> [])"

text \<open>\<open>str(fp.get(key, ""))\<close> in lower case.\<close>

definition fp_text :: "(json \<Rightarrow> string) \<Rightarrow> jdict \<Rightarrow> string \<Rightarrow> string" where
  "fp_text show fp k = lower (if has_key fp k then py_str show (jget fp k) else [])"

definition bind_report_to_round ::
  "(json \<Rightarrow> string) \<Rightarrow> (string \<Rightarrow> string) \<Rightarrow> json \<Rightarrow> string \<Rightarrow> string \<Rightarrow> string \<Rightarrow> string list \<Rightarrow> string \<Rightarrow> unit res" where
  "bind_report_to_round show sha256 report task_id request_bytes baseline_digest candidate_digests trace_sha =
     rbind (as_infra (validate_report_dict report)) (\<lambda>_.
     rbind (rguard (py_str show (jget (jdict_of report) ''task_id'') = task_id)
       (infra ''bench_report_task_id_mismatch'')) (\<lambda>_.
     let fp = jdict_of (jget (jdict_of report) ''inputs_fingerprint'') in
     rbind (rguard (fp_text show fp ''request_sha256'' = lower (''sha256:'' @ sha256 request_bytes))
       (infra ''bench_report_request_sha256_mismatch'')) (\<lambda>_.
     rbind (as_infra (extract_image_digest baseline_digest)) (\<lambda>base.
     rbind (as_infra (rmap extract_image_digest candidate_digests)) (\<lambda>cands.
     rbind (rguard (fp_text show fp ''baseline_image_digest'' = lower base)
       (infra ''bench_report_baseline_digest_mismatch'')) (\<lambda>_.
     rbind (rguard (case jget fp ''candidate_image_digest'' of
           JArr got \<Rightarrow> map (\<lambda>g. lower (py_str show g)) got = map lower cands | _ \<Rightarrow> False)
       (infra ''bench_report_candidate_digest_mismatch'')) (\<lambda>_.
     rguard (fp_text show fp ''trace_sha256'' = lower trace_sha)
       (infra ''bench_report_trace_sha256_mismatch''))))))))"

section \<open>From report entries to rows\<close>

text \<open>A result before its status is checked, which \<open>Entry\<close> does.\<close>

record raw_result =
  q_id :: int
  q_submission_id :: "uuid option"
  q_role :: entry_role
  q_status :: string
  q_score :: "pyfloat option"
  q_reason :: "string option"
  q_report :: jdict
  q_image_ref :: "string option"
  q_hotkey :: "string option"

type_synonym entry_view = "round_entry_row \<times> submission_row option"

definition view_hotkey :: "entry_view \<Rightarrow> string option" where
  "view_hotkey v = map_option s_hotkey (snd v)"

text \<open>Iteration over a JSON value: a string gives its characters, an object its keys.\<close>

definition jiter :: "json \<Rightarrow> json list res" where
  "jiter v = (case v of JArr xs \<Rightarrow> Inr xs | JStr s \<Rightarrow> Inr (map (\<lambda>c. JStr [c]) s)
     | JObj d \<Rightarrow> Inr (map (JStr \<circ> fst) d) | _ \<Rightarrow> Inl (PyTypeError ''object has no len()''))"

definition text_or_null :: "json \<Rightarrow> string option res" where
  "text_or_null v = (case v of JNull \<Rightarrow> Inr None | JStr s \<Rightarrow> Inr (Some s)
     | _ \<Rightarrow> Inl (PyTypeError ''reason is not text''))"

definition baseline_result :: "entry_view \<Rightarrow> json \<Rightarrow> raw_result" where
  "baseline_result v base = (let n = fst v; ok = jtruthy base in
     \<lparr>q_id = n_id n, q_submission_id = n_submission_id n, q_role = Baseline,
      q_status = (if ok then ''scored'' else ''infra_failed''),
      q_score = (if ok then Some (Fin 0) else None),
      q_reason = (if ok then None else Some ''baseline_missing_from_report''),
      q_report = jdict_of base, q_image_ref = Some (n_image_ref n), q_hotkey = view_hotkey v\<rparr>)"

definition candidate_result :: "(json \<Rightarrow> string) \<Rightarrow> entry_view \<times> json \<Rightarrow> raw_result res" where
  "candidate_result show p = (let n = fst (fst p) in case snd p of
     JObj payload \<Rightarrow> (let
         st0 = py_str show (py_or (jget payload ''status'') (JStr ''infra_failed''));
         st = (if n_role n = Leader \<and> st0 = ''disqualified'' \<and> jget payload ''engine_crashed'' = JBool True
               then ''infra_failed'' else st0) in
       rbind (case jget payload ''score'' of JNull \<Rightarrow> Inr None | v \<Rightarrow> rbind (py_float v) (\<lambda>x. Inr (Some x))) (\<lambda>sc.
       rbind (text_or_null (jget payload ''reason'')) (\<lambda>reason.
       Inr \<lparr>q_id = n_id n, q_submission_id = n_submission_id n, q_role = n_role n, q_status = st,
         q_score = sc, q_reason = reason, q_report = payload, q_image_ref = Some (n_image_ref n),
         q_hotkey = view_hotkey (fst p)\<rparr>)))
   | _ \<Rightarrow> Inl (infra ''bench_report_entry_not_object''))"

definition is_candidate :: "entry_view \<Rightarrow> bool" where
  "is_candidate v = (n_role (fst v) \<noteq> Baseline)"

definition entry_results_from_report ::
  "(json \<Rightarrow> string) \<Rightarrow> entry_view list \<Rightarrow> jdict \<Rightarrow> raw_result list res" where
  "entry_results_from_report show entries report = (let
     baseline = find (\<lambda>v. \<not> is_candidate v) entries;
     candidates = filter is_candidate entries in
     rbind (jiter (py_or (jget report ''entries'') (JArr []))) (\<lambda>payloads.
     case baseline of None \<Rightarrow> Inl (infra ''bench_report_entry_count_mismatch'')
     | Some b \<Rightarrow> if length payloads \<noteq> length candidates then Inl (infra ''bench_report_entry_count_mismatch'')
       else rbind (rmap (candidate_result show) (zip candidates payloads)) (\<lambda>rs.
         Inr (baseline_result b (py_or (jget report ''baseline'') (JObj [])) # rs))))"

section \<open>The decision\<close>

definition role_text :: "entry_role \<Rightarrow> string" where
  "role_text r = (case r of Baseline \<Rightarrow> ''baseline'' | Leader \<Rightarrow> ''leader'' | Challenger \<Rightarrow> ''challenger'')"

definition rank_entry :: "raw_result \<Rightarrow> entry res" where
  "rank_entry q = mk_entry (role_text (q_role q)) (q_submission_id q) (q_score q) (q_status q)"

text \<open>The results as \<open>complete_round\<close> writes them, each with the status its rank entry has.\<close>

definition typed_result :: "raw_result \<times> entry \<Rightarrow> entry_result" where
  "typed_result p = (case p of (q, e) \<Rightarrow> \<lparr>x_id = q_id q, x_submission_id = q_submission_id q, x_role = q_role q,
     x_status = status e, x_score = q_score q, x_disqualify_reason = q_reason q,
     x_report = Some (q_report q), x_hotkey = q_hotkey q, x_image_ref = q_image_ref q\<rparr>)"

definition incumbent_score :: "db \<Rightarrow> round_row \<Rightarrow> pyfloat option" where
  "incumbent_score d r = (if r_incumbent r = None then None
     else map_option (\<lambda>(l, _). l_last_score l) (get_leader d (r_campaign_id r)))"

definition opt_conv :: "json \<Rightarrow> pyfloat option res" where
  "opt_conv v = (case v of JNull \<Rightarrow> Inr None | _ \<Rightarrow> rbind (py_float v) (\<lambda>x. Inr (Some x)))"

definition void_detail_of :: "void_reason \<Rightarrow> raw_result list \<Rightarrow> string" where
  "void_detail_of reason rs = (if reason = VoidLeaderInfraFailed
     then (case find (\<lambda>q. q_role q = Leader) rs of None \<Rightarrow> [] | Some q \<Rightarrow>
       (case q_reason q of None \<Rightarrow> [] | Some t \<Rightarrow> t)) else [])"

text \<open>
  What the job decides from a bound report: the decision, the results and the drift, or the
  failure that voids the round.
\<close>

definition decide_round ::
  "(json \<Rightarrow> string) \<Rightarrow> pyfloat \<Rightarrow> pyfloat \<Rightarrow> round_row \<Rightarrow> entry_view list \<Rightarrow> pyfloat option \<Rightarrow> jdict \<Rightarrow>
   (rank_decision \<times> entry_result list \<times> pyfloat option) res" where
  "decide_round show eps dflt r entries stored report =
     rbind (entry_results_from_report show entries report) (\<lambda>rs.
     rbind (opt_conv (jget report ''baseline_drift'')) (\<lambda>drift.
     rbind (rmap rank_entry rs) (\<lambda>es.
     rbind (baseline_drift_ceiling (r_scoring_rule r) dflt) (\<lambda>c.
     rbind (rank_round es eps drift c stored) (\<lambda>dec.
     case rd_void_reason dec of
       Some reason \<Rightarrow> Inl (RoundInfraError (reason_text reason) (void_detail_of reason rs))
     | None \<Rightarrow> Inr (dec, map typed_result (zip rs es), drift))))))"

section \<open>The job\<close>

text \<open>
  How the run of the harness ended: a check before the run raised \<open>RoundInfraError\<close> (no trace, no
  budget left, the leader's image is gone, the request is invalid), the market was empty, provisioning failed, the pod runner
  failed, or the harness exited with a code and perhaps left a report and the request it executed.
\<close>

datatype bench_run =
    NotRun string string
  | NoCapacity string
  | ProvisionFailed string
  | GpuFailed string
  | Exited int "json option" "string option"

record job_env =
  je_show :: "json \<Rightarrow> string"
  je_sha256 :: "string \<Rightarrow> string"
  je_epsilon :: pyfloat
  je_drift_ceiling :: pyfloat
  je_retry_us :: int
  je_task_id :: string
  je_baseline_image :: string
  je_candidate_images :: "string list"
  je_evidence :: "string option"

definition bound_report :: "job_env \<Rightarrow> round_row \<Rightarrow> int \<Rightarrow> json option \<Rightarrow> string option \<Rightarrow> jdict res" where
  "bound_report env r code report remote_request = (case report of
     None \<Rightarrow> Inl (RoundInfraError (case classify_round_failure False False (Some code) False False of
         Some v \<Rightarrow> v | None \<Rightarrow> []) (''exit_code='' @ str_of_int code))
   | Some rep \<Rightarrow> (case remote_request of None \<Rightarrow> Inl (infra ''bench_remote_request_missing'')
     | Some bytes \<Rightarrow> rbind (bind_report_to_round (je_show env) (je_sha256 env) rep (je_task_id env) bytes
           (je_baseline_image env) (je_candidate_images env) (r_trace_sha256 r)) (\<lambda>_.
         case classify_round_failure False False (Some code) True True of
           Some v \<Rightarrow> Inl (RoundInfraError v (''exit_code='' @ str_of_int code))
         | None \<Rightarrow> Inr (jdict_of rep))))"

definition run_report :: "job_env \<Rightarrow> round_row \<Rightarrow> bench_run \<Rightarrow> jdict res" where
  "run_report env r run = (case run of
     NotRun reason detail \<Rightarrow> Inl (RoundInfraError reason detail)
   | NoCapacity m \<Rightarrow> Inl (RoundDeferred m)
   | ProvisionFailed m \<Rightarrow> Inl (RoundInfraError void_pod_provision_failed m)
   | GpuFailed m \<Rightarrow> Inl (RoundInfraError (if occurs_in ''timed out'' (lower m) then void_round_timeout
       else void_pod_failed) m)
   | Exited code report remote \<Rightarrow> bound_report env r code report remote)"

definition settle_round ::
  "job_env \<Rightarrow> ts \<Rightarrow> round_row \<Rightarrow> entry_view list \<Rightarrow> bench_run \<Rightarrow> db \<Rightarrow> (string \<times> db) res" where
  "settle_round env now r entries run d =
     rbind (rguard (campaign_of d (r_campaign_id r) \<noteq> None) (infra ''campaign_missing'')) (\<lambda>_.
     rbind (rguard (entries \<noteq> []) (infra ''round_has_no_entries'')) (\<lambda>_.
     rbind (run_report env r run) (\<lambda>report.
     rbind (decide_round (je_show env) (je_epsilon env) (je_drift_ceiling env) r entries (incumbent_score d r) report)
       (\<lambda>(dec, xs, drift).
     rbind (complete_round now (r_id r) (r_campaign_id r) (r_ordinal r) dec xs drift (je_epsilon env)
         (je_evidence env) d) (\<lambda>(landed, d').
     Inr (if landed then ''ok'' else ''lost_race'', d'))))))"

text \<open>The handlers of \<open>process_round\<close>: an empty market defers, an infrastructure failure voids.\<close>

definition process_round ::
  "job_env \<Rightarrow> ts \<Rightarrow> round_row \<Rightarrow> entry_view list \<Rightarrow> bench_run \<Rightarrow> db \<Rightarrow> (string \<times> db) res" where
  "process_round env now r entries run d = (case settle_round env now r entries run d of
     Inr res \<Rightarrow> Inr res
   | Inl (RoundDeferred m) \<Rightarrow> Inr (''deferred'', snd (defer_round_for_capacity now (r_id r) (je_retry_us env) d))
   | Inl (RoundInfraError reason detail) \<Rightarrow>
       rbind (void_round now (r_id r) reason detail d) (\<lambda>(_, d'). Inr (reason, d'))
   | Inl e \<Rightarrow> Inl e)"

section \<open>Progress of the entries\<close>

text \<open>\<open>int(key)\<close> of a decimal key; Python's negative indices count from the end.\<close>

definition candidate_at :: "int list \<Rightarrow> int \<Rightarrow> int option" where
  "candidate_at ids i = (let n = int (length ids); k = (if i < 0 then i + n else i) in
     if 0 \<le> k \<and> k < n then Some (ids ! nat k) else None)"

definition status_target :: "entry_view list \<Rightarrow> string \<Rightarrow> int option" where
  "status_target entries k = (if k = ''baseline''
     then map_option (\<lambda>v. n_id (fst v)) (find (\<lambda>v. \<not> is_candidate v) entries)
     else (case int_of_str k of Inl _ \<Rightarrow> None
       | Inr i \<Rightarrow> candidate_at (map (\<lambda>v. n_id (fst v)) (filter is_candidate entries)) i))"

text \<open>One reported status; a failing write is dropped.\<close>

definition write_entry_status ::
  "(json \<Rightarrow> string) \<Rightarrow> entry_view list \<Rightarrow> string \<times> json \<Rightarrow> db \<Rightarrow> db" where
  "write_entry_status show entries p d = (case snd p of
     JObj item \<Rightarrow> (case status_target entries (fst p) of None \<Rightarrow> d
       | Some eid \<Rightarrow> (case update_round_entry_live_status eid (py_str show (jget item ''status''))
             (case jget item ''reason'' of JNull \<Rightarrow> None | v \<Rightarrow> Some (py_str show v)) d of
           Inl _ \<Rightarrow> d | Inr (_, d') \<Rightarrow> d'))
   | _ \<Rightarrow> d)"

definition write_entry_statuses ::
  "(json \<Rightarrow> string) \<Rightarrow> entry_view list \<Rightarrow> jdict \<Rightarrow> db \<Rightarrow> db" where
  "write_entry_statuses show entries statuses d = fold (write_entry_status show entries) statuses d"

text \<open>
  The beacon file of the pod, \<open>read_pod_entry_statuses\<close> of \<open>gpu/orchestrate.py\<close> on its parsed content:
  only the baseline may report \<open>scored\<close>.
\<close>

definition beacon_entry :: "(json \<Rightarrow> string) \<Rightarrow> string \<times> json \<Rightarrow> (string \<times> json) option" where
  "beacon_entry show p = (if \<not> (fst p = ''baseline'' \<or> isdigit (fst p)) then None
     else (case snd p of JObj item \<Rightarrow> (case jget item ''status'' of
         JStr st \<Rightarrow> if status_of_string st = None then None
           else if st = ''scored'' \<and> fst p \<noteq> ''baseline'' then None
           else Some (fst p, JObj [(''status'', JStr st), (''reason'', case jget item ''reason'' of
             JNull \<Rightarrow> JNull | v \<Rightarrow> JStr (take 256 (py_str show v)))])
       | _ \<Rightarrow> None) | _ \<Rightarrow> None))"

definition read_pod_entry_statuses :: "(json \<Rightarrow> string) \<Rightarrow> json \<Rightarrow> jdict option" where
  "read_pod_entry_statuses show beacon = (case beacon of
     JObj d \<Rightarrow> (case jget d ''entries'' of
       JObj es \<Rightarrow> let out = take 64 (List.map_filter (beacon_entry show) es) in if out = [] then None else Some out
     | _ \<Rightarrow> None) | _ \<Rightarrow> None)"

text \<open>The phase writer remembers that a plan of version 2 was announced.\<close>

definition phase_progress :: "bool \<Rightarrow> jdict \<Rightarrow> bool \<times> jdict option" where
  "phase_progress v2 progress = (let
     v2' = (v2 \<or> jeq_int (jget progress ''plan_version'') 2);
     p = (if v2' then jput progress ''plan_version'' (JInt 2) else progress)
     in (v2', if p = [] then None else Some p))"

definition write_round_phase ::
  "ts \<Rightarrow> uuid \<Rightarrow> string \<Rightarrow> jdict option \<Rightarrow> bool \<times> db \<Rightarrow> (bool \<times> bool \<times> db) res" where
  "write_round_phase now rid phase progress s = (let
     (v2, p) = phase_progress (fst s) (case progress of None \<Rightarrow> [] | Some x \<Rightarrow> x) in
     rbind (set_round_phase now rid phase p (snd s)) (\<lambda>(b, d'). Inr (b, v2, d')))"

section \<open>A settlement of a running round lands\<close>

lemma settle_entry_frame:
  assumes "settle_entry now rid ord ev x d = Inr d'"
  shows "same_but_events d d'"
proof -
  have f: "same_but_events d (fold (\<lambda>st. add_event now sid st None det) sts (write_entry now rid ev x d))" for sid det sts
    unfolding same_but_events_def
    by (simp add: fold_states_field [of campaigns] fold_states_field [of submissions] fold_states_field [of jobs]
        fold_states_field [of rounds] fold_states_field [of leaders] fold_states_field [of leader_history]
        fold_states_field [of weight_sets])
  from f [of _ _ "[]"] f settle_entry_eq [OF assms] show ?thesis by auto
qed

lemma settle_entries_frame:
  assumes "rfold (settle_entry now rid ord ev) xs d = Inr d'"
  shows "same_but_events d d'"
proof (rule rfold_invariant [OF assms, where P = "same_but_events d"])
  fix x t t' assume "same_but_events d t" "settle_entry now rid ord ev x t = Inr t'"
  then show "same_but_events d t'" using settle_entry_frame [of now rid ord ev x t t']
    by (simp add: same_but_events_def)
qed (simp add: same_but_events_def)

lemma complete_round_lands:
  assumes "touched (is_running rid) (rounds d)" and "complete_round now rid cid ord dec xs drift eps ev d = Inr (b, d')"
  shows "b" and "rounds d' = update_where (is_running rid) (finish_round now dec drift) (rounds d)"
proof -
  obtain d1 d2 d3 where 1: "rfold (settle_entry now rid ord ev) xs d = Inr d1"
    and 2: "write_crown now rid cid ord dec xs d1 = Inr d2" and 3: "write_history now rid cid ord dec eps d2 = Inr d3"
    and r: "(if \<not> touched (is_running rid) (rounds d3) then Inr (False, d) :: (bool \<times> db) res
       else Inr (True, d3\<lparr>rounds := update_where (is_running rid) (finish_round now dec drift) (rounds d3)\<rparr>)) = Inr (b, d')"
    using assms unfolding complete_round_def lock_running_round_def by (simp add: rbind_eq_Inr) blast
  have "rounds d3 = rounds d"
    using settle_entries_frame [OF 1] write_crown_frame [OF 2] write_history_frame [OF 3]
    by (auto simp: same_but_events_def)
  with r assms(1) show "b" "rounds d' = update_where (is_running rid) (finish_round now dec drift) (rounds d)"
    by auto
qed

lemma settle_round_Inr:
  assumes "settle_round env now r entries run d = Inr (code, d')"
  obtains report dec xs drift landed where "run_report env r run = Inr report"
    "decide_round (je_show env) (je_epsilon env) (je_drift_ceiling env) r entries (incumbent_score d r) report =
       Inr (dec, xs, drift)"
    "complete_round now (r_id r) (r_campaign_id r) (r_ordinal r) dec xs drift (je_epsilon env) (je_evidence env) d =
       Inr (landed, d')"
    "code = (if landed then ''ok'' else ''lost_race'')"
  using assms unfolding settle_round_def rbind_eq_Inr
  by (elim exE conjE) (auto simp: rbind_eq_Inr split: prod.splits)

text \<open>The three ways \<open>process_round\<close> returns.\<close>

lemma process_roundE:
  assumes "process_round env now r entries run d = Inr (code, d')"
  obtains (settled) "settle_round env now r entries run d = Inr (code, d')"
  | (deferred) m where "settle_round env now r entries run d = Inl (RoundDeferred m)" "code = ''deferred''"
      "d' = snd (defer_round_for_capacity now (r_id r) (je_retry_us env) d)"
  | (void) detail b where "settle_round env now r entries run d = Inl (RoundInfraError code detail)"
      "void_round now (r_id r) code detail d = Inr (b, d')"
  using assms unfolding process_round_def
  by (auto simp: rbind_eq_Inr split: sum.splits pyerr.splits prod.splits)

lemma round_of_update:
  assumes "\<And>r. r_id (f r) = r_id r"
  shows "find (\<lambda>r. r_id r = rid) (update_where P f rs) =
    map_option (\<lambda>r. if P r then f r else r) (find (\<lambda>r. r_id r = rid) rs)"
  using find_update_where [of rs r_id f rid P] assms by simp

lemma running_row:
  assumes "round_of d rid = Some r" and "r_status r = RRunning"
  shows "touched (is_running rid) (rounds d)" and "is_running rid r"
  using round_of_SomeD [OF assms(1)] assms(2) by (auto simp: touched_iff is_running_def)


definition ex_env :: job_env where
  "ex_env = \<lparr>je_show = (\<lambda>_. []), je_sha256 = (\<lambda>x. x), je_epsilon = Fin 0, je_drift_ceiling = Fin 1, je_retry_us = 60,
     je_task_id = ''t1'', je_baseline_image = [], je_candidate_images = [], je_evidence = None\<rparr>"

lemma ex_round_id: "r_id ex_round = ''r1''"
  by (simp add: ex_round_def)

lemma ex_env_times_out:
  "settle_round ex_env 20 ex_round [(ex_entry 1 None Baseline EPending, None)] (GpuFailed ''ssh Timed out'') ex_round_db =
     Inl (RoundInfraError ''round_timeout'' ''ssh Timed out'')"
proof -
  have "lower ''ssh Timed out'' = ''ssh timed out''" "occurs_in ''timed out'' ''ssh timed out''" by code_simp+
  moreover have "campaign_of ex_round_db (r_campaign_id ex_round) \<noteq> None"
    by (simp add: campaign_of_def ex_round_db_def ex_db0_def ex_c_def ex_round_def)
  ultimately show ?thesis by (simp add: settle_round_def run_report_def void_round_timeout_def)
qed


end
