(* ===== verification/RoundCreate.thy ===== *)
theory RoundCreate
  imports Rounds Registry "HOL-Library.Multiset"
begin

text \<open>
  \<open>round/create.py\<close>: when a queue has earned a round, and the collapse of identical images that
  \<open>create_round\<close> receives as its argument. What round creation relies on is stated as the locale
  \<open>cohort_dedupe\<close>; the effect of creating a round is proved once for every such argument, and
  the locale is interpreted on \<open>dedupe_by_digest\<close>.
\<close>

section \<open>Definitions\<close>

definition digest_key :: "cohort_row \<Rightarrow> string" where
  "digest_key row = (let ref = (case k_image_ref row of None \<Rightarrow> [] | Some r \<Rightarrow> r) in
     case normalize_digest ref of Inr k \<Rightarrow> k | Inl _ \<Rightarrow> lower (strip ref))"

text \<open>The loop, with \<open>kept_by_digest\<close> as its state.\<close>

fun dedupe_from :: "(string \<times> uuid) list \<Rightarrow> dedupe" where
  "dedupe_from kept [] = ([], [])"
| "dedupe_from kept (row # rows) = (case map_of kept (digest_key row) of
     None \<Rightarrow> (case dedupe_from ((digest_key row, k_id row) # kept) rows of (ks, ds) \<Rightarrow> (row # ks, ds))
   | Some k \<Rightarrow> (case dedupe_from kept rows of (ks, ds) \<Rightarrow> (ks, (k_id row, k) # ds)))"

definition dedupe_by_digest :: dedupe where
  "dedupe_by_digest cohort = dedupe_from [] cohort"

text \<open>\<open>(now - oldest).total_seconds() >= max_wait_s\<close>: microseconds divided by a million, as a double.\<close>

definition should_create :: "int \<Rightarrow> ts option \<Rightarrow> int \<Rightarrow> int \<Rightarrow> ts \<Rightarrow> bool res" where
  "should_create queued_n oldest size_n max_wait_s now =
     (if queued_n < 1 then Inr False
      else if size_n \<le> queued_n then Inr True
      else case oldest of None \<Rightarrow> Inr False
      | Some t \<Rightarrow> rbind (int_truediv (now - t) 1000000) (\<lambda>w. Inr (fle (Fin (of_int max_wait_s)) w)))"

section \<open>The contract of the deduplication\<close>

locale cohort_dedupe =
  fixes dedupe :: dedupe
  assumes partition: "dedupe rows = (ks, ds) \<Longrightarrow> mset (map k_id ks) + mset (map fst ds) = mset (map k_id rows)"
    and keeps_rows: "dedupe rows = (ks, ds) \<Longrightarrow> subseq ks rows"
    and points_to_kept: "dedupe rows = (ks, ds) \<Longrightarrow> p \<in> set ds \<Longrightarrow> snd p \<in> k_id ` set ks"
    and keeps_one: "dedupe rows = (ks, ds) \<Longrightarrow> rows \<noteq> [] \<Longrightarrow> ks \<noteq> []"

definition roster :: "db \<Rightarrow> uuid \<Rightarrow> (entry_role \<times> uuid option \<times> string) list" where
  "roster d rid = map (\<lambda>n. (n_role n, n_submission_id n, n_image_ref n))
     (filter (\<lambda>n. n_round_id n = rid) (round_entries d))"

definition challenger_line :: "cohort_row \<Rightarrow> entry_role \<times> uuid option \<times> string" where
  "challenger_line k = (Challenger, Some (k_id k), case k_image_ref k of Some r \<Rightarrow> r | None \<Rightarrow> [])"

definition leader_line :: "leader_row option \<Rightarrow> (entry_role \<times> uuid option \<times> string) list" where
  "leader_line l = (case l of None \<Rightarrow> [] | Some x \<Rightarrow> [(Leader, Some (l_submission_id x), l_image_ref x)])"

section \<open>Filling a round\<close>

lemma insert_entry_effect:
  assumes "insert_entry rid sid ro img d = Inr d'"
  shows "roster d' rid = roster d rid @ [(ro, sid, the img)] \<and> events d' = events d \<and>
    next_event d' = next_event d \<and> rounds d' = rounds d \<and> submissions d' = submissions d \<and>
    leaders d' = leaders d \<and> img \<noteq> None"
  using assms by (auto simp: insert_entry_eq_Inr roster_def)

lemma same_log:
  assumes "events d' = events d" and "next_event d' = next_event d"
  shows "log_ok now d' = log_ok now d" and "latest_state d' = latest_state d"
  using assms by (simp_all add: log_ok_def fun_eq_iff latest_state_def latest_event_def events_of_def)

lemma seat_challenger_effect:
  assumes "log_ok now d" and "seat_challenger now rid ord row d = Inr d'"
  shows "log_ok now d' \<and> roster d' rid = roster d rid @ [challenger_line row] \<and> rounds d' = rounds d \<and>
    (\<forall>s. latest_state d' s = (if s = k_id row then Some RoundAssigned else latest_state d s))"
proof -
  obtain d1 where 1: "insert_entry rid (Some (k_id row)) Challenger (k_image_ref row) d = Inr d1"
    and d': "d' = add_event now (k_id row) RoundAssigned None (assigned_detail rid ord) d1"
    using assms(2) by (auto simp: seat_challenger_def rbind_eq_Inr insert_event_eq_Inr)
  note e = insert_entry_effect [OF 1]
  have log: "log_ok now d1" "latest_state d1 = latest_state d"
    using e assms(1) same_log [of d1 d] by auto
  have "roster d' rid = roster d1 rid" by (simp add: d' roster_def)
  with e log show ?thesis
    unfolding d' by (auto simp: log_ok_add_event latest_state_add_event challenger_line_def split: option.splits)
qed

lemma seat_challengers_effect:
  assumes "log_ok now d" and "rfold (seat_challenger now rid ord) ks d = Inr d'"
  shows "log_ok now d' \<and> roster d' rid = roster d rid @ map challenger_line ks \<and> rounds d' = rounds d \<and>
    (\<forall>s. latest_state d' s = (if s \<in> k_id ` set ks then Some RoundAssigned else latest_state d s))"
  using assms
proof (induction ks arbitrary: d)
  case (Cons k ks)
  obtain d1 where d1: "seat_challenger now rid ord k d = Inr d1"
    and rest: "rfold (seat_challenger now rid ord) ks d1 = Inr d'"
    using Cons.prems(2) by (auto simp: rbind_eq_Inr)
  note e = seat_challenger_effect [OF Cons.prems(1) d1]
  then have "log_ok now d1" by blast
  note IH = Cons.IH [OF this rest]
  from e IH show ?case by auto
qed simp

lemma reject_duplicates_effect:
  assumes "log_ok now d" and "rfold (reject_duplicate now) ds d = Inr d'"
  shows "round_entries d' = round_entries d \<and> rounds d' = rounds d \<and> log_ok now d' \<and>
    (\<forall>s. latest_state d' s = (if s \<in> fst ` set ds then Some Rejected else latest_state d s))"
  using assms
proof (induction ds arbitrary: d)
  case (Cons p ds)
  obtain d1 where d1: "reject_duplicate now p d = Inr d1"
    and rest: "rfold (reject_duplicate now) ds d1 = Inr d'"
    using Cons.prems(2) by (auto simp: rbind_eq_Inr)
  then have eq: "\<exists>x. d1 = add_event now (fst p) Rejected None x d"
    by (auto simp: reject_duplicate_def insert_event_eq_Inr)
  then have log: "log_ok now d1" using Cons.prems(1) by (auto intro: log_ok_add_event)
  from Cons.IH [OF log rest] eq Cons.prems(1) show ?case
    by (auto simp: latest_state_add_event)
qed simp

lemma insert_round_effect:
  assumes "insert_round now rid ord inc sp d = Inr d'"
  shows "\<exists>r. d' = d\<lparr>rounds := rounds d @ [r]\<rparr> \<and> r_id r = rid \<and> r_campaign_id r = rs_campaign_id sp \<and>
    r_ordinal r = ord \<and> r_status r = RPending \<and> r_incumbent r = inc \<and> r_seed_block r = rs_seed_block sp \<and>
    rid \<notin> round_ids d"
  using assms by (auto simp: insert_round_def rbind_eq_Inr)

lemma fill_round_effect:
  assumes "db_ok d" and "log_ok now d" and "fill_round now rid ord sp ks ds d = Inr d'"
  shows "(\<exists>r. rounds d' = rounds d @ [r] \<and> r_id r = rid \<and> r_campaign_id r = rs_campaign_id sp \<and>
      r_ordinal r = ord \<and> r_status r = RPending) \<and>
    roster d' rid = (Baseline, None, rs_baseline_image_ref sp) #
      leader_line (leader_of d (rs_campaign_id sp)) @ map challenger_line ks \<and>
    (\<forall>s. latest_state d' s = (if s \<in> fst ` set ds then Some Rejected
       else if s \<in> k_id ` set ks then Some RoundAssigned else latest_state d s))"
proof -
  let ?l = "leader_of d (rs_campaign_id sp)"
  obtain d1 d2 d3 d4 where
    1: "insert_round now rid ord (map_option l_submission_id ?l) sp d = Inr d1"
    and 2: "insert_entry rid None Baseline (Some (rs_baseline_image_ref sp)) d1 = Inr d2"
    and 3: "seat_leader rid ?l d2 = Inr d3"
    and 4: "rfold (seat_challenger now rid ord) ks d3 = Inr d4"
    and 5: "rfold (reject_duplicate now) ds d4 = Inr d'"
    using assms(3) by (auto simp: fill_round_def Let_def rbind_eq_Inr)
  obtain r where r: "d1 = d\<lparr>rounds := rounds d @ [r]\<rparr>" "r_id r = rid" "r_campaign_id r = rs_campaign_id sp"
    "r_ordinal r = ord" "r_status r = RPending" "rid \<notin> round_ids d"
    using insert_round_effect [OF 1] by blast
  have "roster d rid = []"
    using db_okD(5) [OF assms(1)] r(6) by (auto simp: roster_def filter_empty_conv entries_ok_def)
  then have "roster d1 rid = []" by (simp add: r(1) roster_def)
  with insert_entry_effect [OF 2] have e2: "roster d2 rid = [(Baseline, None, rs_baseline_image_ref sp)]"
    "events d2 = events d" "next_event d2 = next_event d" "rounds d2 = rounds d @ [r]"
    by (simp_all add: r(1))
  have e3: "roster d3 rid = (Baseline, None, rs_baseline_image_ref sp) # leader_line ?l"
    "events d3 = events d" "next_event d3 = next_event d" "rounds d3 = rounds d @ [r]"
    using 3 e2 by (auto simp: seat_leader_def leader_line_def split: option.splits dest: insert_entry_effect)
  have "log_ok now d3" "latest_state d3 = latest_state d"
    using same_log [OF e3(2,3)] assms(2) by auto
  with seat_challengers_effect [OF _ 4] have e4: "log_ok now d4" "rounds d4 = rounds d @ [r]"
    "roster d4 rid = ((Baseline, None, rs_baseline_image_ref sp) # leader_line ?l) @ map challenger_line ks"
    "\<forall>s. latest_state d4 s = (if s \<in> k_id ` set ks then Some RoundAssigned else latest_state d s)"
    using e3 by auto
  from reject_duplicates_effect [OF e4(1) 5] have e5: "roster d' rid = roster d4 rid" "rounds d' = rounds d4"
    "\<forall>s. latest_state d' s = (if s \<in> fst ` set ds then Some Rejected else latest_state d4 s)"
    by (auto simp: roster_def)
  show ?thesis using e4 e5 r by auto
qed

lemma cohort_ids:
  assumes "db_ok d"
  shows "distinct (map k_id (cohort_of d cid n))"
proof -
  have "distinct (map s_id (submissions d))"
    using db_okD(1) [OF assms] by (simp add: submissions_ok_def uniq_def)
  then have "distinct (map s_id (sort_key commit_key (filter (queued d cid) (submissions d))))"
    by (simp add: distinct_map inj_on_def)
  then have "distinct (take n (map s_id (sort_key commit_key (filter (queued d cid) (submissions d)))))"
    by (rule distinct_take)
  then show ?thesis by (simp add: cohort_of_def comp_def take_map)
qed

text \<open>What creating a round does, for every deduplication that satisfies the contract.\<close>

context cohort_dedupe
begin

lemma ids_disjoint:
  assumes "dedupe rows = (ks, ds)" and "distinct (map k_id rows)"
  shows "k_id ` set ks \<inter> fst ` set ds = {}" and "k_id ` set ks \<union> fst ` set ds = k_id ` set rows"
    and "distinct (map k_id ks)"
proof -
  have eq: "mset (map k_id ks @ map fst ds) = mset (map k_id rows)"
    using partition [OF assms(1)] by simp
  then have "distinct (map k_id ks @ map fst ds)"
    using assms(2) by (metis mset_eq_imp_distinct_iff)
  then show "k_id ` set ks \<inter> fst ` set ds = {}" "distinct (map k_id ks)" by auto
  show "k_id ` set ks \<union> fst ` set ds = k_id ` set rows"
    using arg_cong [OF eq, of set_mset] by auto
qed

lemma create_round_effect:
  assumes "db_ok d" and "log_ok now d" and "create_round now rid dedupe sp d = Inr (Some cr, d')"
  shows "\<exists>ks. subseq ks (cohort_of d (rs_campaign_id sp) (rs_cohort_limit sp)) \<and> ks \<noteq> [] \<and>
    cr_challenger_ids cr = map k_id ks \<and>
    set (cr_challenger_ids cr) \<inter> set (cr_duplicate_ids cr) = {} \<and>
    set (cr_challenger_ids cr) \<union> set (cr_duplicate_ids cr) =
      set (map k_id (cohort_of d (rs_campaign_id sp) (rs_cohort_limit sp))) \<and>
    (\<forall>s. latest_state d' s = (if s \<in> set (cr_challenger_ids cr) then Some RoundAssigned
       else if s \<in> set (cr_duplicate_ids cr) then Some Rejected else latest_state d s)) \<and>
    roster d' rid = (Baseline, None, rs_baseline_image_ref sp) #
      leader_line (leader_of d (rs_campaign_id sp)) @ map challenger_line ks \<and>
    (\<exists>r. rounds d' = rounds d @ [r] \<and> r_id r = rid \<and> r_campaign_id r = rs_campaign_id sp \<and>
       r_ordinal r = next_ordinal d (rs_campaign_id sp) \<and> r_status r = RPending)"
proof -
  let ?c = "cohort_of d (rs_campaign_id sp) (rs_cohort_limit sp)"
  obtain ks ds where dd: "dedupe ?c = (ks, ds)" and ne: "ks \<noteq> []"
    and fill: "fill_round now rid (next_ordinal d (rs_campaign_id sp)) sp ks ds d = Inr d'"
    and cr: "cr_challenger_ids cr = map k_id ks" "cr_duplicate_ids cr = map fst ds"
    using create_round_cases [OF assms(3)] by auto
  note dis = ids_disjoint [OF dd cohort_ids [OF assms(1)]]
  note eff = fill_round_effect [OF assms(1,2) fill]
  have "latest_state d' s = (if s \<in> set (cr_challenger_ids cr) then Some RoundAssigned
      else if s \<in> set (cr_duplicate_ids cr) then Some Rejected else latest_state d s)" for s
    using eff dis(1) by (auto simp: cr)
  then show ?thesis
    using eff dis ne keeps_rows [OF dd] cr by (intro exI [of _ ks]) simp
qed

end

section \<open>The deduplication the code uses\<close>

lemma dedupe_from_partition:
  "dedupe_from kept rows = (ks, ds) \<Longrightarrow> mset (map k_id ks) + mset (map fst ds) = mset (map k_id rows)"
  by (induction kept rows arbitrary: ks ds rule: dedupe_from.induct) (auto split: option.splits prod.splits)

lemma dedupe_from_subseq: "dedupe_from kept rows = (ks, ds) \<Longrightarrow> subseq ks rows"
  by (induction kept rows arbitrary: ks ds rule: dedupe_from.induct) (auto split: option.splits prod.splits)

lemma dedupe_from_points:
  "dedupe_from kept rows = (ks, ds) \<Longrightarrow> p \<in> set ds \<Longrightarrow> snd p \<in> k_id ` set ks \<union> snd ` set kept"
proof (induction kept rows arbitrary: ks ds rule: dedupe_from.induct)
  case (2 kept row rows)
  show ?case
  proof (cases "map_of kept (digest_key row)")
    case None
    obtain ks1 ds1 where r: "dedupe_from ((digest_key row, k_id row) # kept) rows = (ks1, ds1)" by fastforce
    with 2(3) None have "ks = row # ks1" "ds = ds1" by simp_all
    with 2(1) [OF None r] 2(4) show ?thesis by auto
  next
    case (Some k)
    obtain ks1 ds1 where r: "dedupe_from kept rows = (ks1, ds1)" by fastforce
    with 2(3) Some have eq: "ks = ks1" "ds = (k_id row, k) # ds1" by simp_all
    have k: "k \<in> snd ` set kept" using map_of_SomeD [OF Some] by force
    show ?thesis
    proof (cases "p \<in> set ds1")
      case True
      with 2(2) [OF Some r] eq show ?thesis by simp
    next
      case False
      with 2(4) eq have "snd p = k" by auto
      with k show ?thesis by simp
    qed
  qed
qed simp

text \<open>The kept rows have different digests, and a dropped row has the digest of a kept one.\<close>

lemma dedupe_from_keys:
  assumes "dedupe_from kept rows = (ks, ds)"
  shows "distinct (map digest_key ks) \<and> digest_key ` set ks \<inter> fst ` set kept = {} \<and>
    digest_key ` set rows \<subseteq> digest_key ` set ks \<union> fst ` set kept"
  using assms
proof (induction kept rows arbitrary: ks ds rule: dedupe_from.induct)
  case (2 kept row rows)
  show ?case
  proof (cases "map_of kept (digest_key row)")
    case None
    obtain ks1 ds1 where r: "dedupe_from ((digest_key row, k_id row) # kept) rows = (ks1, ds1)" by fastforce
    with 2(3) None have eq: "ks = row # ks1" by simp
    have "digest_key row \<notin> fst ` set kept" using None by (simp add: map_of_eq_None_iff)
    with 2(1) [OF None r] show ?thesis unfolding eq by auto
  next
    case (Some k)
    obtain ks1 ds1 where r: "dedupe_from kept rows = (ks1, ds1)" by fastforce
    with 2(3) Some have eq: "ks = ks1" by simp
    have "digest_key row \<in> fst ` set kept" using map_of_SomeD [OF Some] by force
    with 2(2) [OF Some r] show ?thesis unfolding eq by auto
  qed
qed simp

interpretation digest: cohort_dedupe dedupe_by_digest
proof
  fix rows ks ds
  assume d: "dedupe_by_digest rows = (ks, ds)"
  show "mset (map k_id ks) + mset (map fst ds) = mset (map k_id rows)"
    using d unfolding dedupe_by_digest_def by (rule dedupe_from_partition)
  show "subseq ks rows"
    using d by (simp add: dedupe_by_digest_def dedupe_from_subseq)
  show "rows \<noteq> [] \<Longrightarrow> ks \<noteq> []"
    using d by (cases rows) (auto simp: dedupe_by_digest_def split: prod.splits)
  show "\<And>p. p \<in> set ds \<Longrightarrow> snd p \<in> k_id ` set ks"
    using dedupe_from_points [of "[]" rows ks ds] d by (simp add: dedupe_by_digest_def)
qed

section \<open>Creating a round\<close>

text \<open>
  C35. A created round takes its whole cohort out of the queue. The challengers and the duplicates
  the call reports partition the cohort; after the commit a challenger is \<open>round_assigned\<close>, a
  duplicate \<open>rejected\<close>, and no other submission changes state. The round is pending under the next
  ordinal and holds exactly the baseline, the sitting leader if there is one, and the
  challengers in cohort order, no two of which run the same image digest.
\<close>

theorem round_created:
  assumes "db_ok d" and "log_ok now d" and "create_round now rid dedupe_by_digest sp d = Inr (Some cr, d')"
  shows "\<exists>ks. subseq ks (cohort_of d (rs_campaign_id sp) (rs_cohort_limit sp)) \<and> ks \<noteq> [] \<and>
    distinct (map digest_key ks) \<and> cr_challenger_ids cr = map k_id ks \<and>
    set (cr_challenger_ids cr) \<inter> set (cr_duplicate_ids cr) = {} \<and>
    set (cr_challenger_ids cr) \<union> set (cr_duplicate_ids cr) =
      set (map k_id (cohort_of d (rs_campaign_id sp) (rs_cohort_limit sp))) \<and>
    (\<forall>s. latest_state d' s = (if s \<in> set (cr_challenger_ids cr) then Some RoundAssigned
       else if s \<in> set (cr_duplicate_ids cr) then Some Rejected else latest_state d s)) \<and>
    roster d' rid = (Baseline, None, rs_baseline_image_ref sp) #
      leader_line (leader_of d (rs_campaign_id sp)) @ map challenger_line ks \<and>
    (\<exists>r. rounds d' = rounds d @ [r] \<and> r_id r = rid \<and> r_campaign_id r = rs_campaign_id sp \<and>
       r_ordinal r = next_ordinal d (rs_campaign_id sp) \<and> r_status r = RPending)"
proof -
  let ?c = "cohort_of d (rs_campaign_id sp) (rs_cohort_limit sp)"
  obtain ks ds where dd: "dedupe_by_digest ?c = (ks, ds)" and cr: "cr_challenger_ids cr = map k_id ks"
    using create_round_cases [OF assms(3)] by auto
  have dk: "distinct (map digest_key ks)"
    using dedupe_from_keys [of "[]" ?c ks ds] dd by (simp add: dedupe_by_digest_def)
  obtain ks' where k: "subseq ks' ?c" "cr_challenger_ids cr = map k_id ks'"
    and rest: "ks' \<noteq> []" "set (cr_challenger_ids cr) \<inter> set (cr_duplicate_ids cr) = {}"
      "set (cr_challenger_ids cr) \<union> set (cr_duplicate_ids cr) = set (map k_id ?c)"
      "\<forall>s. latest_state d' s = (if s \<in> set (cr_challenger_ids cr) then Some RoundAssigned
         else if s \<in> set (cr_duplicate_ids cr) then Some Rejected else latest_state d s)"
      "roster d' rid = (Baseline, None, rs_baseline_image_ref sp) #
         leader_line (leader_of d (rs_campaign_id sp)) @ map challenger_line ks'"
      "\<exists>r. rounds d' = rounds d @ [r] \<and> r_id r = rid \<and> r_campaign_id r = rs_campaign_id sp \<and>
         r_ordinal r = next_ordinal d (rs_campaign_id sp) \<and> r_status r = RPending"
    using digest.create_round_effect [OF assms] by blast
  have "inj_on k_id (set ?c)" using cohort_ids [OF assms(1)] by (simp add: distinct_map)
  moreover have "set ks \<union> set ks' \<subseteq> set ?c"
    using k(1) digest.keeps_rows [OF dd] by (auto dest: list_emb_set)
  ultimately have "ks = ks'"
    using k(2) cr by (intro map_inj_on [of k_id]) (auto intro: inj_on_subset)
  with dk k rest show ?thesis by blast
qed

text \<open>
  The cohort is the front of the queue: whoever is queued and left out waits behind a full
  cohort every member of which was committed no later (by block, ties by id; a submission
  without a block comes last).
\<close>

theorem cohort_takes_oldest:
  assumes "s \<in> set (submissions d)" and "queued d cid s" and "s_id s \<notin> set (map k_id (cohort_of d cid n))"
  shows "length (cohort_of d cid n) = n \<and> (\<forall>k \<in> set (cohort_of d cid n). \<exists>t \<in> set (submissions d).
    s_id t = k_id k \<and> queued d cid t \<and> commit_key t \<le> commit_key s)"
proof -
  let ?xs = "sort_key commit_key (filter (queued d cid) (submissions d))"
  have c: "map k_id (cohort_of d cid n) = map s_id (take n ?xs)"
    by (simp add: cohort_of_def)
  have "s \<in> set ?xs" using assms(1,2) by simp
  moreover have "s \<notin> set (take n ?xs)" using assms(3) unfolding c by auto
  ultimately have drop: "s \<in> set (drop n ?xs)"
    by (metis Un_iff append_take_drop_id set_append)
  then have "n < length ?xs" by (metis drop_eq_Nil empty_iff empty_set not_le)
  then have len: "length (cohort_of d cid n) = n" by (simp add: cohort_of_def)
  have "sorted (map commit_key (take n ?xs @ drop n ?xs))"
    by (simp only: append_take_drop_id sorted_sort_key)
  then have le: "commit_key t \<le> commit_key s" if "t \<in> set (take n ?xs)" for t
    using that drop by (simp only: map_append sorted_append) auto
  have "\<exists>t \<in> set (submissions d). s_id t = k_id k \<and> queued d cid t \<and> commit_key t \<le> commit_key s"
    if "k \<in> set (cohort_of d cid n)" for k
  proof -
    from that obtain t where t: "t \<in> set (take n ?xs)" "k_id k = s_id t"
      by (auto simp: cohort_of_def)
    then have "t \<in> set ?xs" by (meson in_set_takeD)
    with t le show ?thesis by auto
  qed
  with len show ?thesis by blast
qed

lemma next_ordinal_above: "r \<in> set (rounds d) \<Longrightarrow> r_campaign_id r = cid \<Longrightarrow> r_ordinal r < next_ordinal d cid"
proof -
  assume r: "r \<in> set (rounds d)" "r_campaign_id r = cid"
  have ge: "k \<le> fold max ks k" for k :: int and ks
    by (induction ks arbitrary: k) (auto intro: order_trans [OF max.cobounded2])
  have mx: "y \<in> insert k (set ks) \<Longrightarrow> y \<le> fold max ks k" for y k :: int and ks
  proof (induction ks arbitrary: k)
    case (Cons a ks)
    have "max a k \<le> fold max ks (max a k)" by (rule ge)
    then have "a \<le> fold max ks (max a k)" "k \<le> fold max ks (max a k)" by simp_all
    with Cons show ?case by auto
  qed simp
  let ?os = "map r_ordinal (filter (\<lambda>r. r_campaign_id r = cid) (rounds d))"
  have "r_ordinal r \<in> set ?os" using r by auto
  then obtain k ks where ks: "?os = k # ks" by (cases ?os) auto
  with \<open>r_ordinal r \<in> set ?os\<close> mx [of "r_ordinal r" k ks] show ?thesis
    by (simp add: next_ordinal_def)
qed

definition seated :: "db \<Rightarrow> uuid \<Rightarrow> uuid option set" where
  "seated d rid = n_submission_id ` set (filter (\<lambda>n. n_round_id n = rid) (round_entries d))"

lemma insert_entry_succeeds:
  assumes "rid \<in> round_ids d" "\<forall>i. sid = Some i \<longrightarrow> i \<in> submission_ids d" "(ro = Baseline) = (sid = None)"
    "sid \<notin> seated d rid"
  shows "\<exists>d'. insert_entry rid sid ro (Some ref) d = Inr d' \<and> seated d' rid = insert sid (seated d rid) \<and>
    round_ids d' = round_ids d \<and> submission_ids d' = submission_ids d"
proof -
  have free: "\<not> (\<exists>n \<in> set (round_entries d). n_round_id n = rid \<and> n_submission_id n = sid)"
    using assms(4) by (auto simp: seated_def)
  let ?n = "\<lparr>n_id = next_entry d, n_round_id = rid, n_submission_id = sid, n_role = ro, n_image_ref = ref,
    n_status = EPending, n_score = None, n_disqualify_reason = None, n_report = [],
    n_evidence_s3_url = None, n_started_at = None, n_completed_at = None\<rparr>"
  let ?d = "d\<lparr>round_entries := round_entries d @ [?n], next_entry := next_entry d + 1\<rparr>"
  have "insert_entry rid sid ro (Some ref) d = Inr ?d"
    using assms(1-3) free by (simp add: insert_entry_eq_Inr)
  moreover have "seated ?d rid = insert sid (seated d rid)" by (auto simp: seated_def)
  ultimately show ?thesis by (simp add: round_ids_def submission_ids_def)
qed

lemma seat_challenger_succeeds:
  assumes "rid \<in> round_ids d" "k_id k \<in> submission_ids d" "k_image_ref k = Some ref" "Some (k_id k) \<notin> seated d rid"
  shows "\<exists>d'. seat_challenger now rid ord k d = Inr d' \<and> seated d' rid = insert (Some (k_id k)) (seated d rid) \<and>
    round_ids d' = round_ids d \<and> submission_ids d' = submission_ids d"
proof -
  obtain d1 where d1: "insert_entry rid (Some (k_id k)) Challenger (Some ref) d = Inr d1"
    "seated d1 rid = insert (Some (k_id k)) (seated d rid)" "round_ids d1 = round_ids d"
    "submission_ids d1 = submission_ids d"
    using insert_entry_succeeds [of rid d "Some (k_id k)" Challenger ref] assms by auto
  moreover have "seated (add_event now (k_id k) RoundAssigned None x d1) rid = seated d1 rid" for x
    by (simp add: seated_def)
  ultimately show ?thesis
    using assms(2,3) by (simp add: seat_challenger_def insert_event_ok)
qed

lemma seat_challengers_succeed:
  assumes "rid \<in> round_ids d" "\<forall>k \<in> set ks. k_id k \<in> submission_ids d \<and> k_image_ref k \<noteq> None"
    "distinct (map k_id ks)" "\<forall>k \<in> set ks. Some (k_id k) \<notin> seated d rid"
  shows "\<exists>d'. rfold (seat_challenger now rid ord) ks d = Inr d' \<and> submission_ids d' = submission_ids d"
  using assms
proof (induction ks arbitrary: d)
  case (Cons k ks)
  then obtain ref where "k_image_ref k = Some ref" by auto
  then obtain d1 where d1: "seat_challenger now rid ord k d = Inr d1"
    "seated d1 rid = insert (Some (k_id k)) (seated d rid)" "round_ids d1 = round_ids d"
    "submission_ids d1 = submission_ids d"
    using seat_challenger_succeeds [of rid d k ref now ord] Cons.prems by auto
  have "\<exists>d'. rfold (seat_challenger now rid ord) ks d1 = Inr d' \<and> submission_ids d' = submission_ids d1"
    using Cons.prems d1 by (intro Cons.IH) (auto simp: image_iff)
  with d1 show ?case by auto
qed simp

lemma insert_round_succeeds:
  assumes "db_ok d" "campaign_of d (rs_campaign_id sp) \<noteq> None" "rid \<notin> round_ids d"
    "\<not> has_live_round d (rs_campaign_id sp)"
  shows "\<exists>d1. insert_round now rid (next_ordinal d (rs_campaign_id sp))
    (map_option l_submission_id (leader_of d (rs_campaign_id sp))) sp d = Inr d1"
proof -
  have "l_submission_id l \<in> submission_ids d" if "leader_of d (rs_campaign_id sp) = Some l" for l
    using leader_of_SomeD [OF that] db_okD(6) [OF assms(1)] by (simp add: leaders_ok_def)
  then have "fk_submission d (map_option l_submission_id (leader_of d (rs_campaign_id sp))) = Inr ()"
    using submission_of_iff [of d]
    by (auto simp: fk_submission_def fk_def rguard_def split: option.splits)
  moreover have "\<not> (\<exists>r \<in> set (rounds d). r_campaign_id r = rs_campaign_id sp \<and>
      r_ordinal r = next_ordinal d (rs_campaign_id sp))"
    using next_ordinal_above [of _ d "rs_campaign_id sp"] by fastforce
  ultimately show ?thesis
    using assms by (simp add: insert_round_def fk_campaign_def fk_def)
qed

lemma creation_returns:
  assumes "db_ok d" and "campaign_of d (rs_campaign_id sp) = Some c" and "c_status c = ''open''"
    and "\<not> has_live_round d (rs_campaign_id sp)" and "rid \<notin> round_ids d"
    and "cohort_of d (rs_campaign_id sp) (rs_cohort_limit sp) \<noteq> []"
    and "\<forall>k \<in> set (cohort_of d (rs_campaign_id sp) (rs_cohort_limit sp)). k_image_ref k \<noteq> None \<and>
      (\<forall>l. leader_of d (rs_campaign_id sp) = Some l \<longrightarrow> k_id k \<noteq> l_submission_id l)"
  shows "\<exists>cr d'. create_round now rid dedupe_by_digest sp d = Inr (Some cr, d')"
proof -
  let ?cid = "rs_campaign_id sp" let ?c = "cohort_of d ?cid (rs_cohort_limit sp)" let ?l = "leader_of d ?cid"
  obtain ks ds where dd: "dedupe_by_digest ?c = (ks, ds)" by fastforce
  have ne: "ks \<noteq> []" using digest.keeps_one [OF dd assms(6)] .
  have sub: "set ks \<subseteq> set ?c" using digest.keeps_rows [OF dd] by (auto dest: list_emb_set)
  have ids: "k_id k \<in> submission_ids d" if "k \<in> set ?c" for k
    using that by (auto simp: cohort_of_def submission_ids_def dest: in_set_takeD)
  have dis: "distinct (map k_id ks)"
    using digest.ids_disjoint(3) [OF dd cohort_ids [OF assms(1)]] .
  obtain d1 where 1: "insert_round now rid (next_ordinal d ?cid) (map_option l_submission_id ?l) sp d = Inr d1"
    using insert_round_succeeds [OF assms(1) _ assms(5,4)] assms(2) by auto
  have d1: "rid \<in> round_ids d1" "submission_ids d1 = submission_ids d" "seated d1 rid = {}"
  proof -
    obtain r where r: "d1 = d\<lparr>rounds := rounds d @ [r]\<rparr>" "r_id r = rid" using insert_round_effect [OF 1] by blast
    then show "rid \<in> round_ids d1" "submission_ids d1 = submission_ids d"
      by (simp_all add: round_ids_def submission_ids_def)
    have "n_round_id n \<noteq> rid" if "n \<in> set (round_entries d)" for n
      using that db_okD(5) [OF assms(1)] assms(5) by (auto simp: entries_ok_def)
    then show "seated d1 rid = {}" by (simp add: r seated_def)
  qed
  obtain d2 where 2: "insert_entry rid None Baseline (Some (rs_baseline_image_ref sp)) d1 = Inr d2"
    "seated d2 rid = {None}" "rid \<in> round_ids d2" "submission_ids d2 = submission_ids d"
    using insert_entry_succeeds [of rid d1 None Baseline "rs_baseline_image_ref sp"] d1 by auto
  obtain d3 where 3: "seat_leader rid ?l d2 = Inr d3" "rid \<in> round_ids d3" "submission_ids d3 = submission_ids d"
    "seated d3 rid \<subseteq> insert None (Some ` l_submission_id ` set_option ?l)"
  proof (cases ?l)
    case None
    with 2 that [of d2] show ?thesis by (simp add: seat_leader_def)
  next
    case (Some l)
    then have "l_submission_id l \<in> submission_ids d"
      using leader_of_SomeD [OF Some] db_okD(6) [OF assms(1)] by (simp add: leaders_ok_def)
    then have "\<exists>d3. insert_entry rid (Some (l_submission_id l)) Leader (Some (l_image_ref l)) d2 = Inr d3 \<and>
        seated d3 rid = insert (Some (l_submission_id l)) (seated d2 rid) \<and>
        round_ids d3 = round_ids d2 \<and> submission_ids d3 = submission_ids d2"
      using 2 by (intro insert_entry_succeeds) auto
    then obtain d3 where "seat_leader rid ?l d2 = Inr d3" "rid \<in> round_ids d3"
      "submission_ids d3 = submission_ids d" "seated d3 rid = {Some (l_submission_id l), None}"
      using 2 Some by (auto simp: seat_leader_def)
    then show ?thesis using that [of d3] Some by simp
  qed
  obtain d4 where 4: "rfold (seat_challenger now rid (next_ordinal d ?cid)) ks d3 = Inr d4"
    "submission_ids d4 = submission_ids d"
  proof -
    have "Some (k_id k) \<notin> seated d3 rid" if "k \<in> set ks" for k
    proof -
      have "k \<in> set ?c" using that sub by blast
      with assms(7) have "Some (k_id k) \<notin> Some ` l_submission_id ` set_option ?l"
        by (auto simp: elem_set)
      with 3(4) show ?thesis by blast
    qed
    moreover have "\<forall>k \<in> set ks. k_id k \<in> submission_ids d3 \<and> k_image_ref k \<noteq> None"
      using sub ids assms(7) 3(3) by blast
    ultimately show ?thesis
      using seat_challengers_succeed [OF 3(2) _ dis, of now "next_ordinal d ?cid"] 3(3) that by metis
  qed
  have "k_id ` set ks \<union> fst ` set ds = k_id ` set ?c"
    using digest.ids_disjoint(2) [OF dd cohort_ids [OF assms(1)]] .
  then have "fst p \<in> submission_ids d4" if "p \<in> set ds" for p
    using that ids 4(2) by force
  then have 5: "\<exists>d'. rfold (reject_duplicate now) ds d4 = Inr d'"
    unfolding reject_duplicate_def by (subst rfold_insert_event) auto
  have "\<exists>d'. fill_round now rid (next_ordinal d ?cid) sp ks ds d = Inr d'"
    using 1 2(1) 3(1) 4(1) 5 by (simp add: fill_round_def Let_def)
  then show ?thesis
    using assms(2-4) dd ne by (auto simp: create_round_def Let_def)
qed

text \<open>
  Round creation is not lost to its own guards. For an open campaign without a live round and
  with a queue whose images are built, creation succeeds whatever the history of the campaign
  is, provided the drawn round id is new and the sitting leader is not itself in the queue: the
  unique-violation backstop is not taken.
\<close>

theorem round_creation_succeeds:
  assumes "db_ok d" and "campaign_of d (rs_campaign_id sp) = Some c" and "c_status c = ''open''"
    and "\<not> has_live_round d (rs_campaign_id sp)" and "rid \<notin> round_ids d"
    and "cohort_of d (rs_campaign_id sp) (rs_cohort_limit sp) \<noteq> []"
    and "\<forall>k \<in> set (cohort_of d (rs_campaign_id sp) (rs_cohort_limit sp)). k_image_ref k \<noteq> None \<and>
      (\<forall>l. leader_of d (rs_campaign_id sp) = Some l \<longrightarrow> k_id k \<noteq> l_submission_id l)"
  shows "\<exists>cr d'. create_round now rid dedupe_by_digest sp d = Inr (Some cr, d')"
  using assms by (rule creation_returns)

section \<open>When a queue has earned a round\<close>

lemma wait_rounding:
  fixes us m :: int
  assumes "0 \<le> m" and "m < 2 ^ 33"
  shows "of_int m \<le> rnd0 (of_int us / 1000000) \<longleftrightarrow> m * 1000000 \<le> us"
proof
  have m53: "rnd0 (of_int m) = of_int m" using assms by (intro rnd0_of_small_int) simp
  show "of_int m \<le> rnd0 (of_int us / 1000000)" if "m * 1000000 \<le> us"
  proof -
    have "(of_int (m * 1000000) :: rat) \<le> of_int us" using that by (simp only: of_int_le_iff)
    then have "of_int m \<le> (of_int us / 1000000 :: rat)" by (simp add: field_simps)
    from rnd0_mono [OF this] m53 show ?thesis by simp
  qed
  show "m * 1000000 \<le> us" if le: "of_int m \<le> rnd0 (of_int us / 1000000)"
  proof (rule ccontr)
    assume "\<not> m * 1000000 \<le> us"
    then have "us \<le> m * 1000000 - 1" by simp
    then have "(of_int us :: rat) \<le> of_int (m * 1000000 - 1)" by (simp only: of_int_le_iff)
    then have q: "(of_int us / 1000000 :: rat) \<le> of_int m - 1 / 1000000" by (simp add: field_simps)
    have "(of_int m :: rat) < of_int (2 ^ 33)" using assms(2) by (simp only: of_int_less_iff)
    moreover have "(0 :: rat) \<le> of_int m" using assms(1) by simp
    ultimately have "\<bar>of_int m - 1 / 1000000 :: rat\<bar> < 2 ^ 33" by (simp add: abs_less_iff)
    then have "\<bar>of_int m - 1 / 1000000 :: rat\<bar> < 2 powi 33" by simp
    from rnd0_error_below [OF this] have "\<bar>rnd0 (of_int m - 1 / 1000000) - (of_int m - 1 / 1000000)\<bar> \<le> 1 / 2 ^ 21"
      by (simp add: power_int_minus)
    moreover have "(1 / 2 ^ 21 :: rat) < 1 / 1000000" by simp
    ultimately have "rnd0 (of_int m - 1 / 1000000) < of_int m" by linarith
    with rnd0_mono [OF q] le show False by linarith
  qed
qed

text \<open>
  The trigger, with its float division: for a waiting time limit below \<open>2 ^ 33\<close> seconds a
  queue earns a round exactly when it is not empty and either holds \<open>size\<close> submissions or its
  oldest has waited the limit to the microsecond. The rounding of \<open>total_seconds\<close> never fires it
  early or late.
\<close>

theorem should_create_exact:
  assumes "0 \<le> max_wait_s" and "max_wait_s < 2 ^ 33" and "\<forall>t. oldest = Some t \<longrightarrow> \<bar>now - t\<bar> \<le> 10 ^ 20"
  shows "should_create q oldest n max_wait_s now = Inr (1 \<le> q \<and>
    (n \<le> q \<or> (\<exists>t. oldest = Some t \<and> max_wait_s * 1000000 \<le> now - t)))"
proof (cases oldest)
  case (Some t)
  have "\<bar>(of_int (now - t) :: rat)\<bar> \<le> of_int (10 ^ 20)"
    using assms(3) Some by (simp only: of_int_abs [symmetric] of_int_le_iff)
  then have "\<bar>(of_int (now - t) / 1000000 :: rat)\<bar> \<le> 10 ^ 20" by simp
  also have "(10 :: rat) ^ 20 \<le> 2 ^ 67" by simp
  also have "(2 :: rat) ^ 67 \<le> 2 ^ 1023" by (rule power_increasing) simp_all
  finally have "rnd (of_int (now - t) / 1000000) = Fin (rnd0 (of_int (now - t) / 1000000))"
    by (rule rnd_small)
  then have "int_truediv (now - t) 1000000 = Inr (Fin (rnd0 (of_int (now - t) / 1000000)))"
    by (simp add: int_truediv_def to_finite_def)
  with Some wait_rounding [OF assms(1,2), of "now - t"] show ?thesis
    by (simp add: should_create_def)
qed (simp add: should_create_def)

theorem should_create_exact_witness:
  "should_create 1 (Some 0) 8 1800 1799999999 = Inr False \<and> should_create 1 (Some 0) 8 1800 1800000000 = Inr True"
  using should_create_exact [of 1800 "Some 0" 1799999999 1 8] should_create_exact [of 1800 "Some 0" 1800000000 1 8]
  by simp

section \<open>Witnesses\<close>

definition ex_queue_db :: db where
  "ex_queue_db = ex_db0\<lparr>submissions := [ex_sub ''s1'' ''hk1'' 3, ex_sub ''s2'' ''hk2'' 2, ex_sub ''s3'' ''hk3'' 9],
     events := [ex_event 1 ''s1'' BenchQueued, ex_event 2 ''s2'' BenchQueued, ex_event 3 ''s3'' BenchQueued],
     next_event := 4\<rparr>"

definition ex_spec :: round_spec where
  "ex_spec = \<lparr>rs_campaign_id = ''c1'', rs_cohort_limit = 2, rs_gpu_sku = ''h100'',
     rs_baseline_image_ref = ''base'', rs_seed_block = 5, rs_seed_block_hash = ''h'', rs_seed_hex = ''s'',
     rs_trace_sha256 = ''t'', rs_sampling_receipt = [], rs_scoring_rule = []\<rparr>"

lemma ex_queue_db_ok: "db_ok ex_queue_db" "log_ok 20 ex_queue_db"
  by (simp_all add: ex_queue_db_def ex_db0_def empty_db_def db_ok_def table_ok_defs uniq_def log_ok_def ex_c_def
      ex_sub_def ex_event_def has_payment_def)

lemma ex_queued: "filter (queued ex_queue_db ''c1'') (submissions ex_queue_db) = submissions ex_queue_db"
  by (simp add: queued_def ex_queue_db_def ex_sub_def latest_state_def latest_event_def events_of_def ex_event_def)

lemma ex_cohort: "map k_id (cohort_of ex_queue_db ''c1'' 2) = [''s2'', ''s1'']"
  unfolding cohort_of_def ex_queued
  by (simp add: ex_queue_db_def ex_sub_def commit_key_def nulls_last_def numeral_2_eq_2)

theorem cohort_takes_oldest_witness:
  "length (cohort_of ex_queue_db ''c1'' 2) = 2"
proof -
  let ?s = "ex_sub ''s3'' ''hk3'' 9"
  have "?s \<in> set (submissions ex_queue_db)" by (simp add: ex_queue_db_def)
  moreover from this have "queued ex_queue_db ''c1'' ?s"
    using ex_queued by (metis filter_id_conv)
  moreover have "s_id ?s \<notin> set (map k_id (cohort_of ex_queue_db ''c1'' 2))"
    unfolding ex_cohort by (simp add: ex_sub_def)
  ultimately show ?thesis using cohort_takes_oldest by blast
qed

lemma ex_create_premises:
  "campaign_of ex_queue_db (rs_campaign_id ex_spec) = Some ex_c" "c_status ex_c = ''open''"
  "\<not> has_live_round ex_queue_db (rs_campaign_id ex_spec)" "''r1'' \<notin> round_ids ex_queue_db"
  "leader_of ex_queue_db (rs_campaign_id ex_spec) = None"
  by (simp_all add: campaign_of_def ex_queue_db_def ex_db0_def ex_c_def ex_spec_def has_live_round_def
      empty_db_def round_ids_def leader_of_def)

lemma ex_cohort_images:
  "\<forall>k \<in> set (cohort_of ex_queue_db ''c1'' 2). k_image_ref k \<noteq> None"
  by (auto simp: cohort_of_def ex_queue_db_def ex_sub_def dest!: in_set_takeD)

lemma ex_spec_simps: "rs_campaign_id ex_spec = ''c1''" "rs_cohort_limit ex_spec = 2"
  by (simp_all add: ex_spec_def)

lemma ex_cohort_ne: "cohort_of ex_queue_db ''c1'' 2 \<noteq> []"
  using ex_cohort by (metis list.simps(3) map_is_Nil_conv)

theorem round_creation_succeeds_witness:
  "\<exists>cr d'. create_round 20 ''r1'' dedupe_by_digest ex_spec ex_queue_db = Inr (Some cr, d')"
  using round_creation_succeeds [OF ex_queue_db_ok(1) ex_create_premises(1-4)] ex_cohort_images
    ex_create_premises(5) ex_cohort_ne
  by (simp add: ex_spec_simps)

theorem round_created_witness:
  "\<exists>cr d'. create_round 20 ''r1'' dedupe_by_digest ex_spec ex_queue_db = Inr (Some cr, d') \<and>
     set (cr_challenger_ids cr) \<union> set (cr_duplicate_ids cr) = {''s2'', ''s1''} \<and>
     latest_state d' ''s3'' = latest_state ex_queue_db ''s3''"
proof -
  obtain cr d' where r: "create_round 20 ''r1'' dedupe_by_digest ex_spec ex_queue_db = Inr (Some cr, d')"
    using creation_returns [OF ex_queue_db_ok(1) ex_create_premises(1-4), of 20] ex_cohort_images
      ex_create_premises(5) ex_cohort_ne
    by (auto simp: ex_spec_simps)
  have c: "set (map k_id (cohort_of ex_queue_db (rs_campaign_id ex_spec) (rs_cohort_limit ex_spec))) = {''s2'', ''s1''}"
    unfolding ex_spec_simps ex_cohort by simp
  obtain ids: "set (cr_challenger_ids cr) \<union> set (cr_duplicate_ids cr) = {''s2'', ''s1''}"
    and lat: "\<forall>s. latest_state d' s = (if s \<in> set (cr_challenger_ids cr) then Some RoundAssigned
       else if s \<in> set (cr_duplicate_ids cr) then Some Rejected else latest_state ex_queue_db s)"
    using round_created [OF ex_queue_db_ok r] unfolding c by blast
  have "''s3'' \<notin> set (cr_challenger_ids cr) \<union> set (cr_duplicate_ids cr)" unfolding ids by simp
  with lat have "latest_state d' ''s3'' = latest_state ex_queue_db ''s3''" by simp
  with r ids show ?thesis by (intro exI [of _ cr] exI [of _ d'] conjI)
qed

end
