(* ===== verification/Invariant.thy ===== *)
theory Invariant
  imports RoundJob RoundCreate
begin

text \<open>
  What the writers of the database rely on together: the invariant \<open>system_ok\<close> over the store, the
  clock and the rounds the workers hold, and, writer by writer, that it is kept. Most writers are
  \<open>calm\<close> (they touch no round, entry or crown); the others move the crown of an idle campaign, close
  rounds, relay progress, create a round or settle one.
\<close>

section \<open>Views of the database\<close>

type_synonym round_view = "uuid \<times> uuid \<times> uuid option \<times> bool"

definition view_of :: "round_row \<Rightarrow> round_view" where
  "view_of r = (r_id r, r_campaign_id r, r_incumbent r, live (r_status r))"

definition views :: "db \<Rightarrow> round_view list" where
  "views d = map view_of (rounds d)"

text \<open>Who wears the crown of a campaign, by the \<open>leaders\<close> table and by replaying the history.\<close>

definition wearer :: "db \<Rightarrow> uuid \<Rightarrow> uuid option" where
  "wearer d cid = map_option l_submission_id (leader_of d cid)"

definition crown_after :: "uuid \<Rightarrow> history_row \<Rightarrow> uuid option \<Rightarrow> uuid option" where
  "crown_after cid h w = (if h_campaign_id h \<noteq> cid then w
     else case h_event h of Vacated \<Rightarrow> None | _ \<Rightarrow> h_new_submission_id h)"

definition replay :: "uuid \<Rightarrow> history_row list \<Rightarrow> uuid option" where
  "replay cid hs = fold (crown_after cid) hs None"

lemma replay_snoc: "replay cid (hs @ [h]) = crown_after cid h (replay cid hs)"
  by (simp add: replay_def)

section \<open>The invariant\<close>

definition incumbents_ok :: "db \<Rightarrow> bool" where
  "incumbents_ok d = (\<forall>rid cid inc. (rid, cid, inc, True) \<in> set (views d) \<longrightarrow> inc = wearer d cid \<and>
     (\<forall>i s img b. ((i, rid, s, Leader, img), b) \<in> set (marks d) \<longrightarrow> s = inc))"

definition seated_live :: "db \<Rightarrow> uuid \<Rightarrow> bool" where
  "seated_live d sid = (\<exists>rid cid inc i img b. (rid, cid, inc, True) \<in> set (views d) \<and>
     ((i, rid, Some sid, Challenger, img), b) \<in> set (marks d))"

definition assigned_ok :: "db \<Rightarrow> bool" where
  "assigned_ok d = (\<forall>sid. latest_state d sid = Some RoundAssigned \<longrightarrow> seated_live d sid)"

definition unscored_ok :: "db \<Rightarrow> bool" where
  "unscored_ok d = (\<forall>rid cid inc i s img b. (rid, cid, inc, True) \<in> set (views d) \<longrightarrow>
     ((i, rid, s, Challenger, img), b) \<in> set (marks d) \<longrightarrow> \<not> b)"

definition history_ok :: "db \<Rightarrow> bool" where
  "history_ok d = (\<forall>cid. replay cid (leader_history d) = wearer d cid)"

text \<open>A job in flight holds the round's row and the rows of its entries, as they are in the table.\<close>

type_synonym job = "round_row \<times> entry_view list"

definition job_ok :: "db \<Rightarrow> job \<Rightarrow> bool" where
  "job_ok d j = ((\<exists>b. (r_id (fst j), r_campaign_id (fst j), r_incumbent (fst j), b) \<in> set (views d)) \<and>
     distinct (map (n_id \<circ> fst) (snd j)) \<and>
     set (map (fst \<circ> entry_mark \<circ> fst) (snd j)) =
       {m \<in> fst ` set (marks d). fst (snd m) = r_id (fst j)})"

definition system_ok :: "ts \<Rightarrow> db \<Rightarrow> job list \<Rightarrow> bool" where
  "system_ok now d js = (db_ok d \<and> log_ok now d \<and> incumbents_ok d \<and> assigned_ok d \<and> unscored_ok d \<and>
     history_ok d \<and> (\<forall>j \<in> set js. job_ok d j))"

lemmas system_ok_parts = incumbents_ok_def assigned_ok_def unscored_ok_def history_ok_def job_ok_def seated_live_def

section \<open>Steps that leave the rounds alone\<close>

text \<open>New events carry the transaction's time and are not \<open>round_assigned\<close>.\<close>

definition appends :: "ts \<Rightarrow> db \<Rightarrow> db \<Rightarrow> bool" where
  "appends now d d' = (\<exists>es. events d' = events d @ es \<and>
     (\<forall>e \<in> set es. e_created_at e = now \<and> e_state e \<noteq> RoundAssigned))"

definition calm :: "ts \<Rightarrow> db \<Rightarrow> db \<Rightarrow> bool" where
  "calm now d d' = (views d' = views d \<and> marks d' = marks d \<and> leaders d' = leaders d \<and>
     leader_history d' = leader_history d \<and> appends now d d')"

lemma appends_refl [simp]: "appends now d d"
  by (simp add: appends_def)

lemma appends_same: "events d' = events d \<Longrightarrow> appends now d d'"
  by (simp add: appends_def)

lemma appends_trans: "appends now d d1 \<Longrightarrow> appends now d1 d2 \<Longrightarrow> appends now d d2"
  unfolding appends_def by (metis append_assoc set_append Un_iff)

lemma calm_refl [simp]: "calm now d d"
  by (simp add: calm_def)

lemma calm_trans: "calm now d d1 \<Longrightarrow> calm now d1 d2 \<Longrightarrow> calm now d d2"
  unfolding calm_def by (auto intro: appends_trans)

lemma best_from_append: "best_from lt b (xs @ ys) = best_from lt (best_from lt b xs) ys"
  by (induction xs arbitrary: b) auto

lemma best_append:
  assumes "best lt (xs @ ys) = Some y"
  shows "y \<in> set ys \<or> best lt xs = Some y"
proof (cases xs)
  case Nil
  with assms show ?thesis by (auto dest: best_in)
next
  case (Cons x zs)
  with assms have "y = best_from lt (best_from lt x zs) ys" by (simp add: best_from_append)
  with best_from_in [of lt "best_from lt x zs" ys] Cons show ?thesis by auto
qed

lemma appends_assigned:
  assumes "appends now d d'" and "latest_state d' s = Some RoundAssigned"
  shows "latest_state d s = Some RoundAssigned"
proof -
  obtain es where es: "events d' = events d @ es" "\<forall>e \<in> set es. e_state e \<noteq> RoundAssigned"
    using assms(1) by (auto simp: appends_def)
  obtain e where e: "latest_event d' s = Some e" "e_state e = RoundAssigned"
    using assms(2) by (auto simp: latest_state_def)
  then have "best event_before (events_of d s @ filter (\<lambda>e. e_submission_id e = s) es) = Some e"
    by (simp add: latest_event_def events_of_def es(1))
  from best_append [OF this] es(2) e(2) have "latest_event d s = Some e"
    by (auto simp: latest_event_def)
  with e(2) show ?thesis by (simp add: latest_state_def)
qed

lemma log_ok_iff:
  assumes "db_ok d"
  shows "log_ok now d \<longleftrightarrow> (\<forall>e \<in> set (events d). e_created_at e \<le> now)"
  using db_okD(2) [OF assms] by (auto simp: log_ok_def events_ok_def)

lemma appends_log:
  assumes "appends now d d'" and "db_ok d" and "db_ok d'" and "log_ok now d"
  shows "log_ok now d'"
  using assms by (auto simp: log_ok_iff appends_def)

lemma wearer_leaders: "leaders d' = leaders d \<Longrightarrow> wearer d' = wearer d"
  by (simp add: fun_eq_iff wearer_def leader_of_def)

lemma calm_ok:
  assumes "system_ok now d js" and "calm now d d'" and "db_ok d'"
  shows "system_ok now d' js"
proof -
  have eq: "views d' = views d" "marks d' = marks d" "leader_history d' = leader_history d" "wearer d' = wearer d"
    and app: "appends now d d'"
    using assms(2) wearer_leaders [of d' d] by (simp_all add: calm_def)
  have "log_ok now d'" using assms app by (auto simp: system_ok_def intro: appends_log)
  moreover have "seated_live d' = seated_live d" by (simp add: fun_eq_iff seated_live_def eq)
  then have "assigned_ok d'"
    using assms(1) appends_assigned [OF app] unfolding system_ok_def assigned_ok_def by metis
  moreover have "incumbents_ok d' = incumbents_ok d" "unscored_ok d' = unscored_ok d" "history_ok d' = history_ok d"
    by (simp_all only: incumbents_ok_def unscored_ok_def history_ok_def eq)
  moreover have "job_ok d' = job_ok d" by (rule ext) (simp only: job_ok_def eq)
  ultimately show ?thesis using assms(1,3) unfolding system_ok_def by simp
qed

lemma calm_simple:
  assumes "rounds d' = rounds d" "round_entries d' = round_entries d" "leaders d' = leaders d"
    "leader_history d' = leader_history d" "appends now d d'"
  shows "calm now d d'"
  using assms by (simp add: calm_def views_def marks_def)

lemma calm_add_event: "st \<noteq> RoundAssigned \<Longrightarrow> calm now d (add_event now sid st ref x d)"
  by (intro calm_simple) (auto simp: appends_def)

lemma calm_jobs: "calm now d (d\<lparr>jobs := js\<rparr>)"
  by (intro calm_simple) (auto intro: appends_same)

lemma calm_rounds:
  assumes "\<And>r. r \<in> set (rounds d) \<Longrightarrow> P r \<Longrightarrow> view_of (f r) = view_of r"
  shows "calm now d (d\<lparr>rounds := update_where P f (rounds d)\<rparr>)"
  using assms by (auto simp: calm_def views_def update_where_def intro: appends_same)

section \<open>The calm writers\<close>

lemma insert_submission_row_calm:
  "insert_submission_row now sid ns d = Inr (b, d') \<Longrightarrow> calm now d d'"
  using insert_submission_row_cases [of now sid ns d b d']
  by (auto intro!: calm_simple appends_same)

lemma insert_event_calm:
  "st \<noteq> RoundAssigned \<Longrightarrow> insert_event now sid st ref x d = Inr d' \<Longrightarrow> calm now d d'"
  by (auto simp: insert_event_eq_Inr intro: calm_add_event)

lemma insert_job_calm: "insert_job now sid d = Inr d' \<Longrightarrow> calm now d d'"
  by (auto simp: insert_job_def rbind_eq_Inr intro!: calm_simple appends_same split: if_splits)

lemma insert_submission_calm:
  assumes "insert_submission now sid ns d = Inr (r, d')"
  shows "calm now d d'"
proof -
  obtain b d1 where row: "insert_submission_row now sid ns d = Inr (b, d1)"
    using assms by (auto simp: insert_submission_def rbind_eq_Inr Let_def)
  have ev: "calm now d1 x" if "insert_event now sid Committed None det d1 = Inr x" for x det
    using that by (rule insert_event_calm [rotated]) simp
  have dup: "calm now x y" if "insert_event now sid RejectedDuplicate None det x = Inr y" for x y det
    using that by (rule insert_event_calm [rotated]) simp
  have "calm now d1 d'"
    using assms calm_trans [OF ev dup] calm_trans [OF ev insert_job_calm]
    by (auto simp: insert_submission_def rbind_eq_Inr Let_def row split: if_splits option.splits)
  with insert_submission_row_calm [OF row] show ?thesis by (rule calm_trans)
qed

lemma job_writers_calm:
  "calm now d (set_job_status now sid st job err bmp d)"
  "calm now d (snd (defer_job now i a msg d))"
  "calm now d (snd (touch_job_heartbeat now i a d))"
  "calm now d (snd (claim_next_job now retry d))"
  "set_job_phase now i a ph pr d = Inr (b, d') \<Longrightarrow> calm now d d'"
  by (auto simp: set_job_status_def defer_job_def touch_job_heartbeat_def claim_next_job_def set_job_phase_def
      Let_def rbind_eq_Inr intro: calm_jobs split: option.splits)

lemma complete_gates_job_calm: "complete_gates_job now sid i enq d = Inr d' \<Longrightarrow> calm now d d'"
  by (auto simp: complete_gates_job_def Let_def intro: calm_jobs calm_trans insert_event_calm split: if_splits)

lemma set_engine_image_calm: "calm now d (set_engine_image sid ref d)"
  by (intro calm_simple) (auto simp: set_engine_image_def intro: appends_same)

lemma append_event_calm: "st \<noteq> RoundAssigned \<Longrightarrow> append_event now sid st ref x d = Inr d' \<Longrightarrow> calm now d d'"
  by (auto simp: append_event_def intro: insert_event_calm)

lemma round_writers_calm:
  "calm now d (snd (defer_round_for_capacity now rid delay d))"
  "calm now d (snd (touch_round_heartbeat now rid d))"
  "set_round_phase now rid ph pr d = Inr (b, d') \<Longrightarrow> calm now d d'"
  by (auto simp: defer_round_for_capacity_def touch_round_heartbeat_def set_round_phase_def rbind_eq_Inr
      view_of_def is_running_def intro!: calm_rounds)

lemma claim_pending_round_cases:
  assumes "db_ok d" and "claim_pending_round now d = (Some q, d')"
  obtains r where "r \<in> set (rounds d)" "r_status r = RPending" "q = start_round now r"
    "d' = d\<lparr>rounds := update_where (\<lambda>x. r_id x = r_id r) (start_round now) (rounds d)\<rparr>"
    "\<forall>x \<in> set (rounds d). r_id x = r_id r \<longrightarrow> x = r"
proof (cases "best (\<lambda>a b. r_created_at b < r_created_at a) (filter (claimable_round now d) (rounds d))")
  case (Some r)
  from best_in [OF Some] have r: "r \<in> set (rounds d)" "r_status r = RPending"
    by (auto simp: claimable_round_def)
  have "\<forall>x \<in> set (rounds d). r_id x = r_id r \<longrightarrow> x = r"
    using db_okD(4) [OF assms(1)] r uniqD [of "\<lambda>_. True" r_id "rounds d" _ r] by (auto simp: rounds_ok_def)
  with r Some assms(2) that show thesis by (auto simp: claim_pending_round_def)
qed (use assms in \<open>auto simp: claim_pending_round_def\<close>)

lemma claim_pending_round_calm:
  assumes "db_ok d" and "claim_pending_round now d = (Some q, d')"
  shows "calm now d d'"
  using assms
proof (rule claim_pending_round_cases)
  fix r
  assume "r_status r = RPending" "d' = d\<lparr>rounds := update_where (\<lambda>x. r_id x = r_id r) (start_round now) (rounds d)\<rparr>"
    "\<forall>x \<in> set (rounds d). r_id x = r_id r \<longrightarrow> x = r"
  then show ?thesis by (auto simp: view_of_def start_round_def intro!: calm_rounds)
qed

lemma waive_calm: "waive_campaign_hotkey now cid hk reason ref who d = Inr (r, d') \<Longrightarrow> calm now d d'"
  by (auto simp: waive_campaign_hotkey_def Let_def rbind_eq_Inr
      intro: insert_event_calm split: option.splits if_splits)

lemma weight_writers_calm:
  "calm now d (snd (insert_weight_set t b v u ws bd d))"
  "calm now d (mark_weight_set_result i ok err d)"
  by (auto simp: insert_weight_set_def mark_weight_set_result_def intro!: calm_simple appends_same)

section \<open>Steps that move the crown of an idle campaign\<close>

lemma has_live_round_views: "has_live_round d cid \<longleftrightarrow> (\<exists>rid inc. (rid, cid, inc, True) \<in> set (views d))"
  by (force simp: has_live_round_def views_def view_of_def)

lemma crown_step_ok:
  assumes "system_ok now d js" and "db_ok d'" and "views d' = views d" and "marks d' = marks d"
    and "appends now d d'" and "\<And>c. has_live_round d c \<Longrightarrow> wearer d' c = wearer d c" and "history_ok d'"
  shows "system_ok now d' js"
proof -
  have "log_ok now d'" using assms by (auto simp: system_ok_def intro: appends_log)
  moreover have "seated_live d' = seated_live d" by (simp add: fun_eq_iff seated_live_def assms(3,4))
  then have "assigned_ok d'"
    using assms(1) appends_assigned [OF assms(5)] unfolding system_ok_def assigned_ok_def by metis
  moreover have "incumbents_ok d'"
    using assms(1,6) unfolding system_ok_def incumbents_ok_def assms(3,4) has_live_round_views by metis
  moreover have "unscored_ok d' = unscored_ok d" by (simp only: unscored_ok_def assms(3,4))
  moreover have "job_ok d' = job_ok d" by (rule ext) (simp only: job_ok_def assms(3,4))
  ultimately show ?thesis using assms(1,2,7) unfolding system_ok_def by simp
qed

lemma insert_history_effect:
  assumes "insert_history h d = Inr d'"
  shows "views d' = views d" "marks d' = marks d" "events d' = events d" "leaders d' = leaders d"
    "leader_history d' = leader_history d @ [h\<lparr>h_id := next_history d\<rparr>]"
  unfolding insert_history_eq_Inr [OF assms] by (simp_all add: views_def marks_def)

lemma replay_h_id [simp]: "crown_after cid (h\<lparr>h_id := i\<rparr>) = crown_after cid h"
  by (simp add: fun_eq_iff crown_after_def split: leader_event.splits)

text \<open>Deleting the crown row of a campaign, with the history row that says so.\<close>

lemma wearer_filter:
  assumes "\<And>l. l \<in> set (leaders d) \<Longrightarrow> l_campaign_id l = cid \<Longrightarrow> \<not> P l" and "\<And>l. l_campaign_id l \<noteq> cid \<Longrightarrow> P l"
  shows "wearer (d\<lparr>leaders := filter P (leaders d)\<rparr>) c = (if c = cid then None else wearer d c)"
proof -
  have "find (\<lambda>l. l_campaign_id l = c) (filter P ls) =
      (if c = cid then None else find (\<lambda>l. l_campaign_id l = c) ls)"
    if "\<And>l. l \<in> set ls \<Longrightarrow> l_campaign_id l = cid \<Longrightarrow> \<not> P l" for ls
    using that assms(2) by (induction ls) auto
  from this [of "leaders d"] assms(1) show ?thesis by (simp add: wearer_def leader_of_def)
qed

lemma vacate_ok:
  assumes "system_ok now d js" and "vacate_leader_if_idle now cid eps d = Inr (b, d')"
  shows "system_ok now d' js"
proof (cases b)
  case False
  then have "d' = d" using assms(2)
    by (auto simp: vacate_leader_if_idle_def Let_def rbind_eq_Inr split: if_splits option.splits)
  with assms(1) show ?thesis by simp
next
  case True
  obtain l d1 where idle: "\<not> has_live_round d cid"
    and h: "insert_history (vacated_row now cid l eps) d1 = Inr d'" and d1: "d1 = delete_leader cid d"
    using assms(2) True
    by (auto simp: vacate_leader_if_idle_def Let_def rbind_eq_Inr split: if_splits option.splits)
  note e = insert_history_effect [OF h]
  have w: "wearer d1 c = (if c = cid then None else wearer d c)" for c
    by (simp add: d1 wearer_def leader_of_delete)
  have "wearer d' = wearer d1" using e(4) by (rule wearer_leaders)
  have "db_ok d'"
    using assms by (auto simp: system_ok_def intro: vacate_leader_db_ok)
  moreover have s1: "views d1 = views d" "marks d1 = marks d" "events d1 = events d" "leader_history d1 = leader_history d"
    by (simp_all add: d1 delete_leader_def views_def marks_def)
  then have "views d' = views d" "marks d' = marks d" "events d' = events d" by (simp_all add: e(1-3))
  moreover have "history_ok d'"
    using assms(1) unfolding history_ok_def e(5) replay_snoc \<open>wearer d' = wearer d1\<close> w s1(4)
    by (auto simp: crown_after_def vacated_row_def system_ok_def history_ok_def)
  ultimately show ?thesis
    using idle by (intro crown_step_ok [OF assms(1)]) (auto simp: \<open>wearer d' = wearer d1\<close> w intro: appends_same)
qed

definition crown_move :: "uuid \<Rightarrow> db \<Rightarrow> db \<Rightarrow> bool" where
  "crown_move cid d d' = (views d' = views d \<and> marks d' = marks d \<and> events d' = events d \<and>
     (\<forall>c. c \<noteq> cid \<longrightarrow> wearer d' c = wearer d c) \<and> (history_ok d \<longrightarrow> history_ok d'))"

lemma crown_move_trans: "crown_move cid d d1 \<Longrightarrow> crown_move cid d1 d2 \<Longrightarrow> crown_move cid d d2"
  by (simp add: crown_move_def)

lemma crown_move_history:
  assumes "insert_history h d1 = Inr d'" and "h_campaign_id h = cid"
    and "views d1 = views d" "marks d1 = marks d" "events d1 = events d" "leader_history d1 = leader_history d"
    and "\<And>c. wearer d1 c = (if c = cid then crown_after cid h (wearer d c) else wearer d c)"
  shows "crown_move cid d d'"
proof -
  note e = insert_history_effect [OF assms(1)]
  have w: "wearer d' = wearer d1" using e(4) by (rule wearer_leaders)
  have "history_ok d'" if "history_ok d"
    using that assms(2) unfolding history_ok_def e(5) replay_snoc w assms(6,7)
    by (auto simp: crown_after_def)
  then show ?thesis by (simp add: crown_move_def e(1-3) assms(3-5,7) w)
qed

lemma seat_replacement_move:
  assumes "no_crown_for cid d" and "seat_replacement now cid eps q d = Inr d'"
  shows "crown_move cid d d'"
proof -
  obtain n t where q: "q = (n, t)" by fastforce
  obtain r sc where "round_of d (n_round_id n) = Some r" "n_score n = Some sc"
    and h: "insert_history (seated_row now cid (r_ordinal r) n t eps)
            (d\<lparr>leaders := leaders d @ [\<lparr>l_campaign_id = cid, l_submission_id = s_id t,
               l_image_ref = n_image_ref n, l_hotkey = s_hotkey t, l_won_at_round_id = n_round_id n,
               l_won_at_ordinal = r_ordinal r, l_last_score = sc,
               l_last_scored_round_id = Some (n_round_id n), l_updated_at = now\<rparr>]\<rparr>) = Inr d'"
    using assms(2) by (auto simp: q seat_replacement_def rbind_eq_Inr split: option.splits)
  have none: "leader_of d cid = None"
    using assms(1) by (simp add: no_crown_for_def leader_of_def find_eq_None)
  show ?thesis
    by (rule crown_move_history [OF h])
      (use none in \<open>auto simp: seated_row_def views_def marks_def crown_after_def wearer_def leader_of_snoc\<close>)
qed

lemma replace_leader_move:
  assumes "db_ok d" and "leader_with_hotkey d cid hk = Some l" and "replace_leader now cid hk eps l d = Inr (p, d')"
  shows "crown_move cid d d'"
proof -
  let ?d1 = "d\<lparr>leaders := filter (\<lambda>x. \<not> (l_campaign_id x = cid \<and> l_hotkey x = hk)) (leaders d)\<rparr>"
  obtain d2 where h: "insert_history (vacated_row now cid l eps) ?d1 = Inr d2"
    and p: "case p of None \<Rightarrow> d' = d2 | Some q \<Rightarrow> seat_replacement now cid eps q d2 = Inr d'"
    using replace_leader_cases [OF assms(3)] by auto
  note del = delete_hotkey_leader [OF assms(1,2)]
  have none: "no_crown_for cid d2"
    using del(2) unfolding insert_history_eq_Inr [OF h] by (simp add: no_crown_for_def)
  have w: "wearer ?d1 c = (if c = cid then None else wearer d c)" for c
    by (rule wearer_filter) (use del(2) in \<open>auto simp: no_crown_for_def\<close>)
  have "crown_move cid d d2"
  proof (rule crown_move_history [OF h])
    show "wearer ?d1 c = (if c = cid then crown_after cid (vacated_row now cid l eps) (wearer d c) else wearer d c)" for c
      unfolding w by (simp add: crown_after_def vacated_row_def)
  qed (simp_all add: vacated_row_def views_def marks_def)
  with p none show ?thesis
    by (auto intro: crown_move_trans seat_replacement_move split: option.splits)
qed

lemma apply_exclusion_calm:
  assumes "apply_exclusion now cid hk ref x d = Inr d'"
  shows "calm now d d'"
proof -
  let ?d1 = "stop_pending_jobs now cid hk d"
  have c: "calm now d ?d1" unfolding stop_pending_jobs_def by (rule calm_jobs)
  have "calm now ?d1 d2" if "exclude_submissions now cid hk ref x ?d1 = Inr d2" for d2
    using that unfolding exclude_submissions_def
    by (rule rfold_invariant) (auto intro: calm_trans insert_event_calm)
  with c assms show ?thesis
    by (auto simp: apply_exclusion_def Let_def intro: calm_trans split: if_splits)
qed

lemma disqualify_ok:
  assumes "system_ok now d js" and "disqualify_campaign_hotkey now cid hk reason ref who eps d = Inr (r, d')"
  shows "system_ok now d' js"
  using assms(2)
proof (rule disqualifyE)
  fix d2 p
  assume g: "exclusion_guards cid (strip hk) d = Inr ()"
    and ap: "apply_exclusion now cid (strip hk) (strip ref) (manual_detail action_disqualified (strip reason) (strip who)) d = Inr d2"
    and re: "reassign_crown now cid (strip hk) eps d2 = Inr (p, d')"
  have c: "calm now d d2" by (rule apply_exclusion_calm [OF ap])
  have ok2: "system_ok now d2 js"
    using calm_ok [OF assms(1) c] apply_exclusion_db_ok [OF _ ap] assms(1) by (simp add: system_ok_def)
  have idle: "\<not> has_live_round d2 cid"
    using g c by (auto simp: exclusion_guards_def rbind_eq_Inr has_live_round_views calm_def)
  show ?thesis
  proof (cases "leader_with_hotkey d2 cid (strip hk)")
    case None
    with re ok2 show ?thesis by (simp add: reassign_crown_def)
  next
    case (Some l)
    then have rl: "replace_leader now cid (strip hk) eps l d2 = Inr (p, d')" using re by (simp add: reassign_crown_def)
    have ok: "db_ok d2" "history_ok d2" using ok2 by (simp_all add: system_ok_def)
    have "crown_move cid d2 d'" using ok(1) Some rl by (rule replace_leader_move)
    then have m: "views d' = views d2" "marks d' = marks d2" "events d' = events d2"
      "\<And>c. c \<noteq> cid \<Longrightarrow> wearer d' c = wearer d2 c" "history_ok d'"
      using ok(2) by (auto simp: crown_move_def)
    show ?thesis
    proof (rule crown_step_ok [OF ok2 replace_leader_db_ok [OF ok(1) Some rl] m(1,2)])
      show "wearer d' c = wearer d2 c" if "has_live_round d2 c" for c
        using that idle by (intro m(4)) auto
    qed (use m in \<open>auto intro: appends_same\<close>)
  qed
qed

section \<open>Steps that close rounds\<close>

definition close_view :: "uuid set \<Rightarrow> round_view \<Rightarrow> round_view" where
  "close_view S v = (case v of (rid, cid, inc, b) \<Rightarrow> (rid, cid, inc, b \<and> rid \<notin> S))"

lemma in_close_views:
  "(rid, cid, inc, True) \<in> set (map (close_view S) vs) \<longleftrightarrow> (rid, cid, inc, True) \<in> set vs \<and> rid \<notin> S"
  by (force simp: close_view_def)

text \<open>
  What closing a set of rounds has to respect: the other rounds' marks, the crowns of the
  campaigns with another live round, and the state of the challengers it leaves behind.
\<close>

lemma close_ok:
  assumes ok: "system_ok now d js" "db_ok d'" "log_ok now d'" and v: "views d' = map (close_view S) (views d)"
    and m: "map fst (marks d') = map fst (marks d)"
      "\<And>i rid s ro img b. rid \<notin> S \<Longrightarrow> ((i, rid, s, ro, img), b) \<in> set (marks d') \<Longrightarrow> ((i, rid, s, ro, img), b) \<in> set (marks d)"
    and w: "\<And>rid cid inc. (rid, cid, inc, True) \<in> set (views d) \<Longrightarrow> rid \<notin> S \<Longrightarrow> wearer d' cid = wearer d cid"
    and h: "history_ok d'"
    and a: "\<And>s. latest_state d' s = Some RoundAssigned \<Longrightarrow> latest_state d s = Some RoundAssigned"
      "\<And>s i rid cid inc img. latest_state d' s = Some RoundAssigned \<Longrightarrow> rid \<in> S \<Longrightarrow>
        (rid, cid, inc, True) \<in> set (views d) \<Longrightarrow> ((i, rid, Some s, Challenger, img), False) \<notin> set (marks d)"
  shows "system_ok now d' js"
proof -
  have old: "incumbents_ok d" "assigned_ok d" "unscored_ok d" "\<forall>j \<in> set js. job_ok d j"
    using ok(1) by (simp_all add: system_ok_def)
  have fsts: "fst ` set (marks d') = fst ` set (marks d)" using m(1) by (metis list.set_map)
  have "incumbents_ok d'"
    using old(1) w m(2) unfolding incumbents_ok_def v in_close_views by metis
  moreover have "unscored_ok d'"
    using old(3) m(2) unfolding unscored_ok_def v in_close_views by metis
  moreover have "assigned_ok d'" unfolding assigned_ok_def
  proof (intro allI impI)
    fix s assume s: "latest_state d' s = Some RoundAssigned"
    then obtain rid cid inc i img b where live: "(rid, cid, inc, True) \<in> set (views d)"
      and seat: "((i, rid, Some s, Challenger, img), b) \<in> set (marks d)"
      using old(2) a(1) unfolding assigned_ok_def seated_live_def by blast
    have "\<not> b" using old(3) live seat unfolding unscored_ok_def by blast
    then have "rid \<notin> S" using a(2) s live seat by auto
    moreover have "(i, rid, Some s, Challenger, img) \<in> fst ` set (marks d')"
      using imageI [OF seat, of fst] unfolding fsts by simp
    then obtain b' where "((i, rid, Some s, Challenger, img), b') \<in> set (marks d')" by auto
    ultimately show "seated_live d' s" using live unfolding seated_live_def v in_close_views by blast
  qed
  moreover have "\<exists>b'. (rid, cid, inc, b') \<in> set (views d')" if "(rid, cid, inc, b) \<in> set (views d)" for rid cid inc b
  proof -
    have "close_view S (rid, cid, inc, b) \<in> set (views d')" using that by (simp add: v)
    then show ?thesis by (auto simp: close_view_def)
  qed
  then have "job_ok d' j" if "job_ok d j" for j
    using that unfolding job_ok_def fsts by blast
  ultimately show ?thesis using ok(2,3) h old(4) by (simp add: system_ok_def)
qed

lemma unscored_iff_mark:
  assumes "db_ok d"
  shows "s \<in> set (unscored d rid) \<longleftrightarrow> (\<exists>i img. ((i, rid, Some s, Challenger, img), False) \<in> set (marks d))"
proof
  assume "s \<in> set (unscored d rid)"
  then obtain n where n: "n \<in> set (round_entries d)" "n_round_id n = rid" "n_role n = Challenger"
    "n_status n \<noteq> EScored" "s = the (n_submission_id n)"
    by (auto simp: unscored_def unscored_challenger_def)
  obtain s' where "n_submission_id n = Some s'" using assms n(1,3) by (rule challenger_submission)
  with n have "entry_mark n = ((n_id n, rid, Some s, Challenger, n_image_ref n), False)"
    by (simp add: entry_mark_def)
  with n(1) show "\<exists>i img. ((i, rid, Some s, Challenger, img), False) \<in> set (marks d)"
    by (force simp: marks_def image_iff)
next
  assume "\<exists>i img. ((i, rid, Some s, Challenger, img), False) \<in> set (marks d)"
  then obtain n where "n \<in> set (round_entries d)" "n_round_id n = rid" "n_role n = Challenger"
    "n_status n \<noteq> EScored" "n_submission_id n = Some s"
    by (auto simp: marks_def entry_mark_def)
  then show "s \<in> set (unscored d rid)"
    by (auto simp: unscored_def unscored_challenger_def intro!: image_eqI [where x = n])
qed

lemma views_update:
  assumes "\<And>r. r \<in> set (rounds d) \<Longrightarrow> r_id (f r) = r_id r \<and> r_campaign_id (f r) = r_campaign_id r \<and> r_incumbent (f r) = r_incumbent r"
    and "\<And>r. r \<in> set (rounds d) \<Longrightarrow> live (r_status (f r)) \<longleftrightarrow> live (r_status r) \<and> r_id r \<notin> S"
    and "rounds d' = map f (rounds d)"
  shows "views d' = map (close_view S) (views d)"
  using assms by (auto simp: views_def view_of_def close_view_def)

lemma running_only:
  assumes "db_ok d" and "r \<in> set (rounds d)" and "q \<in> set (rounds d)" and "r_id q = r_id r"
  shows "q = r"
  using db_okD(4) [OF assms(1)] assms(2-4) uniqD [of "\<lambda>_. True" r_id "rounds d" q r] by (auto simp: rounds_ok_def)

lemma views_close:
  assumes "db_ok d" and "rounds d' = update_where P f (rounds d)"
    and "\<And>r. r_id (f r) = r_id r \<and> r_campaign_id (f r) = r_campaign_id r \<and> r_incumbent (f r) = r_incumbent r \<and> \<not> live (r_status (f r))"
  shows "views d' = map (close_view {r_id r | r. r \<in> set (rounds d) \<and> P r}) (views d)"
proof (rule views_update [where f = "\<lambda>r. if P r then f r else r"])
  show "rounds d' = map (\<lambda>r. if P r then f r else r) (rounds d)" using assms(2) by (simp add: update_where_def)
  show "live (r_status (if P r then f r else r)) \<longleftrightarrow>
      live (r_status r) \<and> r_id r \<notin> {r_id r | r. r \<in> set (rounds d) \<and> P r}" if "r \<in> set (rounds d)" for r
    using running_only [OF assms(1) that] that assms(3) [of r] by (auto split: if_splits)
qed (use assms(3) in auto)

lemma void_ok:
  assumes "system_ok now d js" and "void_round now rid reason detail d = Inr (b, d')"
  shows "system_ok now d' js"
proof -
  have ok: "db_ok d" "log_ok now d" using assms(1) by (simp_all add: system_ok_def)
  obtain b0 d0 where "void_round now rid reason detail d = Inr (b0, d0)" and f: "\<not> b0 \<longrightarrow> d0 = d" "db_ok d0" "log_ok now d0"
      "marks d0 = marks d"
    and t: "b0 \<longrightarrow> rounds d0 = update_where (is_running rid) (mark_void now reason
         (if sanitize_void_detail detail = [] then None else Some (sanitize_void_detail detail))) (rounds d) \<and>
       (\<forall>s. latest_state d0 s = (if s \<in> set (unscored d rid) then Some BenchQueued else latest_state d s)) \<and>
       leaders d0 = leaders d \<and> leader_history d0 = leader_history d"
    using void_round_effect [OF ok, of rid reason detail] by blast
  with assms(2) have eq: "d0 = d'" "b0 = b" by simp_all
  show ?thesis
  proof (cases b)
    case False
    with f(1) eq assms(1) show ?thesis by simp
  next
    case True
    with t eq have t: "rounds d' = update_where (is_running rid) (mark_void now reason
         (if sanitize_void_detail detail = [] then None else Some (sanitize_void_detail detail))) (rounds d)"
      "\<forall>s. latest_state d' s = (if s \<in> set (unscored d rid) then Some BenchQueued else latest_state d s)"
      "leaders d' = leaders d" "leader_history d' = leader_history d" by simp_all
    have w: "wearer d' = wearer d" using t(3) by (rule wearer_leaders)
    let ?S = "{r_id r | r. r \<in> set (rounds d) \<and> is_running rid r}"
    have S: "?S \<subseteq> {rid}" by (auto simp: is_running_def)
    show ?thesis
    proof (rule close_ok [OF assms(1), where S = ?S])
      show "views d' = map (close_view ?S) (views d)"
        using ok(1) t(1) by (rule views_close) (simp add: mark_void_def)
      show "history_ok d'" using assms(1) by (simp add: system_ok_def history_ok_def t(4) w)
      show "((i, rid', Some s, Challenger, img), False) \<notin> set (marks d)"
        if "latest_state d' s = Some RoundAssigned" "rid' \<in> ?S" for s i rid' img
        using that S t(2) unscored_iff_mark [OF ok(1), of s rid] by (auto split: if_splits)
    qed (use f eq t(2) in \<open>auto simp: w split: if_splits\<close>)
  qed
qed

lemma reap_ok:
  assumes "system_ok now d js" and "reap_stale_rounds now stale_s d = Inr (rs, d')"
  shows "system_ok now d' js"
proof -
  have ok: "db_ok d" "log_ok now d" using assms(1) by (simp_all add: system_ok_def)
  obtain d0 where "reap_stale_rounds now stale_s d = Inr (filter (stale now stale_s) (rounds d), d0)"
    and f: "db_ok d0" "log_ok now d0" "marks d0 = marks d"
    and t: "rounds d0 = update_where (stale now stale_s)
      (mark_void now void_heartbeat_stale (Some (stale_detail stale_s))) (rounds d)"
      "\<forall>s. latest_state d0 s = (if \<exists>r \<in> set (rounds d). stale now stale_s r \<and> s \<in> set (unscored d (r_id r))
       then Some BenchQueued else latest_state d s)"
      "leaders d0 = leaders d" "leader_history d0 = leader_history d"
    using reap_effect [OF ok, of stale_s] by blast
  with assms(2) have eq: "d0 = d'" by simp
  have w: "wearer d' = wearer d" using t(3) unfolding eq by (rule wearer_leaders)
  let ?S = "{r_id r | r. r \<in> set (rounds d) \<and> stale now stale_s r}"
  show ?thesis
  proof (rule close_ok [OF assms(1), where S = ?S])
    show "views d' = map (close_view ?S) (views d)"
      using ok(1) t(1) [unfolded eq] by (rule views_close) (simp add: mark_void_def)
    show "history_ok d'" using assms(1) by (simp add: system_ok_def history_ok_def t(4) [unfolded eq] w)
    show "((i, rid', Some s, Challenger, img), False) \<notin> set (marks d)"
      if "latest_state d' s = Some RoundAssigned" "rid' \<in> ?S" for s i rid' img
    proof
      assume "((i, rid', Some s, Challenger, img), False) \<in> set (marks d)"
      then have "s \<in> set (unscored d rid')" using unscored_iff_mark [OF ok(1)] by blast
      with that(2) have "latest_state d' s = Some BenchQueued" using t(2) [unfolded eq] by auto
      with that(1) show False by simp
    qed
  qed (use f eq t(2) in \<open>auto simp: w split: if_splits\<close>)
qed

section \<open>Progress reported by the pod\<close>

text \<open>A step that only moves entries forward, and gives no challenger a score.\<close>

definition mild :: "db \<Rightarrow> db \<Rightarrow> bool" where
  "mild d d' = (views d' = views d \<and> leaders d' = leaders d \<and> leader_history d' = leader_history d \<and>
     events d' = events d \<and> map fst (marks d') = map fst (marks d) \<and>
     (\<forall>i rid s img. ((i, rid, s, Challenger, img), True) \<in> set (marks d') \<longrightarrow>
        ((i, rid, s, Challenger, img), True) \<in> set (marks d)))"

lemma mild_refl [simp]: "mild d d"
  by (simp add: mild_def)

lemma mild_trans: "mild d d1 \<Longrightarrow> mild d1 d2 \<Longrightarrow> mild d d2"
  by (auto simp: mild_def)

lemma same_fsts:
  assumes "map fst xs = map fst ys"
  shows "(\<exists>b. (m, b) \<in> set xs) \<longleftrightarrow> (\<exists>b. (m, b) \<in> set ys)"
proof -
  have e: "(\<exists>b. (m, b) \<in> set zs) \<longleftrightarrow> m \<in> set (map fst zs)" for zs by force
  show ?thesis unfolding e assms ..
qed

lemma mild_job_ok:
  assumes "mild d d'"
  shows "job_ok d' = job_ok d"
proof -
  have "fst ` set (marks d') = fst ` set (marks d)"
    using assms unfolding mild_def by (metis list.set_map)
  with assms show ?thesis by (simp add: fun_eq_iff job_ok_def mild_def)
qed

lemma mild_ok:
  assumes "system_ok now d js" and "mild d d'" and "db_ok d'"
  shows "system_ok now d' js"
proof -
  have v: "views d' = views d" and h: "leader_history d' = leader_history d" and w: "wearer d' = wearer d"
    and ev: "events d' = events d"
    and m: "\<And>m. (\<exists>b. (m, b) \<in> set (marks d')) \<longleftrightarrow> (\<exists>b. (m, b) \<in> set (marks d))"
    and sc: "\<And>i rid s img. ((i, rid, s, Challenger, img), True) \<in> set (marks d') \<Longrightarrow>
        ((i, rid, s, Challenger, img), True) \<in> set (marks d)"
    using assms(2) wearer_leaders [of d' d] same_fsts [of "marks d'" "marks d"] by (auto simp: mild_def)
  have lat: "latest_state d' = latest_state d"
    by (simp add: fun_eq_iff latest_state_def latest_event_def events_of_def ev)
  have "log_ok now d'" using assms ev by (auto simp: system_ok_def intro: appends_log appends_same)
  moreover have "incumbents_ok d'"
    using assms(1) m unfolding system_ok_def incumbents_ok_def v w by blast
  moreover have "unscored_ok d'"
    using assms(1) sc unfolding system_ok_def unscored_ok_def v by (metis (full_types))
  moreover have "seated_live d' = seated_live d" unfolding fun_eq_iff seated_live_def v using m by blast
  then have "assigned_ok d'" using assms(1) by (simp add: system_ok_def assigned_ok_def lat)
  moreover have "history_ok d'" using assms(1) by (simp add: system_ok_def history_ok_def h w)
  ultimately show ?thesis using assms(1,3) mild_job_ok [OF assms(2)] by (simp add: system_ok_def)
qed

lemma live_status_mild:
  assumes "update_round_entry_live_status eid st reason d = Inr (b, d')"
    and "st = ''scored'' \<Longrightarrow> \<forall>n \<in> set (round_entries d). n_id n = eid \<longrightarrow> n_role n = Baseline"
  shows "mild d d'"
proof (cases "d' = d")
  case False
  then obtain st' P where st': "status_of_string st = Some st'"
    and P: "P = (\<lambda>n. n_id n = eid \<and> (n_status n = EPending \<or> n_status n = ERunning))"
    and d': "d' = d\<lparr>round_entries := update_where P (\<lambda>n. n\<lparr>n_status := st', n_disqualify_reason :=
        (case reason of Some x \<Rightarrow> Some x | None \<Rightarrow> n_disqualify_reason n)\<rparr>) (round_entries d)\<rparr>"
    using assms(1) by (auto simp: update_round_entry_live_status_def Let_def split: option.splits if_splits)
  have sc: "st = ''scored''" if "st' = EScored"
    using st' that by (auto simp: status_of_string_def split: if_splits)
  have "\<And>i rid s img. ((i, rid, s, Challenger, img), True) \<in> set (marks d') \<Longrightarrow>
        ((i, rid, s, Challenger, img), True) \<in> set (marks d)"
    using assms(2) sc unfolding d' by (auto simp: marks_def entry_mark_def update_where_def P image_iff split: if_splits)
  then show ?thesis unfolding mild_def
    by (auto simp: d' views_def marks_def entry_mark_def update_where_def)
qed simp

text \<open>The first row of a job that is no candidate is the baseline of its round, in the table too.\<close>

lemma baseline_target:
  assumes "db_ok d" and "job_ok d j" and "find (\<lambda>v. \<not> is_candidate v) (snd j) = Some v"
    and "n \<in> set (round_entries d)" and "n_id n = n_id (fst v)"
  shows "n_role n = Baseline"
proof -
  have v: "v \<in> set (snd j)" "n_role (fst v) = Baseline"
    using find_SomeD [OF assms(3)] by (auto simp: is_candidate_def)
  then have "fst (entry_mark (fst v)) \<in> fst ` set (marks d)"
    using assms(2) by (auto simp: job_ok_def)
  then obtain q where q: "q \<in> set (round_entries d)" "fst (entry_mark q) = fst (entry_mark (fst v))"
    by (auto simp: marks_def)
  then have "n_id q = n_id n" "n_role q = Baseline" using assms(5) v(2) by (auto simp: entry_mark_def)
  moreover have "q = n"
    using db_okD(5) [OF assms(1)] q(1) assms(4) \<open>n_id q = n_id n\<close> uniqD [of "\<lambda>_. True" n_id "round_entries d" q n]
    by (auto simp: entries_ok_def)
  ultimately show ?thesis by simp
qed

definition honest_status :: "string \<times> json \<Rightarrow> bool" where
  "honest_status p = (case snd p of JObj item \<Rightarrow>
       fst p = ''baseline'' \<or> (\<exists>st. jget item ''status'' = JStr st \<and> st \<noteq> ''scored'') | _ \<Rightarrow> True)"

lemma beacon_honest:
  assumes "read_pod_entry_statuses show b = Some sts" and "p \<in> set sts"
  shows "honest_status p"
proof -
  obtain es q where "q \<in> set es" "beacon_entry show q = Some p"
    using assms set_take_subset
    by (fastforce simp: read_pod_entry_statuses_def Let_def in_map_filter split: json.splits if_splits)
  then show ?thesis
    by (auto simp: beacon_entry_def honest_status_def jget_def split: if_splits json.splits)
qed

lemma write_entry_status_mild:
  assumes "db_ok d" and "job_ok d j" and "honest_status p"
  shows "mild d (write_entry_status show (snd j) p d) \<and> db_ok (write_entry_status show (snd j) p d)"
proof (cases "\<exists>item eid b d'. snd p = JObj item \<and> status_target (snd j) (fst p) = Some eid \<and>
    update_round_entry_live_status eid (py_str show (jget item ''status''))
      (case jget item ''reason'' of JNull \<Rightarrow> None | v \<Rightarrow> Some (py_str show v)) d = Inr (b, d')")
  case False
  then have "write_entry_status show (snd j) p d = d"
    by (auto simp: write_entry_status_def split: json.splits option.splits sum.splits)
  with assms(1) show ?thesis by simp
next
  case True
  then obtain item eid b d' where i: "snd p = JObj item" "status_target (snd j) (fst p) = Some eid"
    and u: "update_round_entry_live_status eid (py_str show (jget item ''status''))
      (case jget item ''reason'' of JNull \<Rightarrow> None | v \<Rightarrow> Some (py_str show v)) d = Inr (b, d')" by blast
  have "\<forall>n \<in> set (round_entries d). n_id n = eid \<longrightarrow> n_role n = Baseline"
    if "py_str show (jget item ''status'') = ''scored''"
  proof -
    have "fst p = ''baseline''" using assms(3) i(1) that by (auto simp: honest_status_def py_str_def)
    then obtain v where "find (\<lambda>v. \<not> is_candidate v) (snd j) = Some v" "eid = n_id (fst v)"
      using i(2) by (auto simp: status_target_def)
    then show ?thesis using baseline_target [OF assms(1,2)] by blast
  qed
  from live_status_mild [OF u this] update_live_status_db_ok [OF assms(1) u] i u show ?thesis
    by (simp add: write_entry_status_def)
qed

lemma write_entry_statuses_mild:
  assumes "db_ok d" and "job_ok d j" and "\<forall>p \<in> set sts. honest_status p"
  shows "mild d (write_entry_statuses show (snd j) sts d) \<and> db_ok (write_entry_statuses show (snd j) sts d)"
  using assms unfolding write_entry_statuses_def
proof (induction sts arbitrary: d)
  case (Cons p sts)
  have p: "mild d (write_entry_status show (snd j) p d)" "db_ok (write_entry_status show (snd j) p d)"
    using write_entry_status_mild [OF Cons.prems(1,2), of p] Cons.prems(3) by auto
  with Cons.IH [of "write_entry_status show (snd j) p d"] mild_job_ok [OF p(1)] Cons.prems(2,3)
  show ?case by (auto intro: mild_trans)
qed simp

lemma beacon_ok:
  assumes "system_ok now d js" and "j \<in> set js" and "read_pod_entry_statuses show b = Some sts"
  shows "system_ok now (write_entry_statuses show (snd j) sts d) js"
proof -
  have "db_ok d" "job_ok d j" using assms(1,2) by (auto simp: system_ok_def)
  with write_entry_statuses_mild [of d j sts "show"] beacon_honest [OF assms(3)] mild_ok [OF assms(1)]
  show ?thesis by blast
qed

section \<open>A worker takes a round\<close>

lemma list_round_entries_job_ok:
  assumes "db_ok d" and "(rid, cid, inc, b) \<in> set (views d)" and "r_id q = rid" "r_campaign_id q = cid" "r_incumbent q = inc"
  shows "job_ok d (q, list_round_entries d rid)"
proof -
  let ?ns = "filter (\<lambda>n. n_round_id n = rid) (round_entries d)"
  have "distinct (map n_id (round_entries d))"
    using db_okD(5) [OF assms(1)] by (simp add: entries_ok_def uniq_def)
  then have "distinct (map n_id ?ns)" by (rule distinct_map_filter)
  then have "distinct (map n_id (sort_key n_id ?ns))" by (simp add: distinct_map)
  moreover have "(fst \<circ> entry_mark) ` set ?ns = {m \<in> fst ` set (marks d). fst (snd m) = rid}"
    by (force simp: marks_def entry_mark_def)
  ultimately show ?thesis
    using assms(2-5) unfolding job_ok_def list_round_entries_def by (auto simp: comp_def image_image)
qed

lemma claim_ok:
  assumes "system_ok now d js" and "claim_pending_round now d = (Some q, d')"
  shows "system_ok now d' ((q, list_round_entries d' (r_id q)) # js)"
proof -
  have ok: "db_ok d" using assms(1) by (simp add: system_ok_def)
  have ok': "db_ok d'" using claim_pending_round_db_ok [OF ok, of now] assms(2) by simp
  have c: "calm now d d'" using ok assms(2) by (rule claim_pending_round_calm)
  have s: "system_ok now d' js" using assms(1) c ok' by (rule calm_ok)
  obtain r where r: "r \<in> set (rounds d)" "q = start_round now r"
    using ok assms(2) by (rule claim_pending_round_cases)
  then have "view_of r \<in> set (views d')" using c by (auto simp: calm_def views_def)
  then have "job_ok d' (q, list_round_entries d' (r_id q))"
    using r(2) by (intro list_round_entries_job_ok [OF ok']) (auto simp: view_of_def start_round_def)
  with s show ?thesis by (simp add: system_ok_def)
qed

section \<open>A round is created\<close>

definition new_mark :: "uuid \<Rightarrow> uuid option \<Rightarrow> (int \<times> uuid \<times> uuid option \<times> entry_role \<times> string) \<times> bool \<Rightarrow> bool" where
  "new_mark rid inc x = (case x of ((i, rid', s, ro, img), b) \<Rightarrow> rid' = rid \<and> \<not> b \<and> (ro = Leader \<longrightarrow> s = inc))"

definition fills :: "ts \<Rightarrow> uuid \<Rightarrow> uuid option \<Rightarrow> db \<Rightarrow> db \<Rightarrow> bool" where
  "fills now rid inc d d' = (views d' = views d \<and> leaders d' = leaders d \<and> leader_history d' = leader_history d \<and>
     (\<exists>es. events d' = events d @ es \<and> (\<forall>e \<in> set es. e_created_at e = now)) \<and>
     (\<exists>ms. marks d' = marks d @ ms \<and> (\<forall>x \<in> set ms. new_mark rid inc x)))"

lemma fills_refl: "fills now rid inc d d"
  by (simp add: fills_def)

lemma fills_trans:
  assumes "fills now rid inc d d1" and "fills now rid inc d1 d2"
  shows "fills now rid inc d d2"
proof -
  obtain es ms where 1: "events d1 = events d @ es" "\<forall>e \<in> set es. e_created_at e = now" "marks d1 = marks d @ ms"
    "\<forall>x \<in> set ms. new_mark rid inc x"
    using assms(1) unfolding fills_def by blast
  obtain es' ms' where 2: "events d2 = events d1 @ es'" "\<forall>e \<in> set es'. e_created_at e = now" "marks d2 = marks d1 @ ms'"
    "\<forall>x \<in> set ms'. new_mark rid inc x"
    using assms(2) unfolding fills_def by blast
  have "events d2 = events d @ (es @ es') \<and> (\<forall>e \<in> set (es @ es'). e_created_at e = now)" using 1 2 by auto
  moreover have "marks d2 = marks d @ (ms @ ms') \<and> (\<forall>x \<in> set (ms @ ms'). new_mark rid inc x)"
    using 1(3,4) 2(3,4) by auto
  ultimately show ?thesis using assms unfolding fills_def by metis
qed

lemma insert_entry_fills:
  assumes "insert_entry rid s ro img d = Inr d'" and "ro = Leader \<Longrightarrow> s = inc"
  shows "fills now rid inc d d'"
  using assms unfolding fills_def by (auto simp: insert_entry_eq_Inr views_def marks_def entry_mark_def new_mark_def)

lemma insert_event_fills:
  assumes "insert_event now sid st ref x d = Inr d'"
  shows "fills now rid inc d d'"
  using assms by (auto simp: insert_event_eq_Inr fills_def views_def marks_def)

lemma seat_challenger_fills:
  assumes "seat_challenger now rid ord k d = Inr d'"
  shows "fills now rid inc d d'"
proof -
  obtain d1 where 1: "insert_entry rid (Some (k_id k)) Challenger (k_image_ref k) d = Inr d1"
    and 2: "insert_event now (k_id k) RoundAssigned None (assigned_detail rid ord) d1 = Inr d'"
    using assms by (auto simp: seat_challenger_def rbind_eq_Inr)
  have "fills now rid inc d d1" using 1 by (rule insert_entry_fills) simp
  then show ?thesis using insert_event_fills [OF 2] by (rule fills_trans)
qed

lemma seat_challengers_fills:
  assumes "rfold (seat_challenger now rid ord) ks d = Inr d'"
  shows "fills now rid inc d d'"
  using assms fills_refl by (rule rfold_invariant) (blast intro: fills_trans seat_challenger_fills)

lemma reject_duplicates_fills:
  assumes "rfold (reject_duplicate now) ds d = Inr d'"
  shows "fills now rid inc d d'"
  using assms fills_refl
  by (rule rfold_invariant) (auto simp: reject_duplicate_def intro: fills_trans insert_event_fills)

lemma fill_round_fills:
  assumes "fill_round now rid ord sp ks ds d = Inr d'"
  obtains d1 where "views d1 = views d @ [(rid, rs_campaign_id sp, wearer d (rs_campaign_id sp), True)]"
    "marks d1 = marks d" "leaders d1 = leaders d" "leader_history d1 = leader_history d" "events d1 = events d"
    "rid \<notin> round_ids d" "fills now rid (wearer d (rs_campaign_id sp)) d1 d'"
proof -
  let ?l = "leader_of d (rs_campaign_id sp)" and ?inc = "wearer d (rs_campaign_id sp)"
  obtain d1 d2 d3 d4 where
    1: "insert_round now rid ord (map_option l_submission_id ?l) sp d = Inr d1"
    and 2: "insert_entry rid None Baseline (Some (rs_baseline_image_ref sp)) d1 = Inr d2"
    and 3: "seat_leader rid ?l d2 = Inr d3"
    and 4: "rfold (seat_challenger now rid ord) ks d3 = Inr d4"
    and 5: "rfold (reject_duplicate now) ds d4 = Inr d'"
    using assms by (auto simp: fill_round_def Let_def rbind_eq_Inr)
  obtain r where r: "d1 = d\<lparr>rounds := rounds d @ [r]\<rparr>" "r_id r = rid" "r_campaign_id r = rs_campaign_id sp"
    "r_status r = RPending" "r_incumbent r = map_option l_submission_id ?l" "rid \<notin> round_ids d"
    using insert_round_effect [OF 1] by blast
  have "fills now rid ?inc d1 d2" using 2 by (rule insert_entry_fills) simp
  moreover have "fills now rid ?inc d2 d3"
    using 3 by (auto simp: seat_leader_def wearer_def intro: fills_refl insert_entry_fills split: option.splits)
  ultimately have "fills now rid ?inc d1 d'"
    using seat_challengers_fills [OF 4] reject_duplicates_fills [OF 5] by (blast intro: fills_trans)
  with r that [of d1] show thesis by (simp add: views_def view_of_def wearer_def)
qed

lemma views_round_ids: "fst ` set (views d) = round_ids d"
  by (force simp: views_def view_of_def round_ids_def)

lemma marks_round_ids: "db_ok d \<Longrightarrow> ((i, rid, s, ro, img), b) \<in> set (marks d) \<Longrightarrow> rid \<in> round_ids d"
  using db_okD(5) by (auto simp: marks_def entry_mark_def entries_ok_def)

lemma fill_ok:
  assumes "system_ok now d js" and "fill_round now rid ord sp ks ds d = Inr d'"
  shows "system_ok now d' js"
proof -
  let ?cid = "rs_campaign_id sp"
  have ok: "db_ok d" "log_ok now d" "incumbents_ok d" "assigned_ok d" "unscored_ok d" "history_ok d"
    "\<forall>j \<in> set js. job_ok d j" using assms(1) by (simp_all add: system_ok_def)
  obtain d1 where 1: "views d1 = views d @ [(rid, ?cid, wearer d ?cid, True)]" "marks d1 = marks d"
    "leaders d1 = leaders d" "leader_history d1 = leader_history d" "events d1 = events d" "rid \<notin> round_ids d"
    and f: "fills now rid (wearer d ?cid) d1 d'"
    using assms(2) by (rule fill_round_fills)
  obtain es ms where es: "events d' = events d @ es" "\<forall>e \<in> set es. e_created_at e = now"
    and ms: "marks d' = marks d @ ms" "\<forall>x \<in> set ms. new_mark rid (wearer d ?cid) x"
    using f unfolding fills_def 1(2,5) by blast
  have new: "rid' = rid \<and> \<not> b \<and> (ro = Leader \<longrightarrow> s = wearer d ?cid)"
    if "((i, rid', s, ro, img), b) \<in> set ms" for i rid' s ro img b
    using ms(2) that by (auto simp: new_mark_def)
  have v: "views d' = views d @ [(rid, ?cid, wearer d ?cid, True)]" and w: "wearer d' = wearer d"
    and h: "leader_history d' = leader_history d"
    using f 1(1,3,4) wearer_leaders [of d' d] by (simp_all add: fills_def)
  have ok': "db_ok d'" using ok(1) assms(2) by (rule fill_round_db_ok)
  have old: "rid' \<noteq> rid" if "(rid', cid', inc, b) \<in> set (views d)" for rid' cid' inc b
    using imageI [OF that, of fst] 1(6) views_round_ids [of d] by auto
  have oldm: "rid' \<noteq> rid" if "((i, rid', s, ro, img), b) \<in> set (marks d)" for i rid' s ro img b
    using marks_round_ids [OF ok(1) that] 1(6) by auto
  have "log_ok now d'" using ok' ok(1,2) es by (auto simp: log_ok_iff)
  moreover have "incumbents_ok d'" unfolding incumbents_ok_def w v ms(1)
  proof (intro allI impI conjI)
    fix rid' cid' inc assume "(rid', cid', inc, True) \<in> set (views d @ [(rid, ?cid, wearer d ?cid, True)])"
    then consider "(rid', cid', inc, True) \<in> set (views d)" "rid' \<noteq> rid" | "rid' = rid" "cid' = ?cid" "inc = wearer d ?cid"
      using old by auto
    note c = this
    from c show "inc = wearer d cid'" using ok(3) by cases (auto simp: incumbents_ok_def)
    show "s = inc" if "((i, rid', s, Leader, img), b) \<in> set (marks d @ ms)" for i s img b
      using c
    proof cases
      case 1
      with that new have "((i, rid', s, Leader, img), b) \<in> set (marks d)" by auto
      with 1 ok(3) show ?thesis unfolding incumbents_ok_def by blast
    next
      case 2
      have "((i, rid', s, Leader, img), b) \<notin> set (marks d)" using oldm 2(1) by blast
      with that have "((i, rid', s, Leader, img), b) \<in> set ms" by simp
      with 2 new show ?thesis by blast
    qed
  qed
  moreover have "unscored_ok d'" unfolding unscored_ok_def v ms(1)
  proof (intro allI impI)
    fix rid' cid' inc i s img b
    assume v': "(rid', cid', inc, True) \<in> set (views d @ [(rid, ?cid, wearer d ?cid, True)])"
      and m': "((i, rid', s, Challenger, img), b) \<in> set (marks d @ ms)"
    show "\<not> b"
    proof (cases "((i, rid', s, Challenger, img), b) \<in> set ms")
      case True
      with new show ?thesis by blast
    next
      case False
      with m' v' oldm have "((i, rid', s, Challenger, img), b) \<in> set (marks d)" "(rid', cid', inc, True) \<in> set (views d)"
        by auto
      with ok(5) show ?thesis unfolding unscored_ok_def by blast
    qed
  qed
  moreover have "assigned_ok d'" unfolding assigned_ok_def
  proof (intro allI impI)
    fix s assume s: "latest_state d' s = Some RoundAssigned"
    note e = fill_round_effect [OF ok(1,2) assms(2)]
    show "seated_live d' s"
    proof (cases "s \<in> k_id ` set ks")
      case True
      with e obtain img where "(Challenger, Some s, img) \<in> set (roster d' rid)"
        by (auto simp: challenger_line_def)
      then obtain i b where "((i, rid, Some s, Challenger, img), b) \<in> set (marks d')"
        by (auto simp: roster_def marks_def entry_mark_def)
      then show ?thesis unfolding seated_live_def v by auto
    next
      case False
      with e s have "latest_state d s = Some RoundAssigned" by (auto split: if_splits)
      with ok(4) show ?thesis unfolding assigned_ok_def seated_live_def v ms(1) by (metis UnCI set_append)
    qed
  qed
  moreover have "job_ok d' j" if "job_ok d j" for j
  proof -
    obtain b where b: "(r_id (fst j), r_campaign_id (fst j), r_incumbent (fst j), b) \<in> set (views d)"
      using \<open>job_ok d j\<close> by (auto simp: job_ok_def)
    then have "{m \<in> fst ` set (marks d'). fst (snd m) = r_id (fst j)} = {m \<in> fst ` set (marks d). fst (snd m) = r_id (fst j)}"
      using old [OF b] new unfolding ms(1) by force
    with b that show ?thesis unfolding job_ok_def v by auto
  qed
  ultimately show ?thesis using ok ok' by (simp add: system_ok_def history_ok_def h w)
qed

lemma create_ok:
  assumes "system_ok now d js" and "create_round now rid dedupe sp d = Inr (r, d')"
  shows "system_ok now d' js"
  using create_round_cases [OF assms(2)] fill_ok [OF assms(1)] assms(1) by blast

section \<open>A round is settled\<close>

text \<open>Settling entries of a round keeps the other rounds' rows and the identity of every row.\<close>

definition settles :: "uuid \<Rightarrow> db \<Rightarrow> db \<Rightarrow> bool" where
  "settles rid d d' = (map fst (marks d') = map fst (marks d) \<and>
     (\<forall>m b. fst (snd m) \<noteq> rid \<longrightarrow> (m, b) \<in> set (marks d') \<longrightarrow> (m, b) \<in> set (marks d)))"

lemma settles_same: "marks d' = marks d \<Longrightarrow> settles rid d d'"
  by (simp add: settles_def)

lemma settles_trans: "settles rid d d1 \<Longrightarrow> settles rid d1 d2 \<Longrightarrow> settles rid d d2"
  by (auto simp: settles_def)

lemma write_entry_settles: "settles rid d (write_entry now rid ev x d)"
  by (auto simp: settles_def write_entry_def marks_def entry_mark_def update_where_def)

lemma settle_entry_settles:
  assumes "settle_entry now rid ord ev x d = Inr d'"
  shows "settles rid d d'"
proof -
  have "marks (fold (\<lambda>st. add_event now sid st None det) sts e) = marks e" for sid det sts e
    by (rule fold_states_field) simp
  then have "marks d' = marks (write_entry now rid ev x d)" using settle_entry_eq [OF assms] by auto
  then show ?thesis using write_entry_settles settles_trans settles_same by metis
qed

lemma settle_entries_settles:
  assumes "rfold (settle_entry now rid ord ev) xs d = Inr d'"
  shows "settles rid d d'"
  using assms settles_same [OF refl] by (rule rfold_invariant) (blast intro: settles_trans settle_entry_settles)

text \<open>What a landed settlement does, in the terms of the invariant.\<close>

lemma complete_round_system:
  assumes "log_ok now d" and "distinct (List.map_filter x_submission_id xs)"
    and "complete_round now rid cid ord dec xs drift eps ev d = Inr (True, d')"
  obtains "settles rid d d'" "log_ok now d'"
    "rounds d' = update_where (is_running rid) (finish_round now dec drift) (rounds d)"
    "\<And>c. c \<noteq> cid \<Longrightarrow> wearer d' c = wearer d c"
    "wearer d' cid = (if rd_event dec = Some Vacated then None
       else case rd_leader_submission_id dec of None \<Rightarrow> wearer d cid | Some s \<Rightarrow> Some s)"
    "\<And>c. replay c (leader_history d') = (if c = cid \<and> rd_event dec \<noteq> None
       then (if rd_event dec = Some Vacated then None else rd_leader_submission_id dec) else replay c (leader_history d))"
    "\<And>s. s \<notin> set (List.map_filter x_submission_id xs) \<Longrightarrow> latest_state d' s = latest_state d s"
    "\<And>x s. x \<in> set xs \<Longrightarrow> x_submission_id x = Some s \<Longrightarrow> latest_state d' s =
       (if verdict d s x \<noteq> None then verdict d s x else latest_state d s)"
proof -
  obtain d1 d2 d3 where 1: "rfold (settle_entry now rid ord ev) xs d = Inr d1"
    and 2: "write_crown now rid cid ord dec xs d1 = Inr d2"
    and 3: "write_history now rid cid ord dec eps d2 = Inr d3"
    and d': "d' = d3\<lparr>rounds := update_where (is_running rid) (finish_round now dec drift) (rounds d3)\<rparr>"
    using complete_round_cases [OF assms(3)] by blast
  note se = settle_entries [OF assms(1) 1 assms(2)]
  obtain ls where d2: "d2 = d1\<lparr>leaders := ls\<rparr>" using write_crown_frame [OF 2] by blast
  note fr = write_history_frame [OF 3]
  have "settles rid d d1" using 1 by (rule settle_entries_settles)
  moreover have "marks d' = marks d1" using fr by (simp add: d' d2 marks_def)
  ultimately have s: "settles rid d d'" using settles_trans settles_same by metis
  have ev: "events d' = events d1" "next_event d' = next_event d1" using fr by (simp_all add: d' d2)
  note log = same_log [OF ev]
  have rs: "rounds d' = update_where (is_running rid) (finish_round now dec drift) (rounds d)"
    using fr se by (simp add: d' d2 same_but_events_def)
  have "leader_of d' = leader_of d2" using fr by (simp add: d' leader_of_def fun_eq_iff)
  moreover have "leader_of d1 = leader_of d" using se by (simp add: leader_of_def fun_eq_iff same_but_events_def)
  ultimately have w: "wearer d' c = (if c \<noteq> cid then wearer d c else if rd_event dec = Some Vacated then None
      else case rd_leader_submission_id dec of None \<Rightarrow> wearer d cid | Some s \<Rightarrow> Some s)" for c
    using write_crown_effect [OF 2] by (auto simp: wearer_def split: option.splits if_splits)
  have hd2: "leader_history d2 = leader_history d" using se by (simp add: d2 same_but_events_def)
  have h: "replay c (leader_history d') = (if c = cid \<and> rd_event dec \<noteq> None
       then (if rd_event dec = Some Vacated then None else rd_leader_submission_id dec) else replay c (leader_history d))" for c
  proof (cases "rd_event dec")
    case None
    with 3 hd2 show ?thesis by (simp add: write_history_def d')
  next
    case (Some e)
    with 3 obtain h where "insert_history h d2 = Inr d3" "h_campaign_id h = cid" "h_event h = e"
      "h_new_submission_id h = rd_leader_submission_id dec"
      by (auto simp: write_history_def)
    with insert_history_effect(5) [of h d2 d3] hd2 Some show ?thesis
      by (auto simp: d' replay_snoc crown_after_def split: leader_event.splits)
  qed
  show thesis
  proof (rule that [OF s _ rs])
    show "log_ok now d'" using log(1) se by simp
    show "wearer d' c = wearer d c" if "c \<noteq> cid" for c using w that by simp
  qed (use w h se log(2) in auto)
qed

text \<open>
  The harness gives every entry of a report one of the three final statuses its schema documents
  (\<open>EntryReport.status\<close> of \<open>bench/schemas.py\<close>).
\<close>

definition final_payload :: "json \<Rightarrow> bool" where
  "final_payload p = (case p of JObj e \<Rightarrow>
     jget e ''status'' \<in> {JStr ''scored'', JStr ''disqualified'', JStr ''infra_failed''} | _ \<Rightarrow> True)"

definition final_report :: "jdict \<Rightarrow> bool" where
  "final_report report = (case jget report ''entries'' of JArr ps \<Rightarrow> list_all final_payload ps | _ \<Rightarrow> True)"

definition final_run :: "bench_run \<Rightarrow> bool" where
  "final_run run = (case run of Exited _ (Some report) _ \<Rightarrow> final_report (jdict_of report) | _ \<Rightarrow> True)"

definition view_key :: "entry_view \<Rightarrow> int \<times> uuid option \<times> entry_role" where
  "view_key v = (n_id (fst v), n_submission_id (fst v), n_role (fst v))"

definition result_key :: "entry_result \<Rightarrow> int \<times> uuid option \<times> entry_role" where
  "result_key x = (x_id x, x_submission_id x, x_role x)"

definition raw_key :: "raw_result \<Rightarrow> int \<times> uuid option \<times> entry_role" where
  "raw_key q = (q_id q, q_submission_id q, q_role q)"

lemma candidate_result_key:
  assumes "candidate_result show (v, p) = Inr q"
  shows "raw_key q = view_key v"
    and "final_payload p \<Longrightarrow> q_status q \<in> {''scored'', ''disqualified'', ''infra_failed''}"
proof -
  obtain payload where p: "p = JObj payload"
    using assms by (cases p) (auto simp: candidate_result_def Let_def)
  show "raw_key q = view_key v"
    using assms by (auto simp: p candidate_result_def Let_def rbind_eq_Inr raw_key_def view_key_def)
  assume "final_payload p"
  then obtain t where t: "jget payload ''status'' = JStr t" "t \<in> {''scored'', ''disqualified'', ''infra_failed''}"
    by (auto simp: final_payload_def p)
  then have "py_str show (py_or (jget payload ''status'') (JStr ''infra_failed'')) = t"
    by (auto simp: py_or_def jtruthy_def py_str_def)
  with t(2) assms show "q_status q \<in> {''scored'', ''disqualified'', ''infra_failed''}"
    by (auto simp: p candidate_result_def Let_def rbind_eq_Inr split: if_splits)
qed

lemma entry_results_keys:
  assumes "entry_results_from_report show entries report = Inr rs"
  obtains b where "b \<in> set entries" "\<not> is_candidate b" "map raw_key rs = map view_key (b # filter is_candidate entries)"
    "final_report report \<longrightarrow> (\<forall>q \<in> set rs. q_status q \<in> {''scored'', ''disqualified'', ''infra_failed''})"
proof -
  obtain ps where ps: "jiter (py_or (jget report ''entries'') (JArr [])) = Inr ps"
    using assms by (auto simp: entry_results_from_report_def Let_def rbind_eq_Inr)
  moreover obtain b where b: "find (\<lambda>v. \<not> is_candidate v) entries = Some b"
    using assms ps by (cases "find (\<lambda>v. \<not> is_candidate v) entries") (simp_all add: entry_results_from_report_def Let_def)
  ultimately have len: "length ps = length (filter is_candidate entries)"
    using assms by (simp add: entry_results_from_report_def Let_def split: if_splits)
  obtain rs' where rs': "rmap (candidate_result show) (zip (filter is_candidate entries) ps) = Inr rs'"
    and rs: "rs = baseline_result b (py_or (jget report ''baseline'') (JObj [])) # rs'"
    using assms ps b len by (auto simp: entry_results_from_report_def Let_def rbind_eq_Inr)
  have bb: "b \<in> set entries" "\<not> is_candidate b" using find_SomeD [OF b] by auto
  have "map raw_key rs' = map (\<lambda>vp. view_key (fst vp)) (zip (filter is_candidate entries) ps)"
    using rs' by (rule rmap_ids) (auto dest: candidate_result_key(1))
  also have "\<dots> = map view_key (filter is_candidate entries)"
    using len by (simp flip: map_map [unfolded comp_def])
  finally have "map raw_key rs = map view_key (b # filter is_candidate entries)"
    using bb by (simp add: rs raw_key_def view_key_def baseline_result_def Let_def is_candidate_def)
  moreover have "\<forall>q \<in> set rs. q_status q \<in> {''scored'', ''disqualified'', ''infra_failed''}" if f: "final_report report"
  proof -
    have "final_payload p" if "p \<in> set ps" for p
      using ps f that
      by (auto simp: jiter_def py_or_def final_report_def list_all_iff final_payload_def split: json.splits if_splits)
    then have "q_status q \<in> {''scored'', ''disqualified'', ''infra_failed''}" if "q \<in> set rs'" for q
      using rmap_set [OF rs' that] candidate_result_key(2) by (fastforce dest: set_zip_rightD)
    then show ?thesis by (auto simp: rs baseline_result_def Let_def)
  qed
  ultimately show thesis using that bb by blast
qed

lemma rank_entry_same:
  assumes "rank_entry q = Inr e"
  shows "role e = q_role q" "submission_id e = q_submission_id q" "status_of_string (q_status q) = Some (status e)"
  using assms
  by (cases "q_role q"; auto simp: rank_entry_def mk_entry_def role_text_def role_of_string_def split: option.splits if_splits)+

lemma decide_round_cases:
  assumes "decide_round show eps dflt r entries stored report = Inr (dec, xs, drift)"
  obtains b es l where "b \<in> set entries" "\<not> is_candidate b"
    "map result_key xs = map view_key (b # filter is_candidate entries)"
    "map (\<lambda>e. (submission_id e, role e)) es = map (\<lambda>x. (x_submission_id x, x_role x)) xs"
    "sole es Leader = Inr l" "dec = settle es l eps stored"
    "final_report report \<longrightarrow> (\<forall>x \<in> set xs. x_status x \<in> {EScored, EDisqualified, EInfraFailed})"
proof -
  obtain rs es c where rs: "entry_results_from_report show entries report = Inr rs"
    and es: "rmap rank_entry rs = Inr es" and dec: "rank_round es eps drift c stored = Inr dec"
    and nv: "rd_void_reason dec = None" and xs: "xs = map typed_result (zip rs es)"
    using assms by (auto simp: decide_round_def rbind_eq_Inr split: option.splits)
  obtain b where b: "b \<in> set entries" "\<not> is_candidate b" "map raw_key rs = map view_key (b # filter is_candidate entries)"
    "final_report report \<longrightarrow> (\<forall>q \<in> set rs. q_status q \<in> {''scored'', ''disqualified'', ''infra_failed''})"
    using rs by (rule entry_results_keys)
  have len: "length es = length rs" using es by (rule rmap_length)
  have "map result_key xs = map (raw_key \<circ> fst) (zip rs es)"
    by (auto simp: xs typed_result_def result_key_def raw_key_def)
  then have 1: "map result_key xs = map raw_key rs" using len by (simp flip: map_map)
  have "map (\<lambda>e. (submission_id e, role e)) es = map (\<lambda>q. (q_submission_id q, q_role q)) rs"
    using es by (rule rmap_ids) (simp add: rank_entry_same)
  moreover have "map (\<lambda>x. (x_submission_id x, x_role x)) xs = map ((\<lambda>q. (q_submission_id q, q_role q)) \<circ> fst) (zip rs es)"
    by (auto simp: xs typed_result_def)
  then have "map (\<lambda>x. (x_submission_id x, x_role x)) xs = map (\<lambda>q. (q_submission_id q, q_role q)) rs"
    using len by (simp flip: map_map)
  ultimately have 2: "map (\<lambda>e. (submission_id e, role e)) es = map (\<lambda>x. (x_submission_id x, x_role x)) xs" by simp
  have 3: "\<forall>x \<in> set xs. x_status x \<in> {EScored, EDisqualified, EInfraFailed}" if f: "final_report report"
  proof
    fix x assume "x \<in> set xs"
    then obtain q e where qe: "(q, e) \<in> set (zip rs es)" "x_status x = status e" by (auto simp: xs typed_result_def)
    then have "rank_entry q = Inr e" using rmap_nth [OF es] len by (auto simp: set_zip)
    then have "status_of_string (q_status q) = Some (status e)" by (rule rank_entry_same)
    with b(4) f qe show "x_status x \<in> {EScored, EDisqualified, EInfraFailed}"
      by (fastforce simp: status_of_string_def dest: set_zip_leftD split: if_splits)
  qed
  obtain l where "sole es Leader = Inr l" "dec = settle es l eps stored"
    using dec nv by (cases rule: rank_round_cases) auto
  with that b(1-3) 1 2 3 show thesis by simp
qed

lemma settle_leader:
  assumes "dec = settle es l eps stored"
  shows "rd_event dec = None \<Longrightarrow> rd_leader_submission_id dec = (case l of None \<Rightarrow> None | Some e \<Rightarrow> submission_id e)"
    and "rd_event dec \<noteq> None \<Longrightarrow> rd_event dec \<noteq> Some Vacated \<Longrightarrow>
      \<exists>w \<in> set es. role w = Challenger \<and> rd_leader_submission_id dec = submission_id w"
  using assms best_contender(1,2) [of es "overtake_threshold l eps"]
  by (auto simp: settle_def Let_def no_decision_def holds_crown_def split: option.splits if_splits)

lemma distinct_map_filter_inj:
  assumes "distinct xs" and "\<And>x y s. x \<in> set xs \<Longrightarrow> y \<in> set xs \<Longrightarrow> f x = Some s \<Longrightarrow> f y = Some s \<Longrightarrow> x = y"
  shows "distinct (List.map_filter f xs)"
  using assms
proof (induction xs)
  case (Cons x xs)
  then have "distinct (List.map_filter f xs)" by (auto simp: Cons)
  moreover have "s \<notin> set (List.map_filter f xs)" if "f x = Some s" for s
    using Cons.prems that by (auto simp: in_map_filter)
  ultimately show ?case by (auto simp: map_filter_simps split: option.splits)
qed simp

lemma job_row:
  assumes "job_ok d j" and "v \<in> set (snd j)"
  obtains n where "n \<in> set (round_entries d)" "fst (entry_mark n) = fst (entry_mark (fst v))" "n_round_id n = r_id (fst j)"
proof -
  have "fst (entry_mark (fst v)) \<in> {m \<in> fst ` set (marks d). fst (snd m) = r_id (fst j)}"
  proof -
    have "fst (entry_mark (fst v)) \<in> set (map (fst \<circ> entry_mark \<circ> fst) (snd j))" using assms(2) by auto
    with assms(1) show ?thesis unfolding job_ok_def by blast
  qed
  then show thesis using that by (auto simp: marks_def entry_mark_def)
qed

lemma job_rows_complete:
  assumes "job_ok d j" and "((i, r_id (fst j), s, ro, img), b) \<in> set (marks d)"
  obtains v where "v \<in> set (snd j)" "view_key v = (i, s, ro)"
proof -
  have "(i, r_id (fst j), s, ro, img) \<in> {m \<in> fst ` set (marks d). fst (snd m) = r_id (fst j)}"
    using imageI [OF assms(2), of fst] by simp
  then have "(i, r_id (fst j), s, ro, img) \<in> set (map (fst \<circ> entry_mark \<circ> fst) (snd j))"
    using assms(1) unfolding job_ok_def by blast
  then show thesis using that by (auto simp: entry_mark_def view_key_def)
qed

lemma job_submissions_distinct:
  assumes "db_ok d" and "job_ok d j"
  shows "distinct (List.map_filter (\<lambda>v. n_submission_id (fst v)) (filter is_candidate (snd j)))"
proof (rule distinct_map_filter_inj)
  have dist: "distinct (map (n_id \<circ> fst) (snd j))" using assms(2) by (simp add: job_ok_def)
  then show "distinct (filter is_candidate (snd j))" by (simp add: distinct_map)
  fix v u s
  assume v: "v \<in> set (filter is_candidate (snd j))" "n_submission_id (fst v) = Some s"
    and u: "u \<in> set (filter is_candidate (snd j))" "n_submission_id (fst u) = Some s"
  obtain n where n: "n \<in> set (round_entries d)" "fst (entry_mark n) = fst (entry_mark (fst v))" "n_round_id n = r_id (fst j)"
    using assms(2) v(1) by (auto elim: job_row)
  obtain m where m: "m \<in> set (round_entries d)" "fst (entry_mark m) = fst (entry_mark (fst u))" "n_round_id m = r_id (fst j)"
    using assms(2) u(1) by (auto elim: job_row)
  have "n = m"
    using db_okD(5) [OF assms(1)] n m u v
      uniqD [of "\<lambda>_. True" "\<lambda>n. (n_round_id n, n_submission_id n)" "round_entries d" n m]
    by (auto simp: entries_ok_def entry_mark_def)
  then have "(n_id \<circ> fst) v = (n_id \<circ> fst) u" using n(2) m(2) by (simp add: entry_mark_def)
  with dist v(1) u(1) show "v = u" by (auto simp: distinct_map inj_on_def)
qed

lemma one_live:
  assumes "db_ok d" and "(rid, cid, inc, True) \<in> set (views d)" and "(rid', cid, inc', True) \<in> set (views d)"
  shows "rid = rid'"
proof -
  obtain r r' where "r \<in> set (rounds d)" "view_of r = (rid, cid, inc, True)"
    and "r' \<in> set (rounds d)" "view_of r' = (rid', cid, inc', True)"
    using assms(2,3) by (auto simp: views_def)
  moreover from this have "r = r'"
    using db_okD(4) [OF assms(1)] uniqD [of "\<lambda>r. live (r_status r)" r_campaign_id "rounds d" r r']
    by (auto simp: rounds_ok_def view_of_def)
  ultimately show ?thesis by (auto simp: view_of_def)
qed

text \<open>The results a job writes: one for the baseline and one for every candidate row of the round.\<close>

lemma decided_results:
  assumes "db_ok d" and "job_ok d j"
    and "decide_round show eps dflt r (snd j) stored report = Inr (dec, xs, drift)"
  obtains es l where "distinct (List.map_filter x_submission_id xs)"
    "\<forall>i s ro img b. ((i, r_id (fst j), s, ro, img), b) \<in> set (marks d) \<longrightarrow> ro \<noteq> Baseline \<longrightarrow>
       (\<exists>x \<in> set xs. x_submission_id x = s)"
    "\<forall>e \<in> set es. \<exists>i img b. ((i, r_id (fst j), submission_id e, role e, img), b) \<in> set (marks d)"
    "sole es Leader = Inr l" "dec = settle es l eps stored"
    "final_report report \<longrightarrow> (\<forall>x \<in> set xs. x_status x \<in> {EScored, EDisqualified, EInfraFailed})"
proof -
  obtain b es l where b: "b \<in> set (snd j)" "\<not> is_candidate b"
    and xs: "map result_key xs = map view_key (b # filter is_candidate (snd j))"
    and es: "map (\<lambda>e. (submission_id e, role e)) es = map (\<lambda>x. (x_submission_id x, x_role x)) xs"
    and l: "sole es Leader = Inr l" "dec = settle es l eps stored"
    and f: "final_report report \<longrightarrow> (\<forall>x \<in> set xs. x_status x \<in> {EScored, EDisqualified, EInfraFailed})"
    using assms(3) by (rule decide_round_cases)
  obtain n where n: "n \<in> set (round_entries d)" "fst (entry_mark n) = fst (entry_mark (fst b))"
    using assms(2) b(1) by (rule job_row)
  have none: "n_submission_id (fst b) = None"
    using db_okD(5) [OF assms(1)] n b(2) by (auto simp: entries_ok_def role_ok_def entry_mark_def is_candidate_def)
  have mf: "List.map_filter x_submission_id xs = List.map_filter (\<lambda>k. fst (snd k)) (map result_key xs)"
    by (induction xs) (auto simp: map_filter_simps result_key_def split: option.splits)
  have "List.map_filter (\<lambda>k. fst (snd k)) (map view_key vs) = List.map_filter (\<lambda>v. n_submission_id (fst v)) vs" for vs
    by (induction vs) (auto simp: map_filter_simps view_key_def split: option.splits)
  then have "List.map_filter x_submission_id xs = List.map_filter (\<lambda>v. n_submission_id (fst v)) (filter is_candidate (snd j))"
    unfolding mf xs by (simp add: map_filter_simps view_key_def none)
  then have 1: "distinct (List.map_filter x_submission_id xs)"
    using job_submissions_distinct [OF assms(1,2)] by simp
  have key: "set (map result_key xs) = view_key ` insert b (set (filter is_candidate (snd j)))"
    unfolding xs by simp
  have 2: "\<exists>x \<in> set xs. x_submission_id x = s"
    if mk: "((i, r_id (fst j), s, ro, img), b') \<in> set (marks d)" "ro \<noteq> Baseline" for i s ro img b'
  proof -
    obtain v where "v \<in> set (snd j)" "view_key v = (i, s, ro)" using assms(2) mk(1) by (rule job_rows_complete)
    with mk(2) have "(i, s, ro) \<in> view_key ` insert b (set (filter is_candidate (snd j)))"
      by (force simp: view_key_def is_candidate_def)
    then have "(i, s, ro) \<in> set (map result_key xs)" unfolding key .
    then show ?thesis by (auto simp: result_key_def)
  qed
  have 3: "\<exists>i img b. ((i, r_id (fst j), submission_id e, role e, img), b) \<in> set (marks d)" if e: "e \<in> set es" for e
  proof -
    have "(submission_id e, role e) \<in> set (map (\<lambda>x. (x_submission_id x, x_role x)) xs)"
      unfolding es [symmetric] using e by auto
    then obtain x where x: "x \<in> set xs" "x_submission_id x = submission_id e" "x_role x = role e" by auto
    then have "result_key x \<in> set (map result_key xs)" by simp
    then have "\<exists>v \<in> set (snd j). result_key x = view_key v" unfolding key using b(1) by auto
    then obtain v where v: "v \<in> set (snd j)" "result_key x = view_key v" ..
    obtain q where q: "q \<in> set (round_entries d)" "fst (entry_mark q) = fst (entry_mark (fst v))" "n_round_id q = r_id (fst j)"
      using assms(2) v(1) by (rule job_row)
    then have "entry_mark q = ((n_id q, r_id (fst j), submission_id e, role e, n_image_ref q), n_status q = EScored)"
      using v(2) x(2,3) by (auto simp: entry_mark_def result_key_def view_key_def)
    moreover have "entry_mark q \<in> set (marks d)" using q(1) by (simp add: marks_def)
    ultimately show ?thesis by metis
  qed
  show thesis using 2 3 by (intro that [OF 1 _ _ l f]) blast+
qed

lemma run_report_final:
  assumes "run_report env r run = Inr report" and "final_run run"
  shows "final_report report"
  using assms
  by (auto simp: run_report_def bound_report_def final_run_def rbind_eq_Inr split: bench_run.splits option.splits)

lemma verdict_not_assigned:
  "x_status x \<in> {EScored, EDisqualified, EInfraFailed} \<Longrightarrow> verdict d s x \<noteq> None \<and> verdict d s x \<noteq> Some RoundAssigned"
  by (auto simp: verdict_def)

text \<open>The round a landing job settles is live and is the only one the job closes.\<close>

lemma landed_view:
  assumes "db_ok d" and "job_ok d j" and "lock_running_round d (r_id (fst j))"
  shows "(r_id (fst j), r_campaign_id (fst j), r_incumbent (fst j), True) \<in> set (views d)"
    and "{r_id r | r. r \<in> set (rounds d) \<and> is_running (r_id (fst j)) r} = {r_id (fst j)}"
proof -
  obtain r where r: "r \<in> set (rounds d)" "is_running (r_id (fst j)) r"
    using assms(3) by (auto simp: lock_running_round_def touched_iff)
  then show "{r_id r | r. r \<in> set (rounds d) \<and> is_running (r_id (fst j)) r} = {r_id (fst j)}"
    by (auto simp: is_running_def intro!: exI [of _ r])
  obtain b where v: "(r_id (fst j), r_campaign_id (fst j), r_incumbent (fst j), b) \<in> set (views d)"
    using assms(2) by (auto simp: job_ok_def)
  then obtain q where "q \<in> set (rounds d)" "view_of q = (r_id (fst j), r_campaign_id (fst j), r_incumbent (fst j), b)"
    by (auto simp: views_def)
  moreover from this r have "q = r" using running_only [OF assms(1) r(1)] by (auto simp: view_of_def is_running_def)
  ultimately show "(r_id (fst j), r_campaign_id (fst j), r_incumbent (fst j), True) \<in> set (views d)"
    using r(2) v by (auto simp: view_of_def is_running_def)
qed

text \<open>What a decision says about the crown, given that the leader entry is the crown's wearer.\<close>

lemma decided_crown:
  assumes "db_ok d" and "incumbents_ok d" and "(rid, cid, inc, True) \<in> set (views d)"
    and rows: "\<forall>e \<in> set es. \<exists>i img b. ((i, rid, submission_id e, role e, img), b) \<in> set (marks d)"
    and l: "sole es Leader = Inr l" "dec = settle es l eps stored"
  shows "rd_event dec = None \<Longrightarrow> rd_leader_submission_id dec = None \<or> rd_leader_submission_id dec = wearer d cid"
    and "rd_event dec \<noteq> None \<Longrightarrow> rd_event dec \<noteq> Some Vacated \<Longrightarrow> rd_leader_submission_id dec \<noteq> None"
proof -
  have "submission_id e = wearer d cid" if "l = Some e" for e
  proof -
    have "e \<in> set es" "role e = Leader" using sole_eq_Some l(1) that by auto
    with rows assms(2,3) show ?thesis unfolding incumbents_ok_def by metis
  qed
  then show "rd_leader_submission_id dec = None \<or> rd_leader_submission_id dec = wearer d cid" if "rd_event dec = None"
    using settle_leader(1) [OF l(2) that] by (auto split: option.splits)
  show "rd_leader_submission_id dec \<noteq> None" if ev: "rd_event dec \<noteq> None" "rd_event dec \<noteq> Some Vacated"
  proof -
    obtain wn where "wn \<in> set es" "role wn = Challenger" "rd_leader_submission_id dec = submission_id wn"
      using settle_leader(2) [OF l(2) ev] by blast
    then obtain i img b where "((i, rid, rd_leader_submission_id dec, Challenger, img), b) \<in> set (marks d)"
      using rows by metis
    then show ?thesis using db_okD(5) [OF assms(1)]
      by (auto simp: marks_def entry_mark_def entries_ok_def role_ok_def)
  qed
qed

lemma settled_history:
  assumes "history_ok d" and "\<And>c. c \<noteq> cid \<Longrightarrow> wearer d' c = wearer d c"
    and w: "wearer d' cid = (if rd_event dec = Some Vacated then None
      else case rd_leader_submission_id dec of None \<Rightarrow> wearer d cid | Some s \<Rightarrow> Some s)"
    and h: "\<And>c. replay c (leader_history d') = (if c = cid \<and> rd_event dec \<noteq> None
      then (if rd_event dec = Some Vacated then None else rd_leader_submission_id dec) else replay c (leader_history d))"
    and keep: "rd_event dec = None \<Longrightarrow> rd_leader_submission_id dec = None \<or> rd_leader_submission_id dec = wearer d cid"
    and new: "rd_event dec \<noteq> None \<Longrightarrow> rd_event dec \<noteq> Some Vacated \<Longrightarrow> rd_leader_submission_id dec \<noteq> None"
  shows "history_ok d'"
  unfolding history_ok_def
proof
  fix c
  show "replay c (leader_history d') = wearer d' c"
  proof (cases "c = cid \<and> rd_event dec \<noteq> None")
    case True
    with h w new show ?thesis by (auto split: option.splits)
  next
    case False
    have "wearer d' cid = wearer d cid" if "rd_event dec = None"
      using w keep [OF that] that by (auto split: option.splits)
    with False have "wearer d' c = wearer d c" using assms(2) by (cases "c = cid") auto
    with False h assms(1) show ?thesis by (auto simp: history_ok_def)
  qed
qed

lemma settle_ok:
  assumes "system_ok now d js" and j: "j \<in> set js" and "final_run run"
    and "settle_round env now (fst j) (snd j) run d = Inr (code, d')"
  shows "system_ok now d' js"
proof -
  let ?rid = "r_id (fst j)" and ?cid = "r_campaign_id (fst j)"
  have ok: "db_ok d" "log_ok now d" "incumbents_ok d" "history_ok d" "job_ok d j"
    using assms(1) j by (auto simp: system_ok_def)
  obtain report dec xs drift landed where rep: "run_report env (fst j) run = Inr report"
    and dec: "decide_round (je_show env) (je_epsilon env) (je_drift_ceiling env) (fst j) (snd j)
        (incumbent_score d (fst j)) report = Inr (dec, xs, drift)"
    and c: "complete_round now ?rid ?cid (r_ordinal (fst j)) dec xs drift (je_epsilon env) (je_evidence env) d = Inr (landed, d')"
    using assms(4) by (rule settle_round_Inr)
  obtain es l where dist: "distinct (List.map_filter x_submission_id xs)"
    and cover: "\<forall>i s ro img b. ((i, ?rid, s, ro, img), b) \<in> set (marks d) \<longrightarrow> ro \<noteq> Baseline \<longrightarrow>
      (\<exists>x \<in> set xs. x_submission_id x = s)"
    and rows: "\<forall>e \<in> set es. \<exists>i img b. ((i, ?rid, submission_id e, role e, img), b) \<in> set (marks d)"
    and l: "sole es Leader = Inr l" "dec = settle es l (je_epsilon env) (incumbent_score d (fst j))"
    and fin': "final_report report \<longrightarrow> (\<forall>x \<in> set xs. x_status x \<in> {EScored, EDisqualified, EInfraFailed})"
    by (rule decided_results [OF ok(1,5) dec])
  have fin: "\<forall>x \<in> set xs. x_status x \<in> {EScored, EDisqualified, EInfraFailed}"
    using fin' run_report_final [OF rep assms(3)] by blast
  show ?thesis
  proof (cases landed)
    case False
    then have "d' = d" using complete_round_cases [OF c] by simp
    with assms(1) show ?thesis by simp
  next
    case True
    note c' = c [unfolded True [THEN eqTrueI]]
    have lock: "lock_running_round d ?rid" using complete_round_cases [OF c'] by auto
    note live = landed_view [OF ok(1,5) lock] and ok' = complete_round_db_ok [OF ok(1) c']
    let ?S = "{r_id r | r. r \<in> set (rounds d) \<and> is_running ?rid r}"
    show ?thesis
      using ok(2) dist c'
    proof (rule complete_round_system)
      assume s: "settles ?rid d d'" and log: "log_ok now d'"
        and rs: "rounds d' = update_where (is_running ?rid) (finish_round now dec drift) (rounds d)"
        and w1: "\<And>c. c \<noteq> ?cid \<Longrightarrow> wearer d' c = wearer d c"
        and w2: "wearer d' ?cid = (if rd_event dec = Some Vacated then None
          else case rd_leader_submission_id dec of None \<Rightarrow> wearer d ?cid | Some s \<Rightarrow> Some s)"
        and h: "\<And>c. replay c (leader_history d') = (if c = ?cid \<and> rd_event dec \<noteq> None
          then (if rd_event dec = Some Vacated then None else rd_leader_submission_id dec) else replay c (leader_history d))"
        and st1: "\<And>s. s \<notin> set (List.map_filter x_submission_id xs) \<Longrightarrow> latest_state d' s = latest_state d s"
        and st2: "\<And>x s. x \<in> set xs \<Longrightarrow> x_submission_id x = Some s \<Longrightarrow> latest_state d' s =
          (if verdict d s x \<noteq> None then verdict d s x else latest_state d s)"
      have out: "latest_state d' t \<noteq> Some RoundAssigned" if "t \<in> set (List.map_filter x_submission_id xs)" for t
        using that st2 fin verdict_not_assigned by (auto simp: in_map_filter)
      show ?thesis
      proof (rule close_ok [OF assms(1) ok' log, where S = ?S])
        show "views d' = map (close_view ?S) (views d)"
          using ok(1) rs by (rule views_close) (simp add: finish_round_def)
        show "history_ok d'"
          using ok(4) w1 w2 h decided_crown [OF ok(1,3) live(1) rows l] by (rule settled_history)
        show "wearer d' cid = wearer d cid" if v: "(rid, cid, inc, True) \<in> set (views d)" "rid \<notin> ?S" for rid cid inc
        proof (cases "cid = ?cid")
          case True
          with one_live [OF ok(1) v(1)] live(1) have "rid = ?rid" by blast
          with v(2) show ?thesis unfolding live(2) by simp
        qed (rule w1)
        show "latest_state d t = Some RoundAssigned" if a: "latest_state d' t = Some RoundAssigned" for t
          using a st1 [of t] out [of t] by metis
        show "((i, rid, Some t, Challenger, img), False) \<notin> set (marks d)"
          if a: "latest_state d' t = Some RoundAssigned" "rid \<in> ?S" for t i rid img
        proof
          assume m: "((i, rid, Some t, Challenger, img), False) \<in> set (marks d)"
          have "rid = ?rid" using a(2) unfolding live(2) by simp
          with m cover have "\<exists>x \<in> set xs. x_submission_id x = Some t" by (metis entry_role.distinct(4))
          with out a(1) show False by (auto simp: in_map_filter)
        qed
      qed (use s in \<open>auto simp: settles_def live(2)\<close>)
    qed
  qed
qed

text \<open>A job that returns, in any of its three ways.\<close>

lemma process_ok:
  assumes "system_ok now d js" and j: "j \<in> set js" and "final_run run"
    and "process_round env now (fst j) (snd j) run d = Inr (code, d')"
  shows "system_ok now d' js"
  using assms(4)
proof (cases rule: process_roundE)
  case settled
  with assms(1-3) show ?thesis by (rule settle_ok)
next
  case (deferred m)
  have "calm now d d'" unfolding deferred(3) by (rule round_writers_calm)
  moreover have "db_ok d'" unfolding deferred(3) using assms(1) by (auto simp: system_ok_def intro: defer_round_db_ok)
  ultimately show ?thesis by (rule calm_ok [OF assms(1)])
next
  case (void detail b)
  from assms(1) void(2) show ?thesis by (rule void_ok)
qed

end
