(* ===== verification/Commitment.thy ===== *)
theory Commitment
  imports PyValue
begin

text \<open>
  \<open>chain/commitment.py\<close>: the wire format a miner publishes on chain, its parser, its encoder, and
  the fold of the revealed commitments into one commitment per hotkey. The format of the first
  version is JSON; \<open>json.loads\<close> is the argument \<open>loads\<close>, which gives the object, or
  \<open>Inr None\<close> where the source catches the decode error, or the exception that escapes.
\<close>

section \<open>UUIDs\<close>

definition is_hex :: "char \<Rightarrow> bool" where
  "is_hex c = is_hex_lower (lower_char c)"

definition hex_digit :: "char \<Rightarrow> nat" where
  "hex_digit c = (let n = ccode (lower_char c) in if n \<le> 57 then n - 48 else n - 87)"

definition hex_val :: "string \<Rightarrow> nat" where
  "hex_val s = foldl (\<lambda>n c. 16 * n + hex_digit c) 0 s"

definition hex_char :: "nat \<Rightarrow> char" where
  "hex_char d = char_of (if d < 10 then 48 + d else 87 + d)"

fun hex_digits :: "nat \<Rightarrow> nat \<Rightarrow> string" where
  "hex_digits 0 n = []"
| "hex_digits (Suc w) n = hex_digits w (n div 16) @ [hex_char (n mod 16)]"

text \<open>
  \<open>int(s, 16)\<close>: blanks around, a sign, a prefix \<open>0x\<close> and single underscores are allowed. In a
  string of ASCII characters only the C blanks count as blanks.
\<close>

definition int_blank :: "string \<Rightarrow> char \<Rightarrow> bool" where
  "int_blank s c = (if \<forall>x \<in> set s. ccode x < 128 then (9 \<le> ccode c \<and> ccode c \<le> 13) \<or> ccode c = 32 else py_isspace c)"

fun hex_literal :: "string \<Rightarrow> bool" where
  "hex_literal [] = False"
| "hex_literal [c] = is_hex c"
| "hex_literal (c # d # s) = (is_hex c \<and> (if d = CHR ''_'' then hex_literal s else hex_literal (d # s)))"

definition drop_0x :: "string \<Rightarrow> string" where
  "drop_0x s = (if startswith (lower s) ''0x''
     then (case drop 2 s of [] \<Rightarrow> [] | c # r \<Rightarrow> if c = CHR ''_'' then r else c # r) else s)"

definition int_base16 :: "string \<Rightarrow> int res" where
  "int_base16 s = (let t = rev (dropWhile (int_blank s) (rev (dropWhile (int_blank s) s)));
     (neg, u) = split_sign t; v = drop_0x u in
     if hex_literal v then Inr ((if neg then -1 else 1) * int (hex_val (filter (\<lambda>c. c \<noteq> CHR ''_'') v)))
     else Inl (ValueError ''invalid literal for int() with base 16''))"

text \<open>\<open>UUID(s)\<close> as the 128-bit number it holds, and \<open>str\<close> of it.\<close>

definition uuid_of :: "string \<Rightarrow> nat res" where
  "uuid_of s = (let h = remove_all ''-'' (strip_chars ''{}'' (remove_all ''uuid:'' (remove_all ''urn:'' s))) in
     rbind (rguard (length h = 32) (ValueError ''badly formed hexadecimal UUID string'')) (\<lambda>_.
     rbind (int_base16 h) (\<lambda>i.
     rbind (rguard (0 \<le> i \<and> i < 2 ^ 128) (ValueError ''int is out of range (need a 128-bit value)'')) (\<lambda>_.
     Inr (nat i)))))"

definition uuid_str :: "nat \<Rightarrow> string" where
  "uuid_str n = (let h = hex_digits 32 n in
     join_with (CHR ''-'') [take 8 h, take 4 (drop 8 h), take 4 (drop 12 h), take 4 (drop 16 h), drop 20 h])"

definition uuid_re :: "string \<Rightarrow> bool" where
  "uuid_re s = (let ps = split_on (CHR ''-'') s in
     map length ps = [8, 4, 4, 4, 12] \<and> list_all (list_all is_hex) ps)"

section \<open>The parser\<close>

definition git_sha_re :: "string \<Rightarrow> bool" where
  "git_sha_re s = (length s = 40 \<and> list_all is_hex_lower s)"

definition patch_hash_re :: "string \<Rightarrow> bool" where
  "patch_hash_re s = (startswith s ''sha256:'' \<and> length (drop 7 s) = 64 \<and> list_all is_hex_lower (drop 7 s))"

definition http_url :: "string \<Rightarrow> bool" where
  "http_url s = (startswith s ''https://'' \<or> startswith s ''http://'')"

definition max_payment_ref :: int where
  "max_payment_ref = 2 ^ 31 - 1"

definition max_plaintext_bytes :: nat where
  "max_plaintext_bytes = 384"

record parsed =
  p_campaign_id :: string
  p_baseline_commit :: string
  p_patch_hash :: string
  p_retrieval_url :: string
  p_payment :: "(int \<times> int) option"

definition parse_payment_ref :: "string \<Rightarrow> string \<Rightarrow> (int \<times> int) option res" where
  "parse_payment_ref block tx = (let b = strip block; t = strip tx in
     if \<not> digits_re b \<or> \<not> digits_re t then Inr None
     else rbind (int_limited b) (\<lambda>block_num. rbind (int_limited t) (\<lambda>tx_index.
       if block_num < 1 \<or> block_num > max_payment_ref \<or> tx_index > max_payment_ref then Inr None
       else Inr (Some (block_num, tx_index)))))"

definition canonical_fields :: "string \<Rightarrow> string \<Rightarrow> string \<Rightarrow> string \<Rightarrow> parsed res" where
  "canonical_fields cid baseline hash url = rbind (uuid_of (strip cid)) (\<lambda>n.
     Inr \<lparr>p_campaign_id = uuid_str n, p_baseline_commit = lower (strip baseline),
       p_patch_hash = lower (strip hash), p_retrieval_url = strip url, p_payment = None\<rparr>)"

definition fields_ok :: "string \<Rightarrow> string \<Rightarrow> string \<Rightarrow> string \<Rightarrow> bool" where
  "fields_ok cid baseline hash url = (uuid_re (strip cid) \<and> git_sha_re (lower (strip baseline)) \<and>
     patch_hash_re (lower (strip hash)) \<and> http_url (strip url))"

definition parse_v2 :: "string \<Rightarrow> parsed option res" where
  "parse_v2 raw = (case split_on (CHR ''|'') raw of
     _ # cid # baseline # hash # url # tail \<Rightarrow>
       if length tail \<noteq> 0 \<and> length tail \<noteq> 2 then Inr None
       else if \<not> fields_ok cid baseline hash url then Inr None
       else rbind (canonical_fields cid baseline hash url) (\<lambda>p.
         case tail of [b, t] \<Rightarrow> rbind (parse_payment_ref b t) (\<lambda>pay.
             Inr (case pay of None \<Rightarrow> None | Some x \<Rightarrow> Some (p\<lparr>p_payment := Some x\<rparr>)))
         | _ \<Rightarrow> Inr (Some p))
   | _ \<Rightarrow> Inr None)"

text \<open>\<open>obj.get('v') == 1\<close>, which holds of \<open>True\<close> and of \<open>1.0\<close> too.\<close>

definition is_one :: "json \<Rightarrow> bool" where
  "is_one v = (case v of JInt i \<Rightarrow> i = 1 | JBool b \<Rightarrow> b | JFloat x \<Rightarrow> x = Fin 1 | _ \<Rightarrow> False)"

definition parse_v1 :: "jdict \<Rightarrow> parsed option res" where
  "parse_v1 d = (if \<not> is_one (jget d ''v'') then Inr None
     else (case (jget d ''campaign_id'', jget d ''baseline_commit'', jget d ''patch_hash'', jget d ''retrieval_url'') of
       (JStr cid, JStr baseline, JStr hash, JStr url) \<Rightarrow>
         if fields_ok cid baseline hash url
         then rbind (canonical_fields cid baseline hash url) (\<lambda>p. Inr (Some p)) else Inr None
     | _ \<Rightarrow> Inr None))"

definition parse_patch_commitment :: "(string \<Rightarrow> json option res) \<Rightarrow> string \<Rightarrow> parsed option res" where
  "parse_patch_commitment loads raw = (if raw = [] then Inr None
     else if startswith raw ''v2|'' then parse_v2 raw
     else rbind (loads raw) (\<lambda>obj. case obj of Some (JObj d) \<Rightarrow> parse_v1 d | _ \<Rightarrow> Inr None))"

section \<open>The encoder\<close>

definition utf8_size :: "string \<Rightarrow> nat" where
  "utf8_size s = sum_list (map (\<lambda>c. if ccode c < 128 then 1 else 2) s)"

definition payment_parts :: "int option \<Rightarrow> int option \<Rightarrow> string list res" where
  "payment_parts pb pt = (case (pb, pt) of
     (Some b, Some t) \<Rightarrow> if b < 1 \<or> t < 0
       then Inl (ValueError ''payment_block must be >= 1 and payment_tx >= 0'')
       else Inr [str_of_int b, str_of_int t]
   | (None, None) \<Rightarrow> Inr []
   | _ \<Rightarrow> Inl (ValueError ''payment_block and payment_tx must be set together''))"

definition encode_patch_commitment ::
  "(string \<Rightarrow> json option res) \<Rightarrow> string \<Rightarrow> string \<Rightarrow> string \<Rightarrow> string \<Rightarrow> int option \<Rightarrow> int option \<Rightarrow> string res" where
  "encode_patch_commitment loads campaign_id baseline_commit patch_hash retrieval_url pb pt =
     rbind (uuid_of campaign_id) (\<lambda>n.
     let cid = uuid_str n; baseline = lower baseline_commit; phash = lower patch_hash; url = strip retrieval_url in
     rbind (rguard (\<forall>v \<in> set [cid, baseline, phash, url]. CHR ''|'' \<notin> set v) (ValueError ''must not contain a pipe'')) (\<lambda>_.
     rbind (rguard (http_url url) (ValueError ''retrieval_url must start with http:// or https://'')) (\<lambda>_.
     rbind (payment_parts pb pt) (\<lambda>tail.
     let raw = join_with (CHR ''|'') ([''v2'', cid, baseline, phash, url] @ tail) in
     rbind (rguard (utf8_size raw \<le> max_plaintext_bytes) (ValueError ''commitment payload too large'')) (\<lambda>_.
     rbind (parse_patch_commitment loads raw) (\<lambda>p.
     rbind (rguard (p \<noteq> None) (ValueError ''encoded commitment failed parse round-trip'')) (\<lambda>_.
     Inr raw)))))))"

section \<open>One commitment per hotkey\<close>

record patch_commitment =
  pc_uid :: nat
  pc_hotkey :: string
  pc_coldkey :: string
  pc_commit_block :: int
  pc_campaign_id :: string
  pc_baseline_commit :: string
  pc_patch_hash :: string
  pc_retrieval_url :: string
  pc_raw :: string
  pc_payment_block :: "int option"
  pc_payment_tx :: "int option"

definition commitment_of :: "string list \<Rightarrow> nat \<Rightarrow> string \<Rightarrow> int \<Rightarrow> string \<Rightarrow> parsed \<Rightarrow> patch_commitment" where
  "commitment_of coldkeys uid hotkey block raw p = \<lparr>pc_uid = uid, pc_hotkey = hotkey,
     pc_coldkey = (if uid < length coldkeys then coldkeys ! uid else []), pc_commit_block = block,
     pc_campaign_id = p_campaign_id p, pc_baseline_commit = p_baseline_commit p, pc_patch_hash = p_patch_hash p,
     pc_retrieval_url = p_retrieval_url p, pc_raw = raw, pc_payment_block = map_option fst (p_payment p),
     pc_payment_tx = map_option snd (p_payment p)\<rparr>"

text \<open>\<open>max(reveals, key=block)\<close>: the first of the reveals with the highest block.\<close>

definition latest_reveal :: "(string \<times> (int \<times> string) list) list \<Rightarrow> string \<Rightarrow> (int \<times> string) option" where
  "latest_reveal revealed hotkey = (case map_of revealed hotkey of None \<Rightarrow> None
     | Some rs \<Rightarrow> best (\<lambda>p q. fst p < fst q) rs)"

definition build_patch_commitments ::
  "(string \<Rightarrow> json option res) \<Rightarrow> string list \<Rightarrow> string list \<Rightarrow> (string \<times> (int \<times> string) list) list \<Rightarrow>
    patch_commitment list res" where
  "build_patch_commitments loads hotkeys coldkeys revealed =
     rfold (\<lambda>(uid, hotkey) out. case latest_reveal revealed hotkey of None \<Rightarrow> Inr out
       | Some (block, raw) \<Rightarrow> rbind (parse_patch_commitment loads raw) (\<lambda>p. case p of None \<Rightarrow> Inr out
           | Some p \<Rightarrow> Inr (out @ [commitment_of coldkeys uid hotkey block raw p])))
       (enumerate 0 hotkeys) []"

section \<open>UUIDs print and parse back\<close>

lemma hex_not_special: "is_hex c \<Longrightarrow> c \<notin> set ''|-_+{}xu:rni'' \<and> \<not> py_isspace c"
proof -
  assume c: "is_hex c"
  have "list_all (\<lambda>x. \<not> is_hex x) ''|-_+{}xu:rni''"
    by (simp add: is_hex_def lower_char_def ccode_def is_hex_lower_def is_ascii_digit_def)
  with c have "c \<notin> set ''|-_+{}xu:rni''" unfolding list_all_iff by blast
  moreover have "\<not> py_isspace c" using c hex_not_space isspace_lower is_hex_def by metis
  ultimately show ?thesis by blast
qed

lemma not_hex_dash [simp]: "\<not> is_hex (CHR ''-'')"
  using hex_not_special by auto

lemma lower_char_lower [simp]: "lower_char c = c" if "is_hex_lower c"
  using that by (rule lower_hex)

lemma is_hex_lower_is_hex: "is_hex_lower c \<Longrightarrow> is_hex c"
  by (simp add: is_hex_def)

lemma hex_char_digit: "d < 16 \<Longrightarrow> is_hex_lower (hex_char d) \<and> hex_digit (hex_char d) = d"
  by (auto simp: hex_char_def hex_digit_def is_hex_lower_def is_ascii_digit_def ccode_char_of lower_char_def Let_def)

lemma hex_digit_char: "is_hex c \<Longrightarrow> hex_digit c < 16 \<and> hex_char (hex_digit c) = lower_char c"
  by (auto simp: is_hex_def is_hex_lower_def is_ascii_digit_def hex_digit_def hex_char_def Let_def
      simp flip: ccode_inject simp: ccode_char_of)

lemma hex_val_snoc: "hex_val (s @ [c]) = 16 * hex_val s + hex_digit c"
  by (simp add: hex_val_def)

lemma length_hex_digits [simp]: "length (hex_digits w n) = w"
  by (induction w arbitrary: n) simp_all

lemma hex_digits_hex: "c \<in> set (hex_digits w n) \<Longrightarrow> is_hex_lower c"
  by (induction w arbitrary: n) (auto simp: hex_char_digit)

lemma hex_val_digits: "n < 16 ^ w \<Longrightarrow> hex_val (hex_digits w n) = n"
proof (induction w arbitrary: n)
  case 0
  then show ?case by (simp add: hex_val_def)
next
  case (Suc w)
  then have "n div 16 < 16 ^ w" by (simp add: less_mult_imp_div_less)
  with Suc.IH show ?case by (simp add: hex_val_snoc hex_char_digit)
qed

lemma hex_digits_val: "list_all is_hex s \<Longrightarrow> hex_digits (length s) (hex_val s) = lower s"
proof (induction s rule: rev_induct)
  case (snoc c s)
  then show ?case using hex_digit_char [of c] by (simp add: hex_val_snoc lower_def)
qed (simp add: lower_def)

lemma hex_val_bound: "list_all is_hex s \<Longrightarrow> hex_val s < 16 ^ length s"
proof (induction s rule: rev_induct)
  case (snoc c s)
  then show ?case using hex_digit_char [of c] by (simp add: hex_val_snoc)
qed (simp add: hex_val_def)

lemma remove_all_absent: "x \<in> set p \<Longrightarrow> x \<notin> set s \<Longrightarrow> remove_all p s = s"
  by (induction s) (auto simp: startswith_def, metis in_set_takeD set_ConsD)

lemma remove_all_char: "remove_all [c] s = filter (\<lambda>x. x \<noteq> c) s"
  by (induction s) (auto simp: startswith_def)

lemma dropWhile_none: "\<forall>x \<in> set s. \<not> P x \<Longrightarrow> dropWhile P s = s"
  by (cases s) auto

lemma strip_chars_absent: "\<forall>x \<in> set s. x \<notin> set cs \<Longrightarrow> strip_chars cs s = s"
  by (simp add: strip_chars_def dropWhile_none)

lemma hex_literal_hex: "s \<noteq> [] \<Longrightarrow> list_all is_hex s \<Longrightarrow> hex_literal s"
  by (induction s rule: hex_literal.induct) (auto dest: hex_not_special)

lemma int_blank_space: "int_blank s c \<Longrightarrow> py_isspace c"
  by (auto simp: int_blank_def py_isspace_def Let_def split: if_splits)

lemma int_base16_hex:
  assumes "list_all is_hex s" and "s \<noteq> []"
  shows "int_base16 s = Inr (int (hex_val s))"
proof -
  have sp: "\<forall>c \<in> set s. c \<notin> set ''|-_+{}xu:rni'' \<and> \<not> py_isspace c"
    using assms(1) hex_not_special by (simp add: list_all_iff)
  then have "\<forall>c \<in> set s. \<not> int_blank s c" using int_blank_space by blast
  then have t: "rev (dropWhile (int_blank s) (rev (dropWhile (int_blank s) s))) = s" by (simp add: dropWhile_none)
  have sign: "split_sign s = (False, s)" using sp by (auto simp: split_sign_def split: list.splits)
  have "\<not> startswith (lower s) ''0x''"
  proof
    assume a: "startswith (lower s) ''0x''"
    then obtain c d r where s: "s = c # d # r" by (cases s; cases "tl s") (auto simp: startswith_def lower_def)
    with a have "lower_char d = CHR ''x''" by (simp add: startswith_def lower_def)
    moreover have "is_hex d" using assms(1) s by simp
    ultimately have "is_hex_lower (CHR ''x'')" by (simp add: is_hex_def)
    then show False by (simp add: is_hex_lower_def is_ascii_digit_def ccode_def)
  qed
  then have "drop_0x s = s" by (simp add: drop_0x_def)
  moreover have "filter (\<lambda>c. c \<noteq> CHR ''_'') s = s" using sp by (auto intro: filter_True)
  ultimately show ?thesis
    using t sign hex_literal_hex [OF assms(2,1)] by (simp add: int_base16_def)
qed

lemma filter_join: "\<forall>p \<in> set ps. c \<notin> set p \<Longrightarrow> filter (\<lambda>x. x \<noteq> c) (join_with c ps) = concat ps"
  by (induction c ps rule: join_with.induct) (auto intro: filter_True)

lemma filter_split: "filter (\<lambda>x. x \<noteq> c) s = concat (split_on c s)"
proof (induction s)
  case (Cons x s)
  then show ?case by (cases "split_on c s") auto
qed simp

lemma uuid_re_value:
  assumes "uuid_re s"
  shows "\<exists>h. uuid_of s = Inr (hex_val h) \<and> h = concat (split_on (CHR ''-'') s) \<and> length h = 32 \<and> list_all is_hex h"
proof -
  let ?h = "concat (split_on (CHR ''-'') s)"
  have hex: "list_all is_hex ?h" and len: "length ?h = 32"
    using assms by (auto simp: uuid_re_def Let_def list_all_iff length_concat)
  have "\<forall>c \<in> set s. c = CHR ''-'' \<or> is_hex c"
    using hex arg_cong [OF filter_split [of "CHR ''-''" s], of set] unfolding list_all_iff by (auto simp del: set_concat)
  then have sp: "\<forall>c \<in> set s. c \<notin> set ''u{}''" using hex_not_special by fastforce
  then have "strip_chars ''{}'' s = s" by (intro strip_chars_absent) simp
  moreover have u: "CHR ''u'' \<notin> set s" using sp by auto
  moreover have "remove_all ''urn:'' s = s" using remove_all_absent [of "CHR ''u''" "''urn:''"] u by simp
  moreover have "remove_all ''uuid:'' s = s" using remove_all_absent [of "CHR ''u''" "''uuid:''"] u by simp
  ultimately have "remove_all ''-'' (strip_chars ''{}'' (remove_all ''uuid:'' (remove_all ''urn:'' s))) = ?h"
    by (simp add: remove_all_char filter_split)
  moreover have "int_base16 ?h = Inr (int (hex_val ?h))" using int_base16_hex [OF hex] len by fastforce
  moreover have "int (hex_val ?h) < 2 ^ 128" using hex_val_bound [OF hex] len by simp
  ultimately show ?thesis using hex len by (simp add: uuid_of_def Let_def)
qed

lemma uuid_re_str: "uuid_re (uuid_str n)"
  and uuid_str_parts: "concat (split_on (CHR ''-'') (uuid_str n)) = hex_digits 32 n"
proof -
  let ?h = "hex_digits 32 n"
  let ?ps = "[take 8 ?h, take 4 (drop 8 ?h), take 4 (drop 12 ?h), take 4 (drop 16 ?h), drop 20 ?h]"
  have h: "\<forall>p \<in> set ?ps. \<forall>c \<in> set p. is_hex c"
    using hex_digits_hex is_hex_lower_is_hex by (auto dest!: in_set_takeD in_set_dropD)
  then have sp: "split_on (CHR ''-'') (uuid_str n) = ?ps"
    unfolding uuid_str_def Let_def by (intro split_join) (use not_hex_dash in \<open>blast, metis\<close>)
  show "uuid_re (uuid_str n)" using h by (simp add: uuid_re_def sp Let_def list_all_iff)
  have "?h = take 8 ?h @ take 4 (drop 8 ?h) @ take 4 (drop 12 ?h) @ take 4 (drop 16 ?h) @ drop 20 ?h"
    using append_take_drop_id [of 8 ?h] append_take_drop_id [of 4 "drop 8 ?h"]
      append_take_drop_id [of 4 "drop 12 ?h"] append_take_drop_id [of 4 "drop 16 ?h"] by simp
  then show "concat (split_on (CHR ''-'') (uuid_str n)) = ?h" by (simp add: sp)
qed

lemma uuid_of_str:
  assumes "n < 2 ^ 128"
  shows "uuid_of (uuid_str n) = Inr n"
proof -
  have "(2::nat) ^ 128 = 16 ^ 32" by simp
  then show ?thesis
    using uuid_re_value [OF uuid_re_str [of n]] uuid_str_parts [of n] hex_val_digits [of n 32] assms by auto
qed

lemma uuid_of_range: "uuid_of s = Inr n \<Longrightarrow> n < 2 ^ 128"
  by (auto simp: uuid_of_def Let_def rbind_eq_Inr nat_less_iff)

lemma uuid_str_chars: "c \<in> set (uuid_str n) \<Longrightarrow> c = CHR ''-'' \<or> is_hex c"
  using arg_cong [OF filter_split [of "CHR ''-''" "uuid_str n"], of set] hex_digits_hex [of c 32 n] is_hex_lower_is_hex
  unfolding uuid_str_parts by auto

lemma strip_uuid_str [simp]: "strip (uuid_str n) = uuid_str n"
proof (rule strip_no_space)
  show "\<forall>c \<in> set (uuid_str n). \<not> py_isspace c"
    using uuid_str_chars hex_not_special by (fastforce simp: py_isspace_def ccode_def)
qed

section \<open>What is encoded is what is parsed\<close>

lemma dropWhile_space_lower: "dropWhile py_isspace (lower s) = lower (dropWhile py_isspace s)"
  by (induction s) (simp_all add: lower_def)

lemma rev_lower: "rev (lower s) = lower (rev s)"
  by (simp add: lower_def rev_map)

lemma strip_lower: "strip (lower s) = lower (strip s)"
  by (simp add: strip_def lstrip_def rstrip_def dropWhile_space_lower rev_lower)

lemma payment_ref_printed:
  assumes "0 \<le> b" and "0 \<le> t" and "parse_payment_ref (str_of_int b) (str_of_int t) = Inr (Some x)"
  shows "x = (b, t)"
proof -
  have "strip (str_of_nat n) = str_of_nat n" "digits_re (str_of_nat n)" for n
    using str_of_nat_digits [of n] digit_not_space by (auto simp: digits_re_def list_all_iff intro: strip_no_space)
  with assms show ?thesis
    by (auto simp: parse_payment_ref_def str_of_int_nonneg Let_def int_limited_def rbind_eq_Inr split: if_splits)
qed

lemma printed_no_pipe: "0 \<le> i \<Longrightarrow> CHR ''|'' \<notin> set (str_of_int i)"
  using str_of_nat_digits [of "nat i"] by (auto simp: str_of_int_nonneg is_ascii_digit_def ccode_def)

lemma payment_parts_cases:
  assumes "payment_parts pb pt = Inr tail"
  shows "(pb = None \<and> pt = None \<and> tail = []) \<or>
    (\<exists>b t. pb = Some b \<and> pt = Some t \<and> 0 \<le> b \<and> 0 \<le> t \<and> tail = [str_of_int b, str_of_int t])"
  using assms by (auto simp: payment_parts_def split: option.splits if_splits)

definition payment_pair :: "int option \<Rightarrow> int option \<Rightarrow> (int \<times> int) option" where
  "payment_pair pb pt = (case (pb, pt) of (Some b, Some t) \<Rightarrow> Some (b, t) | _ \<Rightarrow> None)"

lemma parse_v2_parts:
  assumes "split_on (CHR ''|'') raw = [v, cid, baseline, hash, url] @ tail" and "payment_parts pb pt = Inr tail"
    and "parse_v2 raw = Inr (Some p)"
  shows "\<exists>n. uuid_of (strip cid) = Inr n \<and> p = \<lparr>p_campaign_id = uuid_str n, p_baseline_commit = lower (strip baseline),
    p_patch_hash = lower (strip hash), p_retrieval_url = strip url, p_payment = payment_pair pb pt\<rparr>"
proof -
  let ?p = "\<lambda>n. \<lparr>p_campaign_id = uuid_str n, p_baseline_commit = lower (strip baseline),
    p_patch_hash = lower (strip hash), p_retrieval_url = strip url, p_payment = None\<rparr>"
  have tail: "length tail = 0 \<or> length tail = 2" using payment_parts_cases [OF assms(2)] by auto
  then have "\<not> (length tail \<noteq> 0 \<and> length tail \<noteq> 2)" by auto
  moreover from this have "fields_ok cid baseline hash url"
    using assms(3) unfolding parse_v2_def assms(1) by (simp split: if_splits)
  ultimately have e: "rbind (canonical_fields cid baseline hash url) (\<lambda>p. case tail of
        [b, t] \<Rightarrow> rbind (parse_payment_ref b t) (\<lambda>pay.
          Inr (case pay of None \<Rightarrow> None | Some x \<Rightarrow> Some (p\<lparr>p_payment := Some x\<rparr>)))
      | _ \<Rightarrow> Inr (Some p)) = Inr (Some p)"
    using assms(3) unfolding parse_v2_def assms(1) by (simp split: if_splits)
  then obtain n where n: "uuid_of (strip cid) = Inr n"
    by (cases "uuid_of (strip cid)") (simp_all add: canonical_fields_def)
  note rest = e [unfolded canonical_fields_def n rbind_Inr]
  from payment_parts_cases [OF assms(2)] have "p = (?p n)\<lparr>p_payment := payment_pair pb pt\<rparr>"
  proof (elim disjE exE conjE)
    fix b t
    assume bt: "pb = Some b" "pt = Some t" "0 \<le> b" "0 \<le> t" and t: "tail = [str_of_int b, str_of_int t]"
    with rest obtain x where "parse_payment_ref (str_of_int b) (str_of_int t) = Inr (Some x)"
      "p = (?p n)\<lparr>p_payment := Some x\<rparr>"
      by (auto simp: rbind_eq_Inr split: option.splits)
    with payment_ref_printed [OF bt(3,4)] show ?thesis by (simp add: bt(1,2) payment_pair_def)
  qed (use rest in \<open>auto simp: payment_pair_def\<close>)
  with n show ?thesis by simp
qed

lemma encode_parsed:
  assumes "encode_patch_commitment loads cid baseline hash url pb pt = Inr raw"
  shows "utf8_size raw \<le> 384 \<and> (\<exists>n. uuid_of cid = Inr n \<and>
    parse_patch_commitment loads raw = Inr (Some \<lparr>p_campaign_id = uuid_str n, p_baseline_commit = lower (strip baseline),
      p_patch_hash = lower (strip hash), p_retrieval_url = strip url, p_payment = payment_pair pb pt\<rparr>))"
proof -
  from assms obtain n tail p where n: "uuid_of cid = Inr n" and tail: "payment_parts pb pt = Inr tail"
    and raw: "raw = join_with (CHR ''|'') ([''v2'', uuid_str n, lower baseline, lower hash, strip url] @ tail)"
    and pipe: "\<forall>v \<in> set [uuid_str n, lower baseline, lower hash, strip url]. CHR ''|'' \<notin> set v"
    and size: "utf8_size raw \<le> 384" and p: "parse_patch_commitment loads raw = Inr (Some p)"
    by (auto simp: encode_patch_commitment_def Let_def rbind_eq_Inr max_plaintext_bytes_def)
  have "\<forall>v \<in> set tail. CHR ''|'' \<notin> set v" using payment_parts_cases [OF tail] printed_no_pipe by auto
  with pipe have split: "split_on (CHR ''|'') raw = [''v2'', uuid_str n, lower baseline, lower hash, strip url] @ tail"
    unfolding raw by (intro split_join) auto
  have "startswith raw ''v2|''" "raw \<noteq> []" unfolding raw by (simp_all add: startswith_def)
  with p have "parse_v2 raw = Inr (Some p)" by (simp add: parse_patch_commitment_def)
  from parse_v2_parts [OF split tail this] uuid_of_str [OF uuid_of_range [OF n]] n p size show ?thesis
    by (auto simp: strip_lower)
qed

text \<open>
  C29. What a miner's tool encodes is what the validator reads: when the encoder returns a string, the
  string fits the 384 bytes of the chain's commitment, and parsing it gives back the campaign as its
  canonical UUID, the baseline and the patch hash in lower case without blanks, the URL without
  blanks, and exactly the payment reference that was encoded, or none.
\<close>

theorem encode_parse_roundtrip:
  assumes "encode_patch_commitment loads cid baseline hash url pb pt = Inr raw"
  shows "utf8_size raw \<le> 384 \<and> (\<exists>n. uuid_of cid = Inr n \<and>
    parse_patch_commitment loads raw = Inr (Some \<lparr>p_campaign_id = uuid_str n, p_baseline_commit = lower (strip baseline),
      p_patch_hash = lower (strip hash), p_retrieval_url = strip url, p_payment = payment_pair pb pt\<rparr>))"
  using encode_parsed [OF assms] .

text \<open>The encoder does not refuse a well-formed request that fits.\<close>

definition wire :: "nat \<Rightarrow> string \<Rightarrow> string \<Rightarrow> string \<Rightarrow> int \<Rightarrow> int \<Rightarrow> string" where
  "wire n baseline hash url b t = join_with (CHR ''|'') [''v2'', uuid_str n, baseline, hash, url, str_of_int b, str_of_int t]"

lemma hex_field: "list_all is_hex_lower s \<Longrightarrow> strip s = s \<and> lower s = s \<and> CHR ''|'' \<notin> set s"
  using hex_not_special is_hex_lower_is_hex hex_not_space
  by (fastforce simp: list_all_iff lower_def intro: strip_no_space map_idI)

lemma hash_field:
  assumes "patch_hash_re s"
  shows "strip s = s \<and> lower s = s \<and> CHR ''|'' \<notin> set s"
proof -
  have hex: "list_all is_hex_lower (drop 7 s)" and take: "take 7 s = ''sha256:''"
    using assms by (simp_all add: patch_hash_re_def startswith_def numeral_eq_Suc)
  obtain h where s: "s = ''sha256:'' @ h" and h: "list_all is_hex_lower h"
    using append_take_drop_id [of 7 s] hex take by metis
  have "lower ''sha256:'' = ''sha256:''" "\<forall>c \<in> set ''sha256:''. \<not> py_isspace c"
    by (simp_all add: lower_def lower_char_def py_isspace_def ccode_def)
  then show ?thesis
    using hex_field [OF h] h hex_not_space unfolding s
    by (auto simp: lower_def list_all_iff intro!: strip_no_space)
qed

lemma payment_ref_parsed:
  assumes "1 \<le> b" "b \<le> max_payment_ref" "0 \<le> t" "t \<le> max_payment_ref"
    and "length (str_of_int b) \<le> 4300" "length (str_of_int t) \<le> 4300"
  shows "parse_payment_ref (str_of_int b) (str_of_int t) = Inr (Some (b, t))"
proof -
  have "strip (str_of_nat n) = str_of_nat n" "digits_re (str_of_nat n)" for n
    using str_of_nat_digits [of n] digit_not_space by (auto simp: digits_re_def list_all_iff intro: strip_no_space)
  with assms show ?thesis
    by (simp add: parse_payment_ref_def str_of_int_nonneg Let_def int_limited_def)
qed

lemma utf8_size_length: "length s \<le> utf8_size s"
  by (induction s) (auto simp: utf8_size_def)

lemma encode_succeeds:
  assumes n: "n < 2 ^ 128" and sha: "git_sha_re baseline" and hash: "patch_hash_re hash"
    and url: "http_url url" "strip url = url" "CHR ''|'' \<notin> set url"
    and ref: "1 \<le> b" "b \<le> max_payment_ref" "0 \<le> t" "t \<le> max_payment_ref"
    and size: "utf8_size (wire n baseline hash url b t) \<le> max_plaintext_bytes"
  shows "encode_patch_commitment loads (uuid_str n) baseline hash url (Some b) (Some t) =
    Inr (wire n baseline hash url b t)"
proof -
  let ?raw = "wire n baseline hash url b t"
  have f: "strip baseline = baseline" "lower baseline = baseline" "CHR ''|'' \<notin> set baseline"
    "strip hash = hash" "lower hash = hash" "CHR ''|'' \<notin> set hash"
    using sha hash_field [OF hash] hex_field [of baseline] by (auto simp: git_sha_re_def)
  have cid: "CHR ''|'' \<notin> set (uuid_str n)" using uuid_str_chars hex_not_special by fastforce
  have sp: "split_on (CHR ''|'') ?raw = [''v2'', uuid_str n, baseline, hash, url, str_of_int b, str_of_int t]"
    unfolding wire_def using f cid url printed_no_pipe ref by (intro split_join) auto
  have len: "length (str_of_int b) \<le> 4300" "length (str_of_int t) \<le> 4300"
    using size utf8_size_length [of ?raw] by (auto simp: wire_def max_plaintext_bytes_def)
  have "fields_ok (uuid_str n) baseline hash url"
    using uuid_re_str sha hash url f by (simp add: fields_ok_def)
  then have "parse_v2 ?raw \<noteq> Inr None \<and> (\<exists>p. parse_v2 ?raw = Inr p)"
    using payment_ref_parsed [OF ref len] uuid_of_str [OF n] by (simp add: parse_v2_def sp canonical_fields_def)
  moreover have "startswith ?raw ''v2|''" "?raw \<noteq> []" by (simp_all add: wire_def startswith_def)
  ultimately obtain p where "parse_patch_commitment loads ?raw = Inr (Some p)"
    by (auto simp: parse_patch_commitment_def)
  then show ?thesis
    using f cid url ref size uuid_of_str [OF n]
    by (simp add: encode_patch_commitment_def payment_parts_def wire_def)
qed

lemma wire_parses:
  assumes "n < 2 ^ 128" "git_sha_re baseline" "patch_hash_re hash" "http_url url" "strip url = url" "CHR ''|'' \<notin> set url"
    "1 \<le> b" "b \<le> max_payment_ref" "0 \<le> t" "t \<le> max_payment_ref"
    "utf8_size (wire n baseline hash url b t) \<le> max_plaintext_bytes"
  shows "parse_patch_commitment loads (wire n baseline hash url b t) = Inr (Some \<lparr>p_campaign_id = uuid_str n,
    p_baseline_commit = lower (strip baseline), p_patch_hash = lower (strip hash), p_retrieval_url = url, p_payment = Some (b, t)\<rparr>)"
  using encode_parsed [OF encode_succeeds [OF assms], of loads] uuid_of_str [OF assms(1)] assms(5) by (simp add: payment_pair_def)

definition ex_sha :: string where
  "ex_sha = replicate 40 (CHR ''a'')"

definition ex_hash :: string where
  "ex_hash = ''sha256:'' @ replicate 64 (CHR ''b'')"

lemma ex_wire_fits: "utf8_size (wire 171 ex_sha ex_hash ''https://s/x'' 7 3) \<le> max_plaintext_bytes"
  by code_simp

theorem encode_parse_roundtrip_witness:
  "utf8_size (wire 171 ex_sha ex_hash ''https://s/x'' 7 3) \<le> 384 \<and>
    parse_patch_commitment (\<lambda>_. Inr None) (wire 171 ex_sha ex_hash ''https://s/x'' 7 3) =
      Inr (Some \<lparr>p_campaign_id = uuid_str 171, p_baseline_commit = lower (strip ex_sha),
        p_patch_hash = lower (strip ex_hash), p_retrieval_url = strip ''https://s/x'', p_payment = Some (7, 3)\<rparr>)"
proof -
  have "git_sha_re ex_sha" "patch_hash_re ex_hash" "http_url ''https://s/x''" "strip ''https://s/x'' = ''https://s/x''"
    by code_simp+
  then have "encode_patch_commitment (\<lambda>_. Inr None) (uuid_str 171) ex_sha ex_hash ''https://s/x'' (Some 7) (Some 3) =
      Inr (wire 171 ex_sha ex_hash ''https://s/x'' 7 3)"
    using ex_wire_fits by (intro encode_succeeds) (simp_all add: max_payment_ref_def)
  from encode_parse_roundtrip [OF this] uuid_of_str [of 171] show ?thesis by (simp add: payment_pair_def)
qed

end
