(* ===== verification/Locator.thy ===== *)
theory Locator
  imports Commitment
begin

text \<open>
  The addresses of patches in \<open>storage/s3.py\<close>: the object keys the validator hands out, the URLs
  made of them, and the checks that decide which URL of a commitment may be fetched and whose it is.
  \<open>urlparse\<close> is modelled as far as the code reads it (scheme, path, query, fragment); the library's
  check of a bracketed IP address is the argument \<open>host_ok\<close>.
\<close>

record s3_config =
  s3_endpoint_url :: string
  s3_bucket :: string
  s3_region :: string
  s3_prefix :: string
  s3_public_base_url :: string

abbreviation slash :: char where
  "slash \<equiv> CHR 0x2F"

definition rstrip_slash :: "string \<Rightarrow> string" where
  "rstrip_slash s = rev (dropWhile (\<lambda>c. c = slash) (rev s))"

definition strip_slash :: "string \<Rightarrow> string" where
  "strip_slash s = strip_chars [slash] s"

definition object_key_for :: "s3_config \<Rightarrow> string \<Rightarrow> string \<Rightarrow> string \<Rightarrow> string res" where
  "object_key_for cfg campaign_id hotkey upload_id = rbind (uuid_of upload_id) (\<lambda>n.
     Inr (strip_slash (s3_prefix cfg) @ ''/private/campaigns/'' @ campaign_id @ ''/patches/'' @ hotkey @ ''/'' @
       uuid_str n @ ''.diff''))"

definition s3_retrieval_url :: "s3_config \<Rightarrow> string \<Rightarrow> string" where
  "s3_retrieval_url cfg object_key = (if s3_endpoint_url cfg \<noteq> []
     then rstrip_slash (s3_endpoint_url cfg) @ ''/'' @ s3_bucket cfg @ ''/'' @ object_key
     else ''https://'' @ s3_bucket cfg @ ''.s3.'' @ s3_region cfg @ ''.amazonaws.com/'' @ object_key)"

definition public_retrieval_url :: "s3_config \<Rightarrow> string \<Rightarrow> string" where
  "public_retrieval_url cfg object_key = (if s3_public_base_url cfg \<noteq> []
     then rstrip_slash (s3_public_base_url cfg) @ ''/'' @ object_key else s3_retrieval_url cfg object_key)"

definition ascii_alnum :: "char \<Rightarrow> bool" where
  "ascii_alnum c = (is_ascii_digit c \<or> (65 \<le> ccode c \<and> ccode c \<le> 90) \<or> (97 \<le> ccode c \<and> ccode c \<le> 122))"

definition private_prefix :: "s3_config \<Rightarrow> string" where
  "private_prefix cfg = strip_slash (s3_prefix cfg) @ ''/private/campaigns/''"

text \<open>\<open>str(uuid.UUID(s)) == s\<close>, where a string that is no UUID makes the caller give up.\<close>

definition canonical_uuid :: "string \<Rightarrow> bool" where
  "canonical_uuid s = (case uuid_of s of Inl _ \<Rightarrow> False | Inr n \<Rightarrow> uuid_str n = s)"

definition private_patch_key :: "s3_config \<Rightarrow> string \<Rightarrow> string option" where
  "private_patch_key cfg url = (let base = s3_retrieval_url cfg []; prefix = private_prefix cfg in
     if \<not> startswith url base then None
     else let key = drop (length base) url in
       if \<not> startswith key prefix then None
       else case split_on slash (drop (length prefix) key) of
         [campaign, dir, hotkey, filename] \<Rightarrow>
           if dir \<noteq> ''patches'' then None
           else if \<not> (hotkey \<noteq> [] \<and> list_all ascii_alnum hotkey) \<or>
             \<not> (5 \<le> length filename \<and> drop (length filename - 5) filename = ''.diff'') then None
           else if canonical_uuid campaign \<and> canonical_uuid (take (length filename - 5) filename) then Some key else None
       | _ \<Rightarrow> None)"

section \<open>URLs\<close>

record url_parts =
  u_scheme :: string
  u_path :: string
  u_query :: string
  u_fragment :: string

definition ascii_alpha :: "char \<Rightarrow> bool" where
  "ascii_alpha c = ((65 \<le> ccode c \<and> ccode c \<le> 90) \<or> (97 \<le> ccode c \<and> ccode c \<le> 122))"

definition url_clean :: "string \<Rightarrow> string" where
  "url_clean u = filter (\<lambda>c. c \<notin> set [CHR 0x09, CHR 0x0A, CHR 0x0D]) (dropWhile (\<lambda>c. ccode c \<le> 32) u)"

text \<open>\<open>s.split(c, 1)\<close> where the separator is present, and the pair \<open>(s, '')\<close> where it is not.\<close>

definition cut :: "char \<Rightarrow> string \<Rightarrow> string \<times> string" where
  "cut c s = (takeWhile (\<lambda>x. x \<noteq> c) s, drop 1 (dropWhile (\<lambda>x. x \<noteq> c) s))"

definition split_scheme :: "string \<Rightarrow> string \<times> string" where
  "split_scheme u = (let (pre, post) = cut (CHR '':'') u in
     if CHR '':'' \<in> set u \<and> pre \<noteq> [] \<and> ascii_alpha (hd pre) \<and> list_all (\<lambda>c. ascii_alnum c \<or> c \<in> set ''+-.'') pre
     then (lower pre, post) else ([], u))"

definition split_netloc :: "string \<Rightarrow> string \<times> string" where
  "split_netloc u = (if startswith u ''//''
     then (takeWhile (\<lambda>c. c \<notin> set ''/?#'') (drop 2 u), dropWhile (\<lambda>c. c \<notin> set ''/?#'') (drop 2 u)) else ([], u))"

definition uses_params :: "string list" where
  "uses_params = ['''', ''ftp'', ''hdl'', ''prospero'', ''http'', ''https'', ''shttp'', ''rtsp'', ''rtsps'', ''sip'',
     ''sips'', ''mms'', ''sftp'', ''tel'']"

definition drop_params :: "string \<Rightarrow> string" where
  "drop_params u = rev (dropWhile (\<lambda>c. c \<noteq> slash) (rev u)) @
     takeWhile (\<lambda>c. c \<noteq> CHR '';'') (rev (takeWhile (\<lambda>c. c \<noteq> slash) (rev u)))"

definition urlparse :: "(string \<Rightarrow> bool) \<Rightarrow> string \<Rightarrow> url_parts res" where
  "urlparse host_ok url = (let (scheme, u1) = split_scheme (url_clean url); (netloc, u2) = split_netloc u1;
     lb = (CHR ''['' \<in> set netloc); rb = (CHR '']'' \<in> set netloc) in
     rbind (rguard (lb = rb \<and> (lb \<longrightarrow> host_ok netloc)) (ValueError ''Invalid IPv6 URL'')) (\<lambda>_.
     let (u3, fragment) = cut (CHR ''#'') u2; (u4, query) = cut (CHR ''?'') u3 in
     Inr \<lparr>u_scheme = scheme, u_path = (if scheme \<in> set uses_params then drop_params u4 else u4),
       u_query = query, u_fragment = fragment\<rparr>))"

definition is_allowed_retrieval_url :: "(string \<Rightarrow> bool) \<Rightarrow> s3_config \<Rightarrow> string \<Rightarrow> bool" where
  "is_allowed_retrieval_url host_ok cfg url = (if private_patch_key cfg url \<noteq> None then True
     else case urlparse host_ok url of Inl _ \<Rightarrow> False | Inr parsed \<Rightarrow>
       if u_scheme parsed \<notin> set [''http'', ''https''] \<or> u_query parsed \<noteq> [] \<or> u_fragment parsed \<noteq> [] then False
       else let path = dropWhile (\<lambda>c. c = slash) (u_path parsed); prefix = strip_slash (s3_prefix cfg);
                base = public_retrieval_url cfg [] in
         if \<not> startswith url base then False
         else let key = drop (length base) url in
           startswith key (prefix @ ''/campaigns/'') \<and>
           list_all (\<lambda>part. part \<notin> set ['''', ''.'', ''..'']) (split_on slash key) \<and> CHR ''%'' \<notin> set path)"

text \<open>The first \<open>patches\<close> segment that follows \<open>campaigns/<id>\<close> and has a non-empty segment after it.\<close>

definition hotkey_at :: "string list \<Rightarrow> nat \<Rightarrow> bool" where
  "hotkey_at parts i = (parts ! i = ''patches'' \<and> 2 \<le> i \<and> parts ! (i - 2) = ''campaigns'' \<and>
     i + 1 < length parts \<and> parts ! (i + 1) \<noteq> [])"

definition patch_url_hotkey :: "(string \<Rightarrow> bool) \<Rightarrow> string \<Rightarrow> string option" where
  "patch_url_hotkey host_ok url = (case urlparse host_ok url of Inl _ \<Rightarrow> None
     | Inr parsed \<Rightarrow> let parts = split_on slash (strip_slash (u_path parsed)) in
         map_option (\<lambda>i. parts ! (i + 1)) (find (hotkey_at parts) [0..<length parts]))"

section \<open>Which URLs are private locators\<close>

lemma startswith_split: "startswith s p \<longleftrightarrow> (\<exists>r. s = p @ r)"
  unfolding startswith_def by (metis append_eq_conv_conj append_take_drop_id)

lemma canonical_uuid_iff: "canonical_uuid s \<longleftrightarrow> (\<exists>n < 2 ^ 128. s = uuid_str n)"
proof
  assume "canonical_uuid s"
  then show "\<exists>n < 2 ^ 128. s = uuid_str n"
    using uuid_of_range by (auto simp: canonical_uuid_def split: sum.splits)
next
  assume "\<exists>n < 2 ^ 128. s = uuid_str n"
  then show "canonical_uuid s" using uuid_of_str by (auto simp: canonical_uuid_def)
qed

text \<open>The key of a private patch, spelled out.\<close>

definition locator_key :: "s3_config \<Rightarrow> nat \<Rightarrow> string \<Rightarrow> nat \<Rightarrow> string" where
  "locator_key cfg campaign hotkey upload = private_prefix cfg @
     join_with slash [uuid_str campaign, ''patches'', hotkey, uuid_str upload @ ''.diff'']"

lemma object_key_is_locator:
  "m < 2 ^ 128 \<Longrightarrow> object_key_for cfg (uuid_str n) hotkey (uuid_str m) = Inr (locator_key cfg n hotkey m)"
  by (simp add: object_key_for_def uuid_of_str locator_key_def private_prefix_def)

lemma no_slash: "slash \<notin> set (uuid_str n)" "list_all ascii_alnum h \<Longrightarrow> slash \<notin> set h"
proof -
  have "\<not> is_hex slash" by code_simp
  then show "slash \<notin> set (uuid_str n)" using uuid_str_chars by fastforce
  have "\<not> ascii_alnum slash" by code_simp
  then show "list_all ascii_alnum h \<Longrightarrow> slash \<notin> set h" by (auto simp: list_all_iff)
qed

lemma private_patch_key_iff:
  "private_patch_key cfg url = Some key \<longleftrightarrow>
    (\<exists>campaign hotkey upload. campaign < 2 ^ 128 \<and> upload < 2 ^ 128 \<and> hotkey \<noteq> [] \<and> list_all ascii_alnum hotkey \<and>
      object_key_for cfg (uuid_str campaign) hotkey (uuid_str upload) = Inr key \<and> url = s3_retrieval_url cfg key)"
  (is "?L = (\<exists>campaign hotkey upload. ?R campaign hotkey upload)")
proof
  let ?base = "s3_retrieval_url cfg []"
  have base: "s3_retrieval_url cfg k = ?base @ k" for k by (simp add: s3_retrieval_url_def)
  {
    assume ?L
    then obtain rest campaign hotkey fname where url: "url = ?base @ key" and key: "key = private_prefix cfg @ rest"
      and rest: "split_on slash rest = [campaign, ''patches'', hotkey, fname]"
      and h: "hotkey \<noteq> []" "list_all ascii_alnum hotkey" and fname: "5 \<le> length fname" "drop (length fname - 5) fname = ''.diff''"
      and ids: "canonical_uuid campaign" "canonical_uuid (take (length fname - 5) fname)"
      by (auto simp: private_patch_key_def Let_def startswith_split split: if_splits list.splits)
    obtain n m where nm: "n < 2 ^ 128" "campaign = uuid_str n" "m < 2 ^ 128" "take (length fname - 5) fname = uuid_str m"
      using ids by (auto simp: canonical_uuid_iff)
    have "fname = uuid_str m @ ''.diff''" using fname(2) nm(4) append_take_drop_id [of "length fname - 5" fname] by simp
    then have "key = locator_key cfg n hotkey m"
      using key nm(2) join_split [of slash rest] unfolding rest locator_key_def by simp
    then have "?R n hotkey m" using nm h url base [of key] object_key_is_locator [OF nm(3)] by simp
    then show "\<exists>campaign hotkey upload. ?R campaign hotkey upload" by blast
  }
  assume "\<exists>campaign hotkey upload. ?R campaign hotkey upload"
  then obtain n hotkey m where r: "?R n hotkey m" by blast
  then have key: "key = locator_key cfg n hotkey m" using object_key_is_locator [of m cfg n hotkey] by simp
  let ?ps = "[uuid_str n, ''patches'', hotkey, uuid_str m @ ''.diff'']"
  have "split_on slash (join_with slash ?ps) = ?ps" using r no_slash by (intro split_join) auto
  moreover have "drop (length (private_prefix cfg)) key = join_with slash ?ps"
    unfolding key locator_key_def by simp
  ultimately have "split_on slash (drop (length (private_prefix cfg)) key) = ?ps" by (simp only:)
  moreover have "canonical_uuid (uuid_str n)" "canonical_uuid (uuid_str m)" using r by (auto simp: canonical_uuid_iff)
  ultimately show ?L
    using r base [of key] by (auto simp: private_patch_key_def Let_def startswith_split key locator_key_def)
qed

lemma private_locator_key:
  assumes "private_patch_key cfg url = Some k"
  obtains n hotkey m where "k = locator_key cfg n hotkey m" "url = s3_retrieval_url cfg k" "list_all ascii_alnum hotkey"
proof -
  obtain n hotkey m where "m < 2 ^ 128" "list_all ascii_alnum hotkey" "url = s3_retrieval_url cfg k"
    "object_key_for cfg (uuid_str n) hotkey (uuid_str m) = Inr k"
    using assms unfolding private_patch_key_iff by blast
  with object_key_is_locator [of m cfg n hotkey] that [of n hotkey m] show ?thesis by simp
qed

text \<open>
  C38. The private locators are exactly the addresses the validator hands out: a URL has a private
  patch key if and only if it is the configured bucket's URL of a key
  \<open>prefix/private/campaigns/<campaign>/patches/<hotkey>/<upload>.diff\<close>, with a canonical campaign
  and upload UUID and an alphanumeric hotkey, and that key, which \<open>object_key_for\<close> makes, is the
  one returned.
\<close>

theorem private_locator_exact:
  "private_patch_key cfg url = Some key \<longleftrightarrow>
    (\<exists>campaign hotkey upload. campaign < 2 ^ 128 \<and> upload < 2 ^ 128 \<and> hotkey \<noteq> [] \<and> list_all ascii_alnum hotkey \<and>
      object_key_for cfg (uuid_str campaign) hotkey (uuid_str upload) = Inr key \<and> url = s3_retrieval_url cfg key)"
  by (rule private_patch_key_iff)

end
