(* ===== verification/Payment.thy ===== *)
theory Payment
  imports PyValue
begin

text \<open>
  \<open>chain/payment.py\<close>: the check of the transfer a commitment names as its submission fee, on the
  decoded extrinsics and events of one block. The decoder of the chain client is not part of the
  repository: what it returns are arbitrary \<^typ>\<open>json\<close> values here, so every branch that the source
  keeps for an unexpected shape is a branch of the model, the exceptions included.
\<close>

record payment_check =
  pay_ok :: bool
  pay_reason :: string
  pay_amount_rao :: int

definition reject :: "string \<Rightarrow> payment_check" where
  "reject reason = \<lparr>pay_ok = False, pay_reason = reason, pay_amount_rao = 0\<rparr>"

record block_payment_view =
  bv_extrinsics :: "json list"
  bv_events :: "json list"

definition transfer_functions :: "string list" where
  "transfer_functions = [''transfer_keep_alive'', ''transfer_allow_death'']"

definition ss58 :: "json \<Rightarrow> string option" where
  "ss58 v = (case v of JStr s \<Rightarrow> Some s
     | JObj d \<Rightarrow> (case List.map_filter (\<lambda>k. case jget d k of JStr s \<Rightarrow> Some s | _ \<Rightarrow> None) [''Id'', ''id'', ''value''] of
         [] \<Rightarrow> None | s # _ \<Rightarrow> Some s)
     | _ \<Rightarrow> None)"

text \<open>\<open>int(s)\<close> under \<open>s.isdigit()\<close>: the superscripts are digits to \<open>isdigit\<close> and not to \<open>int\<close>.\<close>

definition int_of_isdigit :: "string \<Rightarrow> int res" where
  "int_of_isdigit s = rbind (int_limited s) (\<lambda>_. int_of_digits s)"

definition rao :: "json \<Rightarrow> int option res" where
  "rao v = (case v of JInt i \<Rightarrow> Inr (Some i)
     | JStr s \<Rightarrow> if isdigit s then rbind (int_of_isdigit s) (\<lambda>i. Inr (Some i)) else Inr None
     | _ \<Rightarrow> Inr None)"

text \<open>
  The named arguments of a call. A name that is not a string is skipped: its \<open>str\<close> is neither
  \<open>dest\<close> nor \<open>value\<close>, the only two names that are read. Iterating an object or a string gives
  strings, which are not arguments; a number or \<open>True\<close> cannot be iterated.
\<close>

definition named_arg :: "json \<Rightarrow> (string \<times> json) option" where
  "named_arg arg = (case arg of JObj d \<Rightarrow> (case jget d ''name'' of JStr n \<Rightarrow> Some (n, jget d ''value'') | _ \<Rightarrow> None)
     | _ \<Rightarrow> None)"

definition call_args :: "jdict \<Rightarrow> jdict res" where
  "call_args call = (case jget call ''call_args'' of
     JArr xs \<Rightarrow> Inr (foldl (\<lambda>args kv. jput args (fst kv) (snd kv)) [] (List.map_filter named_arg xs))
   | JNull \<Rightarrow> Inr [] | JStr _ \<Rightarrow> Inr [] | JObj _ \<Rightarrow> Inr []
   | JBool b \<Rightarrow> if b then Inl (PyTypeError ''not iterable'') else Inr []
   | JInt i \<Rightarrow> if i \<noteq> 0 then Inl (PyTypeError ''not iterable'') else Inr []
   | JFloat x \<Rightarrow> if x \<noteq> Fin 0 then Inl (PyTypeError ''not iterable'') else Inr [])"

text \<open>\<open>v in TRANSFER_FUNCTIONS\<close>, which hashes \<open>v\<close>.\<close>

definition is_transfer_function :: "json \<Rightarrow> bool res" where
  "is_transfer_function v = (case v of JStr s \<Rightarrow> Inr (s \<in> set transfer_functions)
     | JArr _ \<Rightarrow> Inl (PyTypeError ''unhashable type'') | JObj _ \<Rightarrow> Inl (PyTypeError ''unhashable type'')
     | _ \<Rightarrow> Inr False)"

definition extract_transfer :: "json \<Rightarrow> (string \<times> string \<times> int) option res" where
  "extract_transfer extrinsic = (case extrinsic of JObj x \<Rightarrow> (case jget x ''call'' of JObj call \<Rightarrow>
       if jget call ''call_module'' \<noteq> JStr ''Balances'' then Inr None
       else rbind (is_transfer_function (jget call ''call_function'')) (\<lambda>b.
         if \<not> b then Inr None
         else let signer = ss58 (jget x ''address'') in
           rbind (call_args call) (\<lambda>args. let dest = ss58 (jget args ''dest'') in
           rbind (rao (jget args ''value'')) (\<lambda>amount.
           case (signer, dest, amount) of (Some s, Some d, Some a) \<Rightarrow> Inr (Some (s, d, a)) | _ \<Rightarrow> Inr None)))
     | _ \<Rightarrow> Inr None) | _ \<Rightarrow> Inr None)"

definition applied_index :: "jdict \<Rightarrow> int option res" where
  "applied_index event = (case jget event ''phase'' of JObj phase \<Rightarrow> (case jget phase ''ApplyExtrinsic'' of
       JInt i \<Rightarrow> Inr (Some i)
     | JStr s \<Rightarrow> if isdigit s then rbind (int_of_isdigit s) (\<lambda>i. Inr (Some i)) else Inr None
     | _ \<Rightarrow> Inr None) | _ \<Rightarrow> Inr None)"

definition extrinsic_index_of :: "json \<Rightarrow> int option res" where
  "extrinsic_index_of event = (case event of JObj e \<Rightarrow> (case jget e ''extrinsic_idx'' of
       JInt i \<Rightarrow> Inr (Some i)
     | JStr s \<Rightarrow> if isdigit s then rbind (int_of_isdigit s) (\<lambda>i. Inr (Some i)) else applied_index e
     | _ \<Rightarrow> applied_index e) | _ \<Rightarrow> Inr None)"

definition event_ids :: "json \<Rightarrow> (string \<times> string) option" where
  "event_ids event = (case event of JObj e \<Rightarrow> (case jget e ''event'' of JObj body \<Rightarrow>
       (case (jget body ''module_id'', jget body ''event_id'') of (JStr m, JStr i) \<Rightarrow> Some (m, i) | _ \<Rightarrow> None)
     | _ \<Rightarrow> None) | _ \<Rightarrow> None)"

text \<open>The scan of the events, with the two flags of the source as its state.\<close>

definition note_event :: "int \<Rightarrow> json \<Rightarrow> bool \<times> bool \<Rightarrow> (bool \<times> bool) res" where
  "note_event i event = (\<lambda>(saw_success, saw_failure). rbind (extrinsic_index_of event) (\<lambda>idx.
     if idx \<noteq> Some i then Inr (saw_success, saw_failure)
     else (case event_ids event of None \<Rightarrow> Inr (saw_success, saw_failure)
       | Some (m, eid) \<Rightarrow> if m \<noteq> ''System'' then Inr (saw_success, saw_failure)
           else if eid = ''ExtrinsicSuccess'' then Inr (True, saw_failure)
           else if eid = ''ExtrinsicFailed'' then Inr (saw_success, True)
           else Inr (saw_success, saw_failure))))"

definition extrinsic_succeeded :: "json list \<Rightarrow> int \<Rightarrow> bool option res" where
  "extrinsic_succeeded events i = rbind (rfold (note_event i) events (False, False)) (\<lambda>(saw_success, saw_failure).
     Inr (if saw_failure then Some False else if saw_success then Some True else None))"

definition verify_payment ::
  "json list \<Rightarrow> json list \<Rightarrow> int \<Rightarrow> string \<Rightarrow> int \<Rightarrow> string \<Rightarrow> string \<Rightarrow> payment_check res" where
  "verify_payment extrinsics events i recipient min_amount_rao hotkey coldkey =
     (if i < 0 \<or> i \<ge> int (length extrinsics) then Inr (reject ''payment_index_out_of_range'')
      else rbind (extract_transfer (extrinsics ! nat i)) (\<lambda>transfer. case transfer of
        None \<Rightarrow> Inr (reject ''payment_not_a_transfer'')
      | Some (signer, dest, amount_rao) \<Rightarrow>
          if dest \<noteq> recipient then Inr (reject ''payment_recipient_mismatch'')
          else if amount_rao < min_amount_rao then Inr (reject ''payment_below_fee'')
          else if \<not> (signer \<noteq> [] \<and> (signer = hotkey \<or> signer = coldkey)) then Inr (reject ''payment_signer_not_miner'')
          else rbind (extrinsic_succeeded events i) (\<lambda>outcome. Inr (case outcome of
              Some False \<Rightarrow> reject ''payment_extrinsic_failed''
            | None \<Rightarrow> reject ''payment_outcome_unknown''
            | Some True \<Rightarrow> \<lparr>pay_ok = True, pay_reason = [], pay_amount_rao = amount_rao\<rparr>))))"

section \<open>What an accepted payment is\<close>

text \<open>A \<open>System\<close> event of the given name about the extrinsic.\<close>

definition system_event :: "int \<Rightarrow> string \<Rightarrow> json \<Rightarrow> bool" where
  "system_event i name event = (extrinsic_index_of event = Inr (Some i) \<and> event_ids event = Some (''System'', name))"

lemma note_event_flags:
  assumes "note_event i ev (a, b) = Inr (a', b')"
  shows "a' = (a \<or> system_event i ''ExtrinsicSuccess'' ev) \<and> b' = (b \<or> system_event i ''ExtrinsicFailed'' ev)"
  using assms by (auto simp: note_event_def system_event_def rbind_eq_Inr split: if_splits option.splits)

lemma scan_flags:
  assumes "rfold (note_event i) evs (a, b) = Inr (a', b')"
  shows "a' = (a \<or> list_ex (system_event i ''ExtrinsicSuccess'') evs) \<and>
    b' = (b \<or> list_ex (system_event i ''ExtrinsicFailed'') evs)"
  using assms
proof (induction evs arbitrary: a b)
  case (Cons ev evs)
  then obtain a1 b1 where 1: "note_event i ev (a, b) = Inr (a1, b1)" "rfold (note_event i) evs (a1, b1) = Inr (a', b')"
    by (auto simp: rbind_eq_Inr)
  show ?case using Cons.IH [OF 1(2)] note_event_flags [OF 1(1)] by auto
qed simp

lemma extrinsic_succeeded_cases:
  assumes "extrinsic_succeeded evs i = Inr r"
  shows "r = (if list_ex (system_event i ''ExtrinsicFailed'') evs then Some False
    else if list_ex (system_event i ''ExtrinsicSuccess'') evs then Some True else None)"
  using assms scan_flags [of i evs False False] by (auto simp: extrinsic_succeeded_def rbind_eq_Inr)

text \<open>
  The extrinsic is a transfer of at least the fee to the recipient, signed by the hotkey or by the
  coldkey that owns it (never by an empty address), and the chain reported its success and no failure.
\<close>

definition paid_transfer :: "json list \<Rightarrow> json list \<Rightarrow> int \<Rightarrow> string \<Rightarrow> int \<Rightarrow> string \<Rightarrow> string \<Rightarrow> bool" where
  "paid_transfer extrinsics events i recipient fee hotkey coldkey = (0 \<le> i \<and> i < int (length extrinsics) \<and>
     (case extract_transfer (extrinsics ! nat i) of Inr (Some (signer, dest, amount)) \<Rightarrow>
        dest = recipient \<and> fee \<le> amount \<and> signer \<noteq> [] \<and> signer \<in> {hotkey, coldkey} | _ \<Rightarrow> False) \<and>
     list_ex (system_event i ''ExtrinsicSuccess'') events \<and> \<not> list_ex (system_event i ''ExtrinsicFailed'') events)"

lemma verify_payment_paid:
  assumes "verify_payment extrinsics events i recipient fee hotkey coldkey = Inr chk" and "pay_ok chk"
  shows "paid_transfer extrinsics events i recipient fee hotkey coldkey"
proof -
  have range: "0 \<le> i \<and> i < int (length extrinsics)"
    using assms by (auto simp: verify_payment_def reject_def split: if_splits)
  obtain t where t: "extract_transfer (extrinsics ! nat i) = Inr t"
    using assms range by (cases "extract_transfer (extrinsics ! nat i)") (simp_all add: verify_payment_def)
  obtain signer dest amount where tr: "t = Some (signer, dest, amount)"
    using assms range t by (cases t) (auto simp: verify_payment_def reject_def)
  have fee: "dest = recipient" "fee \<le> amount" and signer: "signer \<noteq> []" "signer = hotkey \<or> signer = coldkey"
    and out: "rbind (extrinsic_succeeded events i) (\<lambda>outcome. Inr (case outcome of
              Some False \<Rightarrow> reject ''payment_extrinsic_failed''
            | None \<Rightarrow> reject ''payment_outcome_unknown''
            | Some True \<Rightarrow> \<lparr>pay_ok = True, pay_reason = [], pay_amount_rao = amount\<rparr>)) = Inr chk"
    using assms range unfolding verify_payment_def t tr by (auto simp: reject_def split: if_splits)
  obtain outcome where o: "extrinsic_succeeded events i = Inr outcome"
    using out by (cases "extrinsic_succeeded events i") simp_all
  have "outcome = Some True \<and> pay_amount_rao chk = amount"
    using out assms(2) unfolding o by (cases outcome) (auto simp: reject_def split: bool.splits)
  with extrinsic_succeeded_cases [OF o] range t tr fee signer show ?thesis
    by (auto simp: paid_transfer_def split: if_splits)
qed

definition ex_extrinsic :: json where
  "ex_extrinsic = JObj [(''address'', JObj [(''Id'', JStr ''cold'')]), (''call'', JObj [(''call_module'', JStr ''Balances''),
     (''call_function'', JStr ''transfer_keep_alive''), (''call_args'', JArr [
       JObj [(''name'', JStr ''dest''), (''value'', JStr ''vault'')],
       JObj [(''name'', JStr ''value''), (''value'', JInt 500000000)]])])]"

definition ex_success :: json where
  "ex_success = JObj [(''phase'', JObj [(''ApplyExtrinsic'', JInt 1)]), (''event'', JObj [
     (''module_id'', JStr ''System''), (''event_id'', JStr ''ExtrinsicSuccess'')])]"

lemma ex_payment:
  "verify_payment [JNull, ex_extrinsic] [ex_success] 1 ''vault'' 500000000 ''hot'' ''cold'' =
    Inr \<lparr>pay_ok = True, pay_reason = [], pay_amount_rao = 500000000\<rparr>"
  by code_simp

end
