(* ===== verification/Fees.thy ===== *)
theory Fees
  imports PyValue
begin

text \<open>
  \<open>campaign/fees.py\<close>: the terms of the submission fee as exact decimal amounts, and their history by
  block. A finite \<open>Decimal\<close> is its sign, its coefficient and its exponent. The default context of the
  library rounds to 28 digits, half to even; where the source computes in it, the model rounds.
\<close>

section \<open>Decimals\<close>

record decimal =
  dc_neg :: bool
  dc_coeff :: nat
  dc_exp :: int

definition ndigits :: "nat \<Rightarrow> nat" where
  "ndigits n = length (str_of_nat n)"

definition adjusted :: "decimal \<Rightarrow> int" where
  "adjusted x = dc_exp x + int (ndigits (dc_coeff x)) - 1"

definition dec_exponent :: "string \<Rightarrow> int option" where
  "dec_exponent s = (case s of [] \<Rightarrow> Some 0 | _ # r \<Rightarrow> (let (neg, ds) = split_sign r in
     if digits_re ds then Some (if neg then - int (digits_val ds) else int (digits_val ds)) else None))"

definition dec_mantissa :: "string \<Rightarrow> (nat \<times> nat) option" where
  "dec_mantissa s = (case split_on (CHR ''.'') s of
     [i] \<Rightarrow> if digits_re i then Some (digits_val i, 0) else None
   | [i, f] \<Rightarrow> if digits_re (i @ f) then Some (digits_val (i @ f), length f) else None
   | _ \<Rightarrow> None)"

definition is_e :: "char \<Rightarrow> bool" where
  "is_e c = (c = CHR ''e'' \<or> c = CHR ''E'')"

text \<open>
  \<open>Decimal(s)\<close>: \<open>None\<close> where it raises, because the text is no number or because its exponent is out
  of the range of an exact decimal, and also for an infinity or a NaN, which every caller here
  treats as it treats the exception. Underscores are ignored.
\<close>

definition dec_of_str :: "string \<Rightarrow> decimal option" where
  "dec_of_str s = (let (neg, t) = split_sign (filter (\<lambda>c. c \<noteq> CHR ''_'') (strip s));
     m = takeWhile (\<lambda>c. \<not> is_e c) t; e = dropWhile (\<lambda>c. \<not> is_e c) t in
     case (dec_mantissa m, dec_exponent e) of
       (Some (c, f), Some x) \<Rightarrow> let d = \<lparr>dc_neg = neg, dc_coeff = c, dc_exp = x - int f\<rparr> in
         if -1999999999999999997 \<le> dc_exp d \<and> adjusted d \<le> 999999999999999999 then Some d else None
     | _ \<Rightarrow> None)"

text \<open>Rounding to 28 digits, and the normal form without trailing zeros.\<close>

definition round28 :: "nat \<Rightarrow> int \<Rightarrow> nat \<times> int" where
  "round28 c e = (if ndigits c \<le> 28 then (c, e)
     else let k = ndigits c - 28; q = c div 10 ^ k; r = c mod 10 ^ k in
       ((if 10 ^ k < 2 * r \<or> (2 * r = 10 ^ k \<and> odd q) then q + 1 else q), e + int k))"

fun strip_zeros :: "nat \<Rightarrow> int \<Rightarrow> nat \<times> int" where
  "strip_zeros c e = (if c = 0 then (0, 0) else if c mod 10 = 0 then strip_zeros (c div 10) (e + 1) else (c, e))"

declare strip_zeros.simps [simp del]

definition normalize :: "nat \<Rightarrow> int \<Rightarrow> nat \<times> int" where
  "normalize c e = (let (c', e') = round28 c e in strip_zeros c' e')"

text \<open>\<open>format(x, 'f')\<close> of a number that is not negative.\<close>

definition format_f :: "nat \<Rightarrow> int \<Rightarrow> string" where
  "format_f c e = (if 0 \<le> e then str_of_nat c @ (if c = 0 then [] else replicate (nat e) (CHR ''0''))
     else let k = nat (- e); ds = str_of_nat c; ps = replicate (k + 1 - length ds) (CHR ''0'') @ ds in
       take (length ps - k) ps @ CHR ''.'' # drop (length ps - k) ps)"

section \<open>Fee terms\<close>

record fee_terms =
  fee_amount_tao :: string
  fee_recipient :: string

definition max_rao :: nat where
  "max_rao = 2 ^ 64 - 1"

definition amount_text :: "json \<Rightarrow> string option" where
  "amount_text v = (case v of JStr s \<Rightarrow> Some s
     | JInt i \<Rightarrow> if ndigits (nat \<bar>i\<bar>) \<le> 4300 then Some (str_of_int i) else None | _ \<Rightarrow> None)"

text \<open>\<open>amount > MAX_RAO / 10^9\<close> and \<open>amount * 10^9\<close> being whole, for an amount \<open>c * 10^e\<close>.\<close>

definition exceeds_range :: "nat \<Rightarrow> int \<Rightarrow> bool" where
  "exceeds_range c e = (if 0 \<le> e + 9 then max_rao < c * 10 ^ nat (e + 9) else max_rao * 10 ^ nat (- (e + 9)) < c)"

definition whole_rao :: "nat \<Rightarrow> int \<Rightarrow> bool" where
  "whole_rao c e = (0 \<le> e + 9 \<or> c mod 10 ^ nat (- (e + 9)) = 0)"

definition fee_keys :: "string list" where
  "fee_keys = [''amount_tao'', ''recipient'']"

definition amount_msg :: string where
  "amount_msg = ''submission_fee.amount_tao must be a non-negative TAO amount''"

definition whole_msg :: string where
  "whole_msg = ''submission_fee.amount_tao must resolve to a whole RAO''"

definition check_amount :: "json \<Rightarrow> decimal res" where
  "check_amount v = (case amount_text v of None \<Rightarrow> Inl (ValueError amount_msg)
     | Some s \<Rightarrow> (case dec_of_str (strip s) of None \<Rightarrow> Inl (ValueError amount_msg) | Some a \<Rightarrow>
         rbind (rguard (\<not> (dc_neg a \<and> dc_coeff a \<noteq> 0)) (ValueError amount_msg)) (\<lambda>_.
         rbind (rguard (dc_coeff a = 0 \<or> -9 \<le> adjusted a) (ValueError whole_msg)) (\<lambda>_.
         rbind (rguard (\<not> exceeds_range (dc_coeff a) (dc_exp a))
           (ValueError ''submission_fee.amount_tao exceeds the chain balance range'')) (\<lambda>_.
         rbind (rguard (dc_coeff a = 0 \<or> whole_rao (dc_coeff a) (dc_exp a)) (ValueError whole_msg)) (\<lambda>_. Inr a))))))"

definition check_recipient :: "json \<Rightarrow> string res" where
  "check_recipient v = (case v of JStr s \<Rightarrow> let r = strip s in
       if r = [] then Inl (ValueError ''submission_fee.recipient must be a non-empty address'')
       else if list_ex py_isspace r then Inl (ValueError ''submission_fee.recipient must not contain whitespace'')
       else Inr r
     | _ \<Rightarrow> Inl (ValueError ''submission_fee.recipient must be a non-empty address''))"

definition validate_submission_fee :: "json \<Rightarrow> fee_terms res" where
  "validate_submission_fee value = (case value of JObj d \<Rightarrow>
       rbind (rguard (set (keys d) \<subseteq> set fee_keys) (ValueError ''submission_fee has unknown keys'')) (\<lambda>_.
       rbind (check_amount (jget d ''amount_tao'')) (\<lambda>a.
       rbind (check_recipient (jget d ''recipient'')) (\<lambda>r.
       Inr \<lparr>fee_amount_tao = (if dc_coeff a = 0 then ''0'' else (case normalize (dc_coeff a) (dc_exp a) of (c, e) \<Rightarrow> format_f c e)),
         fee_recipient = r\<rparr>)))
     | _ \<Rightarrow> Inl (ValueError ''submission_fee must be an object''))"

definition fee_json :: "fee_terms \<Rightarrow> json" where
  "fee_json f = JObj [(''amount_tao'', JStr (fee_amount_tao f)), (''recipient'', JStr (fee_recipient f))]"

text \<open>\<open>int(Decimal(s) * 10^9)\<close>, the product rounded to 28 digits and the rest cut off.\<close>

definition tao_to_rao :: "string \<Rightarrow> int res" where
  "tao_to_rao s = (case dec_of_str s of None \<Rightarrow> Inl (ValueError ''InvalidOperation'')
     | Some a \<Rightarrow> (case round28 (dc_coeff a * 10 ^ 9) (dc_exp a) of (c, e) \<Rightarrow>
         Inr ((if dc_neg a then -1 else 1) * int (if 0 \<le> e then c * 10 ^ nat e else c div 10 ^ nat (- e)))))"

definition submission_fee_rao :: "json \<Rightarrow> int res" where
  "submission_fee_rao value = rbind (validate_submission_fee value) (\<lambda>fee. tao_to_rao (fee_amount_tao fee))"

section \<open>History\<close>

record fee_entry =
  fe_fee :: fee_terms
  fe_effective_from_block :: int

definition history_keys :: "string list" where
  "history_keys = [''effective_from_block'', ''amount_tao'', ''recipient'']"

definition validate_entry :: "json \<Rightarrow> fee_entry list \<times> int \<Rightarrow> (fee_entry list \<times> int) res" where
  "validate_entry entry = (\<lambda>(result, previous). case entry of
     JObj d \<Rightarrow> if set (keys d) \<noteq> set history_keys then Inl (ValueError ''invalid submission_fee_history entry'')
       else (case jget d ''effective_from_block'' of
         JInt block \<Rightarrow> if block \<le> previous \<or> 2 ^ 63 - 1 < block
           then Inl (ValueError ''fee history blocks must be increasing non-negative integers'')
           else rbind (validate_submission_fee (JObj (map (\<lambda>k. (k, jget d k)) fee_keys))) (\<lambda>fee.
             Inr (result @ [\<lparr>fe_fee = fee, fe_effective_from_block = block\<rparr>], block))
       | _ \<Rightarrow> Inl (ValueError ''fee history blocks must be increasing non-negative integers''))
   | _ \<Rightarrow> Inl (ValueError ''invalid submission_fee_history entry''))"

definition validate_fee_history :: "json \<Rightarrow> fee_entry list res" where
  "validate_fee_history value = (case value of
     JArr (e # es) \<Rightarrow> rbind (rfold validate_entry (e # es) ([], -1)) (\<lambda>(result, _).
       rbind (rguard (fe_effective_from_block (hd result) = 0) (ValueError ''fee history must start at block zero'')) (\<lambda>_.
       Inr result))
   | _ \<Rightarrow> Inl (ValueError ''submission_fee_history must be a non-empty array''))"

text \<open>\<open>next(\<dots>)\<close> over no entry would raise \<open>StopIteration\<close>; the second theorem excludes it.\<close>

definition fee_at_block :: "json \<Rightarrow> int \<Rightarrow> fee_terms res" where
  "fee_at_block history block = (if block < 0 then Inl (ValueError ''fee lookup requires a non-negative integer block'')
     else rbind (validate_fee_history history) (\<lambda>entries.
       case find (\<lambda>e. fe_effective_from_block e \<le> block) (rev entries) of
         None \<Rightarrow> Inl (PyRuntimeError ''StopIteration'') | Some e \<Rightarrow> Inr (fe_fee e)))"

text \<open>A history that was read back from the store, which the readers validate again.\<close>

definition entry_json :: "fee_entry \<Rightarrow> json" where
  "entry_json e = JObj [(''amount_tao'', JStr (fee_amount_tao (fe_fee e))), (''recipient'', JStr (fee_recipient (fe_fee e))),
     (''effective_from_block'', JInt (fe_effective_from_block e))]"

definition history_json :: "fee_entry list \<Rightarrow> json" where
  "history_json es = JArr (map entry_json es)"

section \<open>The fee in force\<close>

abbreviation eff :: "fee_entry \<Rightarrow> int" where
  "eff \<equiv> fe_effective_from_block"

lemma validate_entry_step:
  assumes "validate_entry j (r, p) = Inr (r', p')"
  shows "\<exists>e. r' = r @ [e] \<and> eff e = p' \<and> p < p'"
  using assms by (auto simp: validate_entry_def rbind_eq_Inr split: json.splits if_splits)

lemma validate_entries:
  assumes "rfold validate_entry js (r, p) = Inr (r', p')"
  shows "\<exists>zs. r' = r @ zs \<and> length zs = length js \<and> sorted_wrt (<) (map eff zs) \<and> (\<forall>z \<in> set zs. p < eff z) \<and> p \<le> p' \<and>
    (\<forall>z \<in> set zs. eff z \<le> p')"
  using assms
proof (induction js arbitrary: r p)
  case (Cons j js)
  then obtain r1 p1 where 1: "validate_entry j (r, p) = Inr (r1, p1)" and 2: "rfold validate_entry js (r1, p1) = Inr (r', p')"
    by (auto simp: rbind_eq_Inr)
  obtain e where e: "r1 = r @ [e]" "eff e = p1" "p < p1" using validate_entry_step [OF 1] by blast
  obtain zs where zs: "r' = r1 @ zs" "length zs = length js" "sorted_wrt (<) (map eff zs)" "\<forall>z \<in> set zs. p1 < eff z"
    "p1 \<le> p'" "\<forall>z \<in> set zs. eff z \<le> p'" using Cons.IH [OF 2] by blast
  with e show ?case by (intro exI [of _ "e # zs"]) auto
qed simp

lemma validated_history:
  assumes "validate_fee_history h = Inr es"
  obtains js where "h = JArr js" "js \<noteq> []" "length es = length js" "\<exists>p. rfold validate_entry js ([], -1) = Inr (es, p)"
    "sorted_wrt (<) (map eff es)" "es \<noteq> []" "eff (hd es) = 0"
proof -
  obtain j js p where h: "h = JArr (j # js)" and f: "rfold validate_entry (j # js) ([], -1) = Inr (es, p)" "eff (hd es) = 0"
    using assms by (auto simp: validate_fee_history_def rbind_eq_Inr split: json.splits list.splits)
  from validate_entries [OF f(1)] have "length es = length (j # js)" "sorted_wrt (<) (map eff es)" by auto
  with h f that show ?thesis by fastforce
qed

lemma find_last_le:
  assumes "sorted_wrt (<) (map eff es)" and "es \<noteq> []" and "eff (hd es) \<le> b"
  shows "\<exists>e \<in> set es. find (\<lambda>e. eff e \<le> b) (rev es) = Some e \<and> eff e \<le> b \<and> (\<forall>e' \<in> set es. eff e' \<le> b \<longrightarrow> eff e' \<le> eff e)"
  using assms
proof (induction es rule: rev_induct)
  case (snoc x xs)
  show ?case
  proof (cases "eff x \<le> b")
    case True
    have "\<forall>y \<in> set xs. eff y < eff x" using snoc.prems(1) by (simp add: sorted_wrt_append)
    with True show ?thesis by (intro bexI [of _ x]) auto
  next
    case False
    with snoc.prems have "xs \<noteq> []" by (cases xs) auto
    with snoc False show ?thesis by (auto simp: sorted_wrt_append)
  qed
qed simp

lemma fee_at_block_lookup:
  assumes "validate_fee_history h = Inr es" and "0 \<le> b"
  shows "\<exists>e \<in> set es. fee_at_block h b = Inr (fe_fee e) \<and> eff e \<le> b \<and> (\<forall>e' \<in> set es. eff e' \<le> b \<longrightarrow> eff e' \<le> eff e)"
proof -
  obtain e where "e \<in> set es" "find (\<lambda>e. eff e \<le> b) (rev es) = Some e" "eff e \<le> b"
    "\<forall>e' \<in> set es. eff e' \<le> b \<longrightarrow> eff e' \<le> eff e"
  proof -
    have "sorted_wrt (<) (map eff es)" "es \<noteq> []" "eff (hd es) \<le> b"
      by (rule validated_history [OF assms(1)], use assms(2) in simp)+
    from find_last_le [OF this] show thesis using that by blast
  qed
  with assms show ?thesis by (intro bexI [of _ e]) (simp_all add: fee_at_block_def)
qed

text \<open>
  The fee of a block is fixed once its terms are in the history: the lookup in a valid history
  returns the terms of the entry with the highest starting block at or below the block asked for
  (the genesis entry makes sure there is one), and a history extended by entries that start later
  gives the same terms for that block.
\<close>

theorem fee_fixed_at_block:
  assumes "validate_fee_history (JArr (xs @ ys)) = Inr es" and "0 \<le> b" and "xs \<noteq> []"
    and "\<forall>e \<in> set (drop (length xs) es). b < fe_effective_from_block e"
  shows "fee_at_block (JArr (xs @ ys)) b = fee_at_block (JArr xs) b \<and>
    (\<exists>e \<in> set es. fee_at_block (JArr (xs @ ys)) b = Inr (fe_fee e) \<and> fe_effective_from_block e \<le> b \<and>
      (\<forall>e' \<in> set es. fe_effective_from_block e' \<le> b \<longrightarrow> fe_effective_from_block e' \<le> fe_effective_from_block e))"
proof -
  obtain p where all: "rfold validate_entry (xs @ ys) ([], -1) = Inr (es, p)" and es: "eff (hd es) = 0"
    by (rule validated_history [OF assms(1)]) auto
  obtain r q where 1: "rfold validate_entry xs ([], -1) = Inr (r, q)" and 2: "rfold validate_entry ys (r, q) = Inr (es, p)"
    using all by (auto simp: rfold_append rbind_eq_Inr)
  have len: "length r = length xs" using validate_entries [OF 1] by auto
  obtain zs where zs: "es = r @ zs" using validate_entries [OF 2] by auto
  have "r \<noteq> []" using len assms(3) by auto
  then have "validate_fee_history (JArr xs) = Inr r"
    using 1 es zs assms(3) by (cases xs) (simp_all add: validate_fee_history_def)
  moreover have "find (\<lambda>e. eff e \<le> b) (rev es) = find (\<lambda>e. eff e \<le> b) (rev r)"
  proof -
    have "\<forall>e \<in> set (rev zs). \<not> eff e \<le> b" using assms(4) zs len by auto
    then have "find (\<lambda>e. eff e \<le> b) (rev zs) = None" by (simp add: find_None_iff)
    then show ?thesis by (simp add: zs find_append)
  qed
  ultimately have "fee_at_block (JArr (xs @ ys)) b = fee_at_block (JArr xs) b"
    using assms(1,2) by (simp add: fee_at_block_def)
  with fee_at_block_lookup [OF assms(1,2)] show ?thesis by simp
qed

section \<open>Amounts are exact\<close>

text \<open>The amount \<open>c * 10^e\<close> TAO is \<open>r\<close> RAO.\<close>

definition is_rao :: "nat \<Rightarrow> int \<Rightarrow> nat \<Rightarrow> bool" where
  "is_rao c e r = (if 0 \<le> e + 9 then r = c * 10 ^ nat (e + 9) else c = r * 10 ^ nat (- (e + 9)))"

lemma ndigits_le: "n < 10 ^ Suc w \<Longrightarrow> ndigits n \<le> Suc w"
proof (induction w arbitrary: n)
  case 0
  then show ?case by (simp add: ndigits_def str_of_nat.simps [of n])
next
  case (Suc w)
  then have "n div 10 < 10 ^ Suc w" by (simp add: less_mult_imp_div_less)
  from Suc.IH [OF this] show ?case by (simp add: ndigits_def str_of_nat.simps [of n])
qed

lemma ndigits_pos: "1 \<le> ndigits n"
  by (simp add: ndigits_def Suc_le_eq)

lemma max_rao_lt: "max_rao < 10 ^ 20"
  by (simp add: max_rao_def)

lemma round28_rao:
  assumes "is_rao c e r" and "r \<le> max_rao" and "0 < c" and "round28 c e = (c', e')"
  shows "is_rao c' e' r \<and> 0 < c'"
proof (cases "ndigits c \<le> 28")
  case True
  with assms show ?thesis by (simp add: round28_def)
next
  case False
  define j k where "j = nat (- (e + 9))" and "k = ndigits c - 28"
  have neg: "e + 9 < 0"
  proof (rule ccontr)
    assume "\<not> e + 9 < 0"
    then have "r = c * 10 ^ nat (e + 9)" using assms(1) by (simp add: is_rao_def)
    then have "c \<le> r" by simp
    then have "c < 10 ^ Suc 19" using assms(2) max_rao_lt by simp
    with ndigits_le [of c 19] False show False by simp
  qed
  then have c: "c = r * 10 ^ j" using assms(1) by (simp add: is_rao_def j_def)
  have "c < 10 ^ 20 * 10 ^ j" using assms(2) max_rao_lt unfolding c by simp
  then have "c < 10 ^ Suc (19 + j)" by (simp add: power_add)
  from ndigits_le [OF this] have kj: "k < j" "0 < k" using False by (auto simp: k_def)
  then obtain i where i: "j = k + i" "0 < i" by (metis less_imp_add_positive)
  have "c = 10 ^ k * (r * 10 ^ i)" unfolding c i(1) by (simp add: power_add)
  then have "c div 10 ^ k = r * 10 ^ i" "c mod 10 ^ k = 0" by simp_all
  then have res: "c' = r * 10 ^ i" "e' = e + int k"
    using assms(4) False by (auto simp: round28_def Let_def k_def)
  have "int j = - (e + 9)" using neg by (simp add: j_def)
  then have "e' + 9 < 0" "nat (- (e' + 9)) = i" using i by (simp_all add: res)
  moreover have "0 < r" using c assms(3) by (cases r) auto
  ultimately show ?thesis by (simp add: is_rao_def res)
qed

lemma is_rao_shift:
  assumes "is_rao c e r" and "c mod 10 = 0"
  shows "is_rao (c div 10) (e + 1) r"
proof (cases "0 \<le> e + 9")
  case True
  then have "nat (e + 1 + 9) = Suc (nat (e + 9))" by simp
  then show ?thesis using assms True by (auto simp: is_rao_def elim!: dvdE simp: mod_eq_0_iff_dvd)
next
  case False
  then obtain i where i: "nat (- (e + 9)) = Suc i" by (cases "nat (- (e + 9))") auto
  then have "c = r * 10 ^ Suc i" using assms False by (simp add: is_rao_def)
  moreover have "(0 \<le> e + 1 + 9) = (i = 0)" "nat (- (e + 1 + 9)) = i" "i = 0 \<Longrightarrow> nat (e + 1 + 9) = 0" using i False by auto
  ultimately show ?thesis by (auto simp: is_rao_def)
qed

lemma strip_zeros_rao:
  assumes "is_rao c e r" and "0 < c" and "strip_zeros c e = (c', e')"
  shows "is_rao c' e' r \<and> c' mod 10 \<noteq> 0"
  using assms
proof (induction c e rule: strip_zeros.induct)
  case (1 c e)
  show ?case
  proof (cases "c mod 10 = 0")
    case True
    then have "0 < c div 10" using 1(3) by (auto simp: mod_eq_0_iff_dvd)
    then show ?thesis using 1 True is_rao_shift [OF 1(2) True] by (simp add: strip_zeros.simps [of c e])
  next
    case False
    then show ?thesis using 1 by (simp add: strip_zeros.simps [of c e])
  qed
qed

text \<open>Without trailing zeros the exponent is at least -9, and the pair is determined by the amount.\<close>

lemma normal_rao:
  assumes "is_rao c e r" and "c mod 10 \<noteq> 0"
  shows "-9 \<le> e \<and> r = c * 10 ^ nat (e + 9)"
proof -
  have "0 \<le> e + 9"
  proof (rule ccontr)
    assume neg: "\<not> 0 \<le> e + 9"
    then have "c = r * 10 ^ nat (- (e + 9))" "0 < nat (- (e + 9))" using assms(1) by (simp_all add: is_rao_def)
    then show False using assms(2) by (cases "nat (- (e + 9))") auto
  qed
  with assms show ?thesis by (simp add: is_rao_def)
qed

lemma pow10_unique:
  fixes a b :: nat
  assumes "a * 10 ^ m = b * 10 ^ n" and "a mod 10 \<noteq> 0" and "b mod 10 \<noteq> 0"
  shows "a = b \<and> m = n"
  using assms(1)
proof (induction m arbitrary: n)
  case 0
  then show ?case using assms(2) by (cases n) auto
next
  case (Suc m)
  then obtain k where "n = Suc k" using assms(3) by (cases n) (auto simp: mult.commute [of _ "10 ^ m"])
  with Suc.prems have "a * 10 ^ m = b * 10 ^ k" by simp
  from Suc.IH [OF this] \<open>n = Suc k\<close> show ?case by simp
qed

lemma normalize_rao:
  assumes "is_rao c e r" and "r \<le> max_rao" and "0 < c"
  obtains c' e' where "normalize c e = (c', e')" "is_rao c' e' r" "c' mod 10 \<noteq> 0"
proof -
  obtain c1 e1 where 1: "round28 c e = (c1, e1)" by fastforce
  obtain c' e' where 2: "strip_zeros c1 e1 = (c', e')" by fastforce
  have "is_rao c1 e1 r" "0 < c1" using round28_rao [OF assms 1] by simp_all
  from strip_zeros_rao [OF this 2] have "is_rao c' e' r" "c' mod 10 \<noteq> 0" by simp_all
  moreover have "normalize c e = (c', e')" using 1 2 by (simp add: normalize_def)
  ultimately show ?thesis using that by blast
qed

lemma normalize_unique:
  assumes "is_rao c e r" "is_rao d f r" and "r \<le> max_rao" and "0 < c" "0 < d"
  shows "normalize c e = normalize d f"
proof -
  obtain c1 e1 where 1: "normalize c e = (c1, e1)" "is_rao c1 e1 r" "c1 mod 10 \<noteq> 0" using normalize_rao assms by metis
  obtain c2 e2 where 2: "normalize d f = (c2, e2)" "is_rao c2 e2 r" "c2 mod 10 \<noteq> 0" using normalize_rao assms by metis
  have n: "-9 \<le> e1" "r = c1 * 10 ^ nat (e1 + 9)" "-9 \<le> e2" "r = c2 * 10 ^ nat (e2 + 9)"
    using normal_rao 1 2 by blast+
  then have "c1 = c2 \<and> nat (e1 + 9) = nat (e2 + 9)" using pow10_unique 1(3) 2(3) by metis
  with n 1 2 show ?thesis by auto
qed

section \<open>Canonical terms\<close>

lemma digit_facts: "is_ascii_digit c \<Longrightarrow> c \<notin> set ''_-+eE.'' \<and> \<not> py_isspace c"
proof -
  assume c: "is_ascii_digit c"
  have "list_all (\<lambda>x. \<not> is_ascii_digit x) ''_-+eE.''" by (simp add: is_ascii_digit_def ccode_def)
  with c show ?thesis using digit_not_space unfolding list_all_iff by blast
qed

lemma digits_val_append: "digits_val (s @ t) = digits_val s * 10 ^ length t + digits_val t"
proof (induction t rule: rev_induct)
  case (snoc c t)
  have "digits_val (s @ t @ [c]) = 10 * digits_val (s @ t) + (ccode c - 48)"
    using digits_val_snoc [of "s @ t" c] by simp
  then show ?case using snoc by (simp add: digits_val_snoc algebra_simps)
qed (simp add: digits_val_def)

lemma digits_val_zeros: "digits_val (replicate k (CHR ''0'')) = 0"
  by (induction k) (simp_all add: digits_val_def ccode_def)

lemma digit_zero: "is_ascii_digit (CHR ''0'')"
  by (simp add: is_ascii_digit_def ccode_def)

lemma digits_no_point:
  assumes "list_all is_ascii_digit s"
  shows "CHR ''.'' \<notin> set s"
proof
  assume "CHR ''.'' \<in> set s"
  with assms have "is_ascii_digit (CHR ''.'')" unfolding list_all_iff by blast
  then show False by (simp add: is_ascii_digit_def ccode_def)
qed

text \<open>A text of digits with at most one point, which does not start with it, reads as written.\<close>

lemma dec_of_plain:
  assumes "s \<noteq> []" and "is_ascii_digit (hd s)" and "list_all (\<lambda>c. is_ascii_digit c \<or> c = CHR ''.'') s"
    and "dec_mantissa s = Some (c, f)" and "f \<le> 9" and "c < 10 ^ 20"
  shows "dec_of_str s = Some \<lparr>dc_neg = False, dc_coeff = c, dc_exp = - int f\<rparr> \<and> strip s = s"
proof -
  have ok: "\<forall>c \<in> set s. c \<notin> set ''_-+eE'' \<and> \<not> py_isspace c"
    using assms(3) digit_facts unfolding list_all_iff by (fastforce simp: py_isspace_def ccode_def)
  then have st: "strip s = s" by (intro strip_no_space) blast
  have "filter (\<lambda>c. c \<noteq> CHR ''_'') s = s" using ok by (intro filter_True) auto
  moreover have "split_sign s = (False, s)"
    using assms(1) ok by (cases s) (auto simp: split_sign_def)
  moreover have "takeWhile (\<lambda>c. \<not> is_e c) s = s" "dropWhile (\<lambda>c. \<not> is_e c) s = []"
    using ok by (auto simp: is_e_def takeWhile_eq_all_conv)
  moreover have "ndigits c \<le> 20" using ndigits_le [of c 19] assms(6) by simp
  ultimately show ?thesis
    using st assms(4,5) by (simp add: dec_of_str_def dec_exponent_def adjusted_def del: takeWhile_eq_all_conv dropWhile_eq_Nil_conv)
qed

lemma format_integer:
  "dec_mantissa (str_of_nat c @ replicate k (CHR ''0'')) = Some (c * 10 ^ k, 0)"
proof -
  let ?s = "str_of_nat c @ replicate k (CHR ''0'')"
  have d: "list_all is_ascii_digit ?s" using str_of_nat_digits digit_zero by (auto simp: list_all_iff)
  then have "CHR ''.'' \<notin> set ?s" by (rule digits_no_point)
  then have "split_on (CHR ''.'') ?s = [?s]" by (rule split_on_no_sep)
  with d show ?thesis by (simp add: dec_mantissa_def digits_re_def digits_val_append digits_val_zeros)
qed

lemma format_fraction:
  assumes "list_all is_ascii_digit ps" and "k \<le> length ps" and "0 < k"
  shows "dec_mantissa (take (length ps - k) ps @ CHR ''.'' # drop (length ps - k) ps) = Some (digits_val ps, k)"
proof -
  have "CHR ''.'' \<notin> set ps" using assms(1) by (rule digits_no_point)
  then have "CHR ''.'' \<notin> set (take (length ps - k) ps)" "CHR ''.'' \<notin> set (drop (length ps - k) ps)"
    by (metis in_set_takeD, metis in_set_dropD)
  then have "split_on (CHR ''.'') (take (length ps - k) ps @ CHR ''.'' # drop (length ps - k) ps) =
      [take (length ps - k) ps, drop (length ps - k) ps]"
    by (simp add: split_on_sep split_on_no_sep)
  with assms show ?thesis by (auto simp: dec_mantissa_def digits_re_def list_all_iff dest: in_set_takeD in_set_dropD)
qed

text \<open>The canonical text of an amount without trailing zeros reads as the same number of RAO.\<close>

lemma format_f_reads:
  assumes "is_rao c e r" and "r \<le> max_rao" and "c mod 10 \<noteq> 0"
  obtains c' e' where "dec_of_str (format_f c e) = Some \<lparr>dc_neg = False, dc_coeff = c', dc_exp = e'\<rparr>"
    "strip (format_f c e) = format_f c e" "is_rao c' e' r" "0 < c'" "-9 \<le> e'"
proof -
  have n: "-9 \<le> e" "r = c * 10 ^ nat (e + 9)" using normal_rao [OF assms(1,3)] by simp_all
  have c: "c \<noteq> 0" using assms(3) by (cases c) auto
  have r: "r < 10 ^ 20" using assms(2) max_rao_lt by simp
  show ?thesis
  proof (cases "0 \<le> e")
    case True
    let ?s = "str_of_nat c @ replicate (nat e) (CHR ''0'')"
    have "nat (e + 9) = nat e + 9" using True by simp
    then have r9: "r = c * 10 ^ nat e * 10 ^ 9" by (simp add: n(2) power_add)
    have "list_all (\<lambda>c. is_ascii_digit c \<or> c = CHR ''.'') ?s" "is_ascii_digit (hd ?s)"
      using str_of_nat_digits [of c] digit_zero by (auto simp: list_all_iff)
    then have "dec_of_str ?s = Some \<lparr>dc_neg = False, dc_coeff = c * 10 ^ nat e, dc_exp = - int 0\<rparr> \<and> strip ?s = ?s"
      using r r9 format_integer by (intro dec_of_plain) auto
    moreover have "format_f c e = ?s" using True c by (simp add: format_f_def)
    moreover have "is_rao (c * 10 ^ nat e) 0 r" by (simp add: is_rao_def r9)
    ultimately show ?thesis using that c by simp
  next
    case False
    define k where "k = nat (- e)"
    define ps where "ps = replicate (k + 1 - length (str_of_nat c)) (CHR ''0'') @ str_of_nat c"
    have k: "0 < k" "k \<le> 9" "e = - int k" using False n(1) by (auto simp: k_def)
    have len: "k < length ps" by (simp add: ps_def)
    have d: "list_all is_ascii_digit ps" using str_of_nat_digits digit_zero by (auto simp: ps_def list_all_iff)
    have v: "digits_val ps = c" by (simp add: ps_def digits_val_append digits_val_zeros)
    let ?s = "take (length ps - k) ps @ CHR ''.'' # drop (length ps - k) ps"
    have "list_all (\<lambda>c. is_ascii_digit c \<or> c = CHR ''.'') ?s"
      using d by (auto simp: list_all_iff dest: in_set_takeD in_set_dropD)
    moreover have "is_ascii_digit (hd ?s)" using d len by (cases ps) (auto simp: list_all_iff take_Cons split: nat.splits)
    moreover have "c \<le> r" by (simp add: n(2))
    ultimately have "dec_of_str ?s = Some \<lparr>dc_neg = False, dc_coeff = c, dc_exp = - int k\<rparr> \<and> strip ?s = ?s"
      using format_fraction [OF d _ k(1)] len k r v by (intro dec_of_plain) auto
    moreover have "format_f c e = ?s" using False by (simp add: format_f_def Let_def ps_def k_def)
    ultimately show ?thesis using that [of c e] c n(1) assms(1) k(3) by simp
  qed
qed

lemma checked_amount_rao:
  assumes "check_amount v = Inr a" and "dc_coeff a \<noteq> 0"
  obtains r where "is_rao (dc_coeff a) (dc_exp a) r" "r \<le> max_rao" "\<not> dc_neg a"
proof -
  let ?c = "dc_coeff a" and ?e = "dc_exp a"
  have ok: "\<not> dc_neg a" "\<not> exceeds_range ?c ?e" "whole_rao ?c ?e"
    using assms by (auto simp: check_amount_def rbind_eq_Inr split: option.splits)
  show ?thesis
  proof (cases "0 \<le> ?e + 9")
    case True
    then show ?thesis using that [of "?c * 10 ^ nat (?e + 9)"] ok by (simp add: is_rao_def exceeds_range_def)
  next
    case False
    then obtain r where "?c = r * 10 ^ nat (- (?e + 9))"
      using ok(3) by (auto simp: whole_rao_def mod_eq_0_iff_dvd mult.commute elim!: dvdE)
    moreover from this have "r \<le> max_rao" using ok(2) False by (simp add: exceeds_range_def)
    ultimately show ?thesis using that [of r] False ok(1) by (simp add: is_rao_def)
  qed
qed

lemma check_amount_canonical:
  assumes "dec_of_str s = Some \<lparr>dc_neg = False, dc_coeff = c, dc_exp = e\<rparr>" and "strip s = s"
    and "is_rao c e r" and "r \<le> max_rao" and "0 < c" and "-9 \<le> e"
  shows "check_amount (JStr s) = Inr \<lparr>dc_neg = False, dc_coeff = c, dc_exp = e\<rparr>"
proof -
  have "r = c * 10 ^ nat (e + 9)" using assms(3,6) by (simp add: is_rao_def)
  then have "\<not> exceeds_range c e" "whole_rao c e" using assms(4,6) by (simp_all add: exceeds_range_def whole_rao_def)
  moreover have "-9 \<le> e + int (ndigits c) - 1" using assms(6) ndigits_pos [of c] by linarith
  ultimately show ?thesis
    using assms(1,2) by (simp add: check_amount_def amount_text_def adjusted_def)
qed

lemma tao_to_rao_exact:
  assumes "dec_of_str s = Some \<lparr>dc_neg = False, dc_coeff = c, dc_exp = e\<rparr>"
    and "is_rao c e r" and "r \<le> max_rao" and "0 < c" and "-9 \<le> e"
  shows "tao_to_rao s = Inr (int r)"
proof -
  obtain c' e' where 1: "round28 (c * 10 ^ 9) (e - 9) = (c', e')" by fastforce
  have "r = c * 10 ^ nat (e + 9)" using assms(2,5) by (simp add: is_rao_def)
  moreover have "10 ^ nat (e + 9) * 10 ^ nat (- e) = (1000000000 :: nat)" if "\<not> 0 \<le> e"
  proof -
    have "nat (e + 9) + nat (- e) = 9" using that assms(5) by simp
    then show ?thesis by (simp flip: power_add)
  qed
  ultimately have "is_rao (c * 10 ^ 9) (e - 9) r"
    by (auto simp: is_rao_def nat_add_distrib power_add)
  from round28_rao [OF this assms(3) _ 1] assms(4) have "is_rao c' e' r" by simp
  moreover have "round28 (c * 10 ^ 9) e = (c', e' + 9)" using 1 by (auto simp: round28_def Let_def split: if_splits)
  ultimately show ?thesis
    using assms(1) by (auto simp: tao_to_rao_def is_rao_def)
qed

lemma check_recipient_idem: "check_recipient v = Inr r \<Longrightarrow> check_recipient (JStr r) = Inr r"
  by (auto simp: check_recipient_def Let_def split: json.splits if_splits)

lemma zero_amount: "check_amount (JStr ''0'') = Inr \<lparr>dc_neg = False, dc_coeff = 0, dc_exp = 0\<rparr>" "tao_to_rao ''0'' = Inr 0"
proof -
  have "dec_mantissa ''0'' = Some (0, 0)" "list_all (\<lambda>c. is_ascii_digit c \<or> c = CHR ''.'') ''0''" "ndigits 0 = 1"
    by code_simp+
  moreover from this have z: "dec_of_str ''0'' = Some \<lparr>dc_neg = False, dc_coeff = 0, dc_exp = 0\<rparr> \<and> strip ''0'' = ''0''"
    using dec_of_plain [of "''0''" 0 0] digit_zero by simp
  ultimately show "check_amount (JStr ''0'') = Inr \<lparr>dc_neg = False, dc_coeff = 0, dc_exp = 0\<rparr>" "tao_to_rao ''0'' = Inr 0"
    by (simp_all add: check_amount_def amount_text_def exceeds_range_def tao_to_rao_def round28_def)
qed

lemma fee_terms_exact:
  assumes "validate_submission_fee (JObj d) = Inr f"
  shows "\<exists>a r. check_amount (jget d ''amount_tao'') = Inr a \<and> submission_fee_rao (JObj d) = Inr (int r) \<and> r \<le> max_rao \<and>
    real r = real (dc_coeff a) * 10 powi (dc_exp a + 9) \<and> validate_submission_fee (fee_json f) = Inr f"
proof -
  obtain a where a: "check_amount (jget d ''amount_tao'') = Inr a" and rc: "check_recipient (jget d ''recipient'') = Inr (fee_recipient f)"
    and amt: "fee_amount_tao f = (if dc_coeff a = 0 then ''0'' else (case normalize (dc_coeff a) (dc_exp a) of (c, e) \<Rightarrow> format_f c e))"
    using assms by (auto simp: validate_submission_fee_def rbind_eq_Inr)
  have rao: "submission_fee_rao (JObj d) = tao_to_rao (fee_amount_tao f)" using assms by (simp add: submission_fee_rao_def)
  have again: "validate_submission_fee (fee_json f) = Inr f"
    if "check_amount (JStr (fee_amount_tao f)) = Inr b" and "(dc_coeff b = 0) = (dc_coeff a = 0)"
      and "dc_coeff a \<noteq> 0 \<Longrightarrow> normalize (dc_coeff b) (dc_exp b) = normalize (dc_coeff a) (dc_exp a)" for b
    using that check_recipient_idem [OF rc] amt
    by (simp add: validate_submission_fee_def fee_json_def keys_def fee_keys_def jget_def)
  show ?thesis
  proof (cases "dc_coeff a = 0")
    case True
    then have "validate_submission_fee (fee_json f) = Inr f" using again [of "\<lparr>dc_neg = False, dc_coeff = 0, dc_exp = 0\<rparr>"] amt zero_amount(1) by simp
    with True a rao amt zero_amount(2) show ?thesis by (intro exI [of _ a] exI [of _ 0]) simp
  next
    case False
    obtain r where r: "is_rao (dc_coeff a) (dc_exp a) r" "r \<le> max_rao" using checked_amount_rao [OF a False] by blast
    obtain c e where n: "normalize (dc_coeff a) (dc_exp a) = (c, e)" "is_rao c e r" "c mod 10 \<noteq> 0"
      using normalize_rao [OF r] False by blast
    obtain c' e' where f: "dec_of_str (format_f c e) = Some \<lparr>dc_neg = False, dc_coeff = c', dc_exp = e'\<rparr>"
      "strip (format_f c e) = format_f c e" "is_rao c' e' r" "0 < c'" "-9 \<le> e'"
      using format_f_reads [OF n(2) r(2) n(3)] by blast
    have written: "fee_amount_tao f = format_f c e" using amt False n(1) by simp
    have "validate_submission_fee (fee_json f) = Inr f"
    proof (rule again)
      show "check_amount (JStr (fee_amount_tao f)) = Inr \<lparr>dc_neg = False, dc_coeff = c', dc_exp = e'\<rparr>"
        unfolding written using check_amount_canonical [OF f(1,2,3) r(2) f(4,5)] .
    qed (use False f normalize_unique [OF f(3) r(1) r(2) f(4)] in auto)
    moreover have "submission_fee_rao (JObj d) = Inr (int r)"
      unfolding rao written using tao_to_rao_exact [OF f(1,3) r(2) f(4,5)] .
    moreover have "real r = real (dc_coeff a) * 10 powi (dc_exp a + 9)"
      using r(1) by (auto simp: is_rao_def power_int_def field_simps split: if_splits)
    ultimately show ?thesis using a r(2) by blast
  qed
qed

text \<open>Terms and histories that were validated once are validated again as they are.\<close>

lemma validate_entry_again:
  assumes "validate_entry j (r, p) = Inr (r @ [e], p')"
  shows "validate_entry (entry_json e) (s, p) = Inr (s @ [e], p')"
proof -
  from assms obtain d f where f: "validate_submission_fee (JObj d) = Inr f" "e = \<lparr>fe_fee = f, fe_effective_from_block = p'\<rparr>"
    and b: "p < p'" "p' \<le> 2 ^ 63 - 1"
    by (auto simp: validate_entry_def rbind_eq_Inr not_less split: json.splits if_splits)
  have "validate_submission_fee (fee_json f) = Inr f" using fee_terms_exact [OF f(1)] by blast
  then show ?thesis using b
    by (simp add: validate_entry_def entry_json_def f(2) keys_def history_keys_def jget_def fee_keys_def fee_json_def insert_commute)
qed

lemma validate_entries_again:
  assumes "rfold validate_entry js (r, p) = Inr (r @ zs, p')"
  shows "rfold validate_entry (map entry_json zs) (s, p) = Inr (s @ zs, p')"
  using assms
proof (induction js arbitrary: r s p zs)
  case (Cons j js)
  then obtain r1 p1 where 1: "validate_entry j (r, p) = Inr (r1, p1)" and 2: "rfold validate_entry js (r1, p1) = Inr (r @ zs, p')"
    by (auto simp: rbind_eq_Inr)
  obtain e where e: "r1 = r @ [e]" using validate_entry_step [OF 1] by blast
  obtain ys where "r @ zs = r1 @ ys" using validate_entries [OF 2] by blast
  then have zs: "zs = e # ys" by (simp add: e)
  have "rfold validate_entry (map entry_json ys) (s @ [e], p1) = Inr ((s @ [e]) @ ys, p')"
    using Cons.IH [of "r @ [e]" p1 ys "s @ [e]"] 2 e zs by simp
  then show ?case using validate_entry_again [OF 1 [unfolded e], of s] by (simp add: zs)
qed simp

lemma validate_fee_history_again:
  assumes "validate_fee_history h = Inr es"
  shows "validate_fee_history (history_json es) = Inr es"
proof -
  obtain js p where js: "rfold validate_entry js ([], -1) = Inr (es, p)" and es: "es \<noteq> []" "eff (hd es) = 0"
    by (rule validated_history [OF assms]) blast
  have "rfold validate_entry (map entry_json es) ([], -1) = Inr (es, p)"
    using validate_entries_again [of js "[]" "-1" es p "[]"] js by simp
  with es show ?thesis by (cases es) (simp_all add: validate_fee_history_def history_json_def)
qed

lemma fee_at_block_again: "validate_fee_history h = Inr es \<Longrightarrow> fee_at_block (history_json es) b = fee_at_block h b"
  using validate_fee_history_again [of h es] by (simp add: fee_at_block_def)

text \<open>
  C28. Fees are exact: when fee terms are accepted, the amount in RAO that payments are checked
  against is exactly the amount written (no rounding at any step, although two of them run in a
  28-digit context) and fits the chain's 64-bit balances; and the canonical terms that are stored
  are accepted again with themselves as result, so reading them back never changes the fee.
\<close>

theorem submission_fee_exact:
  assumes "validate_submission_fee (JObj d) = Inr f"
  shows "\<exists>a r. check_amount (jget d ''amount_tao'') = Inr a \<and> submission_fee_rao (JObj d) = Inr (int r) \<and> r \<le> max_rao \<and>
    real r = real (dc_coeff a) * 10 powi (dc_exp a + 9) \<and> validate_submission_fee (fee_json f) = Inr f"
  using fee_terms_exact [OF assms] .

definition ex_fee :: jdict where
  "ex_fee = [(''amount_tao'', JStr '' 0.50 ''), (''recipient'', JStr ''vault'')]"

lemma ex_fee_amount: "check_amount (JStr '' 0.50 '') = Inr \<lparr>dc_neg = False, dc_coeff = 50, dc_exp = -2\<rparr>"
proof -
  have "strip '' 0.50 '' = ''0.50''" "dec_mantissa ''0.50'' = Some (50, 2)" "list_all (\<lambda>c. is_ascii_digit c \<or> c = CHR ''.'') ''0.50''"
    "is_ascii_digit (hd ''0.50'')" "ndigits 50 = 2" by code_simp+
  moreover from this dec_of_plain [of "''0.50''" 50 2]
  have "dec_of_str ''0.50'' = Some \<lparr>dc_neg = False, dc_coeff = 50, dc_exp = -2\<rparr>" by simp
  ultimately show ?thesis
    by (simp add: check_amount_def amount_text_def adjusted_def exceeds_range_def whole_rao_def max_rao_def)
qed

lemma ex_fee_valid: "validate_submission_fee (JObj ex_fee) = Inr \<lparr>fee_amount_tao = ''0.5'', fee_recipient = ''vault''\<rparr>"
proof -
  have "check_recipient (JStr ''vault'') = Inr ''vault''" "normalize 50 (-2) = (5, -1)" "format_f 5 (-1) = ''0.5''"
    "set (keys ex_fee) \<subseteq> set fee_keys" by code_simp+
  then show ?thesis using ex_fee_amount by (simp add: validate_submission_fee_def jget_def ex_fee_def)
qed

theorem submission_fee_exact_witness:
  "submission_fee_rao (JObj ex_fee) = Inr 500000000 \<and>
    validate_submission_fee (fee_json \<lparr>fee_amount_tao = ''0.5'', fee_recipient = ''vault''\<rparr>) =
      Inr \<lparr>fee_amount_tao = ''0.5'', fee_recipient = ''vault''\<rparr>"
proof -
  obtain a r where a: "check_amount (jget ex_fee ''amount_tao'') = Inr a" and r: "submission_fee_rao (JObj ex_fee) = Inr (int r)"
    "real r = real (dc_coeff a) * 10 powi (dc_exp a + 9)"
    and v: "validate_submission_fee (fee_json \<lparr>fee_amount_tao = ''0.5'', fee_recipient = ''vault''\<rparr>) =
      Inr \<lparr>fee_amount_tao = ''0.5'', fee_recipient = ''vault''\<rparr>"
    using submission_fee_exact [OF ex_fee_valid] by blast
  have "a = \<lparr>dc_neg = False, dc_coeff = 50, dc_exp = -2\<rparr>" using a ex_fee_amount by (simp add: ex_fee_def jget_def)
  with r(2) have "real r = 500000000" by simp
  then have "r = 500000000" by (metis of_nat_eq_iff of_nat_numeral)
  with r(1) v show ?thesis by simp
qed

definition ex_fee_entry :: "int \<Rightarrow> json" where
  "ex_fee_entry b = JObj [(''effective_from_block'', JInt b), (''amount_tao'', JStr '' 0.50 ''), (''recipient'', JStr ''vault'')]"

lemma ex_history:
  "validate_fee_history (JArr ([ex_fee_entry 0] @ [ex_fee_entry 9])) =
    Inr (map (\<lambda>b. \<lparr>fe_fee = \<lparr>fee_amount_tao = ''0.5'', fee_recipient = ''vault''\<rparr>, fe_effective_from_block = b\<rparr>) [0, 9])"
proof -
  have "JObj (map (\<lambda>k. (k, jget [(''effective_from_block'', JInt b), (''amount_tao'', JStr '' 0.50 ''), (''recipient'', JStr ''vault'')] k))
      fee_keys) = JObj ex_fee" for b
    by (simp add: fee_keys_def ex_fee_def jget_def)
  then show ?thesis
    by (simp add: validate_fee_history_def validate_entry_def ex_fee_entry_def keys_def history_keys_def jget_def ex_fee_valid)
qed

theorem fee_fixed_at_block_witness:
  "fee_at_block (JArr [ex_fee_entry 0, ex_fee_entry 9]) 5 = fee_at_block (JArr [ex_fee_entry 0]) 5"
  using fee_fixed_at_block [OF ex_history, of 5] by simp

end
