(* ===== verification/Fingerprint.thy ===== *)
theory Fingerprint
  imports PyValue
begin

text \<open>
  \<open>gate/integrity.py\<close>: the comment-blind fingerprint that copy detection compares, and the check of
  the fetched bytes against the committed hash. A \<open>bytes\<close> value is a \<^typ>\<open>string\<close>, one character
  per byte. The digest function of \<open>hashlib\<close> is the argument \<open>sha256\<close>, which gives the hex digest.
  The comment stripper is the \<open>while\<close> loop of the source on an index into the line, as a partial
  function: not returning would be \<open>None\<close>, and the first theorem is that it always returns.
\<close>

section \<open>Bytes\<close>

definition bspace :: "char \<Rightarrow> bool" where
  "bspace c = (c \<in> set [CHR '' '', CHR 0x09, CHR 0x0A, CHR 0x0B, CHR 0x0C, CHR 0x0D])"

definition brstrip :: "string \<Rightarrow> string" where
  "brstrip s = rev (dropWhile bspace (rev s))"

definition bstrip :: "string \<Rightarrow> string" where
  "bstrip s = brstrip (dropWhile bspace s)"

definition blower :: "string \<Rightarrow> string" where
  "blower s = map (\<lambda>c. if 65 \<le> ccode c \<and> ccode c \<le> 90 then char_of (ccode c + 32) else c) s"

definition bendswith :: "string \<Rightarrow> string \<Rightarrow> bool" where
  "bendswith s p = startswith (rev s) (rev p)"

definition is_newline :: "char \<Rightarrow> bool" where
  "is_newline c = (c = CHR 0x0A \<or> c = CHR 0x0D)"

function splitlines :: "string \<Rightarrow> string list" where
  "splitlines s = (if s = [] then [] else
     takeWhile (\<lambda>c. \<not> is_newline c) s # (case dropWhile (\<lambda>c. \<not> is_newline c) s of [] \<Rightarrow> []
       | c # r \<Rightarrow> splitlines (if c = CHR 0x0D \<and> r \<noteq> [] \<and> hd r = CHR 0x0A then tl r else r)))"
  by auto
termination
proof (relation "measure length")
  fix s :: string and c r
  assume s: "s \<noteq> []" and d: "dropWhile (\<lambda>c. \<not> is_newline c) s = c # r"
  have "length (c # r) \<le> length s" unfolding d [symmetric] by (rule length_dropWhile_le)
  then show "((if c = CHR 0x0D \<and> r \<noteq> [] \<and> hd r = CHR 0x0A then tl r else r), s) \<in> measure length" by auto
qed simp

declare splitlines.simps [simp del]

text \<open>\<open>s.find(p, i)\<close>.\<close>

fun find_in :: "string \<Rightarrow> string \<Rightarrow> nat \<Rightarrow> nat option" where
  "find_in p [] i = (if p = [] then Some i else None)"
| "find_in p (c # s) i = (if startswith (c # s) p then Some i else find_in p s (Suc i))"

definition find_from :: "string \<Rightarrow> string \<Rightarrow> nat \<Rightarrow> nat option" where
  "find_from p s i = find_in p (drop i s) i"

section \<open>Stripping comments\<close>

type_synonym comment_syntax = "bool \<times> bool" \<comment> \<open>hash comments, slash comments\<close>

definition no_comments :: comment_syntax where
  "no_comments = (False, False)"

definition python_comments :: comment_syntax where
  "python_comments = (True, False)"

definition c_family_comments :: comment_syntax where
  "c_family_comments = (False, True)"

definition comment_syntax_for_path :: "string \<Rightarrow> comment_syntax" where
  "comment_syntax_for_path path = (let
     n = strip_chars ''\"'' (bstrip (takeWhile (\<lambda>c. c \<noteq> CHR 0x09) path));
     p = blower (if startswith n ''a/'' \<or> startswith n ''b/'' then drop 2 n else n) in
     if list_ex (bendswith p) [''.py'', ''.pyi''] then python_comments
     else if list_ex (bendswith p) [''.c'', ''.cc'', ''.cpp'', ''.h'', ''.hpp'', ''.cu'', ''.cuh''] then c_family_comments
     else no_comments)"

definition quote_byte :: "char \<Rightarrow> bool" where
  "quote_byte c = (c \<in> set [CHR 0x27, CHR 0x22, CHR 0x60])"

record scan =
  sc_index :: nat
  sc_quote :: "char option"
  sc_escaped :: bool
  sc_block :: bool
  sc_output :: string

definition scan_start :: "bool \<Rightarrow> scan" where
  "scan_start blk = \<lparr>sc_index = 0, sc_quote = None, sc_escaped = False, sc_block = blk, sc_output = []\<rparr>"

text \<open>One pass through the body of the loop: \<open>Inl\<close> of the result to return, or the next state.\<close>

definition scan_body :: "comment_syntax \<Rightarrow> string \<Rightarrow> scan \<Rightarrow> (string \<times> bool) + scan" where
  "scan_body syn line s = (let i = sc_index s; byte = line ! i; push = s\<lparr>sc_index := i + 1, sc_output := sc_output s @ [byte]\<rparr> in
     if snd syn \<and> sc_block s then (case find_from ''*/'' line i of
         None \<Rightarrow> Inl (brstrip (sc_output s), True)
       | Some e \<Rightarrow> Inr (s\<lparr>sc_block := False, sc_index := e + 2\<rparr>))
     else (case sc_quote s of
       Some q \<Rightarrow> Inr (if sc_escaped s then push\<lparr>sc_escaped := False\<rparr>
         else if byte = CHR 0x5C then push\<lparr>sc_escaped := True\<rparr>
         else if byte = q then push\<lparr>sc_quote := None\<rparr> else push)
     | None \<Rightarrow>
         if quote_byte byte then Inr (push\<lparr>sc_quote := Some byte\<rparr>)
         else if fst syn \<and> byte = CHR ''#'' then Inl (brstrip (sc_output s), sc_block s)
         else if snd syn \<and> take 2 (drop i line) = ''//'' then Inl (brstrip (sc_output s), sc_block s)
         else if snd syn \<and> take 2 (drop i line) = ''/*'' then Inr (s\<lparr>sc_block := True, sc_index := i + 2\<rparr>)
         else Inr push))"

partial_function (option) scan_loop :: "comment_syntax \<Rightarrow> string \<Rightarrow> scan \<Rightarrow> (string \<times> bool) option" where
  "scan_loop syn line s = (if sc_index s < length line
     then (case scan_body syn line s of Inl r \<Rightarrow> Some r | Inr t \<Rightarrow> scan_loop syn line t)
     else Some (brstrip (sc_output s), sc_block s))"

declare scan_loop.simps [code]

definition strip_comments :: "string \<Rightarrow> bool \<Rightarrow> comment_syntax \<Rightarrow> string \<times> bool" where
  "strip_comments line blk syn = the (scan_loop syn line (scan_start blk))"

section \<open>The fingerprint\<close>

record norm =
  nm_lines :: "string list"
  nm_old_block :: bool
  nm_new_block :: bool
  nm_old_syntax :: comment_syntax
  nm_new_syntax :: comment_syntax
  nm_in_hunk :: bool

definition norm_start :: norm where
  "norm_start = \<lparr>nm_lines = [], nm_old_block = False, nm_new_block = False, nm_old_syntax = no_comments,
     nm_new_syntax = no_comments, nm_in_hunk = False\<rparr>"

definition emit :: "string \<Rightarrow> norm \<Rightarrow> norm" where
  "emit l s = s\<lparr>nm_lines := nm_lines s @ [l]\<rparr>"

definition emit_code :: "string \<Rightarrow> string \<Rightarrow> norm \<Rightarrow> norm" where
  "emit_code marker content s = (if bstrip content \<noteq> [] then emit (marker @ content) s else s)"

definition hunk_header :: "string \<Rightarrow> string" where
  "hunk_header line = (let suffix = (case find_from ''@@'' line 2 of None \<Rightarrow> [] | Some e \<Rightarrow> bstrip (drop (e + 2) line)) in
     ''@@'' @ (if suffix \<noteq> [] then '' '' @ suffix else []))"

definition hunk_line :: "string \<Rightarrow> norm \<Rightarrow> norm" where
  "hunk_line line s = (let marker = take 1 line; content = drop 1 line in
     if marker = ''-'' then (let (c, b) = strip_comments content (nm_old_block s) (nm_old_syntax s) in
       emit_code marker c (s\<lparr>nm_old_block := b\<rparr>))
     else if marker = ''+'' then (let (c, b) = strip_comments content (nm_new_block s) (nm_new_syntax s) in
       emit_code marker c (s\<lparr>nm_new_block := b\<rparr>))
     else (let (oc, ob) = strip_comments content (nm_old_block s) (nm_old_syntax s);
             (nc, nb) = strip_comments content (nm_new_block s) (nm_new_syntax s);
             s' = s\<lparr>nm_old_block := ob, nm_new_block := nb\<rparr> in
       if oc = nc then emit_code marker oc s'
       else emit_code ''> '' nc (emit_code ''< '' oc s')))"

definition norm_line :: "bool \<Rightarrow> norm \<Rightarrow> string \<Rightarrow> norm" where
  "norm_line is_git_diff s raw_line = (let line = brstrip raw_line in
     if \<not> is_git_diff then (if bstrip line \<noteq> [] then emit line s else s)
     else if startswith line ''diff --git '' then emit line (norm_start\<lparr>nm_lines := nm_lines s\<rparr>)
     else if startswith line ''index '' then s
     else let s1 = (if \<not> nm_in_hunk s \<and> startswith line ''--- ''
                 then s\<lparr>nm_old_syntax := comment_syntax_for_path (drop 4 line)\<rparr> else s);
              s2 = (if \<not> nm_in_hunk s1 \<and> startswith line ''+++ ''
                 then s1\<lparr>nm_new_syntax := comment_syntax_for_path (drop 4 line)\<rparr> else s1) in
       if startswith line ''@@'' then emit (hunk_header line) (s2\<lparr>nm_in_hunk := True\<rparr>)
       else if \<not> nm_in_hunk s2 \<or> take 1 line \<notin> set [''+'', ''-'', '' '']
       then (if line \<noteq> [] then emit line s2 else s2)
       else hunk_line line s2)"

definition is_git_diff :: "string \<Rightarrow> bool" where
  "is_git_diff data = (startswith data ''diff --git '' \<or> find_from (CHR 0x0A # ''diff --git '') data 0 \<noteq> None)"

definition normalized_lines :: "string \<Rightarrow> string list" where
  "normalized_lines data = nm_lines (foldl (norm_line (is_git_diff data)) norm_start (splitlines data))"

definition patch_fingerprint_bytes :: "(string \<Rightarrow> string) \<Rightarrow> string \<Rightarrow> string" where
  "patch_fingerprint_bytes sha256 data = ''sha256:'' @ sha256 (join_with (CHR 0x0A) (normalized_lines data))"

definition hash_patch_bytes :: "(string \<Rightarrow> string) \<Rightarrow> string \<Rightarrow> string" where
  "hash_patch_bytes sha256 data = ''sha256:'' @ sha256 data"

section \<open>The comment stripper returns\<close>

lemma find_in_ge: "find_in p s i = Some e \<Longrightarrow> i \<le> e"
  by (induction p s i rule: find_in.induct) (auto split: if_splits)

lemma scan_body_advances: "scan_body syn line s = Inr t \<Longrightarrow> sc_index s < sc_index t"
  by (auto simp: scan_body_def Let_def find_from_def dest!: find_in_ge split: if_splits option.splits)

definition kept :: "string \<Rightarrow> scan \<Rightarrow> bool" where
  "kept line s = subseq (sc_output s) (take (sc_index s) line)"

lemma subseq_take_mono: "subseq xs (take i ys) \<Longrightarrow> i \<le> j \<Longrightarrow> subseq xs (take j ys)"
  by (metis prefix_imp_subseq subseq_order.order_trans take_is_prefix take_take min.absorb1)

lemma scan_body_kept:
  assumes "scan_body syn line s = Inr t" and "kept line s" and "sc_index s < length line"
  shows "kept line t"
proof -
  have push: "subseq (sc_output s @ [line ! sc_index s]) (take (Suc (sc_index s)) line)"
    using assms(2,3) by (simp add: kept_def take_Suc_conv_app_nth list_emb_append_mono)
  have skip: "subseq (sc_output s) (take (sc_index t) line)"
    using assms(2) scan_body_advances [OF assms(1)] by (auto simp: kept_def intro: subseq_take_mono)
  show ?thesis
    using assms(1) push skip by (auto simp: kept_def scan_body_def Let_def split: if_splits option.splits)
qed

lemma brstrip_prefix: "prefix (brstrip s) s"
  unfolding brstrip_def by (metis append.right_neutral prefixI rev_append rev_rev_ident takeWhile_dropWhile_id)

lemma scan_result_kept:
  assumes "kept line s"
  shows "subseq (brstrip (sc_output s)) line"
  using assms brstrip_prefix unfolding kept_def
  by (meson prefix_imp_subseq subseq_order.order_trans take_is_prefix)

lemma scan_body_result: "scan_body syn line s = Inl r \<Longrightarrow> fst r = brstrip (sc_output s)"
  by (auto simp: scan_body_def Let_def split: if_splits option.splits)

lemma scan_loop_returns:
  assumes "kept line s"
  shows "\<exists>out blk. scan_loop syn line s = Some (out, blk) \<and> subseq out line"
  using assms
proof (induction "length line - sc_index s" arbitrary: s rule: less_induct)
  case less
  show ?case
  proof (cases "sc_index s < length line")
    case False
    then show ?thesis using scan_result_kept [OF less.prems] by (subst scan_loop.simps) simp
  next
    case True
    show ?thesis
    proof (cases "scan_body syn line s")
      case (Inl r)
      with True scan_result_kept [OF less.prems] scan_body_result [OF Inl] show ?thesis
        by (subst scan_loop.simps) (cases r, simp)
    next
      case (Inr t)
      have "length line - sc_index t < length line - sc_index s" using True scan_body_advances [OF Inr] by simp
      note IH = less.hyps [OF this scan_body_kept [OF Inr less.prems True]]
      with True Inr show ?thesis
        by (subst scan_loop.simps) simp
    qed
  qed
qed

text \<open>
  C37. The comment stripper terminates: on any line, under any comment syntax, and started inside or
  outside a block comment, the loop returns, and what it returns is a subsequence of the line (bytes
  are dropped, never invented or reordered).
\<close>

theorem strip_comments_returns:
  "\<exists>out blk'. scan_loop syn line (scan_start blk) = Some (out, blk') \<and>
    strip_comments line blk syn = (out, blk') \<and> subseq out line"
  using scan_loop_returns [of line "scan_start blk" syn] by (auto simp: strip_comments_def kept_def scan_start_def)

section \<open>Comments do not change the fingerprint\<close>

definition plain :: "string \<Rightarrow> bool" where
  "plain s = list_all (\<lambda>c. \<not> quote_byte c \<and> c \<noteq> CHR ''#'') s"

lemma scan_plain:
  assumes "plain code" and "sc_quote s = None" and "drop (sc_index s) line = code @ rest"
    and "rest = [] \<or> hd rest = CHR ''#''" and "sc_index s \<le> length line"
  shows "scan_loop python_comments line s = Some (brstrip (sc_output s @ code), sc_block s)"
  using assms
proof (induction code arbitrary: s)
  case Nil
  show ?case
  proof (cases rest)
    case Nil
    with Nil.prems show ?thesis by (subst scan_loop.simps) simp
  next
    case (Cons c r)
    with Nil.prems have "sc_index s < length line" "line ! sc_index s = CHR ''#''"
      by (auto simp: nth_via_drop dest: arg_cong [of _ _ length])
    with Nil.prems show ?thesis
      by (subst scan_loop.simps) (simp add: scan_body_def python_comments_def quote_byte_def)
  qed
next
  case (Cons c code)
  then have i: "sc_index s < length line" "line ! sc_index s = c"
    by (auto simp: nth_via_drop dest: arg_cong [of _ _ length])
  let ?t = "s\<lparr>sc_index := sc_index s + 1, sc_output := sc_output s @ [c]\<rparr>"
  have "drop (Suc (sc_index s)) line = code @ rest"
    using Cons.prems(3) by (simp add: drop_Suc tl_drop [symmetric])
  then have "scan_loop python_comments line ?t = Some (brstrip (sc_output ?t @ code), sc_block ?t)"
    using Cons.prems i by (intro Cons.IH) (simp_all add: plain_def)
  moreover have "scan_body python_comments line s = Inr ?t"
    using Cons.prems i by (simp add: scan_body_def python_comments_def plain_def)
  ultimately show ?case using i by (subst scan_loop.simps) simp
qed

lemma strip_plain:
  assumes "plain code" and "rest = [] \<or> hd rest = CHR ''#''"
  shows "strip_comments (code @ rest) blk python_comments = (brstrip code, blk)"
  using scan_plain [OF assms(1) _ _ assms(2), of "scan_start blk" "code @ rest"]
  by (simp add: strip_comments_def scan_start_def)

lemma brstrip_keeps: "\<not> bspace c \<Longrightarrow> brstrip (xs @ c # ys) = xs @ c # brstrip ys"
  by (simp add: brstrip_def dropWhile_append)

lemma brstrip_Cons: "\<not> bspace c \<Longrightarrow> brstrip (c # ys) = c # brstrip ys"
  using brstrip_keeps [of c "[]"] by simp

lemma brstrip_idem [simp]: "brstrip (brstrip s) = brstrip s"
  unfolding brstrip_def by (simp add: dropWhile_idem)

lemma plain_brstrip: "plain s \<Longrightarrow> plain (brstrip s)"
  using set_mono_prefix [OF brstrip_prefix [of s]] by (auto simp: plain_def list_all_iff)

lemma brstrip_blank: "brstrip s = [] \<longleftrightarrow> list_all bspace s"
  by (simp add: brstrip_def list_all_iff)

lemma bstrip_blank: "bstrip s = [] \<longleftrightarrow> list_all bspace s"
proof (cases "dropWhile bspace s")
  case Nil
  then show ?thesis by (auto simp: bstrip_def brstrip_def list_all_iff dest: set_dropWhileD)
next
  case (Cons c t)
  then have "\<not> bspace c" "c \<in> set s" by (metis hd_dropWhile list.sel(1) list.simps(3), metis list.set_intros(1) set_dropWhileD)
  with Cons show ?thesis by (auto simp: bstrip_def brstrip_Cons list_all_iff)
qed

definition in_python_hunk :: "string list \<Rightarrow> bool" where
  "in_python_hunk ls = (let s = foldl (norm_line True) norm_start ls in
     nm_in_hunk s \<and> nm_new_syntax s = python_comments)"

text \<open>An added line of a hunk of a Python file, with and without a comment at its end.\<close>

lemma added_line:
  assumes "nm_in_hunk s" and "nm_new_syntax s = python_comments" and "plain code"
    and "rest = [] \<or> hd rest = CHR ''#''"
  shows "norm_line True s (CHR ''+'' # code @ rest) = emit_code ''+'' (brstrip code) s"
proof -
  define c r where "c = (if rest = [] then brstrip code else code)" and "r = (if rest = [] then [] else CHR ''#'' # brstrip (tl rest))"
  have l: "brstrip (CHR ''+'' # code @ rest) = CHR ''+'' # c @ r"
  proof (cases rest)
    case Nil
    then show ?thesis by (simp add: c_def r_def brstrip_Cons bspace_def)
  next
    case (Cons h t)
    then have "brstrip (CHR ''+'' # code @ rest) = CHR ''+'' # code @ CHR ''#'' # brstrip t"
      using assms(4) brstrip_keeps [of "CHR ''#''" "CHR ''+'' # code" t] by (simp add: bspace_def)
    then show ?thesis using Cons by (simp add: c_def r_def)
  qed
  have "strip_comments (c @ r) (nm_new_block s) python_comments = (brstrip c, nm_new_block s)"
    using assms(3) by (intro strip_plain) (auto simp: c_def r_def plain_brstrip)
  moreover have "brstrip c = brstrip code" by (simp add: c_def)
  ultimately have "hunk_line (CHR ''+'' # c @ r) s = emit_code ''+'' (brstrip code) s"
    using assms(2) by (simp add: hunk_line_def)
  then show ?thesis
    using assms(1) by (simp add: norm_line_def l startswith_def)
qed

lemma norm_line_empty [simp]: "norm_line g s [] = s"
  by (simp add: norm_line_def brstrip_def bstrip_def startswith_def)

lemma splitlines_last: "list_all (\<lambda>c. \<not> is_newline c) p \<Longrightarrow> splitlines p = (if p = [] then [] else [p])"
  by (subst splitlines.simps) (auto simp: list_all_iff dropWhile_eq_Nil_conv [THEN iffD2])

lemma splitlines_line:
  assumes "list_all (\<lambda>c. \<not> is_newline c) p"
  shows "splitlines (p @ CHR 0x0A # s) = p # splitlines s"
proof -
  have "takeWhile (\<lambda>c. \<not> is_newline c) (p @ CHR 0x0A # s) = p"
    "dropWhile (\<lambda>c. \<not> is_newline c) (p @ CHR 0x0A # s) = CHR 0x0A # s"
    using assms by (simp_all add: list_all_iff is_newline_def)
  then show ?thesis by (subst splitlines.simps) simp
qed

lemma foldl_joined:
  assumes "list_all (list_all (\<lambda>c. \<not> is_newline c)) ls"
  shows "foldl (norm_line g) s (splitlines (join_with (CHR 0x0A) ls)) = foldl (norm_line g) s ls"
  using assms
proof (induction "CHR 0x0A" ls arbitrary: s rule: join_with.induct)
  case (2 p)
  then show ?case by (simp add: splitlines_last)
next
  case (3 p q ps)
  then show ?case by (simp add: splitlines_line)
qed (simp add: splitlines_last)

lemma startswith_extend: "startswith p q \<Longrightarrow> startswith (p @ s) q"
  unfolding startswith_def by (metis append_take_drop_id append.assoc append_eq_conv_conj)

lemma joined_is_git_diff:
  assumes "ls \<noteq> []" and "startswith (hd ls) ''diff --git ''"
  shows "is_git_diff (join_with (CHR 0x0A) ls)"
proof -
  obtain l t where "ls = l # t" using assms(1) by (cases ls) auto
  then have "\<exists>r. join_with (CHR 0x0A) ls = l @ r" by (cases t) auto
  with assms(2) \<open>ls = l # t\<close> show ?thesis by (auto simp: is_git_diff_def intro: startswith_extend)
qed

lemma normalized_joined:
  assumes "ls \<noteq> []" and "startswith (hd ls) ''diff --git ''" and "list_all (list_all (\<lambda>c. \<not> is_newline c)) ls"
  shows "normalized_lines (join_with (CHR 0x0A) ls) = nm_lines (foldl (norm_line True) norm_start ls)"
  using joined_is_git_diff [OF assms(1,2)] foldl_joined [OF assms(3)] by (simp add: normalized_lines_def)


definition ex_diff :: "string list" where
  "ex_diff = [''diff --git a/m.py b/m.py'', ''--- a/m.py'', ''+++ b/m.py'', ''@@ -1 +1,2 @@'', ''-x = 0'']"

lemma ex_diff_ok: "in_python_hunk ex_diff" "plain ''x = 1  ''"
  "list_all (list_all (\<lambda>c. \<not> is_newline c)) (''x = 1  '' # '' mine now'' # ex_diff @ [''+y = 2''])"
  "startswith (hd ex_diff) ''diff --git ''"
  by code_simp+


end
