(* ===== verification/Surface.thy ===== *)
theory Surface
  imports Fingerprint
begin

text \<open>
  \<open>gate/types.py\<close> and \<open>gate/surface.py\<close>: the result of a gate, and the gate that decides which
  files a patch may touch. The text of a patch is its bytes decoded as UTF-8, the argument
  \<open>decode\<close>; what \<open>git apply --numstat -z\<close> answers to a patch is the argument \<open>git\<close>. \<open>fnmatch\<close> of the standard library is modelled with its wildcards and
  character classes.
\<close>

section \<open>Gate results\<close>

record gate_result =
  gr_ok :: bool
  gr_state :: string
  gr_reason :: string
  gr_evidence :: jdict
  gr_patch_bytes :: string

definition gate_reject :: "string \<Rightarrow> jdict \<Rightarrow> gate_result" where
  "gate_reject reason evidence = \<lparr>gr_ok = False, gr_state = ''rejected'', gr_reason = reason, gr_evidence = evidence,
     gr_patch_bytes = []\<rparr>"

definition gate_success :: "string \<Rightarrow> jdict \<Rightarrow> string \<Rightarrow> gate_result" where
  "gate_success st evidence data = \<lparr>gr_ok = True, gr_state = st, gr_reason = [], gr_evidence = evidence,
     gr_patch_bytes = data\<rparr>"

lemma gate_result_simps [simp]:
  "\<not> gr_ok (gate_reject reason evidence)" "gr_reason (gate_reject reason evidence) = reason"
  "gr_ok (gate_success st evidence data)" "gr_patch_bytes (gate_success st evidence data) = data"
  "gr_evidence (gate_success st evidence data) = evidence" "gr_evidence (gate_reject reason evidence) = evidence"
  "gr_state (gate_reject reason evidence) = ''rejected''" "gr_reason (gate_success st evidence data) = []"
  by (simp_all add: gate_reject_def gate_success_def)

section \<open>Paths\<close>

definition unix_path :: "string \<Rightarrow> string" where
  "unix_path p = map (\<lambda>c. if c = CHR 0x5C then CHR 0x2F else c) p"

fun drop_dots :: "string \<Rightarrow> string" where
  "drop_dots (a # b # p) = (if [a, b] = ''./'' then drop_dots p else a # b # p)"
| "drop_dots p = p"

definition normalize_path :: "string \<Rightarrow> string" where
  "normalize_path p = drop_dots (strip p)"

definition is_unsafe_path :: "string \<Rightarrow> bool" where
  "is_unsafe_path path = (path = [] \<or> startswith path ''/'' \<or> startswith path [CHR 0x5C] \<or>
     (2 \<le> length path \<and> path ! 1 = CHR '':'') \<or> ''..'' \<in> set (split_on (CHR 0x2F) (unix_path path)))"

section \<open>Globs\<close>

datatype glob = GStar | GAny | GChar char | GClass bool "(char \<times> char) list"

text \<open>The ranges of a character class; a single character is the range from itself to itself.\<close>

fun class_ranges :: "string \<Rightarrow> (char \<times> char) list" where
  "class_ranges [] = []"
| "class_ranges [a] = [(a, a)]"
| "class_ranges [a, b] = [(a, a), (b, b)]"
| "class_ranges (a # b # c # r) = (if b = CHR ''-'' then (a, c) # class_ranges r else (a, a) # class_ranges (b # c # r))"

text \<open>
  The text of a class up to its closing bracket, and what follows; a bracket right after the
  opening one, or after its exclamation mark, belongs to the class. \<open>None\<close> when nothing closes it.
\<close>

definition class_text :: "string \<Rightarrow> (string \<times> string) option" where
  "class_text p = (let
     k = (if startswith p ''!]'' then 2 else if startswith p ''!'' \<or> startswith p '']'' then 1 else 0);
     body = takeWhile (\<lambda>c. c \<noteq> CHR '']'') (drop k p) in
     if k + length body < length p then Some (take k p @ body, drop (k + length body + 1) p) else None)"

definition class_of :: "string \<Rightarrow> glob" where
  "class_of t = (if startswith t ''!'' then GClass False (class_ranges (drop 1 t)) else GClass True (class_ranges t))"

lemma class_text_shorter: "class_text p = Some (t, r) \<Longrightarrow> length r < length p"
  by (auto simp: class_text_def Let_def split: if_splits)

function glob_of :: "string \<Rightarrow> glob list" where
  "glob_of [] = []"
| "glob_of (c # p) = (if c = CHR ''*'' then GStar # glob_of p
     else if c = CHR ''?'' then GAny # glob_of p
     else if c = CHR ''['' then (case class_text p of None \<Rightarrow> GChar c # glob_of p | Some (t, r) \<Rightarrow> class_of t # glob_of r)
     else GChar c # glob_of p)"
  by pat_completeness auto
termination
  by (relation "measure length") (auto dest: class_text_shorter)

fun glob_match :: "glob list \<Rightarrow> string \<Rightarrow> bool" where
  "glob_match [] s = (s = [])"
| "glob_match (GStar # gs) [] = glob_match gs []"
| "glob_match (GStar # gs) (c # s) = (glob_match gs (c # s) \<or> glob_match (GStar # gs) s)"
| "glob_match (g # gs) [] = False"
| "glob_match (GAny # gs) (c # s) = glob_match gs s"
| "glob_match (GChar x # gs) (c # s) = (x = c \<and> glob_match gs s)"
| "glob_match (GClass pos rs # gs) (c # s) =
     (list_ex (\<lambda>(a, b). ccode a \<le> ccode c \<and> ccode c \<le> ccode b) rs = pos \<and> glob_match gs s)"

definition fnmatch :: "string \<Rightarrow> string \<Rightarrow> bool" where
  "fnmatch name pat = glob_match (glob_of pat) name"

definition glob_hits :: "string \<Rightarrow> string \<Rightarrow> bool" where
  "glob_hits path pattern = (let pat = unix_path pattern in fnmatch path pat \<or>
     (startswith pat ''**/'' \<and> fnmatch path (drop 3 pat)) \<or>
     (CHR 0x2F \<notin> set pat \<and> fnmatch (last (split_on (CHR 0x2F) path)) pat))"

definition match_globs :: "string \<Rightarrow> string list \<Rightarrow> bool" where
  "match_globs path globs = list_ex (glob_hits (unix_path path)) globs"

section \<open>The headers of a diff\<close>

record diff_file_change =
  df_path :: string
  df_old_path :: "string option"
  df_is_symlink :: bool
  df_is_binary :: bool
  df_is_new :: bool
  df_is_deleted :: bool
  df_is_copy :: bool
  df_mode_change :: "string option"

text \<open>\<open>str.splitlines()\<close>, which also breaks at the separators of ISO control characters.\<close>

definition is_line_break :: "char \<Rightarrow> bool" where
  "is_line_break c = (ccode c \<in> {10, 11, 12, 13, 28, 29, 30, 133})"

function text_lines :: "string \<Rightarrow> string list" where
  "text_lines [] = []"
| "text_lines (c # s) = (let l = takeWhile (\<lambda>c. \<not> is_line_break c) (c # s); r = dropWhile (\<lambda>c. \<not> is_line_break c) (c # s) in
     l # (case r of [] \<Rightarrow> [] | b # t \<Rightarrow> text_lines (if b = CHR 0x0D \<and> startswith t [CHR 0x0A] then drop 1 t else t)))"
  by pat_completeness auto
termination
proof (relation "measure length", goal_cases)
  case (2 c s x r b t)
  have "length r \<le> length (c # s)" using 2(2) length_dropWhile_le by metis
  with 2(3) show ?case by auto
qed simp

text \<open>\<open>^prefix(.+)$\<close> and \<open>^prefix(\d+)$\<close>.\<close>

definition rest_after :: "string \<Rightarrow> string \<Rightarrow> string option" where
  "rest_after p l = (if startswith l p \<and> length p < length l then Some (drop (length p) l) else None)"

definition digits_after :: "string \<Rightarrow> string \<Rightarrow> string option" where
  "digits_after p l = (case rest_after p l of Some r \<Rightarrow> if digits_re r then Some r else None | None \<Rightarrow> None)"

text \<open>\<open>^diff --git a/(.+?) b/(.+)$\<close>: the first group is as short as it can be.\<close>

definition diff_git_split :: "string \<Rightarrow> nat \<Rightarrow> bool" where
  "diff_git_split r i = (startswith (drop i r) '' b/'' \<and> i + 3 < length r)"

definition diff_git_re :: "string \<Rightarrow> (string \<times> string) option" where
  "diff_git_re l = (case rest_after ''diff --git a/'' l of None \<Rightarrow> None
     | Some r \<Rightarrow> map_option (\<lambda>i. (take i r, drop (i + 3) r)) (find (diff_git_split r) [1..<length r]))"

definition binary_re :: "string \<Rightarrow> bool" where
  "binary_re l = (l = ''GIT binary patch'' \<or>
     (startswith l ''Binary files '' \<and> bendswith (drop 13 l) '' differ''))"

record header =
  hd_symlink :: bool
  hd_binary :: bool
  hd_new :: bool
  hd_deleted :: bool
  hd_rename_from :: "string option"
  hd_rename_to :: "string option"
  hd_copy :: bool
  hd_mode :: "string option"

definition header_start :: header where
  "header_start = \<lparr>hd_symlink = False, hd_binary = False, hd_new = False, hd_deleted = False, hd_rename_from = None,
     hd_rename_to = None, hd_copy = False, hd_mode = None\<rparr>"

definition note_binary :: "string \<Rightarrow> header \<Rightarrow> header" where
  "note_binary l h = (if binary_re l then h\<lparr>hd_binary := True\<rparr> else h)"

definition note_new_file :: "string \<Rightarrow> header \<Rightarrow> header" where
  "note_new_file l h = (case digits_after ''new file mode '' l of None \<Rightarrow> h
     | Some mode \<Rightarrow> if startswith mode ''12'' then h\<lparr>hd_new := True, hd_symlink := True\<rparr>
         else if mode \<noteq> ''100644'' then h\<lparr>hd_new := True, hd_mode := Some mode\<rparr> else h\<lparr>hd_new := True\<rparr>)"

definition note_deleted_file :: "string \<Rightarrow> header \<Rightarrow> header" where
  "note_deleted_file l h = (case digits_after ''deleted file mode '' l of None \<Rightarrow> h
     | Some mode \<Rightarrow> if startswith mode ''12'' then h\<lparr>hd_deleted := True, hd_symlink := True\<rparr> else h\<lparr>hd_deleted := True\<rparr>)"

definition note_moves :: "string \<Rightarrow> header \<Rightarrow> header" where
  "note_moves l h = (let
     h1 = (case rest_after ''rename to '' l of None \<Rightarrow> h | Some p \<Rightarrow> h\<lparr>hd_rename_to := Some (normalize_path p)\<rparr>);
     h2 = (case rest_after ''rename from '' l of None \<Rightarrow> h1 | Some p \<Rightarrow> h1\<lparr>hd_rename_from := Some (normalize_path p)\<rparr>);
     h3 = (case rest_after ''copy to '' l of None \<Rightarrow> h2 | Some p \<Rightarrow> h2\<lparr>hd_rename_to := Some (normalize_path p), hd_copy := True\<rparr>) in
     case rest_after ''copy from '' l of None \<Rightarrow> h3 | Some p \<Rightarrow> h3\<lparr>hd_rename_from := Some (normalize_path p)\<rparr>)"

definition note_mode :: "string \<Rightarrow> header \<Rightarrow> header" where
  "note_mode l h = (let
     h1 = (if startswith l ''new mode '' \<and> find_from ''120000'' l 0 \<noteq> None then h\<lparr>hd_symlink := True\<rparr> else h) in
     case digits_after ''new mode '' l of None \<Rightarrow> h1 | Some mode \<Rightarrow> h1\<lparr>hd_mode := Some mode\<rparr>)"

definition note_header :: "string \<Rightarrow> header \<Rightarrow> header" where
  "note_header l h = note_mode l (note_moves l (note_deleted_file l (note_new_file l (note_binary l h))))"

text \<open>\<open>a or b\<close> on an optional string: the empty string counts as absent.\<close>

definition or_else :: "string option \<Rightarrow> string option \<Rightarrow> string option" where
  "or_else a b = (case a of None \<Rightarrow> b | Some s \<Rightarrow> if s = [] then b else a)"

definition change_of :: "string \<Rightarrow> string \<Rightarrow> header \<Rightarrow> diff_file_change" where
  "change_of old_p new_p h = \<lparr>
     df_path = the (or_else (hd_rename_to h) (Some (if new_p \<noteq> ''/dev/null'' then new_p else old_p))),
     df_old_path = or_else (hd_rename_from h) (if old_p \<noteq> ''/dev/null'' then Some old_p else None),
     df_is_symlink = hd_symlink h, df_is_binary = hd_binary h, df_is_new = hd_new h, df_is_deleted = hd_deleted h,
     df_is_copy = hd_copy h, df_mode_change = (if hd_copy h \<and> hd_mode h = None then Some ''copy'' else hd_mode h)\<rparr>"

definition header_line :: "string \<Rightarrow> bool" where
  "header_line l = (\<not> startswith l ''diff --git '')"

function diff_changes :: "string list \<Rightarrow> diff_file_change list" where
  "diff_changes [] = []"
| "diff_changes (l # ls) = (case diff_git_re l of None \<Rightarrow> diff_changes ls
     | Some (a, b) \<Rightarrow> change_of (normalize_path a) (normalize_path b)
         (fold note_header (takeWhile header_line ls) header_start) # diff_changes (dropWhile header_line ls))"
  by pat_completeness auto
termination
  by (relation "measure length") (auto simp: le_imp_less_Suc length_dropWhile_le)

definition parse_diff_paths :: "string \<Rightarrow> diff_file_change list" where
  "parse_diff_paths patch_text = diff_changes (text_lines patch_text)"

section \<open>Added lines\<close>

definition opt_count :: "string \<Rightarrow> (string option \<times> string) option" where
  "opt_count s = (case s of c # r \<Rightarrow> if c = CHR '','' then (let ds = takeWhile is_ascii_digit r in
       if ds = [] then None else Some (Some ds, dropWhile is_ascii_digit r)) else Some (None, s)
     | [] \<Rightarrow> Some (None, []))"

definition hunk_side :: "string \<Rightarrow> string \<Rightarrow> (string option \<times> string) option" where
  "hunk_side p s = (case rest_after p s of None \<Rightarrow> None
     | Some r \<Rightarrow> if takeWhile is_ascii_digit r = [] then None else opt_count (dropWhile is_ascii_digit r))"

text \<open>\<open>^@@ -\d+(?:,(\d+))? \+\d+(?:,(\d+))? @@\<close>\<close>

definition hunk_re :: "string \<Rightarrow> (string option \<times> string option) option" where
  "hunk_re l = (case hunk_side ''@@ -'' l of None \<Rightarrow> None
     | Some (old, r) \<Rightarrow> (case hunk_side '' +'' r of None \<Rightarrow> None
         | Some (new, t) \<Rightarrow> if startswith t '' @@'' then Some (old, new) else None))"

definition hunk_count :: "string option \<Rightarrow> int res" where
  "hunk_count g = (case g of None \<Rightarrow> Inr 1 | Some ds \<Rightarrow> int_limited ds)"

definition drop_cr :: "string \<Rightarrow> string" where
  "drop_cr l = (if l \<noteq> [] \<and> last l = CHR 0x0D then butlast l else l)"

text \<open>
  The counters of the two sides, the lines yielded so far, and the exception that ended the
  generator.
\<close>

type_synonym added = "int \<times> int \<times> string list \<times> pyerr option"

definition hunk_line_left :: "string \<Rightarrow> int \<times> int \<times> string list \<Rightarrow> int \<times> int \<times> string list" where
  "hunk_line_left l = (\<lambda>(old_left, new_left, out).
     if startswith l [CHR 0x5C] then (old_left, new_left, out)
     else if startswith l ''+'' then (old_left, new_left - 1, out @ [drop_cr (drop 1 l)])
     else if startswith l ''-'' then (old_left - 1, new_left, out)
     else (old_left - 1, new_left - 1, out))"

definition added_step :: "added \<Rightarrow> string \<Rightarrow> added" where
  "added_step = (\<lambda>(old_left, new_left, out, err) l.
     if err \<noteq> None then (old_left, new_left, out, err)
     else if old_left > 0 \<or> new_left > 0
     then (case hunk_line_left l (old_left, new_left, out) of (o', n', out') \<Rightarrow> (o', n', out', None))
     else case hunk_re l of None \<Rightarrow> (old_left, new_left, out, None)
       | Some (a, b) \<Rightarrow> (case rbind (hunk_count a) (\<lambda>m. rbind (hunk_count b) (\<lambda>n. Inr (m, n))) of
           Inl e \<Rightarrow> (old_left, new_left, out, Some e) | Inr (m, n) \<Rightarrow> (m, n, out, None)))"

definition added_lines :: "string \<Rightarrow> string list \<times> pyerr option" where
  "added_lines patch_text = (case foldl added_step (0, 0, [], None) (split_on (CHR 0x0A) patch_text) of
     (_, _, out, err) \<Rightarrow> (out, err))"

section \<open>The gate\<close>

record surface_rules =
  sf_allowed_paths :: "string list"
  sf_denied_paths :: "string list"
  sf_max_patch_bytes :: "int option"
  sf_max_added_line_chars :: "int option"
  sf_reject_renames :: bool
  sf_reject_mode_changes :: bool

definition submodule_path :: "string \<Rightarrow> bool" where
  "submodule_path p = (p = ''.gitmodules'' \<or> bendswith p ''/.gitmodules'')"

definition path_field :: "string \<Rightarrow> jdict" where
  "path_field p = [(''path'', JStr p)]"

text \<open>The first complaint of a list of checks.\<close>

fun first_reject :: "gate_result option list \<Rightarrow> gate_result option" where
  "first_reject [] = None"
| "first_reject (None # rs) = first_reject rs"
| "first_reject (Some r # rs) = Some r"

definition reject_if :: "bool \<Rightarrow> string \<Rightarrow> jdict \<Rightarrow> gate_result option" where
  "reject_if b reason evidence = (if b then Some (gate_reject reason evidence) else None)"

definition check_endpoint :: "string \<Rightarrow> gate_result option" where
  "check_endpoint p = first_reject [reject_if (is_unsafe_path p) ''path_traversal'' (path_field p),
     reject_if (submodule_path p) ''submodule_change_forbidden'' (path_field p)]"

definition endpoints :: "diff_file_change \<Rightarrow> string list" where
  "endpoints ch = filter (\<lambda>p. p \<noteq> []) (df_path ch # (case df_old_path ch of None \<Rightarrow> [] | Some p \<Rightarrow> [p]))"

definition moved_from :: "diff_file_change \<Rightarrow> string option" where
  "moved_from ch = (case df_old_path ch of None \<Rightarrow> None
     | Some p \<Rightarrow> if p \<noteq> [] \<and> p \<noteq> df_path ch then Some p else None)"

definition check_bounds :: "surface_rules \<Rightarrow> string \<Rightarrow> string \<Rightarrow> string \<Rightarrow> gate_result option" where
  "check_bounds rules denied not_allowed p = first_reject [
     reject_if (match_globs p (sf_denied_paths rules)) denied (path_field p),
     reject_if (\<not> match_globs p (sf_allowed_paths rules)) not_allowed (path_field p)]"

definition check_change :: "surface_rules \<Rightarrow> diff_file_change \<Rightarrow> gate_result option" where
  "check_change rules ch = first_reject (
     [reject_if (df_is_binary ch) ''binary_patch_forbidden'' (path_field (df_path ch)),
      reject_if (df_is_symlink ch) ''symlink_forbidden'' (path_field (df_path ch))] @
     map check_endpoint (endpoints ch) @
     [case moved_from ch of Some p \<Rightarrow> reject_if (sf_reject_renames rules \<and> \<not> df_is_copy ch) ''rename_forbidden'' (path_field p)
        | None \<Rightarrow> None,
      case df_mode_change ch of Some m \<Rightarrow> reject_if (sf_reject_mode_changes rules \<and> m \<noteq> []) ''mode_change_forbidden''
          (path_field (df_path ch) @ [(''mode'', JStr m)]) | None \<Rightarrow> None,
      check_bounds rules ''path_denied'' ''path_not_allowed'' (df_path ch),
      case moved_from ch of Some p \<Rightarrow> check_bounds rules ''rename_from_denied'' ''rename_from_not_allowed'' p | None \<Rightarrow> None])"

definition check_git_path :: "surface_rules \<Rightarrow> string \<Rightarrow> gate_result option" where
  "check_git_path rules p = first_reject [check_endpoint p, check_bounds rules ''path_denied'' ''path_not_allowed'' p]"

definition line_too_long :: "int \<Rightarrow> string \<Rightarrow> gate_result option" where
  "line_too_long m l = reject_if (int (length l) > m) ''added_line_too_long'' [(''length'', JInt (int (length l))), (''limit'', JInt m)]"

definition check_added_lines :: "int option \<Rightarrow> string \<Rightarrow> gate_result option res" where
  "check_added_lines limit patch_text = (case limit of None \<Rightarrow> Inr None
     | Some m \<Rightarrow> (case added_lines patch_text of (ls, err) \<Rightarrow> (case first_reject (map (line_too_long m) ls) of
         Some r \<Rightarrow> Inr (Some r)
       | None \<Rightarrow> (case err of None \<Rightarrow> Inr None | Some e \<Rightarrow> Inl e))))"

definition contains :: "string \<Rightarrow> string \<Rightarrow> bool" where
  "contains s p = (find_from p s 0 \<noteq> None)"

text \<open>The answer of git, and the paths in it: records separated by NUL, each with two counts and a path.\<close>

datatype git_run = GitTimeout | GitError string | GitExit int string string

definition numstat_path :: "(string \<Rightarrow> string option) \<Rightarrow> string \<Rightarrow> (string \<times> jdict) + string" where
  "numstat_path decode rec = (case split_on (CHR 0x09) rec of
     _ # _ # f # fs \<Rightarrow> let raw = join_with (CHR 0x09) (f # fs) in
       if raw = [] then Inl (''git_apply_numstat_invalid_output'', [])
       else (case decode raw of None \<Rightarrow> Inl (''git_apply_numstat_path_not_utf8'', []) | Some p \<Rightarrow> Inr p)
   | _ \<Rightarrow> Inl (''git_apply_numstat_invalid_output'', []))"

definition git_numstat_paths :: "(string \<Rightarrow> string option) \<Rightarrow> git_run \<Rightarrow> (string \<times> jdict) + string list" where
  "git_numstat_paths decode run = (case run of
     GitTimeout \<Rightarrow> Inl (''git_apply_numstat_timeout'', [])
   | GitError e \<Rightarrow> Inl (''git_apply_numstat_error'', [(''error'', JStr e)])
   | GitExit code out err \<Rightarrow> if code \<noteq> 0
       then Inl (''git_apply_numstat_failed'', [(''stderr'', JStr (drop (length err - 2000) err))])
       else rmap (numstat_path decode) (filter (\<lambda>r. r \<noteq> []) (split_on (CHR 0x00) out)))"

definition check_git_paths :: "surface_rules \<Rightarrow> (string \<times> jdict) + string list \<Rightarrow> gate_result" where
  "check_git_paths rules git_paths = (case git_paths of Inl (reason, evidence) \<Rightarrow> gate_reject reason evidence
     | Inr paths \<Rightarrow> if paths = [] then gate_reject ''empty_patch_no_git_files'' []
         else case first_reject (map (check_git_path rules) paths) of Some r \<Rightarrow> r
           | None \<Rightarrow> gate_success ''surface_ok'' [(''files'', JArr (map JStr paths)), (''file_count'', JInt (int (length paths)))] [])"

definition check_surface ::
  "(string \<Rightarrow> string option) \<Rightarrow> (string \<Rightarrow> git_run) \<Rightarrow> surface_rules \<Rightarrow> string \<Rightarrow> gate_result res" where
  "check_surface decode git rules patch_bytes =
     (if (case sf_max_patch_bytes rules of None \<Rightarrow> False | Some m \<Rightarrow> int (length patch_bytes) > m)
      then Inr (gate_reject ''patch_too_large'' [(''size'', JInt (int (length patch_bytes))), (''limit'', opt_int (sf_max_patch_bytes rules))])
      else case decode patch_bytes of None \<Rightarrow> Inr (gate_reject ''patch_not_utf8'' []) | Some body \<Rightarrow>
        if strip body = [] then Inr (gate_reject ''empty_patch'' [])
        else if contains body ''.gitmodules'' \<or> contains body ''Subproject commit'' then Inr (gate_reject ''submodule_change_forbidden'' [])
        else let changes = parse_diff_paths body in
          if changes = [] then Inr (gate_reject (if contains body ''GIT binary patch'' \<or> contains body ''Binary files''
              then ''binary_patch_forbidden'' else ''empty_patch_no_files'') [])
          else case first_reject (map (check_change rules) changes) of Some r \<Rightarrow> Inr r
            | None \<Rightarrow> rbind (check_added_lines (sf_max_added_line_chars rules) body) (\<lambda>long. Inr (case long of Some r \<Rightarrow> r
                | None \<Rightarrow> check_git_paths rules (git_numstat_paths decode (git patch_bytes)))))"

section \<open>What \<open>fnmatch\<close> accepts\<close>

text \<open>The language of a glob, as a set of strings.\<close>

fun glob_lang :: "glob list \<Rightarrow> string set" where
  "glob_lang [] = {[]}"
| "glob_lang (GStar # gs) = {u @ v | u v. v \<in> glob_lang gs}"
| "glob_lang (GAny # gs) = {c # v | c v. v \<in> glob_lang gs}"
| "glob_lang (GChar x # gs) = {x # v | v. v \<in> glob_lang gs}"
| "glob_lang (GClass pos rs # gs) = {c # v | c v. (\<exists>(a, b) \<in> set rs. ccode a \<le> ccode c \<and> ccode c \<le> ccode b) = pos \<and> v \<in> glob_lang gs}"

lemma glob_star_Cons:
  "c # s \<in> glob_lang (GStar # gs) \<longleftrightarrow> c # s \<in> glob_lang gs \<or> s \<in> glob_lang (GStar # gs)"
proof
  assume "c # s \<in> glob_lang (GStar # gs)"
  then obtain u v where "c # s = u @ v" "v \<in> glob_lang gs" by auto
  then show "c # s \<in> glob_lang gs \<or> s \<in> glob_lang (GStar # gs)" by (cases u) auto
next
  assume "c # s \<in> glob_lang gs \<or> s \<in> glob_lang (GStar # gs)"
  then show "c # s \<in> glob_lang (GStar # gs)"
  proof
    assume "s \<in> glob_lang (GStar # gs)"
    then obtain u v where "s = u @ v" "v \<in> glob_lang gs" by auto
    then have "c # s = (c # u) @ v" by simp
    with \<open>v \<in> glob_lang gs\<close> show ?thesis unfolding glob_lang.simps by blast
  qed (auto intro: exI [of _ "[]"])
qed

lemma glob_match_lang: "glob_match gs s \<longleftrightarrow> s \<in> glob_lang gs"
proof (induction gs s rule: glob_match.induct)
  case (3 gs c s)
  then show ?case by (simp only: glob_match.simps glob_star_Cons)
qed (auto simp: list_ex_iff)

section \<open>Accepted patches stay inside the surface\<close>

lemma first_reject_None: "first_reject rs = None \<longleftrightarrow> set rs \<subseteq> {None}"
  by (induction rs rule: first_reject.induct) auto

lemma reject_if_None [simp]: "reject_if b reason x = None \<longleftrightarrow> \<not> b"
  by (simp add: reject_if_def)

definition rejects :: "gate_result option \<Rightarrow> bool" where
  "rejects r = (case r of None \<Rightarrow> True | Some x \<Rightarrow> \<not> gr_ok x)"

lemma rejects_if: "rejects (reject_if b reason x)"
  by (simp add: rejects_def reject_if_def)

lemma rejects_first: "list_all rejects rs \<Longrightarrow> rejects (first_reject rs)"
  by (induction rs rule: first_reject.induct) (auto simp: rejects_def)

lemma checks_reject: "rejects (check_change rules ch)" "rejects (check_git_path rules p)" "rejects (line_too_long m l)"
proof -
  have e: "rejects (check_endpoint p)" "rejects (check_bounds rules a b p)" for p a b
    unfolding check_endpoint_def check_bounds_def by (rule rejects_first; simp add: rejects_if)+
  have n: "rejects None" by (simp add: rejects_def)
  show "rejects (check_git_path rules p)" unfolding check_git_path_def by (rule rejects_first) (simp add: e)
  show "rejects (line_too_long m l)" by (simp add: line_too_long_def rejects_if)
  show "rejects (check_change rules ch)"
    unfolding check_change_def
    by (rule rejects_first) (auto simp: e n rejects_if list_all_iff split: option.splits)
qed

lemma first_reject_rejects:
  assumes "first_reject (map f xs) = Some r" and "\<And>x. rejects (f x)"
  shows "\<not> gr_ok r"
  using rejects_first [of "map f xs"] assms by (simp add: rejects_def list_all_iff)

lemmas first_rejects =
  first_reject_rejects [where f = "check_change rules" for rules, OF _ checks_reject(1)]
  first_reject_rejects [where f = "check_git_path rules" for rules, OF _ checks_reject(2)]
  first_reject_rejects [where f = "line_too_long m" for m, OF _ checks_reject(3)]

text \<open>A path the campaign lets a patch touch.\<close>

definition in_surface :: "surface_rules \<Rightarrow> string \<Rightarrow> bool" where
  "in_surface rules p = (\<not> is_unsafe_path p \<and> \<not> submodule_path p \<and> \<not> match_globs p (sf_denied_paths rules) \<and>
     match_globs p (sf_allowed_paths rules))"

definition change_ok :: "surface_rules \<Rightarrow> diff_file_change \<Rightarrow> bool" where
  "change_ok rules ch = (\<not> df_is_binary ch \<and> \<not> df_is_symlink ch \<and> (df_path ch \<noteq> [] \<longrightarrow> in_surface rules (df_path ch)) \<and>
     (\<forall>p. moved_from ch = Some p \<longrightarrow> in_surface rules p \<and> (sf_reject_renames rules \<longrightarrow> df_is_copy ch)) \<and>
     (sf_reject_mode_changes rules \<longrightarrow> df_mode_change ch \<in> {None, Some []}))"

lemma check_change_ok: "check_change rules ch = None \<Longrightarrow> change_ok rules ch"
  by (auto simp: check_change_def first_reject_None change_ok_def in_surface_def check_endpoint_def check_bounds_def
      endpoints_def moved_from_def split: option.splits if_splits)

lemma check_git_path_ok: "check_git_path rules p = None \<Longrightarrow> in_surface rules p"
  by (simp add: check_git_path_def first_reject_None in_surface_def check_endpoint_def check_bounds_def)

lemma check_surface_passes:
  assumes "check_surface decode git rules patch = Inr r" and "gr_ok r"
  obtains body paths where "decode patch = Some body" "git_numstat_paths decode (git patch) = Inr paths" "paths \<noteq> []"
    "(''files'', JArr (map JStr paths)) \<in> set (gr_evidence r)" "list_all (in_surface rules) paths"
    "list_all (change_ok rules) (parse_diff_paths body)" "check_added_lines (sf_max_added_line_chars rules) body = Inr None"
    "\<not> (case sf_max_patch_bytes rules of None \<Rightarrow> False | Some m \<Rightarrow> int (length patch) > m)"
proof -
  obtain body where body: "decode patch = Some body"
    and size: "\<not> (case sf_max_patch_bytes rules of None \<Rightarrow> False | Some m \<Rightarrow> int (length patch) > m)"
    using assms by (auto simp: check_surface_def split: if_splits option.splits)
  have "\<not> (strip body = [] \<or> contains body ''.gitmodules'' \<or> contains body ''Subproject commit'' \<or> parse_diff_paths body = [])"
    using assms body size by (auto simp: check_surface_def Let_def split: if_splits)
  then have r: "(case first_reject (map (check_change rules) (parse_diff_paths body)) of Some r \<Rightarrow> Inr r
      | None \<Rightarrow> rbind (check_added_lines (sf_max_added_line_chars rules) body) (\<lambda>long. Inr (case long of Some r \<Rightarrow> r
          | None \<Rightarrow> check_git_paths rules (git_numstat_paths decode (git patch))))) = Inr r"
    using assms(1) body size by (simp add: check_surface_def)
  then have ch: "first_reject (map (check_change rules) (parse_diff_paths body)) = None"
    using first_rejects(1) assms(2) by (auto split: option.splits)
  obtain long where long: "check_added_lines (sf_max_added_line_chars rules) body = Inr long"
    and git: "(case long of Some r \<Rightarrow> r | None \<Rightarrow> check_git_paths rules (git_numstat_paths decode (git patch))) = r"
    using r ch by (auto simp: rbind_eq_Inr)
  have None: "long = None"
    using long git assms(2) first_rejects(3)
    by (auto simp: check_added_lines_def split: option.splits prod.splits)
  obtain paths where p: "git_numstat_paths decode (git patch) = Inr paths" "paths \<noteq> []"
      "first_reject (map (check_git_path rules) paths) = None" "(''files'', JArr (map JStr paths)) \<in> set (gr_evidence r)"
    using git assms(2) first_rejects(2) unfolding None
    by (auto simp: check_git_paths_def split: sum.splits if_splits option.splits prod.splits)
  have "list_all (in_surface rules) paths"
    using p(3) check_git_path_ok by (fastforce simp: first_reject_None list_all_iff image_subset_iff)
  moreover have "list_all (change_ok rules) (parse_diff_paths body)"
    using ch check_change_ok by (fastforce simp: first_reject_None list_all_iff image_subset_iff)
  ultimately show thesis using that body p size long unfolding None by blast
qed


section \<open>The added lines are the added lines\<close>

definition no_newline_note :: "string \<Rightarrow> bool" where
  "no_newline_note l = startswith l [CHR 0x5C]"

definition old_side :: "string \<Rightarrow> bool" where
  "old_side l = (\<not> no_newline_note l \<and> \<not> startswith l ''+'')"

definition new_side :: "string \<Rightarrow> bool" where
  "new_side l = (\<not> no_newline_note l \<and> \<not> startswith l ''-'')"

definition added_of :: "string list \<Rightarrow> string list" where
  "added_of ls = map (\<lambda>l. drop_cr (drop 1 l)) (filter (\<lambda>l. startswith l ''+'') ls)"

text \<open>A hunk whose header counts its lines.\<close>

definition hunk_ok :: "string \<Rightarrow> string list \<Rightarrow> bool" where
  "hunk_ok h ls = (case hunk_re h of None \<Rightarrow> False | Some (a, b) \<Rightarrow>
     hunk_count a = Inr (int (length (filter old_side ls))) \<and> hunk_count b = Inr (int (length (filter new_side ls))))"

lemma one_marker: "startswith l [a] \<Longrightarrow> startswith l [b] \<longleftrightarrow> a = b"
  by (cases l) (auto simp: startswith_def)

lemma note_no_hunk: "no_newline_note l \<Longrightarrow> hunk_re l = None"
proof -
  assume "no_newline_note l"
  then have "\<not> startswith l ''@@ -''" by (cases l) (auto simp: no_newline_note_def startswith_def)
  then show ?thesis by (simp add: hunk_re_def hunk_side_def rest_after_def)
qed

lemma added_hunk:
  assumes "m = int (length (filter old_side ls))" and "n = int (length (filter new_side ls))"
  shows "foldl added_step (m, n, out, None) ls = (0, 0, out @ added_of ls, None)"
  using assms
proof (induction ls arbitrary: m n out)
  case (Cons l ls)
  let ?m = "int (length (filter old_side ls))" and ?n = "int (length (filter new_side ls))"
  consider (mark) "no_newline_note l" | (add) "startswith l ''+''" | (del) "startswith l ''-''"
    | (ctx) "\<not> no_newline_note l" "\<not> startswith l ''+''" "\<not> startswith l ''-''" by blast
  then show ?case
  proof cases
    case mark
    then have "\<not> startswith l ''+''" by (auto simp: no_newline_note_def one_marker)
    moreover have "added_step (m, n, out, None) l = (m, n, out, None)"
      using mark note_no_hunk [OF mark] by (simp add: added_step_def hunk_line_left_def no_newline_note_def)
    moreover have "m = ?m" "n = ?n" using mark Cons.prems by (simp_all add: old_side_def [of l] new_side_def [of l])
    ultimately show ?thesis using Cons.IH by (simp add: added_of_def)
  next
    case add
    then have k: "\<not> no_newline_note l" "\<not> startswith l ''-''" by (simp_all add: no_newline_note_def one_marker)
    then have "added_step (m, n, out, None) l = (?m, ?n, out @ [drop_cr (drop 1 l)], None)"
      using add Cons.prems by (simp add: added_step_def hunk_line_left_def old_side_def [of l] new_side_def [of l] no_newline_note_def)
    with Cons.IH add show ?thesis by (simp add: added_of_def)
  next
    case del
    then have k: "\<not> no_newline_note l" "\<not> startswith l ''+''" by (simp_all add: no_newline_note_def one_marker)
    then have "added_step (m, n, out, None) l = (?m, ?n, out, None)"
      using del Cons.prems by (simp add: added_step_def hunk_line_left_def old_side_def [of l] new_side_def [of l] no_newline_note_def)
    with Cons.IH k show ?thesis by (simp add: added_of_def)
  next
    case ctx
    then have "added_step (m, n, out, None) l = (?m, ?n, out, None)"
      using Cons.prems by (simp add: added_step_def hunk_line_left_def old_side_def [of l] new_side_def [of l] no_newline_note_def)
    with Cons.IH ctx show ?thesis by (simp add: added_of_def)
  qed
qed (simp add: added_of_def)

lemma added_outside:
  assumes "list_all (\<lambda>l. hunk_re l = None) ls"
  shows "foldl added_step (0, 0, out, None) ls = (0, 0, out, None)"
  using assms by (induction ls) (auto simp: added_step_def)

lemma added_head:
  assumes "hunk_ok h ls"
  shows "foldl added_step (0, 0, out, None) (h # ls) = (0, 0, out @ added_of ls, None)"
  using assms added_hunk by (auto simp: hunk_ok_def added_step_def split: option.splits)

lemma added_hunks:
  assumes "list_all (\<lambda>(pre, h, ls). list_all (\<lambda>l. hunk_re l = None) pre \<and> hunk_ok h ls) hs"
  shows "foldl added_step (0, 0, out, None) (concat (map (\<lambda>(pre, h, ls). pre @ h # ls) hs)) =
    (0, 0, out @ concat (map (\<lambda>(pre, h, ls). added_of ls) hs), None)"
  using assms
proof (induction hs arbitrary: out)
  case (Cons x hs)
  obtain pre h ls where x: "x = (pre, h, ls)" by (cases x)
  have "concat (map (\<lambda>(pre, h, ls). pre @ h # ls) (x # hs)) = pre @ (h # ls) @ concat (map (\<lambda>(pre, h, ls). pre @ h # ls) hs)"
    by (simp add: x)
  moreover have "list_all (\<lambda>l. hunk_re l = None) pre" "hunk_ok h ls" using Cons.prems x by simp_all
  ultimately show ?case
    using Cons.IH [of "out @ added_of ls"] Cons.prems x
    by (simp only: foldl_append added_outside added_head) simp
qed simp

text \<open>
  C39. The limit on line length sees every added line and nothing else: in a diff whose hunk headers
  count their lines, the lines that are measured are exactly the lines marked \<open>+\<close> inside the hunks, in
  order and without marker and carriage return. A file header \<open>+++\<close> outside is not among them, a line
  inside that looks like a header is.
\<close>

theorem added_lines_exact:
  assumes "list_all (\<lambda>(pre, h, ls). list_all (\<lambda>l. hunk_re l = None) pre \<and> hunk_ok h ls) hs"
    and "list_all (\<lambda>l. hunk_re l = None) post"
    and "lines = concat (map (\<lambda>(pre, h, ls). pre @ h # ls) hs) @ post"
    and "lines \<noteq> []" and "list_all (\<lambda>l. CHR 0x0A \<notin> set l) lines"
  shows "added_lines (join_with (CHR 0x0A) lines) = (concat (map (\<lambda>(pre, h, ls). added_of ls) hs), None)"
proof -
  have "split_on (CHR 0x0A) (join_with (CHR 0x0A) lines) = lines"
    using assms(4,5) by (intro split_join) (auto simp: list_all_iff)
  then show ?thesis
    using added_hunks [OF assms(1), of "[]"] added_outside [OF assms(2)] unfolding assms(3) by (simp add: added_lines_def)
qed

theorem added_lines_exact_witness:
  "added_lines (join_with (CHR 0x0A) [''--- a/x'', ''+++ b/x'', ''@@ -1 +1,2 @@'', '' a'', ''+++ b'', ''end'']) = ([''++ b''], None)"
proof -
  have "added_lines (join_with (CHR 0x0A) [''--- a/x'', ''+++ b/x'', ''@@ -1 +1,2 @@'', '' a'', ''+++ b'', ''end'']) =
      (concat (map (\<lambda>(pre, h, ls). added_of ls) [([''--- a/x'', ''+++ b/x''], ''@@ -1 +1,2 @@'', ['' a'', ''+++ b''])]), None)"
    by (rule added_lines_exact [where post = "[''end'']"]) code_simp+
  moreover have "concat (map (\<lambda>(pre, h, ls). added_of ls) [([''--- a/x'', ''+++ b/x''], ''@@ -1 +1,2 @@'', ['' a'', ''+++ b''])]) = [''++ b'']"
    by code_simp
  ultimately show ?thesis by simp
qed

section \<open>A patch that passes\<close>

definition ex_rules :: surface_rules where
  "ex_rules = \<lparr>sf_allowed_paths = [''src/*.py''], sf_denied_paths = [''**/secret*''], sf_max_patch_bytes = Some 200,
     sf_max_added_line_chars = Some 9, sf_reject_renames = True, sf_reject_mode_changes = True\<rparr>"

definition ex_patch :: string where
  "ex_patch = join_with (CHR 0x0A) [''diff --git a/src/m.py b/src/m.py'', ''--- a/src/m.py'', ''+++ b/src/m.py'', ''@@ -1 +1,2 @@'', '' a'', ''+b = 1'']"

definition ex_git :: "string \<Rightarrow> git_run" where
  "ex_git p = GitExit 0 (''1'' @ [CHR 0x09] @ ''0'' @ [CHR 0x09] @ ''src/m.py'' @ [CHR 0x00]) []"

lemma ex_surface:
  "check_surface Some ex_git ex_rules ex_patch =
     Inr (gate_success ''surface_ok'' [(''files'', JArr [JStr ''src/m.py'']), (''file_count'', JInt 1)] [])"
  by code_simp


end
