(* ===== verification/Intake.thy ===== *)
theory Intake
  imports Store Locator Payment Fees Surface
begin

text \<open>
  \<open>chain/watcher.py\<close> with \<open>check_integrity\<close> of \<open>gate/integrity.py\<close>: from the commitments revealed on
  chain to rows of the database. The state is the in-memory set of known hash mismatches and the
  database. What the process reads from outside, that is the chain, the object store, the digest
  function, the configuration and the checks of the manifest's other fields in
  \<open>campaign/manifest.py\<close>, are the fields of \<open>intake_env\<close>.
\<close>

record intake_env =
  ie_s3 :: s3_config
  ie_host_ok :: "string \<Rightarrow> bool"
  ie_sha256 :: "string \<Rightarrow> string"
  ie_fetcher :: "string \<Rightarrow> string res"
  ie_fetch_block :: "(int \<Rightarrow> block_payment_view option) option"
  ie_fetch_commit_datetime :: "(int \<Rightarrow> ts option res) option"
  ie_competition_start :: "ts option"
  ie_fee_exempt :: "string list"
  ie_require_private :: bool
  ie_manifest :: "campaign_row \<Rightarrow> unit res"
  ie_str_exc :: "pyerr \<Rightarrow> string"

section \<open>Integrity of the fetched patch\<close>

definition patch_hash_mismatch :: string where
  "patch_hash_mismatch = ''patch_hash mismatch''"

text \<open>\<open>key.split('/')[-4]\<close>, the campaign segment of a private key.\<close>

definition key_campaign :: "string \<Rightarrow> string" where
  "key_campaign k = (let ps = split_on slash k in ps ! (length ps - 4))"

definition check_integrity :: "intake_env \<Rightarrow> string \<Rightarrow> string \<Rightarrow> string option \<Rightarrow> string option \<Rightarrow> gate_result" where
  "check_integrity env url expected hotkey campaign_id =
     (if \<not> is_allowed_retrieval_url (ie_host_ok env) (ie_s3 env) url 
      then gate_reject ''retrieval_url not allowlisted'' [(''retrieval_url'', JStr url)]
      else if hotkey \<noteq> None \<and> patch_url_hotkey (ie_host_ok env) url \<noteq> hotkey 
      then gate_reject ''retrieval_url hotkey mismatch'' [(''retrieval_url'', JStr url), (''hotkey'', opt_str hotkey),
        (''url_hotkey'', opt_str (patch_url_hotkey (ie_host_ok env) url))]
      else if (case (private_patch_key (ie_s3 env) url, campaign_id) of (Some k, Some cid) \<Rightarrow> key_campaign k \<noteq> cid | _ \<Rightarrow> False)
      then gate_reject ''retrieval_url campaign mismatch'' []
      else case ie_fetcher env url of Inl e \<Rightarrow> gate_reject ''fetch_failed'' [(''retrieval_url'', JStr url), (''error'', JStr (ie_str_exc env e))]
        | Inr data \<Rightarrow> let actual = hash_patch_bytes (ie_sha256 env) data; size = (''size'', JInt (int (length data))) in
            if actual \<noteq> lower expected
            then gate_reject patch_hash_mismatch [(''expected'', JStr (lower expected)), (''actual'', JStr actual), size]
            else gate_success ''fetched'' [(''patch_hash'', JStr actual), size] data)"

section \<open>Reading the campaign\<close>

record campaign_view =
  cv_status :: string
  cv_submission_fee_history :: "fee_entry list"
  cv_manifest :: campaign_row

definition get_campaign :: "intake_env \<Rightarrow> db \<Rightarrow> uuid \<Rightarrow> campaign_view option res" where
  "get_campaign env d cid = (case campaign_of d cid of None \<Rightarrow> Inr None
     | Some c \<Rightarrow> rbind (validate_fee_history (c_submission_fee_history c)) (\<lambda>es.
         rbind (ie_manifest env c) (\<lambda>_. Inr (Some \<lparr>cv_status = c_status c, cv_submission_fee_history = es, cv_manifest = c\<rparr>))))"

section \<open>The fee\<close>

definition check_fee_proof :: "intake_env \<Rightarrow> db \<Rightarrow> campaign_view \<Rightarrow> patch_commitment \<Rightarrow> payment_check res" where
  "check_fee_proof env d campaign com = (case (pc_payment_block com, pc_payment_tx com) of
     (Some pb, Some pt) \<Rightarrow>
       if pc_commit_block com < pb then Inr (reject ''payment_after_commitment'')
       else rbind (fee_at_block (history_json (cv_submission_fee_history campaign)) pb) (\<lambda>fee.
         if payment_ref_consumed d pb pt then Inr (reject ''payment_ref_already_used'')
         else case ie_fetch_block env of None \<Rightarrow> Inr (reject ''payment_no_chain_access'')
           | Some fetch_block \<Rightarrow> (case fetch_block pb of None \<Rightarrow> Inr (reject ''payment_block_unavailable'')
               | Some view \<Rightarrow> rbind (submission_fee_rao (fee_json fee)) (\<lambda>min_amount.
                   verify_payment (bv_extrinsics view) (bv_events view) pt (fee_recipient fee) min_amount
                     (pc_hotkey com) (pc_coldkey com))))
   | _ \<Rightarrow> Inr (reject ''payment_proof_missing''))"

definition required_payment :: "intake_env \<Rightarrow> db \<Rightarrow> campaign_view \<Rightarrow> patch_commitment \<Rightarrow> (int option \<times> int option) option res" where
  "required_payment env d campaign com = (if pc_hotkey com \<in> set (ie_fee_exempt env) then Inr (Some (None, None))
     else rbind (fee_at_block (history_json (cv_submission_fee_history campaign)) (pc_commit_block com)) (\<lambda>fee.
       rbind (submission_fee_rao (fee_json fee)) (\<lambda>amount.
       let needs_proof = (0 < amount \<or> pc_payment_block com \<noteq> None) in
       rbind (if needs_proof then check_fee_proof env d campaign com
         else Inr \<lparr>pay_ok = True, pay_reason = [], pay_amount_rao = 0\<rparr>) (\<lambda>check.
       Inr (if pay_ok check then Some (pc_payment_block com, pc_payment_tx com) else None)))))"

section \<open>One commitment\<close>

type_synonym failed_checks = "(string \<times> string \<times> string) set"

definition hash_check_key :: "patch_commitment \<Rightarrow> string \<times> string \<times> string" where
  "hash_check_key com = (pc_hotkey com, pc_patch_hash com, pc_retrieval_url com)"

definition competition_open :: "intake_env \<Rightarrow> patch_commitment \<Rightarrow> bool" where
  "competition_open env com = (case ie_competition_start env of None \<Rightarrow> True
     | Some start \<Rightarrow> (case ie_fetch_commit_datetime env of None \<Rightarrow> False
         | Some fetch \<Rightarrow> (case fetch (pc_commit_block com) of Inr (Some committed_at) \<Rightarrow> start \<le> committed_at | _ \<Rightarrow> False)))"

definition submission_of_commitment :: "intake_env \<Rightarrow> patch_commitment \<Rightarrow> int option \<times> int option \<Rightarrow> string \<Rightarrow> new_submission" where
  "submission_of_commitment env com pay data = \<lparr>ns_campaign_id = pc_campaign_id com, ns_patch_hash = pc_patch_hash com,
     ns_hotkey = pc_hotkey com, ns_baseline_commit = pc_baseline_commit com, ns_retrieval_url = pc_retrieval_url com,
     ns_commit_block = Some (pc_commit_block com), ns_payment_block = fst pay, ns_payment_tx = snd pay,
     ns_fingerprint = Some (patch_fingerprint_bytes (ie_sha256 env) data), ns_event_detail = None\<rparr>"

definition store_commitment ::
  "intake_env \<Rightarrow> ts \<Rightarrow> uuid \<Rightarrow> patch_commitment \<Rightarrow> int option \<times> int option \<Rightarrow> string \<Rightarrow> db \<Rightarrow> (uuid option \<times> db) res" where
  "store_commitment env now sid com pay data d = (case insert_submission now sid (submission_of_commitment env com pay data) d of
     Inl CampaignHotkeyDisqualified \<Rightarrow> Inr (None, d) | r \<Rightarrow> r)"

definition ingest_commitment ::
  "intake_env \<Rightarrow> ts \<Rightarrow> uuid \<Rightarrow> patch_commitment \<Rightarrow> failed_checks \<times> db \<Rightarrow> (uuid option \<times> failed_checks \<times> db) res" where
  "ingest_commitment env now sid com = (\<lambda>(failed, d). rbind (get_campaign env d (pc_campaign_id com)) (\<lambda>campaign_opt.
     case campaign_opt of None \<Rightarrow> Inr (None, failed, d) | Some campaign \<Rightarrow>
     if cv_status campaign \<noteq> ''open'' then Inr (None, failed, d)
     else if get_submission_for_campaign d (pc_campaign_id com) (pc_patch_hash com) \<noteq> None then Inr (None, failed, d)
     else if ie_require_private env \<and> private_patch_key (ie_s3 env) (pc_retrieval_url com) = None then Inr (None, failed, d)
     else if \<not> competition_open env com then Inr (None, failed, d)
     else if hash_check_key com \<in> failed then Inr (None, failed, d)
     else if \<not> is_allowed_retrieval_url (ie_host_ok env) (ie_s3 env) (pc_retrieval_url com) then Inr (None, failed, d)
     else if patch_url_hotkey (ie_host_ok env) (pc_retrieval_url com) \<noteq> Some (pc_hotkey com) then Inr (None, failed, d)
     else rbind (required_payment env d campaign com) (\<lambda>pay_opt. case pay_opt of None \<Rightarrow> Inr (None, failed, d) | Some pay \<Rightarrow>
       let integrity = check_integrity env (pc_retrieval_url com) (pc_patch_hash com) (Some (pc_hotkey com)) (Some (pc_campaign_id com)) in
       if \<not> gr_ok integrity
       then Inr (None, if gr_reason integrity = patch_hash_mismatch then insert (hash_check_key com) failed else failed, d)
       else rbind (store_commitment env now sid com pay (gr_patch_bytes integrity) d) (\<lambda>(r, d'). Inr (r, failed, d')))))"

section \<open>One scan of the chain\<close>

definition chain_order :: "patch_commitment list \<Rightarrow> patch_commitment list" where
  "chain_order coms = sort_key (\<lambda>c. (pc_commit_block c, pc_hotkey c)) coms"

text \<open>
  Each commitment is a transaction of its own: an exception ends the scan and keeps what the
  earlier ones wrote. \<open>new_id\<close> is the id the database draws for a commitment.
\<close>

fun ingest_all ::
  "intake_env \<Rightarrow> ts \<Rightarrow> (patch_commitment \<Rightarrow> uuid) \<Rightarrow> patch_commitment list \<Rightarrow> failed_checks \<times> db \<Rightarrow>
    uuid list res \<times> failed_checks \<times> db" where
  "ingest_all env now new_id [] s = (Inr [], s)"
| "ingest_all env now new_id (com # coms) s = (case ingest_commitment env now (new_id com) com s of
     Inl e \<Rightarrow> (Inl e, s)
   | Inr (r, s') \<Rightarrow> (case ingest_all env now new_id coms s' of (created, s'') \<Rightarrow>
       (rbind created (\<lambda>sids. Inr (case r of None \<Rightarrow> sids | Some sid \<Rightarrow> sid # sids)), s'')))"

definition scan_chain ::
  "intake_env \<Rightarrow> (string \<Rightarrow> json option res) \<Rightarrow> ts \<Rightarrow> (patch_commitment \<Rightarrow> uuid) \<Rightarrow> string list \<Rightarrow> string list \<Rightarrow>
    (string \<times> (int \<times> string) list) list \<Rightarrow> failed_checks \<times> db \<Rightarrow> (uuid list \<times> string list) res \<times> failed_checks \<times> db" where
  "scan_chain env loads now new_id hotkeys coldkeys revealed s =
     (case build_patch_commitments loads hotkeys coldkeys revealed of Inl e \<Rightarrow> (Inl e, s)
      | Inr coms \<Rightarrow> (case s of (failed, d) \<Rightarrow>
          (case ingest_all env now new_id (chain_order coms) (failed \<inter> hash_check_key ` set coms, d) of (created, s') \<Rightarrow>
            (rbind created (\<lambda>sids. Inr (sids, hotkeys)), s'))))"

text \<open>\<open>ingest_mock_commitment\<close>: the path of the test helper, which does not require a private upload.\<close>

definition ingest_mock_commitment ::
  "intake_env \<Rightarrow> ts \<Rightarrow> uuid \<Rightarrow> uuid \<Rightarrow> string \<Rightarrow> string \<Rightarrow> string \<Rightarrow> string \<Rightarrow> int \<Rightarrow> nat \<Rightarrow> failed_checks \<times> db \<Rightarrow>
    (uuid option \<times> failed_checks \<times> db) res" where
  "ingest_mock_commitment env now sid campaign_id hotkey baseline_commit patch_hash retrieval_url commit_block uid =
     ingest_commitment (env\<lparr>ie_require_private := False, ie_fetch_block := None, ie_fetch_commit_datetime := None\<rparr>) now sid
       \<lparr>pc_uid = uid, pc_hotkey = hotkey, pc_coldkey = [], pc_commit_block = commit_block, pc_campaign_id = campaign_id,
        pc_baseline_commit = lower baseline_commit, pc_patch_hash = lower patch_hash, pc_retrieval_url = retrieval_url,
        pc_raw = [], pc_payment_block = None, pc_payment_tx = None\<rparr>"

section \<open>What one ingest does\<close>

lemma insert_submission_rows:
  assumes "insert_submission now sid ns d = Inr (r, d')"
  shows "(submissions d' = submissions d \<and> r = None) \<or>
    (submissions d' = submissions d @ [new_row now sid ns] \<and> (r = None \<or> r = Some sid))"
proof (cases "already_known d ns")
  case True
  then show ?thesis using insert_submission_known [OF assms] by simp
next
  case False
  then show ?thesis using insert_submission_new [OF assms False] insert_job_frame
    by (auto simp: with_row_def split: option.splits)
qed

lemma store_commitment_cases:
  assumes "store_commitment env now sid com pay data d = Inr (r, d')"
  shows "(r = None \<and> d' = d) \<or> insert_submission now sid (submission_of_commitment env com pay data) d = Inr (r, d')"
  using assms by (auto simp: store_commitment_def split: sum.splits pyerr.splits)

definition accepted :: "intake_env \<Rightarrow> db \<Rightarrow> patch_commitment \<Rightarrow> int option \<times> int option \<Rightarrow> string \<Rightarrow> bool" where
  "accepted env d com pay data = (
     (\<exists>campaign. get_campaign env d (pc_campaign_id com) = Inr (Some campaign) \<and> cv_status campaign = ''open'' \<and>
        required_payment env d campaign com = Inr (Some pay)) \<and>
     get_submission_for_campaign d (pc_campaign_id com) (pc_patch_hash com) = None \<and>
     (ie_require_private env \<longrightarrow> private_patch_key (ie_s3 env) (pc_retrieval_url com) \<noteq> None) \<and>
     competition_open env com \<and>
     (let i = check_integrity env (pc_retrieval_url com) (pc_patch_hash com) (Some (pc_hotkey com)) (Some (pc_campaign_id com)) in
        gr_ok i \<and> gr_patch_bytes i = data))"

lemma check_integrity_ok:
  assumes "gr_ok (check_integrity env url h (Some hk) cid)"
  shows "patch_url_hotkey (ie_host_ok env) url = Some hk \<and>
    ie_fetcher env url = Inr (gr_patch_bytes (check_integrity env url h (Some hk) cid)) \<and>
    lower h = ''sha256:'' @ ie_sha256 env (gr_patch_bytes (check_integrity env url h (Some hk) cid)) \<and>
    (\<forall>k c. private_patch_key (ie_s3 env) url = Some k \<longrightarrow> cid = Some c \<longrightarrow> key_campaign k = c)"
  using assms by (auto simp: check_integrity_def Let_def hash_patch_bytes_def split: if_splits sum.splits option.splits)

lemma ingest_cases:
  assumes "ingest_commitment env now sid com (failed, d) = Inr (r, failed', d')"
  shows "(r = None \<and> d' = d) \<or>
    (\<exists>pay data. accepted env d com pay data \<and> insert_submission now sid (submission_of_commitment env com pay data) d = Inr (r, d'))"
proof -
  let ?i = "check_integrity env (pc_retrieval_url com) (pc_patch_hash com) (Some (pc_hotkey com)) (Some (pc_campaign_id com))"
  from assms obtain co where co: "get_campaign env d (pc_campaign_id com) = Inr co"
    by (auto simp: ingest_commitment_def rbind_eq_Inr)
  show ?thesis
  proof (cases "r = None \<and> d' = d")
    case False
    then obtain campaign where c: "co = Some campaign" using assms co by (cases co) (auto simp: ingest_commitment_def)
    have g: "cv_status campaign = ''open''" "get_submission_for_campaign d (pc_campaign_id com) (pc_patch_hash com) = None"
      "ie_require_private env \<longrightarrow> private_patch_key (ie_s3 env) (pc_retrieval_url com) \<noteq> None" "competition_open env com"
      and rest: "rbind (required_payment env d campaign com) (\<lambda>pay_opt. case pay_opt of None \<Rightarrow> Inr (None, failed, d) | Some pay \<Rightarrow>
         if \<not> gr_ok ?i then Inr (None, if gr_reason ?i = patch_hash_mismatch then insert (hash_check_key com) failed else failed, d)
         else rbind (store_commitment env now sid com pay (gr_patch_bytes ?i) d) (\<lambda>(r, d'). Inr (r, failed, d'))) = Inr (r, failed', d')"
      using assms False by (auto simp: ingest_commitment_def co c Let_def split: if_splits)
    obtain po where po: "required_payment env d campaign com = Inr po" using rest by (auto simp: rbind_eq_Inr)
    obtain pay where pay: "po = Some pay" using rest False unfolding po by (cases po) auto
    have i: "gr_ok ?i" using rest False unfolding po pay by (auto split: if_splits)
    then have "store_commitment env now sid com pay (gr_patch_bytes ?i) d = Inr (r, d')"
      using rest unfolding po pay by (auto simp: rbind_eq_Inr)
    from store_commitment_cases [OF this] False
    have "insert_submission now sid (submission_of_commitment env com pay (gr_patch_bytes ?i)) d = Inr (r, d')" by blast
    moreover have "accepted env d com pay (gr_patch_bytes ?i)"
      unfolding accepted_def Let_def using g co c po pay i by blast
    ultimately show ?thesis by blast
  qed simp
qed

lemma ingest_rows:
  assumes "ingest_commitment env now sid com (failed, d) = Inr (r, failed', d')"
  shows "prefix (submissions d) (submissions d')"
  using ingest_cases [OF assms] insert_submission_rows by fastforce

lemma ingest_stored:
  assumes "ingest_commitment env now sid com (failed, d) = Inr (Some x, failed', d')"
  obtains pay data where "accepted env d com pay data" "x = sid"
    "submissions d' = submissions d @ [new_row now sid (submission_of_commitment env com pay data)]"
proof -
  obtain pay data where a: "accepted env d com pay data"
    and i: "insert_submission now sid (submission_of_commitment env com pay data) d = Inr (Some x, d')"
    using ingest_cases [OF assms] by auto
  from insert_submission_rows [OF i] that [OF a] show ?thesis by auto
qed

section \<open>Every stored submission is paid for\<close>

lemma get_campaign_row:
  assumes "get_campaign env d cid = Inr (Some campaign)" and "campaign_of d cid = Some c"
  shows "validate_fee_history (c_submission_fee_history c) = Inr (cv_submission_fee_history campaign)"
  using assms by (auto simp: get_campaign_def rbind_eq_Inr)

lemma get_campaign_fee:
  assumes "get_campaign env d cid = Inr (Some campaign)" and "campaign_of d cid = Some c"
  shows "fee_at_block (history_json (cv_submission_fee_history campaign)) b = fee_at_block (c_submission_fee_history c) b"
  using fee_at_block_again [OF get_campaign_row [OF assms]] .

text \<open>The fee terms in force at a block, and the amount in RAO they ask for.\<close>

definition fee_due :: "campaign_row \<Rightarrow> int \<Rightarrow> string \<Rightarrow> int \<Rightarrow> bool" where
  "fee_due c b recipient amount = (case fee_at_block (c_submission_fee_history c) b of Inl _ \<Rightarrow> False
     | Inr fee \<Rightarrow> fee_recipient fee = recipient \<and> submission_fee_rao (fee_json fee) = Inr amount)"

text \<open>The commitment's payment, looked up on chain, covers the fee that was due at its block.\<close>

definition payment_covers :: "intake_env \<Rightarrow> campaign_row \<Rightarrow> patch_commitment \<Rightarrow> int \<Rightarrow> int \<Rightarrow> bool" where
  "payment_covers env c com pb pt = (pb \<le> pc_commit_block com \<and>
     (case ie_fetch_block env of None \<Rightarrow> False | Some fetch_block \<Rightarrow> (case fetch_block pb of None \<Rightarrow> False
       | Some view \<Rightarrow> \<exists>recipient amount. fee_due c pb recipient amount \<and>
           paid_transfer (bv_extrinsics view) (bv_events view) pt recipient amount (pc_hotkey com) (pc_coldkey com))))"

lemma check_fee_proof_ok:
  assumes "check_fee_proof env d campaign com = Inr chk" and "pay_ok chk"
    and "get_campaign env d cid = Inr (Some campaign)" and "campaign_of d cid = Some c"
  shows "\<exists>pb pt. pc_payment_block com = Some pb \<and> pc_payment_tx com = Some pt \<and> payment_covers env c com pb pt \<and>
    \<not> payment_ref_consumed d pb pt"
proof -
  have "\<exists>pb pt. pc_payment_block com = Some pb \<and> pc_payment_tx com = Some pt"
    using assms(1,2) by (auto simp: check_fee_proof_def reject_def split: option.splits)
  then obtain pb pt where p: "pc_payment_block com = Some pb" "pc_payment_tx com = Some pt" by blast
  have ord: "pb \<le> pc_commit_block com"
    using assms(1,2) p by (auto simp: check_fee_proof_def reject_def split: if_splits)
  obtain fee where fee: "fee_at_block (c_submission_fee_history c) pb = Inr fee"
    using assms(1) p ord by (auto simp: check_fee_proof_def get_campaign_fee [OF assms(3,4)] rbind_eq_Inr)
  have unused: "\<not> payment_ref_consumed d pb pt"
    using assms(1,2) p ord fee by (auto simp: check_fee_proof_def get_campaign_fee [OF assms(3,4)] reject_def split: if_splits)
  obtain fetch view where v: "ie_fetch_block env = Some fetch" "fetch pb = Some view"
    using assms(1,2) p ord fee unused
    by (auto simp: check_fee_proof_def get_campaign_fee [OF assms(3,4)] reject_def split: option.splits)
  obtain amount where amount: "submission_fee_rao (fee_json fee) = Inr amount"
    and chk: "verify_payment (bv_extrinsics view) (bv_events view) pt (fee_recipient fee) amount (pc_hotkey com) (pc_coldkey com) = Inr chk"
    using assms(1) p ord fee unused v
    by (auto simp: check_fee_proof_def get_campaign_fee [OF assms(3,4)] rbind_eq_Inr)
  have "payment_covers env c com pb pt"
    using verify_payment_paid [OF chk assms(2)] ord v fee amount by (auto simp: payment_covers_def fee_due_def)
  with p unused show ?thesis by blast
qed

lemma submission_fee_rao_nonneg: "submission_fee_rao v = Inr a \<Longrightarrow> 0 \<le> a"
proof -
  assume a: "submission_fee_rao v = Inr a"
  then obtain f where f: "validate_submission_fee v = Inr f" by (auto simp: submission_fee_rao_def rbind_eq_Inr)
  then obtain d where "v = JObj d" by (cases v) (auto simp: validate_submission_fee_def)
  with fee_terms_exact [of d f] f a show ?thesis by auto
qed

lemma required_payment_ok:
  assumes "required_payment env d campaign com = Inr (Some pay)" and "pc_hotkey com \<notin> set (ie_fee_exempt env)"
    and "get_campaign env d cid = Inr (Some campaign)" and "campaign_of d cid = Some c"
  shows "pay = (pc_payment_block com, pc_payment_tx com) \<and>
    ((pc_payment_block com = None \<and> (\<exists>recipient. fee_due c (pc_commit_block com) recipient 0)) \<or>
     (\<exists>pb pt. pay = (Some pb, Some pt) \<and> payment_covers env c com pb pt \<and> \<not> payment_ref_consumed d pb pt))"
proof -
  let ?checked = "\<lambda>amount. if 0 < amount \<or> pc_payment_block com \<noteq> None then check_fee_proof env d campaign com
         else Inr \<lparr>pay_ok = True, pay_reason = [], pay_amount_rao = 0\<rparr>"
  obtain fee amount where fee: "fee_at_block (c_submission_fee_history c) (pc_commit_block com) = Inr fee"
    "submission_fee_rao (fee_json fee) = Inr amount"
    and rest: "rbind (?checked amount) (\<lambda>check. Inr (if pay_ok check then Some (pc_payment_block com, pc_payment_tx com) else None)) =
      Inr (Some pay)"
    using assms(1,2) unfolding required_payment_def get_campaign_fee [OF assms(3,4)] Let_def
    by (auto simp: rbind_eq_Inr [of "fee_at_block _ _"] rbind_eq_Inr [of "submission_fee_rao _"])
  obtain check where check: "?checked amount = Inr check"
    and out: "(if pay_ok check then Some (pc_payment_block com, pc_payment_tx com) else None) = Some pay"
    using rest unfolding rbind_eq_Inr by blast
  have ok: "pay_ok check" and pay: "pay = (pc_payment_block com, pc_payment_tx com)" using out by (auto split: if_splits)
  show ?thesis
  proof (cases "0 < amount \<or> pc_payment_block com \<noteq> None")
    case True
    with check_fee_proof_ok [OF _ ok assms(3,4)] check pay show ?thesis by auto
  next
    case False
    then have "amount = 0" using submission_fee_rao_nonneg [OF fee(2)] by simp
    with False fee pay show ?thesis by (auto simp: fee_due_def)
  qed
qed

text \<open>
  C15. Nobody enters without paying: when the watcher stores a commitment of a hotkey that the
  operator has not exempted, then either no fee was due at the block of the commitment and it names no
  payment, or the payment it names is a transfer in a block no later than the commitment, of at
  least the fee in force at that block, to the recipient in force there, from the miner's own keys,
  that succeeded on chain, had not backed a submission before, and is marked as used by this one.
\<close>

theorem stored_submission_is_paid:
  assumes "ingest_commitment env now sid com (failed, d) = Inr (Some x, failed', d')"
    and "pc_hotkey com \<notin> set (ie_fee_exempt env)"
  shows "\<exists>c. campaign_of d (pc_campaign_id com) = Some c \<and>
    ((pc_payment_block com = None \<and> (\<exists>recipient. fee_due c (pc_commit_block com) recipient 0)) \<or>
     (\<exists>pb pt. pc_payment_block com = Some pb \<and> pc_payment_tx com = Some pt \<and> payment_covers env c com pb pt \<and>
        \<not> payment_ref_consumed d pb pt \<and> payment_ref_consumed d' pb pt))"
proof -
  obtain pay data where a: "accepted env d com pay data"
    and rows: "submissions d' = submissions d @ [new_row now sid (submission_of_commitment env com pay data)]"
    using ingest_stored [OF assms(1)] by metis
  obtain campaign where c: "get_campaign env d (pc_campaign_id com) = Inr (Some campaign)"
    and req: "required_payment env d campaign com = Inr (Some pay)"
    using a by (auto simp: accepted_def)
  obtain row where row: "campaign_of d (pc_campaign_id com) = Some row" using c by (auto simp: get_campaign_def split: option.splits)
  have "payment_ref_consumed d' pb pt" if "pay = (Some pb, Some pt)" for pb pt
    using that by (simp add: payment_ref_consumed_def rows new_row_def submission_of_commitment_def)
  with required_payment_ok [OF req assms(2) c row] row show ?thesis by auto
qed

section \<open>What is stored is what was committed\<close>

lemma split_on_append: "split_on c (xs @ c # ys) = split_on c xs @ split_on c ys"
proof (induction xs)
  case (Cons x xs)
  then show ?case by (cases "split_on c xs") auto
qed simp

lemma key_campaign_locator:
  assumes "list_all ascii_alnum hotkey"
  shows "key_campaign (locator_key cfg n hotkey m) = uuid_str n"
proof -
  let ?ps = "[uuid_str n, ''patches'', hotkey, uuid_str m @ ''.diff'']"
  have "split_on slash (join_with slash ?ps) = ?ps" using assms no_slash by (intro split_join) auto
  moreover have "\<exists>p. locator_key cfg n hotkey m = p @ slash # join_with slash ?ps"
    by (intro exI [of _ "strip_slash (s3_prefix cfg) @ ''/private/campaigns''"]) (simp add: locator_key_def private_prefix_def)
  ultimately have "\<exists>qs. split_on slash (locator_key cfg n hotkey m) = qs @ ?ps"
    by (auto simp: split_on_append simp del: join_with.simps)
  then show ?thesis by (auto simp: key_campaign_def nth_append)
qed


section \<open>First committed, first stored\<close>

lemma ingest_all_append:
  assumes "ingest_all env now new_id (xs @ ys) s = (Inr sids, t)"
  obtains sids1 sids2 s1 where "ingest_all env now new_id xs s = (Inr sids1, s1)" "ingest_all env now new_id ys s1 = (Inr sids2, t)"
  using assms
proof (induction xs arbitrary: s sids thesis)
  case (Cons x xs)
  obtain r s' where 1: "ingest_commitment env now (new_id x) x s = Inr (r, s')"
    using Cons.prems(2) by (auto split: sum.splits)
  obtain c u where rest: "ingest_all env now new_id (xs @ ys) s' = (c, u)" by (metis surj_pair)
  then obtain sids' where "c = Inr sids'" "u = t"
    using Cons.prems(2) 1 by (auto simp: rbind_eq_Inr)
  with Cons.IH [of s'] rest obtain sids1 sids2 s1 where "ingest_all env now new_id xs s' = (Inr sids1, s1)"
    "ingest_all env now new_id ys s1 = (Inr sids2, t)" by metis
  with 1 Cons.prems(1) [of _ s1 sids2] show ?case by (simp split: prod.splits)
qed simp

lemma ingest_all_Cons:
  assumes "ingest_all env now new_id (x # xs) s = (Inr sids, t)"
  obtains r s' sids' where "ingest_commitment env now (new_id x) x s = Inr (r, s')" "ingest_all env now new_id xs s' = (Inr sids', t)"
  using assms by (auto simp: rbind_eq_Inr split: sum.splits prod.splits)

lemma ingest_all_rows:
  assumes "ingest_all env now new_id xs s = (r, t)"
  shows "prefix (submissions (snd s)) (submissions (snd t))"
  using assms
proof (induction xs arbitrary: s r)
  case (Cons x xs)
  show ?case
  proof (cases "ingest_commitment env now (new_id x) x s")
    case (Inl e)
    with Cons.prems show ?thesis by auto
  next
    case (Inr p)
    obtain q f d where p: "p = (q, f, d)" by (cases p)
    obtain c u where rest: "ingest_all env now new_id xs (f, d) = (c, u)" by (metis surj_pair)
    have "u = t" using Cons.prems Inr p rest by simp
    with Cons.IH [of "(f, d)" c] rest ingest_rows [of env now "new_id x" x "fst s" "snd s" q f d] Inr p show ?thesis by auto
  qed
qed simp

lemma parse_v2_fields:
  assumes "parse_v2 raw = Inr (Some p)"
  obtains cid baseline hash url q where "canonical_fields cid baseline hash url = Inr q" "p_patch_hash p = p_patch_hash q"
proof -
  obtain v cid baseline hash url tail where sp: "split_on (CHR ''|'') raw = v # cid # baseline # hash # url # tail"
    using assms by (auto simp: parse_v2_def split: list.splits)
  have tail: "tail = [] \<or> (\<exists>b t. tail = [b, t])"
    using assms unfolding parse_v2_def sp
    by (cases tail rule: remdups_adj.cases) (auto simp: length_Suc_conv numeral_2_eq_2 split: if_splits)
  obtain q where q: "canonical_fields cid baseline hash url = Inr q"
    using assms unfolding parse_v2_def sp by (auto simp: rbind_eq_Inr split: if_splits)
  from tail have "p_patch_hash p = p_patch_hash q"
    using assms unfolding parse_v2_def sp
    by (elim disjE exE) (auto simp: q rbind_eq_Inr split: if_splits option.splits)
  with q that show ?thesis by blast
qed

lemma json_v1_fields:
  assumes "(case (a, b, h, u) of (JStr cid, JStr baseline, JStr hash, JStr url) \<Rightarrow> f cid baseline hash url | _ \<Rightarrow> Inr None) = Inr (Some p)"
  shows "\<exists>cid baseline hash url. f cid baseline hash url = Inr (Some p)"
  using assms by (cases a; simp; cases b; simp; cases h; simp; cases u; auto)

lemma parse_v1_fields:
  assumes "parse_v1 d = Inr (Some p)"
  shows "\<exists>cid baseline hash url. (if fields_ok cid baseline hash url
    then rbind (canonical_fields cid baseline hash url) (\<lambda>p. Inr (Some p)) else Inr None) = Inr (Some p)"
proof -
  have "is_one (jget d ''v'')" using assms by (cases "is_one (jget d ''v'')") (simp_all add: parse_v1_def)
  then have "(case (jget d ''campaign_id'', jget d ''baseline_commit'', jget d ''patch_hash'', jget d ''retrieval_url'') of
       (JStr cid, JStr baseline, JStr hash, JStr url) \<Rightarrow>
         if fields_ok cid baseline hash url
         then rbind (canonical_fields cid baseline hash url) (\<lambda>p. Inr (Some p)) else Inr None
     | _ \<Rightarrow> Inr None) = Inr (Some p)"
    using assms unfolding parse_v1_def by (simp only: not_True_eq_False if_False)
  from json_v1_fields [OF this] show ?thesis .
qed

lemma parsed_hash_canonical:
  assumes "parse_patch_commitment loads raw = Inr (Some p)"
  shows "lower (strip (p_patch_hash p)) = p_patch_hash p"
proof -
  have canon: "lower (strip (p_patch_hash q)) = p_patch_hash q" if "canonical_fields cid baseline hash url = Inr q" for cid baseline hash url q
    using that by (auto simp: canonical_fields_def rbind_eq_Inr strip_lower)
  show ?thesis
  proof (cases "startswith raw ''v2|''")
    case True
    then have "parse_v2 raw = Inr (Some p)" using assms by (simp add: parse_patch_commitment_def split: if_splits)
    then show ?thesis by (rule parse_v2_fields) (simp add: canon)
  next
    case False
    then obtain obj where obj: "loads raw = Inr obj" "(case obj of Some (JObj d) \<Rightarrow> parse_v1 d | _ \<Rightarrow> Inr None) = Inr (Some p)"
      using assms by (cases "raw = []") (auto simp: parse_patch_commitment_def rbind_eq_Inr)
    then obtain d where "parse_v1 d = Inr (Some p)"
      by (cases obj) (auto split: json.splits)
    then have "\<exists>cid baseline hash url. (if fields_ok cid baseline hash url
        then rbind (canonical_fields cid baseline hash url) (\<lambda>p. Inr (Some p)) else Inr None) = Inr (Some p)"
      by (rule parse_v1_fields)
    then obtain cid baseline hash url where "rbind (canonical_fields cid baseline hash url) (\<lambda>p. Inr (Some p)) = Inr (Some p)"
      by (metis option.distinct(1) sum.inject(2))
    then have "canonical_fields cid baseline hash url = Inr p" by (simp add: rbind_eq_Inr)
    then show ?thesis by (rule canon)
  qed
qed

lemma built_commitments:
  assumes "build_patch_commitments loads hotkeys coldkeys revealed = Inr coms" and "c \<in> set coms"
  shows "lower (strip (pc_patch_hash c)) = pc_patch_hash c"
proof -
  have "\<forall>c \<in> set coms. lower (strip (pc_patch_hash c)) = pc_patch_hash c"
    using assms(1) unfolding build_patch_commitments_def
  proof (rule rfold_invariant)
    fix x and t t' :: "patch_commitment list"
    assume ih: "\<forall>c \<in> set t. lower (strip (pc_patch_hash c)) = pc_patch_hash c"
      and step: "(case x of (uid, hotkey) \<Rightarrow> \<lambda>out. case latest_reveal revealed hotkey of None \<Rightarrow> Inr out
        | Some (block, raw) \<Rightarrow> rbind (parse_patch_commitment loads raw) (\<lambda>p. case p of None \<Rightarrow> Inr out
            | Some p \<Rightarrow> Inr (out @ [commitment_of coldkeys uid hotkey block raw p]))) t = Inr t'"
    then show "\<forall>c \<in> set t'. lower (strip (pc_patch_hash c)) = pc_patch_hash c"
      using parsed_hash_canonical
      by (auto simp: rbind_eq_Inr commitment_of_def split: prod.splits option.splits)
  qed simp
  with assms(2) show ?thesis by blast
qed

lemma in_chain_order: "set (chain_order coms) = set coms"
  by (simp add: chain_order_def)

lemma earlier_comes_first:
  assumes "chain_order coms = pre @ c2 # post" and "c1 \<in> set coms" and "pc_commit_block c1 < pc_commit_block c2"
  shows "c1 \<in> set pre"
proof -
  have "sorted (map (\<lambda>c. (pc_commit_block c, pc_hotkey c)) (pre @ c2 # post))"
    unfolding assms(1) [symmetric] chain_order_def by simp
  then have "\<forall>c \<in> set post. pc_commit_block c2 \<le> pc_commit_block c" by (auto simp: sorted_append less_eq_prod_simp)
  moreover have "c1 \<in> set (pre @ c2 # post)" using assms(1,2) in_chain_order by metis
  ultimately show ?thesis using assms(3) by auto
qed


section \<open>A concrete scan\<close>

definition ex_s3 :: s3_config where
  "ex_s3 = \<lparr>s3_endpoint_url = [], s3_bucket = ''b'', s3_region = ''r'', s3_prefix = ''p'', s3_public_base_url = []\<rparr>"

definition ex_view :: block_payment_view where
  "ex_view = \<lparr>bv_extrinsics = [JNull, ex_extrinsic], bv_events = [ex_success]\<rparr>"

definition ex_watcher :: intake_env where
  "ex_watcher = \<lparr>ie_s3 = ex_s3, ie_host_ok = (\<lambda>_. False), ie_sha256 = (\<lambda>_. replicate 64 (CHR ''b'')), ie_fetcher = (\<lambda>_. Inr ''patch''),
     ie_fetch_block = Some (\<lambda>_. Some ex_view), ie_fetch_commit_datetime = None, ie_competition_start = None,
     ie_fee_exempt = [], ie_require_private = True, ie_manifest = (\<lambda>_. Inr ()), ie_str_exc = (\<lambda>_. [])\<rparr>"

definition ex_url :: "string \<Rightarrow> string" where
  "ex_url hotkey = s3_retrieval_url ex_s3 (locator_key ex_s3 171 hotkey 5)"

definition ex_com :: "string \<Rightarrow> string \<Rightarrow> nat \<Rightarrow> int \<Rightarrow> int \<Rightarrow> patch_commitment" where
  "ex_com hotkey coldkey uid block tx = commitment_of [''cold'', ''cold1''] uid hotkey block (wire 171 ex_sha ex_hash (ex_url hotkey) 3 tx)
     \<lparr>p_campaign_id = uuid_str 171, p_baseline_commit = lower (strip ex_sha), p_patch_hash = lower (strip ex_hash),
      p_retrieval_url = ex_url hotkey, p_payment = Some (3, tx)\<rparr>"

definition ex_intake_db :: db where
  "ex_intake_db = empty_db\<lparr>campaigns := [ex_c\<lparr>c_id := uuid_str 171\<rparr>]\<rparr>"

definition ex_terms :: fee_terms where
  "ex_terms = \<lparr>fee_amount_tao = ''0.5'', fee_recipient = ''vault''\<rparr>"

definition ex_cview :: campaign_view where
  "ex_cview = \<lparr>cv_status = ''open'', cv_submission_fee_history = [\<lparr>fe_fee = ex_terms, fe_effective_from_block = 0\<rparr>],
     cv_manifest = ex_c\<lparr>c_id := uuid_str 171\<rparr>\<rparr>"

lemma ex_hash_canonical: "lower (strip ex_hash) = ex_hash" "lower ex_hash = ex_hash"
  using hash_field [of ex_hash] by (simp_all add: patch_hash_re_def ex_hash_def startswith_def list_all_iff is_hex_lower_def ccode_def)

lemma ex_terms_valid: "validate_submission_fee (fee_json ex_terms) = Inr ex_terms"
  using fee_terms_exact [OF ex_fee_valid] unfolding ex_terms_def by blast

lemma ex_terms_rao: "submission_fee_rao (fee_json ex_terms) = Inr 500000000"
proof -
  have "dec_mantissa ''0.5'' = Some (5, 1)" "list_all (\<lambda>c. is_ascii_digit c \<or> c = CHR ''.'') ''0.5''" "is_ascii_digit (hd ''0.5'')"
    by code_simp+
  then have "dec_of_str ''0.5'' = Some \<lparr>dc_neg = False, dc_coeff = 5, dc_exp = -1\<rparr>"
    using dec_of_plain [of "''0.5''" 5 1] by simp
  then have "tao_to_rao ''0.5'' = Inr (int 500000000)"
    by (rule tao_to_rao_exact) (simp_all add: is_rao_def max_rao_def)
  then show ?thesis using ex_terms_valid by (simp add: submission_fee_rao_def ex_terms_def)
qed

lemma ex_history_valid: "validate_fee_history (c_submission_fee_history ex_c) = Inr (cv_submission_fee_history ex_cview)"
  using ex_terms_valid
  by (simp add: validate_fee_history_def validate_entry_def ex_c_def keys_def history_keys_def jget_def fee_keys_def
      fee_json_def ex_cview_def ex_terms_def insert_commute)

lemma ex_get_campaign: "get_campaign ex_watcher ex_intake_db (uuid_str 171) = Inr (Some ex_cview)"
  using ex_history_valid
  by (simp add: get_campaign_def ex_intake_db_def campaign_of_def ex_watcher_def ex_cview_def) (simp add: ex_c_def)

lemma ex_fee_at: "0 \<le> b \<Longrightarrow> fee_at_block (history_json (cv_submission_fee_history ex_cview)) b = Inr ex_terms"
  using validate_fee_history_again [OF ex_history_valid] by (simp add: fee_at_block_def ex_cview_def)

lemma ex_locator:
  assumes "hotkey \<in> {''hot'', ''hot1''}"
  shows "private_patch_key ex_s3 (ex_url hotkey) = Some (locator_key ex_s3 171 hotkey 5)"
    and "patch_url_hotkey (\<lambda>_. False) (ex_url hotkey) = Some hotkey" and "list_all ascii_alnum hotkey"
proof -
  have alnum: "list_all ascii_alnum ''hot''" "list_all ascii_alnum ''hot1''" by code_simp+
  then show "list_all ascii_alnum hotkey" using assms by auto
  then show "private_patch_key ex_s3 (ex_url hotkey) = Some (locator_key ex_s3 171 hotkey 5)"
    unfolding private_patch_key_iff ex_url_def using assms object_key_is_locator [of 5 ex_s3 171 hotkey]
    by (intro exI [of _ 171] exI [of _ hotkey] exI [of _ 5]) auto
  have "patch_url_hotkey (\<lambda>_. False) (ex_url ''hot'') = Some ''hot''" "patch_url_hotkey (\<lambda>_. False) (ex_url ''hot1'') = Some ''hot1''"
    by code_simp+
  then show "patch_url_hotkey (\<lambda>_. False) (ex_url hotkey) = Some hotkey" using assms by auto
qed

lemma ex_com_fields [simp]:
  "pc_hotkey (ex_com hk ck uid b tx) = hk" "pc_commit_block (ex_com hk ck uid b tx) = b"
  "pc_campaign_id (ex_com hk ck uid b tx) = uuid_str 171" "pc_patch_hash (ex_com hk ck uid b tx) = ex_hash"
  "pc_retrieval_url (ex_com hk ck uid b tx) = ex_url hk" "pc_payment_block (ex_com hk ck uid b tx) = Some 3"
  "pc_payment_tx (ex_com hk ck uid b tx) = Some tx"
  "pc_coldkey (ex_com hk ck uid b tx) = (if uid < 2 then [''cold'', ''cold1''] ! uid else [])"
  by (simp_all add: ex_com_def commitment_of_def ex_hash_canonical)

lemma ex_watcher_fields [simp]:
  "ie_s3 ex_watcher = ex_s3" "ie_host_ok ex_watcher = (\<lambda>_. False)" "ie_fee_exempt ex_watcher = []" "ie_require_private ex_watcher"
  "ie_competition_start ex_watcher = None" "ie_fetch_block ex_watcher = Some (\<lambda>_. Some ex_view)"
  "ie_fetcher ex_watcher = (\<lambda>_. Inr ''patch'')" "ie_sha256 ex_watcher = (\<lambda>_. replicate 64 (CHR ''b''))"
  by (simp_all add: ex_watcher_def)

lemma ex_no_submissions: "submissions ex_intake_db = []"
  by (simp add: ex_intake_db_def empty_db_def)

lemma ex_proof:
  assumes "hotkey \<in> {''hot'', ''hot1''}" and "3 \<le> b"
  shows "required_payment ex_watcher ex_intake_db ex_cview (ex_com hotkey ck uid b tx) =
    rbind (verify_payment [JNull, ex_extrinsic] [ex_success] tx ''vault'' 500000000 hotkey
      (if uid < 2 then [''cold'', ''cold1''] ! uid else [])) (\<lambda>check. Inr (if pay_ok check then Some (Some 3, Some tx) else None))"
proof -
  have "\<not> payment_ref_consumed ex_intake_db 3 tx" by (simp add: payment_ref_consumed_def ex_no_submissions)
  then show ?thesis
    using assms(2) ex_fee_at ex_terms_rao
    by (simp add: required_payment_def check_fee_proof_def ex_view_def ex_terms_def [THEN arg_cong [of _ _ fee_recipient]] cong: if_cong)
qed

lemma ex_integrity:
  assumes "hotkey \<in> {''hot'', ''hot1''}"
  shows "check_integrity ex_watcher (ex_url hotkey) ex_hash (Some hotkey) (Some (uuid_str 171)) =
    gate_success ''fetched'' [(''patch_hash'', JStr ex_hash), (''size'', JInt 5)] ''patch''"
proof -
  have "hash_patch_bytes (\<lambda>_. replicate 64 (CHR ''b'')) x = ex_hash" for x by (simp add: hash_patch_bytes_def ex_hash_def)
  then show ?thesis using ex_locator [OF assms] key_campaign_locator [of hotkey ex_s3 171 5]
    by (simp add: check_integrity_def is_allowed_retrieval_url_def ex_hash_canonical)
qed

lemma ex_ingest_unfold:
  assumes "hotkey \<in> {''hot'', ''hot1''}"
  shows "ingest_commitment ex_watcher now sid (ex_com hotkey ck uid b tx) ({}, ex_intake_db) =
    rbind (required_payment ex_watcher ex_intake_db ex_cview (ex_com hotkey ck uid b tx)) (\<lambda>pay_opt. case pay_opt of
      None \<Rightarrow> Inr (None, {}, ex_intake_db)
    | Some pay \<Rightarrow> rbind (store_commitment ex_watcher now sid (ex_com hotkey ck uid b tx) pay ''patch'' ex_intake_db) (\<lambda>(r, d'). Inr (r, {}, d')))"
  using ex_locator [OF assms] ex_integrity [OF assms] ex_get_campaign
  by (simp add: ingest_commitment_def ex_cview_def get_submission_for_campaign_def ex_no_submissions competition_open_def
      is_allowed_retrieval_url_def cong: option.case_cong)

lemma ex_first_refused:
  "ingest_commitment ex_watcher now sid (ex_com ''hot1'' ck 1 7 2) ({}, ex_intake_db) = Inr (None, {}, ex_intake_db)"
  by (simp add: ex_ingest_unfold ex_proof verify_payment_def reject_def)

definition ex_stored_db :: db where
  "ex_stored_db = (case insert_submission 5 ''s1'' (submission_of_commitment ex_watcher (ex_com ''hot'' ''cold'' 0 9 1) (Some 3, Some 1) ''patch'') ex_intake_db of
     Inr (_, d) \<Rightarrow> d | Inl _ \<Rightarrow> empty_db)"

lemma ex_inserted:
  "insert_submission 5 ''s1'' (submission_of_commitment ex_watcher (ex_com ''hot'' ''cold'' 0 9 1) (Some 3, Some 1) ''patch'') ex_intake_db =
    Inr (Some ''s1'', ex_stored_db)"
proof -
  have "map_sum id fst (insert_submission 5 ''s1'' (submission_of_commitment ex_watcher (ex_com ''hot'' ''cold'' 0 9 1) (Some 3, Some 1) ''patch'')
    ex_intake_db) = Inr (Some ''s1'')" by code_simp
  then show ?thesis unfolding ex_stored_db_def by (auto split: sum.splits)
qed

lemma ex_second_stored:
  "ingest_commitment ex_watcher 5 ''s1'' (ex_com ''hot'' ''cold'' 0 9 1) ({}, ex_intake_db) = Inr (Some ''s1'', {}, ex_stored_db)"
  by (simp add: ex_ingest_unfold ex_proof ex_payment [simplified] store_commitment_def ex_inserted)

theorem stored_submission_is_paid_witness:
  "\<exists>c. campaign_of ex_intake_db (uuid_str 171) = Some c \<and> payment_covers ex_watcher c (ex_com ''hot'' ''cold'' 0 9 1) 3 1 \<and>
    payment_ref_consumed ex_stored_db 3 1"
  using stored_submission_is_paid [OF ex_second_stored] by auto


definition ex_revealed :: "(string \<times> (int \<times> string) list) list" where
  "ex_revealed = [(''hot'', [(9, wire 171 ex_sha ex_hash (ex_url ''hot'') 3 1)]),
     (''hot1'', [(7, wire 171 ex_sha ex_hash (ex_url ''hot1'') 3 2)])]"

lemma ex_wire_parses:
  assumes "hotkey \<in> {''hot'', ''hot1''}" and "tx \<in> {1, 2}"
  shows "parse_patch_commitment loads (wire 171 ex_sha ex_hash (ex_url hotkey) 3 tx) = Inr (Some \<lparr>p_campaign_id = uuid_str 171,
    p_baseline_commit = lower (strip ex_sha), p_patch_hash = lower (strip ex_hash), p_retrieval_url = ex_url hotkey, p_payment = Some (3, tx)\<rparr>)"
proof -
  have "git_sha_re ex_sha" "patch_hash_re ex_hash" by code_simp+
  moreover have "\<forall>hk \<in> set [''hot'', ''hot1'']. http_url (ex_url hk) \<and> strip (ex_url hk) = ex_url hk \<and> CHR ''|'' \<notin> set (ex_url hk)"
    by code_simp
  moreover have "\<forall>hk \<in> set [''hot'', ''hot1'']. \<forall>t \<in> set [1, 2]. utf8_size (wire 171 ex_sha ex_hash (ex_url hk) 3 t) \<le> max_plaintext_bytes"
    by code_simp
  ultimately show ?thesis using assms by (intro wire_parses) (auto simp: max_payment_ref_def)
qed

lemma ex_built:
  "build_patch_commitments (\<lambda>_. Inr None) [''hot'', ''hot1''] [''cold'', ''cold1''] ex_revealed =
    Inr [ex_com ''hot'' ''cold'' 0 9 1, ex_com ''hot1'' ''cold1'' 1 7 2]"
  by (simp add: build_patch_commitments_def latest_reveal_def ex_revealed_def best_def ex_wire_parses ex_com_def)

lemma ex_order:
  "chain_order [ex_com ''hot'' ''cold'' 0 9 1, ex_com ''hot1'' ''cold1'' 1 7 2] =
    [ex_com ''hot1'' ''cold1'' 1 7 2] @ ex_com ''hot'' ''cold'' 0 9 1 # []"
  by (simp add: chain_order_def sort_key_def less_eq_prod_simp)


end
