(* ===== verification/WeightsLoop.thy ===== *)
theory WeightsLoop
  imports Exclusion
begin

text \<open>
  \<open>weights/loop.py\<close>, the poll of \<open>weights/__main__.py\<close> and \<open>set_weights\<close> of \<open>chain/weights.py\<close>: when a
  vector is computed, stored, signed and submitted. The metagraph is a record of what is read from
  it; the chain's answer to the \<open>n\<close>-th submission of a cycle, an exception included, is the argument
  \<open>execute n\<close>. Every vector handed to the chain is recorded in the order of submission, so that the
  kill switch and the audit rows can be compared with what was really sent.
\<close>

record metagraph =
  mg_hotkeys :: "string list"
  mg_by_hotkey :: "string \<Rightarrow> (int \<times> bool) option" \<comment> \<open>the neuron's uid and validator permit\<close>

record weights_config =
  wc_netuid :: int
  wc_version_key :: int
  wc_burn_uid :: int
  wc_epsilon :: pyfloat
  wc_attempts :: nat
  wc_enabled :: bool
  wc_hotkey :: string

section \<open>When a cycle is due\<close>

definition cycle_due :: "int option \<Rightarrow> int \<Rightarrow> int \<Rightarrow> bool" where
  "cycle_due last_block head cadence = (case last_block of None \<Rightarrow> True | Some b \<Rightarrow> b + cadence \<le> head)"

definition new_round_due :: "uuid option \<Rightarrow> uuid option \<Rightarrow> bool" where
  "new_round_due last_round latest_round = (latest_round \<noteq> None \<and> latest_round \<noteq> last_round)"

section \<open>The metagraph\<close>

definition add_hotkey :: "metagraph \<Rightarrow> string \<Rightarrow> (string \<times> int) list \<Rightarrow> (string \<times> int) list res" where
  "add_hotkey meta hotkey mapping = (case mg_by_hotkey meta hotkey of
     None \<Rightarrow> Inl (WeightVectorError ''metagraph lists a hotkey that by_hotkey does not resolve'')
   | Some (uid, _) \<Rightarrow> if 0 \<le> uid \<and> uid < int (length (mg_hotkeys meta)) then Inr ((hotkey, uid) # mapping)
       else Inl (WeightVectorError ''uid is outside the metagraph''))"

definition hotkey_uids :: "metagraph \<Rightarrow> ((string \<times> int) list \<times> int) res" where
  "hotkey_uids meta = rbind (rfold (add_hotkey meta) (mg_hotkeys meta) []) (\<lambda>mapping.
     Inr (mapping, int (length (mg_hotkeys meta))))"

definition assert_validator_permit :: "metagraph \<Rightarrow> string \<Rightarrow> int res" where
  "assert_validator_permit meta hotkey = (case mg_by_hotkey meta hotkey of
     None \<Rightarrow> Inl (WeightSetError ''signing hotkey is not registered'')
   | Some (uid, permit) \<Rightarrow> if permit then Inr uid else Inl (WeightSetError ''signing hotkey holds no validator permit''))"

section \<open>Vacating deregistered leaders\<close>

text \<open>One transaction per crown: what was vacated before an exception stays vacated.\<close>

fun reconcile :: "ts \<Rightarrow> pyfloat \<Rightarrow> (string \<times> int) list \<Rightarrow> leader_row list \<Rightarrow> db \<Rightarrow> uuid list res \<times> db" where
  "reconcile now eps uids [] d = (Inr [], d)"
| "reconcile now eps uids (l # ls) d = (if map_of uids (l_hotkey l) \<noteq> None then reconcile now eps uids ls d
     else case vacate_leader_if_idle now (l_campaign_id l) eps d of
       Inl e \<Rightarrow> (Inl e, d)
     | Inr (b, d') \<Rightarrow> (case reconcile now eps uids ls d' of (vacated, d'') \<Rightarrow>
         (rbind vacated (\<lambda>cids. Inr (if b then l_campaign_id l # cids else cids)), d'')))"

definition reconcile_deregistrations :: "ts \<Rightarrow> pyfloat \<Rightarrow> (string \<times> int) list \<Rightarrow> db \<Rightarrow> uuid list res \<times> db" where
  "reconcile_deregistrations now eps uids d = reconcile now eps uids (list_idle_seated_leaders d) d"

section \<open>Submitting to the chain\<close>

text \<open>
  The retry loop: \<open>left\<close> attempts remain, \<open>n\<close> were made. The result carries the number of
  submissions. The pause between attempts is not modelled.
\<close>

fun try_execute :: "(nat \<Rightarrow> bool \<times> string) \<Rightarrow> nat \<Rightarrow> nat \<Rightarrow> string \<Rightarrow> unit res \<times> nat" where
  "try_execute execute 0 n reason = (Inl (WeightSetError reason), n)"
| "try_execute execute (Suc left) n reason = (case execute n of (ok, why) \<Rightarrow>
     if ok then (Inr (), n + 1)
     else try_execute execute left (n + 1) (if why \<noteq> [] then why else ''chain rejected the weight vector''))"

definition set_weights :: "weights_config \<Rightarrow> metagraph \<Rightarrow> (nat \<Rightarrow> bool \<times> string) \<Rightarrow> int list \<Rightarrow> pyfloat list \<Rightarrow> unit res \<times> pyfloat list list" where
  "set_weights cfg meta execute uids weights = (if length uids \<noteq> length weights
     then (Inl (WeightSetError ''uids and weights differ in length''), [])
     else case assert_validator_permit meta (wc_hotkey cfg) of Inl e \<Rightarrow> (Inl e, [])
       | Inr _ \<Rightarrow> (case try_execute execute (wc_attempts cfg) 0 [] of (r, n) \<Rightarrow> (r, replicate n weights)))"

section \<open>One cycle\<close>

definition same_vector :: "weights_config \<Rightarrow> weight_set_row option \<Rightarrow> pyfloat list \<Rightarrow> bool" where
  "same_vector cfg row vec = (case row of None \<Rightarrow> False
     | Some w \<Rightarrow> w_version_key w = wc_version_key cfg \<and> w_burn_uid w = wc_burn_uid cfg \<and>
         list_all2 feq (w_weights w) vec)"

text \<open>The outcome: the block, or \<open>None\<close> for an abort, or the exception; the database; the submissions.\<close>

type_synonym cycle_outcome = "int option res \<times> db \<times> pyfloat list list"

definition sign_vector :: "weights_config \<Rightarrow> metagraph \<Rightarrow> (nat \<Rightarrow> bool \<times> string) \<Rightarrow> int \<Rightarrow> int \<Rightarrow> pyfloat list \<Rightarrow> db \<Rightarrow> cycle_outcome" where
  "sign_vector cfg meta execute current_block row_id vec d =
     (case set_weights cfg meta execute (map int [0..<length vec]) vec of
        (Inl (WeightSetError why), sent) \<Rightarrow> (Inr (Some current_block), mark_weight_set_result row_id False (Some why) d, sent)
      | (Inl e, sent) \<Rightarrow> (Inl e, d, sent)
      | (Inr _, sent) \<Rightarrow> (Inr (Some current_block), mark_weight_set_result row_id True None d, sent))"

definition publish_vector ::
  "weights_config \<Rightarrow> ts \<Rightarrow> metagraph \<Rightarrow> (nat \<Rightarrow> bool \<times> string) \<Rightarrow> int \<Rightarrow> bool \<Rightarrow> pyfloat list \<Rightarrow> breakdown_row list \<Rightarrow> db \<Rightarrow> cycle_outcome" where
  "publish_vector cfg now meta execute current_block sign vec breakdown d = (let
     stored = (sign \<or> \<not> same_vector cfg (get_latest_weight_set d) vec);
     (row_id, d1) = (if stored then (case insert_weight_set now current_block (wc_version_key cfg) (wc_burn_uid cfg) vec breakdown d of
       (i, d') \<Rightarrow> (Some i, d')) else (None, d)) in
     if \<not> sign then (Inr (Some current_block), d1, [])
     else case row_id of None \<Rightarrow> (Inl (PyRuntimeError ''AssertionError''), d1, [])
       | Some i \<Rightarrow> if \<not> wc_enabled cfg then (Inr (Some current_block), d1, [])
           else sign_vector cfg meta execute current_block i vec d1)"

definition run_cycle ::
  "weights_config \<Rightarrow> ts \<Rightarrow> metagraph \<Rightarrow> (nat \<Rightarrow> bool \<times> string) \<Rightarrow> int \<Rightarrow> bool \<Rightarrow> db \<Rightarrow> cycle_outcome" where
  "run_cycle cfg now meta execute current_block sign d =
     (if sign \<and> wc_enabled cfg \<and> isl (assert_validator_permit meta (wc_hotkey cfg)) then (Inr None, d, [])
      else case hotkey_uids meta of Inl _ \<Rightarrow> (Inr None, d, [])
        | Inr (uids, uid_count) \<Rightarrow> (case reconcile_deregistrations now (wc_epsilon cfg) uids d of
            (Inl e, d1) \<Rightarrow> (Inl e, d1, [])
          | (Inr _, d1) \<Rightarrow> (case build_weight_vector (list_open_campaign_emissions d1) current_block uids uid_count (wc_burn_uid cfg) of
              Inl (WeightVectorError _) \<Rightarrow> (Inr None, d1, [])
            | Inl e \<Rightarrow> (Inl e, d1, [])
            | Inr (vec, breakdown) \<Rightarrow> publish_vector cfg now meta execute current_block sign vec breakdown d1)))"

section \<open>The process\<close>

record weights_process =
  wp_last_stored_round :: "uuid option"
  wp_last_chain_set_block :: "int option"
  wp_cadence :: int

definition tick ::
  "weights_config \<Rightarrow> ts \<Rightarrow> metagraph \<Rightarrow> (nat \<Rightarrow> bool \<times> string) \<Rightarrow> int \<Rightarrow> uuid option \<Rightarrow> bool \<Rightarrow> weights_process \<Rightarrow> db \<Rightarrow>
    bool res \<times> weights_process \<times> db \<times> pyfloat list list" where
  "tick cfg now meta execute head round_marker sign p d = (case run_cycle cfg now meta execute head sign d of
     (Inl e, d', sent) \<Rightarrow> (Inl e, p, d', sent)
   | (Inr completed, d', sent) \<Rightarrow> (Inr (completed \<noteq> None),
       p\<lparr>wp_last_chain_set_block := (if sign then Some head else wp_last_chain_set_block p), wp_last_stored_round := round_marker\<rparr>,
       d', sent))"

text \<open>
  \<open>_cycle\<close>: \<open>seen_head\<close> is the head read first; \<open>fetched\<close> is the metagraph with the head it was
  read at, \<open>None\<close> when the read raises. An exception is logged and the process goes on.
\<close>

definition poll ::
  "weights_config \<Rightarrow> ts \<Rightarrow> int \<Rightarrow> (metagraph \<times> int) option \<Rightarrow> (nat \<Rightarrow> bool \<times> string) \<Rightarrow> bool \<Rightarrow> weights_process \<Rightarrow> db \<Rightarrow>
    weights_process \<times> db \<times> pyfloat list list" where
  "poll cfg now seen_head fetched execute once p d = (let
     marker = get_latest_completed_round_marker d;
     chain_due = cycle_due (wp_last_chain_set_block p) seen_head (wp_cadence p);
     round_due = new_round_due (wp_last_stored_round p) marker in
     if \<not> once \<and> \<not> chain_due \<and> \<not> round_due then (p, d, [])
     else case fetched of None \<Rightarrow> (p, d, [])
       | Some (meta, head) \<Rightarrow> (case tick cfg now meta execute head marker (once \<or> chain_due) p d of (_, p', d', sent) \<Rightarrow> (p', d', sent)))"

section \<open>What reaches the chain\<close>

lemma try_execute_sent:
  assumes "try_execute execute left n reason = (r, m)"
  shows "n \<le> m \<and> m \<le> n + left \<and> (\<not> isl r) = (n < m \<and> fst (execute (m - 1)))"
  using assms
proof (induction left arbitrary: n reason)
  case (Suc left)
  obtain ok why where e: "execute n = (ok, why)" by fastforce
  show ?case
  proof (cases ok)
    case True
    with Suc.prems e show ?thesis by auto
  next
    case False
    have "n + 1 \<le> m \<and> m \<le> n + 1 + left \<and> (\<not> isl r) = (n + 1 < m \<and> fst (execute (m - 1)))"
      using Suc.prems e False by (intro Suc.IH) simp
    moreover have "m - 1 = n" if "\<not> n + 1 < m" "n + 1 \<le> m" using that by simp
    ultimately show ?thesis using e False by fastforce
  qed
qed auto

lemma set_weights_sent:
  assumes "set_weights cfg meta execute uids vec = (r, sent)" and "sent \<noteq> []"
  shows "set sent = {vec} \<and> length sent \<le> wc_attempts cfg \<and> (\<not> isl r) = fst (execute (length sent - 1))"
proof -
  obtain m where m: "try_execute execute (wc_attempts cfg) 0 [] = (r, m)" and sent: "sent = replicate m vec"
    using assms by (auto simp: set_weights_def split: if_splits sum.splits prod.splits)
  with try_execute_sent [OF m] assms(2) show ?thesis by (auto simp: set_replicate_conv_if)
qed

lemma set_weights_error:
  assumes "set_weights cfg meta execute uids vec = (Inl e, sent)"
  obtains why where "e = WeightSetError why"
proof -
  have "\<exists>why. e = WeightSetError why" if "try_execute execute left n reason = (Inl e, m)" for left n reason m
    using that by (induction execute left n reason rule: try_execute.induct) (auto split: prod.splits if_splits)
  moreover have "(\<exists>why. e = WeightSetError why) \<or> (\<exists>m. try_execute execute (wc_attempts cfg) 0 [] = (Inl e, m))"
    using assms by (auto simp: set_weights_def assert_validator_permit_def split: if_splits sum.splits prod.splits option.splits)
  ultimately show ?thesis using that by blast
qed

lemma sign_vector_result:
  assumes "sign_vector cfg meta execute cb i vec d = (r, d', sent)" and "sent \<noteq> []"
  shows "set sent = {vec} \<and> length sent \<le> wc_attempts cfg \<and>
    (\<exists>err. d' = mark_weight_set_result i (fst (execute (length sent - 1))) err d)"
proof -
  obtain q where q: "set_weights cfg meta execute (map int [0..<length vec]) vec = (q, sent)"
    using assms(1) by (auto simp: sign_vector_def split: prod.splits sum.splits pyerr.splits)
  note s = set_weights_sent [OF q assms(2)]
  show ?thesis
  proof (cases q)
    case (Inl e)
    then obtain why where "e = WeightSetError why" using set_weights_error q by metis
    with assms(1) q Inl s show ?thesis by (auto simp: sign_vector_def)
  next
    case (Inr u)
    with assms(1) q s show ?thesis by (auto simp: sign_vector_def)
  qed
qed

lemma mark_weight_set_recorded:
  assumes "w \<in> set (weight_sets d)" and "w_id w = i" and "w_set_ok w = None"
  shows "w\<lparr>w_set_ok := Some ok, w_set_error := err\<rparr> \<in> set (weight_sets (mark_weight_set_result i ok err d))"
  using assms by (force simp: mark_weight_set_result_def set_update_where)

lemma publish_vector_sent:
  assumes "publish_vector cfg now meta execute cb sign vec bd d = (r, d', sent)" and "sent \<noteq> []"
  shows "sign \<and> wc_enabled cfg \<and> set sent = {vec} \<and> length sent \<le> wc_attempts cfg \<and>
    (\<exists>w \<in> set (weight_sets d'). w_weights w = vec \<and> w_computed_at_block w = cb \<and> w_breakdown w = bd \<and>
       w_set_ok w = Some (fst (execute (length sent - 1))))"
proof -
  obtain i d1 where ins: "insert_weight_set now cb (wc_version_key cfg) (wc_burn_uid cfg) vec bd d = (i, d1)" by fastforce
  have g: "sign" "wc_enabled cfg" and sv: "sign_vector cfg meta execute cb i vec d1 = (r, d', sent)"
    using assms ins by (auto simp: publish_vector_def Let_def split: if_splits prod.splits option.splits)
  obtain w where w: "w \<in> set (weight_sets d1)" "w_id w = i" "w_set_ok w = None" "w_weights w = vec"
    "w_computed_at_block w = cb" "w_breakdown w = bd"
    using ins by (intro that [of "last (weight_sets d1)"]) (auto simp: insert_weight_set_def)
  obtain err where d': "d' = mark_weight_set_result i (fst (execute (length sent - 1))) err d1"
    and s: "set sent = {vec}" "length sent \<le> wc_attempts cfg"
    using sign_vector_result [OF sv assms(2)] by blast
  from mark_weight_set_recorded [OF w(1-3)] w(4-) s g show ?thesis unfolding d' by fastforce
qed

lemma build_weight_vector_checked: "build_weight_vector cs cb hu n burn = Inr (ws, bd) \<Longrightarrow> check_vector ws = Inr ()"
  by (auto simp: build_weight_vector_def rbind_eq_Inr Let_def split: if_splits prod.splits)

lemma run_cycle_publishes:
  assumes "run_cycle cfg now meta execute cb sign d = (r, d', sent)" and "sent \<noteq> []"
  obtains uids n cids d1 vec bd where "hotkey_uids meta = Inr (uids, n)"
    "reconcile_deregistrations now (wc_epsilon cfg) uids d = (Inr cids, d1)"
    "build_weight_vector (list_open_campaign_emissions d1) cb uids n (wc_burn_uid cfg) = Inr (vec, bd)"
    "publish_vector cfg now meta execute cb sign vec bd d1 = (r, d', sent)"
  using assms by (auto simp: run_cycle_def split: if_splits sum.splits prod.splits pyerr.splits)

text \<open>
  C18. Only recorded vectors reach the chain: if a cycle submits a vector, then the cycle was a
  signing cycle and the kill switch was off, all its submissions (at most the configured number of
  attempts) are of that one vector, the vector passed the structural checks (every weight between 0
  and 1, total 1), and the audit log has a row with exactly this vector and block, marked with the
  chain's answer to the last attempt.
\<close>

theorem submitted_vector_is_recorded:
  assumes "run_cycle cfg now meta execute cb sign d = (r, d', sent)" and "v \<in> set sent"
  shows "sign \<and> wc_enabled cfg \<and> set sent = {v} \<and> length sent \<le> wc_attempts cfg \<and> check_vector v = Inr () \<and>
    (\<exists>w \<in> set (weight_sets d'). w_weights w = v \<and> w_computed_at_block w = cb \<and>
       w_set_ok w = Some (fst (execute (length sent - 1))))"
proof -
  have ne: "sent \<noteq> []" using assms(2) by auto
  obtain uids n cids d1 vec bd where
    b: "build_weight_vector (list_open_campaign_emissions d1) cb uids n (wc_burn_uid cfg) = Inr (vec, bd)"
    and p: "publish_vector cfg now meta execute cb sign vec bd d1 = (r, d', sent)"
    using run_cycle_publishes [OF assms(1) ne] by metis
  have "v = vec" using publish_vector_sent [OF p ne] assms(2) by blast
  with publish_vector_sent [OF p ne] build_weight_vector_checked [OF b] show ?thesis by blast
qed

definition ex_meta :: metagraph where
  "ex_meta = \<lparr>mg_hotkeys = [''v'', ''hk''],
     mg_by_hotkey = (\<lambda>h. if h = ''v'' then Some (0, True) else if h = ''hk'' then Some (1, False) else None)\<rparr>"

definition ex_wcfg :: weights_config where
  "ex_wcfg = \<lparr>wc_netuid = 1, wc_version_key = 1, wc_burn_uid = 0, wc_epsilon = Fin 0, wc_attempts = 3, wc_enabled = True,
     wc_hotkey = ''v''\<rparr>"

definition ex_execute :: "nat \<Rightarrow> bool \<times> string" where
  "ex_execute n = (n = 1, ''busy'')"

lemma ex_uids: "hotkey_uids ex_meta = Inr ([(''hk'', 1), (''v'', 0)], 2)"
  by (simp add: hotkey_uids_def ex_meta_def add_hotkey_def)

lemma ex_emissions: "list_open_campaign_emissions ex_db0 = [\<lparr>ce_campaign_id = ''c1'', ce_status = ''open'', ce_emission_rule = None,
    ce_leader_hotkey = None, ce_seed_block = None\<rparr>]"
  by (simp add: list_open_campaign_emissions_def ex_db0_def ex_c_def empty_db_def leader_of_def)

lemma ex_burn_all: "build_weight_vector (list_open_campaign_emissions ex_db0) 10 [(''hk'', 1), (''v'', 0)] 2 0 = Inr ([Fin 1, Fin 0], [])"
  unfolding ex_emissions
  by (simp add: build_weight_vector_def pay_campaign_def fsum_def fvals_def to_finite_def fsub_def add_share_def
      check_vector_def isclose_abs_def feq_def Let_def numeral_2_eq_2)

lemma ex_publish:
  "snd (snd (publish_vector ex_wcfg 5 ex_meta ex_execute 10 True [Fin 1, Fin 0] [] d)) = [[Fin 1, Fin 0], [Fin 1, Fin 0]]"
proof -
  have "set_weights ex_wcfg ex_meta ex_execute (map int [0..<length [Fin 1, Fin 0]]) [Fin 1, Fin 0] =
      (Inr (), [[Fin 1, Fin 0], [Fin 1, Fin 0]])"
    by (simp add: set_weights_def ex_wcfg_def ex_meta_def assert_validator_permit_def ex_execute_def numeral_3_eq_3)
  then have "snd (snd (sign_vector ex_wcfg ex_meta ex_execute 10 i [Fin 1, Fin 0] d1)) = [[Fin 1, Fin 0], [Fin 1, Fin 0]]" for i d1
    by (simp add: sign_vector_def)
  then show ?thesis by (simp add: publish_vector_def insert_weight_set_def) (simp add: ex_wcfg_def)
qed

lemma ex_run:
  assumes "reconcile_deregistrations 5 (Fin 0) [(''hk'', 1), (''v'', 0)] d = (Inr cids, ex_db0)"
  shows "run_cycle ex_wcfg 5 ex_meta ex_execute 10 True d = publish_vector ex_wcfg 5 ex_meta ex_execute 10 True [Fin 1, Fin 0] [] ex_db0"
proof -
  have "wc_epsilon ex_wcfg = Fin 0" "wc_burn_uid ex_wcfg = 0" "\<not> isl (assert_validator_permit ex_meta (wc_hotkey ex_wcfg))"
    by (simp_all add: ex_wcfg_def assert_validator_permit_def ex_meta_def)
  then show ?thesis using assms ex_uids ex_burn_all by (simp add: run_cycle_def)
qed

lemma ex_cycle_sent: "snd (snd (run_cycle ex_wcfg 5 ex_meta ex_execute 10 True ex_db0)) = [[Fin 1, Fin 0], [Fin 1, Fin 0]]"
proof -
  have "reconcile_deregistrations 5 (Fin 0) [(''hk'', 1), (''v'', 0)] ex_db0 = (Inr [], ex_db0)"
    by (simp add: reconcile_deregistrations_def list_idle_seated_leaders_def ex_db0_def empty_db_def)
  from ex_run [OF this] ex_publish show ?thesis by simp
qed

theorem submitted_vector_is_recorded_witness:
  "\<exists>w \<in> set (weight_sets (fst (snd (run_cycle ex_wcfg 5 ex_meta ex_execute 10 True ex_db0)))).
     w_weights w = [Fin 1, Fin 0] \<and> w_computed_at_block w = 10 \<and> w_set_ok w = Some True"
proof -
  obtain r d' sent where c: "run_cycle ex_wcfg 5 ex_meta ex_execute 10 True ex_db0 = (r, d', sent)" by (metis surj_pair)
  with ex_cycle_sent have "sent = [[Fin 1, Fin 0], [Fin 1, Fin 0]]" by simp
  with submitted_vector_is_recorded [OF c, of "[Fin 1, Fin 0]"] c show ?thesis by (simp add: ex_execute_def)
qed

section \<open>Deregistered leaders\<close>

lemma insert_history_frame:
  assumes "insert_history h d = Inr d'"
  shows "rounds d' = rounds d" "campaigns d' = campaigns d" "leaders d' = leaders d"
  using assms by (auto simp: insert_history_def rbind_eq_Inr Let_def split: if_splits)

lemma vacate_effect:
  assumes "vacate_leader_if_idle now cid eps d = Inr (b, d')"
  shows "rounds d' = rounds d \<and> campaigns d' = campaigns d \<and> set (leaders d') \<subseteq> set (leaders d) \<and>
    (campaign_of d cid \<noteq> None \<and> \<not> has_live_round d cid \<longrightarrow> (\<forall>l \<in> set (leaders d'). l_campaign_id l \<noteq> cid))"
proof (cases "campaign_of d cid = None \<or> leader_of d cid = None \<or> has_live_round d cid")
  case True
  then have "d' = d" using assms by (auto simp: vacate_leader_if_idle_def split: if_splits option.splits)
  moreover have "\<forall>l \<in> set (leaders d). l_campaign_id l \<noteq> cid" if "leader_of d cid = None"
    using that by (simp add: leader_of_def find_None_iff)
  ultimately show ?thesis using True by auto
next
  case False
  then obtain l where "insert_history (vacated_row now cid l eps) (delete_leader cid d) = Inr d'"
    using assms by (auto simp: vacate_leader_if_idle_def rbind_eq_Inr split: if_splits option.splits)
  from insert_history_frame [OF this] show ?thesis by (auto simp: delete_leader_def)
qed

lemma reconcile_vacates:
  assumes "reconcile now eps uids ls d = (Inr cids, d')"
  shows "rounds d' = rounds d \<and> campaigns d' = campaigns d \<and> set (leaders d') \<subseteq> set (leaders d) \<and>
    (\<forall>l \<in> set ls. map_of uids (l_hotkey l) = None \<and> campaign_of d (l_campaign_id l) \<noteq> None \<and>
       \<not> has_live_round d (l_campaign_id l) \<longrightarrow> (\<forall>k \<in> set (leaders d'). l_campaign_id k \<noteq> l_campaign_id l))"
  using assms
proof (induction ls arbitrary: d cids)
  case (Cons l ls)
  show ?case
  proof (cases "map_of uids (l_hotkey l) = None")
    case False
    with Cons show ?thesis by auto
  next
    case True
    obtain b d1 where v: "vacate_leader_if_idle now (l_campaign_id l) eps d = Inr (b, d1)"
      using Cons.prems True by (auto split: sum.splits)
    obtain vs d2 where r: "reconcile now eps uids ls d1 = (vs, d2)" by (metis surj_pair)
    obtain cids' where "vs = Inr cids'" "d2 = d'" using Cons.prems True v r by (auto simp: rbind_eq_Inr)
    note IH = Cons.IH [OF r [unfolded this]] and e = vacate_effect [OF v]
    have same: "has_live_round d1 = has_live_round d" "campaign_of d1 = campaign_of d"
      using e by (auto simp: has_live_round_def campaign_of_def fun_eq_iff)
    with IH e show ?thesis by auto
  qed
qed simp


definition ex_gone :: leader_row where
  "ex_gone = \<lparr>l_campaign_id = ''c1'', l_submission_id = ''s1'', l_image_ref = ''i'', l_hotkey = ''gone'', l_won_at_round_id = ''r1'',
     l_won_at_ordinal = 1, l_last_score = Fin 1, l_last_scored_round_id = None, l_updated_at = 10\<rparr>"

definition ex_gone_db :: db where
  "ex_gone_db = ex_round_db\<lparr>leaders := [ex_gone]\<rparr>"

lemma ex_gone_db_ok: "db_ok ex_gone_db"
  using ex_round_db_ok(1) unfolding ex_gone_db_def
  by (intro db_ok_leaders)
    (simp_all add: leaders_ok_def ex_gone_def uniq_def campaign_ids_def submission_ids_def round_ids_def ex_round_db_def ex_db0_def
      ex_c_def ex_sub_def ex_round_def)

lemma ex_gone_vector: "build_weight_vector (list_open_campaign_emissions ex_gone_db) 10 [(''hk'', 1), (''v'', 0)] 2 0 = Inr ([Fin 1, Fin 0], [])"
proof -
  have "\<exists>hk seed. list_open_campaign_emissions ex_gone_db = [\<lparr>ce_campaign_id = ''c1'', ce_status = ''open'', ce_emission_rule = None,
      ce_leader_hotkey = hk, ce_seed_block = seed\<rparr>]"
    by (simp add: list_open_campaign_emissions_def ex_gone_db_def ex_round_db_def ex_db0_def ex_c_def Let_def)
  then show ?thesis
    by (elim exE) (simp add: build_weight_vector_def pay_campaign_def fsum_def fvals_def to_finite_def fsub_def add_share_def
      check_vector_def isclose_abs_def feq_def Let_def numeral_2_eq_2)
qed

lemma ex_gone_cycle:
  "\<exists>d'. run_cycle ex_wcfg 5 ex_meta ex_execute 10 False ex_gone_db = (Inr (Some 10), d', []) \<and> leaders d' = [ex_gone] \<and> rounds d' = [ex_round]"
proof -
  have "list_idle_seated_leaders ex_gone_db = []"
    by (simp add: list_idle_seated_leaders_def ex_gone_db_def ex_round_db_def ex_gone_def has_live_round_def ex_round_def)
  then have r: "reconcile_deregistrations 5 (wc_epsilon ex_wcfg) [(''hk'', 1), (''v'', 0)] ex_gone_db = (Inr [], ex_gone_db)"
    by (simp add: reconcile_deregistrations_def)
  have "wc_burn_uid ex_wcfg = 0" by (simp add: ex_wcfg_def)
  then show ?thesis using r ex_uids ex_gone_vector
    by (auto simp: run_cycle_def publish_vector_def insert_weight_set_def ex_gone_db_def ex_round_db_def Let_def)
qed


end
