(* ===== verification/System.thy ===== *)
theory System
  imports Invariant Intake WeightsLoop
begin

text \<open>
  The composition: every writer as a step of a transition system on one shared database, with a
  clock that does not run backwards and the rounds the workers hold. Steps interleave freely, each
  being one transaction. The properties are read off the invariant for every reachable state.
\<close>

section \<open>The transition system\<close>

text \<open>
  Writers of the gates: intake and the gate worker of \<open>worker/pipeline.py\<close>, which appends states of
  its own phases and never \<open>round_assigned\<close>.
\<close>

inductive gate_write :: "ts \<Rightarrow> db \<Rightarrow> db \<Rightarrow> bool" for now where
  intake: "insert_submission now sid ns d = Inr (r, d') \<Longrightarrow> gate_write now d d'"
| claim_job: "gate_write now d (snd (claim_next_job now retry_us d))"
| report: "st \<noteq> RoundAssigned \<Longrightarrow> append_event now sid st ref x d = Inr d' \<Longrightarrow> gate_write now d d'"
| job_status: "gate_write now d (set_job_status now sid jst job_id err bmp d)"
| job_defer: "gate_write now d (snd (defer_job now i a msg d))"
| job_phase: "set_job_phase now i a ph pr d = Inr (b, d') \<Longrightarrow> gate_write now d d'"
| job_heartbeat: "gate_write now d (snd (touch_job_heartbeat now i a d))"
| image: "gate_write now d (set_engine_image sid img d)"
| gates_done: "complete_gates_job now sid job_id enqueue d = Inr d' \<Longrightarrow> gate_write now d d'"

text \<open>
  Writers of the operator and of the weight setter. Campaign rows come from the seed tool; rows are
  added and edited, never deleted, and keep their ids.
\<close>

inductive operator_write :: "ts \<Rightarrow> db \<Rightarrow> db \<Rightarrow> bool" for now where
  campaign_rows: "key c_id cs \<Longrightarrow> campaign_ids d \<subseteq> c_id ` set cs \<Longrightarrow> operator_write now d (d\<lparr>campaigns := cs\<rparr>)"
| disqualify: "disqualify_campaign_hotkey now cid hk reason ref who eps d = Inr (r, d') \<Longrightarrow> operator_write now d d'"
| waive: "waive_campaign_hotkey now cid hk reason ref who d = Inr (r', d') \<Longrightarrow> operator_write now d d'"
| weights: "operator_write now d (snd (insert_weight_set now block version burn ws bd d))"
| weights_result: "operator_write now d (mark_weight_set_result i ok err d)"

text \<open>Writers of the round loop that hold no round: creation, reaping, the vacated crown, and signs of life.\<close>

inductive round_write :: "ts \<Rightarrow> db \<Rightarrow> db \<Rightarrow> bool" for now where
  create: "create_round now rid dedupe_by_digest sp d = Inr (r, d') \<Longrightarrow> round_write now d d'"
| reap: "reap_stale_rounds now stale_s d = Inr (rs, d') \<Longrightarrow> round_write now d d'"
| vacate: "vacate_leader_if_idle now cid eps d = Inr (b, d') \<Longrightarrow> round_write now d d'"
| heartbeat: "round_write now d (snd (touch_round_heartbeat now rid d))"
| phase: "set_round_phase now rid ph pr d = Inr (b, d') \<Longrightarrow> round_write now d d'"

record system =
  clock :: ts
  store :: db
  workers :: "job list"

text \<open>
  One transaction of one process, in any order. A worker that took a round reads its rows, relays
  what the pod reports, and ends by settling, voiding or deferring it, or dies at any moment.
\<close>

inductive step :: "system \<Rightarrow> system \<Rightarrow> bool" where
  tick: "now \<le> now' \<Longrightarrow> step \<lparr>clock = now, store = d, workers = js\<rparr> \<lparr>clock = now', store = d, workers = js\<rparr>"
| gates: "gate_write now d d' \<Longrightarrow> step \<lparr>clock = now, store = d, workers = js\<rparr> \<lparr>clock = now, store = d', workers = js\<rparr>"
| operator: "operator_write now d d' \<Longrightarrow> step \<lparr>clock = now, store = d, workers = js\<rparr> \<lparr>clock = now, store = d', workers = js\<rparr>"
| round_loop: "round_write now d d' \<Longrightarrow> step \<lparr>clock = now, store = d, workers = js\<rparr> \<lparr>clock = now, store = d', workers = js\<rparr>"
| claim: "claim_pending_round now d = (Some q, d') \<Longrightarrow> step \<lparr>clock = now, store = d, workers = js\<rparr>
    \<lparr>clock = now, store = d', workers = (q, list_round_entries d' (r_id q)) # js\<rparr>"
| beacon: "j \<in> set js \<Longrightarrow> read_pod_entry_statuses show b = Some sts \<Longrightarrow> step \<lparr>clock = now, store = d, workers = js\<rparr>
    \<lparr>clock = now, store = write_entry_statuses show (snd j) sts d, workers = js\<rparr>"
| finish: "j \<in> set js \<Longrightarrow> final_run run \<Longrightarrow> process_round env now (fst j) (snd j) run d = Inr (code, d') \<Longrightarrow>
    step \<lparr>clock = now, store = d, workers = js\<rparr> \<lparr>clock = now, store = d', workers = remove1 j js\<rparr>"
| crash: "step \<lparr>clock = now, store = d, workers = js\<rparr> \<lparr>clock = now, store = d, workers = remove1 j js\<rparr>"

definition initial :: "system \<Rightarrow> bool" where
  "initial s = ((\<exists>cs. key c_id cs \<and> store s = empty_db\<lparr>campaigns := cs\<rparr>) \<and> workers s = [])"

definition reachable :: "system \<Rightarrow> bool" where
  "reachable s = (\<exists>s0. initial s0 \<and> step\<^sup>*\<^sup>* s0 s)"

section \<open>Every step keeps the invariant\<close>

lemma gate_write_ok:
  assumes "gate_write now d d'" and "system_ok now d js"
  shows "system_ok now d' js"
proof -
  have "db_ok d" using assms(2) by (simp add: system_ok_def)
  with assms(1) have "calm now d d' \<and> db_ok d'"
    by cases (auto intro: insert_submission_calm insert_submission_db_ok job_writers_calm claim_next_job_db_ok
        append_event_calm append_event_db_ok set_job_status_db_ok defer_job_db_ok set_job_phase_db_ok
        touch_job_heartbeat_db_ok set_engine_image_calm set_engine_image_db_ok complete_gates_job_calm
        complete_gates_job_db_ok)
  then show ?thesis using calm_ok [OF assms(2)] by blast
qed

lemma campaigns_db_ok:
  assumes "db_ok d" and "key c_id cs" and "campaign_ids d \<subseteq> c_id ` set cs"
  shows "db_ok (d\<lparr>campaigns := cs\<rparr>)"
  using assms by (auto simp: db_ok_def table_ok_defs subset_iff)

lemma operator_write_ok:
  assumes "operator_write now d d'" and "system_ok now d js"
  shows "system_ok now d' js"
proof -
  have ok: "db_ok d" using assms(2) by (simp add: system_ok_def)
  show ?thesis
    using assms(1)
  proof cases
    case (campaign_rows cs)
    have "calm now d d'" unfolding campaign_rows(1) by (intro calm_simple) (auto intro: appends_same)
    then show ?thesis using calm_ok [OF assms(2)] campaigns_db_ok [OF ok campaign_rows(2,3)] campaign_rows(1) by simp
  next
    case disqualify
    with assms(2) show ?thesis by (blast intro: disqualify_ok)
  next
    case waive
    then show ?thesis using calm_ok [OF assms(2)] waive_calm waive_db_ok [OF ok] by blast
  next
    case weights
    then show ?thesis using calm_ok [OF assms(2)] weight_writers_calm(1) insert_weight_set_db_ok [OF ok] by blast
  next
    case weights_result
    then show ?thesis using calm_ok [OF assms(2)] weight_writers_calm(2) mark_weight_set_db_ok [OF ok] by blast
  qed
qed

lemma round_write_ok:
  assumes "round_write now d d'" and "system_ok now d js"
  shows "system_ok now d' js"
proof -
  have ok: "db_ok d" using assms(2) by (simp add: system_ok_def)
  have h: "system_ok now (snd (touch_round_heartbeat now rid d)) js" for rid
    using calm_ok [OF assms(2) round_writers_calm(2)] touch_round_heartbeat_db_ok [OF ok] by blast
  have p: "system_ok now d' js" if "set_round_phase now rid ph pr d = Inr (b, d')" for rid ph pr b
    using calm_ok [OF assms(2) round_writers_calm(3)] set_round_phase_db_ok [OF ok] that by blast
  from assms(1) show ?thesis
    by cases (use assms(2) h p in \<open>auto intro: create_ok reap_ok vacate_ok\<close>)
qed

lemma system_ok_later: "system_ok now d js \<Longrightarrow> now \<le> now' \<Longrightarrow> system_ok now' d js"
  by (auto simp: system_ok_def log_ok_def)

lemma system_ok_fewer: "system_ok now d js \<Longrightarrow> set js' \<subseteq> set js \<Longrightarrow> system_ok now d js'"
  by (auto simp: system_ok_def)

lemma step_ok:
  assumes "step s s'" and "system_ok (clock s) (store s) (workers s)"
  shows "system_ok (clock s') (store s') (workers s')"
  using assms(1)
proof cases
  case tick
  then show ?thesis using assms(2) by (auto intro: system_ok_later)
next
  case gates
  then show ?thesis using assms(2) gate_write_ok by fastforce
next
  case operator
  then show ?thesis using assms(2) operator_write_ok by fastforce
next
  case round_loop
  then show ?thesis using assms(2) round_write_ok by fastforce
next
  case claim
  then show ?thesis using assms(2) claim_ok by fastforce
next
  case beacon
  then show ?thesis using assms(2) beacon_ok by fastforce
next
  case (finish j js run env now d code d')
  then have "system_ok now d' js" using assms(2) process_ok by fastforce
  then have "system_ok now d' (remove1 j js)" using set_remove1_subset by (rule system_ok_fewer)
  then show ?thesis using finish by simp
next
  case (crash now d js j)
  then have "system_ok now d js" using assms(2) by simp
  then have "system_ok now d (remove1 j js)" using set_remove1_subset by (rule system_ok_fewer)
  then show ?thesis using crash by simp
qed

lemma initial_ok: "initial s \<Longrightarrow> system_ok (clock s) (store s) (workers s)"
  by (auto simp: initial_def system_ok_def empty_db_def db_ok_def table_ok_defs uniq_def log_ok_def system_ok_parts
      views_def marks_def wearer_def leader_of_def replay_def latest_state_def latest_event_def events_of_def)

text \<open>The rule the properties use, stated for any invariant and interpreted on the system's.\<close>

locale safe_system =
  fixes init :: "'s \<Rightarrow> bool" and trans :: "'s \<Rightarrow> 's \<Rightarrow> bool" and inv :: "'s \<Rightarrow> bool"
  assumes init_inv: "init s \<Longrightarrow> inv s" and trans_inv: "trans s s' \<Longrightarrow> inv s \<Longrightarrow> inv s'"
begin

lemma always:
  assumes "init s0" and "trans\<^sup>*\<^sup>* s0 s"
  shows "inv s"
  using assms(2) by (induction rule: rtranclp_induct) (auto intro: init_inv trans_inv assms(1))

end

interpretation validator: safe_system initial step "\<lambda>s. system_ok (clock s) (store s) (workers s)"
  by unfold_locales (auto intro: initial_ok step_ok)

lemma reachable_ok: "reachable s \<Longrightarrow> system_ok (clock s) (store s) (workers s)"
  unfolding reachable_def using validator.always by blast

section \<open>What holds in every reachable state\<close>

text \<open>
  C1. No submission is stranded: whatever the order in which intake, gates, operators, workers,
  pods, crashes and the reaper interleave, a submission whose state is \<open>round_assigned\<close> is a
  challenger without a score in a round that is pending or running, so the settlement, the void or
  the reaping of that round gives it its next state.
\<close>

theorem no_submission_stranded:
  assumes "reachable s" and "latest_state (store s) sid = Some RoundAssigned"
  shows "\<exists>r \<in> set (rounds (store s)). live (r_status r) \<and> sid \<in> set (unscored (store s) (r_id r))"
proof -
  let ?d = "store s"
  have ok: "db_ok ?d" "assigned_ok ?d" "unscored_ok ?d" using reachable_ok [OF assms(1)] by (simp_all add: system_ok_def)
  then obtain rid cid inc i img b where live: "(rid, cid, inc, True) \<in> set (views ?d)"
    and seat: "((i, rid, Some sid, Challenger, img), b) \<in> set (marks ?d)"
    using assms(2) unfolding assigned_ok_def seated_live_def by blast
  have "\<not> b" using ok(3) live seat unfolding unscored_ok_def by blast
  then have "sid \<in> set (unscored ?d rid)" using seat unscored_iff_mark [OF ok(1)] by auto
  moreover obtain r where "r \<in> set (rounds ?d)" "view_of r = (rid, cid, inc, True)" using live by (auto simp: views_def)
  ultimately show ?thesis by (auto simp: view_of_def)
qed

text \<open>
  C2. The crown table refines the crown history: replaying the append-only \<open>leader_history\<close> of a campaign
  (seated and overtaken install, vacated removes) gives at any moment exactly the submission the
  \<open>leaders\<close> table shows, over settlements, operator disqualifications with their replacements and
  vacated crowns of idle campaigns alike.
\<close>

theorem history_replays_crown:
  assumes "reachable s"
  shows "replay cid (leader_history (store s)) = map_option l_submission_id (leader_of (store s) cid)"
  using reachable_ok [OF assms] by (simp add: system_ok_def history_ok_def wearer_def)

text \<open>
  C3. A live round defends the crown that is in place: as long as a round is pending or running,
  its recorded incumbent and its leader entry are the submission that holds the campaign's crown,
  so no decision is ever made against a crown that has moved meanwhile.
\<close>

theorem live_round_defends_crown:
  assumes "reachable s" and "r \<in> set (rounds (store s))" and "live (r_status r)"
  shows "r_incumbent r = map_option l_submission_id (leader_of (store s) (r_campaign_id r)) \<and>
    (\<forall>n \<in> set (round_entries (store s)). n_round_id n = r_id r \<and> n_role n = Leader \<longrightarrow> n_submission_id n = r_incumbent r)"
proof -
  let ?d = "store s"
  have inc: "incumbents_ok ?d" using reachable_ok [OF assms(1)] by (simp add: system_ok_def)
  have live: "(r_id r, r_campaign_id r, r_incumbent r, True) \<in> set (views ?d)"
    using assms(2,3) by (force simp: views_def view_of_def)
  have "n_submission_id n = r_incumbent r"
    if n: "n \<in> set (round_entries ?d)" "n_round_id n = r_id r" "n_role n = Leader" for n
  proof -
    have "((n_id n, r_id r, n_submission_id n, Leader, n_image_ref n), n_status n = EScored) \<in> set (marks ?d)"
      using imageI [OF n(1), of entry_mark] n(2,3) by (simp add: marks_def entry_mark_def)
    with live inc show ?thesis unfolding incumbents_ok_def by blast
  qed
  moreover have "r_incumbent r = wearer ?d (r_campaign_id r)" using live inc unfolding incumbents_ok_def by blast
  ultimately show ?thesis by (simp add: wearer_def)
qed


section \<open>The logs only grow\<close>

definition extends :: "db \<Rightarrow> db \<Rightarrow> bool" where
  "extends d d' = (prefix (events d) (events d') \<and> prefix (leader_history d) (leader_history d'))"

lemma extends_refl [simp]: "extends d d"
  by (simp add: extends_def)

lemma extends_trans: "extends d d1 \<Longrightarrow> extends d1 d2 \<Longrightarrow> extends d d2"
  by (auto simp: extends_def)

lemma calm_extends: "calm now d d' \<Longrightarrow> extends d d'"
  by (auto simp: calm_def appends_def extends_def)

lemma insert_history_extends: "insert_history h d = Inr d' \<Longrightarrow> extends d d'"
  using insert_history_effect [of h d d'] by (simp add: extends_def)

lemma fill_round_extends:
  assumes "fill_round now rid ord sp ks ds d = Inr d'"
  shows "extends d d'"
  using assms by (rule fill_round_fills) (auto simp: fills_def extends_def)

lemma vacate_extends:
  assumes "vacate_leader_if_idle now cid eps d = Inr (b, d')"
  shows "extends d d'"
proof -
  have "extends d d1" if "insert_history h (delete_leader cid d) = Inr d1" for h d1
    using insert_history_extends [OF that] by (simp add: extends_def delete_leader_def)
  then show ?thesis using assms
    by (auto simp: vacate_leader_if_idle_def Let_def rbind_eq_Inr split: if_splits option.splits)
qed

lemma replace_leader_extends:
  assumes "replace_leader now cid hk eps l d = Inr (p, d')"
  shows "extends d d'"
proof -
  obtain d2 where h: "insert_history (vacated_row now cid l eps)
      (d\<lparr>leaders := filter (\<lambda>x. \<not> (l_campaign_id x = cid \<and> l_hotkey x = hk)) (leaders d)\<rparr>) = Inr d2"
    and p: "case p of None \<Rightarrow> d' = d2 | Some q \<Rightarrow> seat_replacement now cid eps q d2 = Inr d'"
    using replace_leader_cases [OF assms] by auto
  have "extends d d2" using insert_history_extends [OF h] by (simp add: extends_def)
  moreover have "extends d2 d'" if sr: "seat_replacement now cid eps (n, t) d2 = Inr d'" for n t
  proof -
    obtain h d3 where "insert_history h d3 = Inr d'" "events d3 = events d2" "leader_history d3 = leader_history d2"
      using sr by (fastforce simp: seat_replacement_def rbind_eq_Inr split: option.splits)
    with insert_history_extends [of h d3 d'] show ?thesis by (simp add: extends_def)
  qed
  ultimately show ?thesis using p by (auto intro: extends_trans split: option.splits)
qed

lemma disqualify_extends:
  assumes "disqualify_campaign_hotkey now cid hk reason ref who eps d = Inr (r, d')"
  shows "extends d d'"
  using assms
proof (rule disqualifyE)
  fix d2 p
  assume "apply_exclusion now cid (strip hk) (strip ref) (manual_detail action_disqualified (strip reason) (strip who)) d = Inr d2"
    and re: "reassign_crown now cid (strip hk) eps d2 = Inr (p, d')"
  then have "extends d d2" by (intro calm_extends [of now] apply_exclusion_calm)
  moreover have "extends d2 d'" using re replace_leader_extends
    by (auto simp: reassign_crown_def split: option.splits)
  ultimately show ?thesis by (rule extends_trans)
qed

lemma void_extends:
  assumes "system_ok now d js" and "void_round now rid reason detail d = Inr (b, d')"
  shows "extends d d'"
  using void_round_effect [of d now rid reason detail] assms by (auto simp: system_ok_def extends_def)

lemma reap_extends:
  assumes "system_ok now d js" and "reap_stale_rounds now stale_s d = Inr (rs, d')"
  shows "extends d d'"
  using reap_effect [of d now stale_s] assms by (auto simp: system_ok_def extends_def)

lemma settle_entry_extends:
  assumes "settle_entry now rid ord ev x d = Inr d'"
  shows "extends d d'"
proof -
  have "extends e (fold (\<lambda>st. add_event now sid st None det) sts e)" for sid det sts e
  proof (induction sts arbitrary: e)
    case (Cons st sts)
    have "extends e (add_event now sid st None det e)" by (simp add: extends_def)
    with Cons.IH show ?case by (auto intro: extends_trans)
  qed simp
  moreover have "extends d (write_entry now rid ev x d)" by (simp add: extends_def)
  ultimately show ?thesis using settle_entry_eq [OF assms] by (auto intro: extends_trans)
qed

lemma complete_round_extends:
  assumes "complete_round now rid cid ord dec xs drift eps ev d = Inr (b, d')"
  shows "extends d d'"
  using complete_round_cases [OF assms]
proof (elim disjE conjE exE)
  fix d1 d2 d3
  assume 1: "rfold (settle_entry now rid ord ev) xs d = Inr d1" and 2: "write_crown now rid cid ord dec xs d1 = Inr d2"
    and 3: "write_history now rid cid ord dec eps d2 = Inr d3"
    and d': "d' = d3\<lparr>rounds := update_where (is_running rid) (finish_round now dec drift) (rounds d3)\<rparr>"
  have "extends d d1" using 1 extends_refl by (rule rfold_invariant) (blast intro: extends_trans settle_entry_extends)
  moreover have "extends d1 d3" using write_crown_frame [OF 2] write_history_frame [OF 3] by (auto simp: extends_def)
  ultimately show ?thesis unfolding d' by (auto simp: extends_def)
qed simp

lemma process_extends:
  assumes "system_ok now d js" and "process_round env now r es run d = Inr (code, d')"
  shows "extends d d'"
  using assms(2)
proof (cases rule: process_roundE)
  case settled
  then show ?thesis by (rule settle_round_Inr) (rule complete_round_extends)
next
  case (deferred m)
  have "calm now d d'" unfolding deferred(3) by (rule round_writers_calm)
  then show ?thesis by (rule calm_extends)
next
  case (void detail b)
  from assms(1) void(2) show ?thesis by (rule void_extends)
qed

lemma gate_write_extends: "gate_write now d d' \<Longrightarrow> extends d d'"
  by (induction rule: gate_write.induct) (auto intro!: calm_extends [of now] intro: insert_submission_calm job_writers_calm
      append_event_calm set_engine_image_calm complete_gates_job_calm)

lemma operator_write_extends: "operator_write now d d' \<Longrightarrow> extends d d'"
proof (induction rule: operator_write.induct)
  case (campaign_rows cs d)
  show ?case by (simp add: extends_def)
qed (blast intro: disqualify_extends calm_extends waive_calm weight_writers_calm)+

lemma round_write_extends:
  assumes "round_write now d d'" and "system_ok now d js"
  shows "extends d d'"
  using assms(1)
proof cases
  case create
  then show ?thesis using create_round_cases fill_round_extends extends_refl by metis
next
  case reap
  then show ?thesis by (rule reap_extends [OF assms(2)])
next
  case vacate
  then show ?thesis by (rule vacate_extends)
next
  case (heartbeat rid)
  show ?thesis unfolding heartbeat by (rule calm_extends [of now]) (rule round_writers_calm)
next
  case phase
  then show ?thesis by (intro calm_extends [of now] round_writers_calm)
qed

text \<open>
  C11. The audit trail is append-only: no step of any process removes, reorders or edits an event of
  a submission or a row of the crown history.
\<close>

theorem logs_append_only:
  assumes "reachable s" and "step s s'"
  shows "prefix (events (store s)) (events (store s')) \<and>
    prefix (leader_history (store s)) (leader_history (store s'))"
proof -
  note ok = reachable_ok [OF assms(1)]
  have "extends (store s) (store s')" using assms(2)
  proof cases
    case gates
    then show ?thesis by (simp add: gate_write_extends)
  next
    case operator
    then show ?thesis by (simp add: operator_write_extends)
  next
    case round_loop
    then show ?thesis using ok by (auto intro: round_write_extends)
  next
    case claim
    then show ?thesis using ok by (auto simp: system_ok_def intro: calm_extends claim_pending_round_calm)
  next
    case (beacon j js show' b sts now d)
    then have "mild d (write_entry_statuses show' (snd j) sts d)"
      using ok write_entry_statuses_mild [of d j sts show'] beacon_honest by (auto simp: system_ok_def)
    then show ?thesis using beacon by (simp add: mild_def extends_def)
  next
    case finish
    then show ?thesis using ok by (auto intro: process_extends)
  qed simp_all
  then show ?thesis by (simp add: extends_def)
qed

section \<open>One campaign from commit to crown, for the witnesses\<close>

text \<open>
  A patch is committed, its image is built and queued, a round is created and claimed, and the pod's
  report gives it a score above the baseline.
\<close>

definition ex_digest :: string where
  "ex_digest = ''sha256:'' @ replicate 64 (CHR ''a'')"

definition ex_report :: json where
  "ex_report = JObj ([(''task_id'', JStr ''t1''), (''verdict'', JStr ''pass'')] @
     map (\<lambda>k. (k, JNull)) [''schema_version'', ''started_at'', ''finished_at''] @
     [(''environment'', JObj (map (\<lambda>k. (k, JNull)) environment_keys)),
      (''inputs_fingerprint'', JObj ([(''request_sha256'', JStr ''sha256:''), (''baseline_image_digest'', JStr ex_digest),
        (''candidate_image_digest'', JArr [JStr ex_digest]), (''trace_sha256'', JStr ''t'')] @
        map (\<lambda>k. (k, JNull)) [''model_repo'', ''model_revision'', ''model_weights_sha256''])),
      (''baseline'', JObj [(''ok'', JBool True)]), (''baseline_drift'', JFloat (Fin 0)),
      (''entries'', JArr [JObj [(''status'', JStr ''scored''), (''score'', JFloat (Fin 1))]])])"

definition ex_job_env :: job_env where
  "ex_job_env = ex_env\<lparr>je_baseline_image := ex_digest, je_candidate_images := [ex_digest]\<rparr>"

definition ex_bench :: bench_run where
  "ex_bench = Exited 0 (Some ex_report) (Some [])"

definition ex_settle :: "db \<Rightarrow> (round_row \<times> db \<times> db) res" where
  "ex_settle d = (case fst (claim_pending_round 1 d) of None \<Rightarrow> Inl (PyRuntimeError [])
     | Some q \<Rightarrow> let d4 = snd (claim_pending_round 1 d) in
       rbind (process_round ex_job_env 1 q (list_round_entries d4 (r_id q)) ex_bench d4) (\<lambda>(_, d5). Inr (q, d4, d5)))"

definition ex_story :: "(db \<times> round_row \<times> db \<times> db) res" where
  "ex_story = rbind (insert_submission 1 ''s1'' ex_ns ex_db0) (\<lambda>(_, d1).
     rbind (complete_gates_job 1 ''s1'' None True (set_engine_image ''s1'' ''i1'' d1)) (\<lambda>d2.
     rbind (create_round 1 ''r1'' dedupe_by_digest ex_spec d2) (\<lambda>(_, d3).
     rbind (ex_settle d3) (\<lambda>(q, d4, d5). Inr (d3, q, d4, d5)))))"

definition ex_end :: "db \<times> round_row \<times> db \<times> db \<Rightarrow> bool" where
  "ex_end p = (case p of (d3, q, d4, d5) \<Rightarrow> latest_state d3 ''s1'' = Some RoundAssigned \<and>
     map (\<lambda>r. live (r_status r)) (rounds d4) = [True] \<and> map_option l_submission_id (leader_of d5 ''c1'') = Some ''s1'')"

lemma ex_story_ends: "case ex_story of Inl _ \<Rightarrow> False | Inr p \<Rightarrow> ex_end p"
  by code_simp

lemma res_cases: "case r of Inl _ \<Rightarrow> False | Inr p \<Rightarrow> P p \<Longrightarrow> \<exists>p. r = Inr p \<and> P p"
  by (cases r) auto

lemma ex_bench_final: "final_run ex_bench"
  by code_simp

lemma reachable_step: "reachable s \<Longrightarrow> step s s' \<Longrightarrow> reachable s'"
  unfolding reachable_def by (meson rtranclp.rtrancl_into_rtrancl)

lemma ex_story_reachable:
  obtains d3 q d4 d5 where "ex_end (d3, q, d4, d5)" "reachable \<lparr>clock = 1, store = d3, workers = []\<rparr>"
    "reachable \<lparr>clock = 1, store = d4, workers = [(q, list_round_entries d4 (r_id q))]\<rparr>"
    "reachable \<lparr>clock = 1, store = d5, workers = []\<rparr>"
proof -
  obtain d3 q d4 d5 where p: "ex_story = Inr (d3, q, d4, d5)" "ex_end (d3, q, d4, d5)"
    using res_cases [OF ex_story_ends] by (metis prod_cases4)
  obtain r1 d1 d2 r3 where 1: "insert_submission 1 ''s1'' ex_ns ex_db0 = Inr (r1, d1)"
    and 2: "complete_gates_job 1 ''s1'' None True (set_engine_image ''s1'' ''i1'' d1) = Inr d2"
    and 3: "create_round 1 ''r1'' dedupe_by_digest ex_spec d2 = Inr (r3, d3)"
    and st: "ex_settle d3 = Inr (q, d4, d5)"
    using p(1) by (auto simp: ex_story_def rbind_eq_Inr)
  obtain c where 4: "claim_pending_round 1 d3 = (Some q, d4)"
    and 5: "process_round ex_job_env 1 q (list_round_entries d4 (r_id q)) ex_bench d4 = Inr (c, d5)"
    using st by (cases "claim_pending_round 1 d3") (auto simp: ex_settle_def Let_def rbind_eq_Inr split: option.splits)
  let ?j = "(q, list_round_entries d4 (r_id q))"
  have "initial \<lparr>clock = 1, store = ex_db0, workers = []\<rparr>"
    by (auto simp: initial_def ex_db0_def ex_c_def uniq_def intro!: exI [of _ "[ex_c]"])
  then have "reachable \<lparr>clock = 1, store = ex_db0, workers = []\<rparr>" by (auto simp: reachable_def)
  then have "reachable \<lparr>clock = 1, store = d1, workers = []\<rparr>"
    by (rule reachable_step) (rule gates [OF intake [OF 1]])
  then have "reachable \<lparr>clock = 1, store = set_engine_image ''s1'' ''i1'' d1, workers = []\<rparr>"
    by (rule reachable_step) (rule gates [OF image])
  then have "reachable \<lparr>clock = 1, store = d2, workers = []\<rparr>"
    by (rule reachable_step) (rule gates [OF gates_done [OF 2]])
  then have r3: "reachable \<lparr>clock = 1, store = d3, workers = []\<rparr>"
    by (rule reachable_step) (rule round_loop [OF create [OF 3]])
  then have r4: "reachable \<lparr>clock = 1, store = d4, workers = [?j]\<rparr>"
    by (rule reachable_step) (rule claim [OF 4])
  have "step \<lparr>clock = 1, store = d4, workers = [?j]\<rparr> \<lparr>clock = 1, store = d5, workers = remove1 ?j [?j]\<rparr>"
    using ex_bench_final 5 by (intro finish) auto
  then have "reachable \<lparr>clock = 1, store = d5, workers = []\<rparr>" using reachable_step [OF r4] by simp
  with p(2) r3 r4 that show thesis by blast
qed

theorem no_submission_stranded_witness:
  "\<exists>s. reachable s \<and> latest_state (store s) ''s1'' = Some RoundAssigned \<and>
     (\<exists>r \<in> set (rounds (store s)). live (r_status r) \<and> ''s1'' \<in> set (unscored (store s) (r_id r)))"
proof (rule ex_story_reachable)
  fix d3 q d4 d5
  let ?s = "\<lparr>clock = 1, store = d3, workers = []\<rparr> :: system"
  assume r: "reachable ?s" and e: "ex_end (d3, q, d4, d5)"
  have a: "latest_state (store ?s) ''s1'' = Some RoundAssigned" using e by (simp add: ex_end_def)
  from no_submission_stranded [OF r a] r a show ?thesis by blast
qed

theorem history_replays_crown_witness:
  "\<exists>s. reachable s \<and> replay ''c1'' (leader_history (store s)) = Some ''s1''"
proof (rule ex_story_reachable)
  fix d3 q d4 d5
  let ?s = "\<lparr>clock = 1, store = d5, workers = []\<rparr> :: system"
  assume r: "reachable ?s" and e: "ex_end (d3, q, d4, d5)"
  have "replay ''c1'' (leader_history (store ?s)) = Some ''s1''"
    using history_replays_crown [OF r, of "''c1''"] e by (simp add: ex_end_def)
  with r show ?thesis by blast
qed

theorem live_round_defends_crown_witness:
  "\<exists>s r. reachable s \<and> r \<in> set (rounds (store s)) \<and> live (r_status r) \<and>
     r_incumbent r = map_option l_submission_id (leader_of (store s) (r_campaign_id r))"
proof (rule ex_story_reachable)
  fix d3 q d4 d5
  let ?s = "\<lparr>clock = 1, store = d4, workers = [(q, list_round_entries d4 (r_id q))]\<rparr> :: system"
  assume s: "reachable ?s" and e: "ex_end (d3, q, d4, d5)"
  obtain r where r: "r \<in> set (rounds (store ?s))" "live (r_status r)" using e by (auto simp: ex_end_def)
  from live_round_defends_crown [OF s r] s r show ?thesis by blast
qed


theorem logs_append_only_witness:
  "\<exists>s s'. reachable s \<and> step s s' \<and> prefix (events (store s)) (events (store s'))"
proof (rule ex_story_reachable)
  fix d3 :: db
  let ?s = "\<lparr>clock = 1, store = d3, workers = []\<rparr> :: system"
  let ?t = "\<lparr>clock = 1, store = set_engine_image ''s1'' ''i2'' d3, workers = []\<rparr> :: system"
  assume r: "reachable ?s"
  have s: "step ?s ?t" by (intro gates image)
  from logs_append_only [OF r s] r s show ?thesis by blast
qed

section \<open>The chain watcher is a writer of the system\<close>

text \<open>The database goes from one state to another by transactions of the system at one clock reading.\<close>

definition moves :: "ts \<Rightarrow> job list \<Rightarrow> db \<Rightarrow> db \<Rightarrow> bool" where
  "moves now js d d' = step\<^sup>*\<^sup>* \<lparr>clock = now, store = d, workers = js\<rparr> \<lparr>clock = now, store = d', workers = js\<rparr>"

lemma moves_refl [simp]: "moves now js d d"
  by (simp add: moves_def)

lemma moves_trans: "moves now js d d1 \<Longrightarrow> moves now js d1 d' \<Longrightarrow> moves now js d d'"
  unfolding moves_def by (rule rtranclp_trans)

lemma moves_write:
  "gate_write now d d' \<Longrightarrow> moves now js d d'" "operator_write now d d' \<Longrightarrow> moves now js d d'"
  "round_write now d d' \<Longrightarrow> moves now js d d'"
  unfolding moves_def by (auto intro: step.gates step.operator step.round_loop)

lemma reachable_moves:
  assumes "reachable s" and "moves (clock s) (workers s) (store s) d'"
  shows "reachable (s\<lparr>store := d'\<rparr>)"
proof -
  have "step\<^sup>*\<^sup>* s (s\<lparr>store := d'\<rparr>)" using assms(2) unfolding moves_def by (cases s) simp
  with assms(1) show ?thesis unfolding reachable_def by (meson rtranclp_trans)
qed

lemma ingest_moves:
  assumes "ingest_commitment env now sid com (failed, d) = Inr (r, failed', d')"
  shows "moves now js d d'"
  using ingest_cases [OF assms] moves_write(1) [OF gate_write.intake] by auto

lemma ingest_all_moves:
  assumes "ingest_all env now new_id coms s = (r, t)"
  shows "moves now js (snd s) (snd t)"
  using assms
proof (induction coms arbitrary: s r)
  case (Cons com coms)
  show ?case
  proof (cases "ingest_commitment env now (new_id com) com s")
    case (Inl e)
    with Cons.prems show ?thesis by auto
  next
    case (Inr p)
    obtain q f1 d1 where p: "p = (q, f1, d1)" by (cases p)
    obtain c u where rest: "ingest_all env now new_id coms (f1, d1) = (c, u)" by (metis surj_pair)
    then have u: "u = t" using Cons.prems Inr p by simp
    have "moves now js (snd s) d1" using ingest_moves [of env now "new_id com" com "fst s" "snd s"] Inr p by simp
    moreover have "moves now js d1 (snd t)" using Cons.IH [OF rest [unfolded u]] by simp
    ultimately show ?thesis by (rule moves_trans)
  qed
qed simp

text \<open>
  Scanning the chain keeps the system in its reachable states: whatever the chain reveals, and
  also when an exception ends the scan half way, the database after a scan is the database after a
  sequence of intake transactions, so every invariant above holds of it.
\<close>

theorem scan_stays_reachable:
  assumes "reachable s" and "scan_chain env loads (clock s) new_id hotkeys coldkeys revealed (failed, store s) = (r, failed', d')"
  shows "reachable (s\<lparr>store := d'\<rparr>)"
proof (cases "build_patch_commitments loads hotkeys coldkeys revealed")
  case (Inl e)
  then have "d' = store s" using assms(2) by (simp add: scan_chain_def)
  then show ?thesis using reachable_moves [OF assms(1) moves_refl] by simp
next
  case (Inr coms)
  obtain c u where all: "ingest_all env (clock s) new_id (chain_order coms) (failed \<inter> hash_check_key ` set coms, store s) = (c, u)"
    by (metis surj_pair)
  then have "u = (failed', d')" using assms(2) Inr by (simp add: scan_chain_def)
  with ingest_all_moves [OF all, of "workers s"] reachable_moves [OF assms(1)] show ?thesis by simp
qed

theorem scan_stays_reachable_witness: "reachable \<lparr>clock = 5, store = ex_stored_db, workers = []\<rparr>"
proof -
  let ?s = "\<lparr>clock = 5, store = ex_intake_db, workers = []\<rparr>"
  have "initial ?s" unfolding initial_def ex_intake_db_def by (intro conjI exI [of _ "[ex_c\<lparr>c_id := uuid_str 171\<rparr>]"]) (simp_all add: uniq_def)
  then have "reachable ?s" unfolding reachable_def by blast
  moreover have "\<exists>r f. scan_chain ex_watcher (\<lambda>_. Inr None) (clock ?s) (\<lambda>_. ''s1'') [''hot'', ''hot1''] [''cold'', ''cold1''] ex_revealed
      ({}, store ?s) = (r, f, ex_stored_db)"
    using ex_first_refused [of 5 "''s1''" "''cold1''"] ex_second_stored
    by (simp add: scan_chain_def ex_built ex_order [simplified])
  ultimately show ?thesis using scan_stays_reachable by fastforce
qed

section \<open>So is the weights process\<close>

lemma reconcile_moves:
  assumes "reconcile now eps uids ls d = (r, d')"
  shows "moves now js d d'"
  using assms
proof (induction ls arbitrary: d r)
  case (Cons l ls)
  show ?case
  proof (cases "map_of uids (l_hotkey l) = None")
    case False
    with Cons show ?thesis by auto
  next
    case True
    show ?thesis
    proof (cases "vacate_leader_if_idle now (l_campaign_id l) eps d")
      case (Inl e)
      with Cons.prems True show ?thesis by simp
    next
      case (Inr p)
      obtain b d1 where p: "p = (b, d1)" by (cases p)
      obtain v u where rest: "reconcile now eps uids ls d1 = (v, u)" by (metis surj_pair)
      then have u: "u = d'" using Cons.prems True Inr p by simp
      have "moves now js d d1" by (rule moves_write(3) [OF round_write.vacate [OF Inr [unfolded p]]])
      then show ?thesis using Cons.IH [OF rest [unfolded u]] by (rule moves_trans)
    qed
  qed
qed simp

lemma publish_moves:
  assumes "publish_vector cfg now meta execute cb sign vec bd d = (r, d', sent)"
  shows "moves now js d d'"
proof -
  let ?d1 = "snd (insert_weight_set now cb (wc_version_key cfg) (wc_burn_uid cfg) vec bd d)"
  have row: "moves now js d ?d1" by (rule moves_write(2) [OF operator_write.weights])
  have "moves now js ?d1 (mark_weight_set_result i ok err ?d1)" for i ok err
    by (rule moves_write(2) [OF operator_write.weights_result])
  with row have "moves now js d (mark_weight_set_result i ok err ?d1)" for i ok err by (blast intro: moves_trans)
  moreover have "d' = d \<or> d' = ?d1 \<or> (\<exists>i ok err. d' = mark_weight_set_result i ok err ?d1)"
    using assms by (auto simp: publish_vector_def sign_vector_def Let_def split: if_splits option.splits prod.splits sum.splits pyerr.splits)
  ultimately show ?thesis using row by auto
qed

lemma run_cycle_moves:
  assumes "run_cycle cfg now meta execute cb sign d = (r, d', sent)"
  shows "moves now js d d'"
proof -
  have "d' = d \<or> (\<exists>uids q d1. reconcile_deregistrations now (wc_epsilon cfg) uids d = (q, d1) \<and> (d' = d1 \<or>
      (\<exists>vec bd. publish_vector cfg now meta execute cb sign vec bd d1 = (r, d', sent))))"
    using assms by (auto simp: run_cycle_def split: if_splits sum.splits prod.splits pyerr.splits)
  then consider "d' = d" | uids q where "reconcile now (wc_epsilon cfg) uids (list_idle_seated_leaders d) d = (q, d')"
    | uids q d1 vec bd where "reconcile now (wc_epsilon cfg) uids (list_idle_seated_leaders d) d = (q, d1)"
      "publish_vector cfg now meta execute cb sign vec bd d1 = (r, d', sent)"
    unfolding reconcile_deregistrations_def by blast
  then show ?thesis
  proof cases
    case 3
    from reconcile_moves [OF 3(1)] publish_moves [OF 3(2)] show ?thesis by (rule moves_trans)
  qed (simp_all add: reconcile_moves)
qed



end
