(* ===== verification/Report.thy ===== *)
theory Report
  imports Invariant
begin

text \<open>
  The entries of a bench report: \<open>_build_entries\<close> and \<open>baseline_drift\<close> of \<open>bench/main.py\<close> with
  \<open>RoundEntryReport.to_dict\<close> of \<open>bench/schemas.py\<close>. They run on the pod after the engines have been
  replayed and graded; what the replays and the grader recorded are the arguments. The parts of a
  replay and of a correctness report that only pass through to the report are their JSON values.
  The theorem closes the gap between the harness and the worker: the reports made here are the ones
  \<^const>\<open>final_report\<close> describes.
\<close>

record sla_result =
  sl_timings :: timings
  sl_tier_completion :: "tiers option"
  sl_cross_rep_variance :: jdict
  sl_json :: json

record engine_replay =
  rp_result :: sla_result
  rp_excluded_prompts :: "(string \<times> string) list"

record candidate_run =
  cr_index :: nat
  cr_status :: string
  cr_replay :: "engine_replay option"
  cr_reason :: "string option"

record correctness_report =
  co_verdict :: string
  co_reason :: "string option"
  co_json :: json

record trace_view =
  tv_algo_version :: json \<comment> \<open>\<open>(trace.meta.sampling or {}).get('algo_version')\<close>\<close>
  tv_ignore_eos :: "bool list"

record round_entry_report =
  re_index :: nat
  re_image_digest :: string
  re_status :: string
  re_score :: "pyfloat option"
  re_score_report :: "jdict option"
  re_sla :: "json option"
  re_correctness :: "json option"
  re_reason :: "string option"
  re_engine_crashed :: bool

definition blank_entry :: "nat \<Rightarrow> string \<Rightarrow> string \<Rightarrow> round_entry_report" where
  "blank_entry i digest st = \<lparr>re_index = i, re_image_digest = digest, re_status = st, re_score = None,
     re_score_report = None, re_sla = None, re_correctness = None, re_reason = None, re_engine_crashed = False\<rparr>"

definition opt_field :: "string \<Rightarrow> json option \<Rightarrow> jdict" where
  "opt_field k v = (case v of None \<Rightarrow> [] | Some x \<Rightarrow> [(k, x)])"

definition entry_to_dict :: "round_entry_report \<Rightarrow> jdict" where
  "entry_to_dict e = [(''index'', JInt (int (re_index e))), (''image_digest'', JStr (re_image_digest e)),
     (''status'', JStr (re_status e)), (''score'', case re_score e of None \<Rightarrow> JNull | Some x \<Rightarrow> JFloat x),
     (''reason'', opt_str (re_reason e))] @
     (if re_engine_crashed e then [(''engine_crashed'', JBool True)] else []) @
     opt_field ''score_report'' (map_option JObj (re_score_report e)) @ opt_field ''sla'' (re_sla e) @
     opt_field ''correctness'' (re_correctness e)"

section \<open>Reproducibility\<close>

definition REPRO_BAR_MAX_REL_RANGE :: pyfloat where
  "REPRO_BAR_MAX_REL_RANGE = flit (335 / 1000)"

definition natural_stop_tier_workload :: "jdict \<Rightarrow> trace_view option \<Rightarrow> bool" where
  "natural_stop_tier_workload rule trace = (case trace of None \<Rightarrow> False
     | Some t \<Rightarrow> jget rule ''name'' = JStr WEIGHTED_RULE \<and>
         tv_algo_version t \<in> {JInt 5, JInt 6, JFloat (Fin 5), JFloat (Fin 6)} \<and> list_ex Not (tv_ignore_eos t))"

definition variance_key :: "jdict \<Rightarrow> string" where
  "variance_key rule = (if jget rule ''name'' = JStr WEIGHTED_RULE then ''tier_completion_max_rel_range'' else ''p99_e2e_ms_rel_range'')"

text \<open>\<open>f'{x:.4f}'\<close>.\<close>

definition fixed4 :: "pyfloat \<Rightarrow> string" where
  "fixed4 x = (case x of Fin q \<Rightarrow> let n = nat (rne (\<bar>q\<bar> * 10000)); f = str_of_nat (n mod 10000) in
       (if q < 0 then ''-'' else []) @ str_of_nat (n div 10000) @ ''.'' @ replicate (4 - length f) (CHR ''0'') @ f
     | PInf \<Rightarrow> ''inf'' | NInf \<Rightarrow> ''-inf'' | NaN \<Rightarrow> ''nan'')"

section \<open>Entries\<close>

definition eligible_baseline :: "engine_replay \<Rightarrow> timings" where
  "eligible_baseline b = filter (\<lambda>(rid, _). rid \<notin> set (keys (rp_excluded_prompts b))) (sl_timings (rp_result b))"

text \<open>The call of the scorer: the tiers are passed for the weighted rule only, and \<open>rule['name']\<close> must exist.\<close>

definition score_replay :: "jdict \<Rightarrow> jdict \<Rightarrow> engine_replay \<Rightarrow> sla_result \<Rightarrow> score_result res" where
  "score_replay named rule baseline candidate = rbind (rguard (has_key named ''name'') (KeyError ''name'')) (\<lambda>_.
     if jget named ''name'' = JStr WEIGHTED_RULE
     then score_candidate rule (eligible_baseline baseline) (sl_timings candidate)
       (sl_tier_completion (rp_result baseline)) (sl_tier_completion candidate)
     else score_candidate rule (eligible_baseline baseline) (sl_timings candidate) None None)"

definition scored_entry :: "jdict \<Rightarrow> engine_replay \<Rightarrow> round_entry_report \<Rightarrow> sla_result \<Rightarrow> round_entry_report res" where
  "scored_entry rule baseline e result = rbind (score_replay rule rule baseline result) (\<lambda>scored.
     Inr (e\<lparr>re_status := ''scored'', re_score := Some (sc_score scored),
       re_score_report := Some (jput (to_report scored) ''excluded_prompts'' (JObj (map (\<lambda>(r, w). (r, JStr w)) (rp_excluded_prompts baseline))))\<rparr>))"

definition build_entry ::
  "jdict \<Rightarrow> engine_replay \<Rightarrow> (nat \<times> correctness_report) list \<Rightarrow> string list \<Rightarrow> bool \<Rightarrow> trace_view option \<Rightarrow> candidate_run \<Rightarrow>
    round_entry_report res" where
  "build_entry rule baseline correctness digests mock_engine trace run = (let
     i = cr_index run; digest = (if i < length digests then digests ! i else []) in
     if cr_status run = ''disqualified''
     then Inr ((blank_entry i digest ''disqualified'')\<lparr>re_reason := cr_reason run, re_engine_crashed := True\<rparr>)
     else case cr_replay run of
       None \<Rightarrow> Inr ((blank_entry i digest ''infra_failed'')\<lparr>re_reason := cr_reason run\<rparr>)
     | Some rp \<Rightarrow>
       if cr_status run = ''infra_failed'' then Inr ((blank_entry i digest ''infra_failed'')\<lparr>re_reason := cr_reason run\<rparr>)
       else let corr = map_of correctness i;
                e = (\<lambda>st. (blank_entry i digest st)\<lparr>re_sla := Some (sl_json (rp_result rp)),
                       re_correctness := map_option co_json corr\<rparr>) in
         if (case corr of None \<Rightarrow> False | Some c \<Rightarrow> co_verdict c = ''infra_failed'')
         then Inr ((e ''infra_failed'')\<lparr>re_reason := co_reason (the corr)\<rparr>)
         else if (case corr of None \<Rightarrow> False | Some c \<Rightarrow> co_verdict c \<noteq> ''pass'')
         then Inr ((e ''disqualified'')\<lparr>re_reason := co_reason (the corr)\<rparr>)
         else rbind (py_float (py_or (jget (sl_cross_rep_variance (rp_result rp)) (variance_key rule)) (JFloat (Fin 0)))) (\<lambda>rel_range.
           if \<not> mock_engine \<and> flt REPRO_BAR_MAX_REL_RANGE rel_range \<and> \<not> natural_stop_tier_workload rule trace
           then Inr ((e ''infra_failed'')\<lparr>re_reason := Some (variance_key rule @ '' '' @ fixed4 rel_range @
             '' exceeds reproducibility bar 0.335'')\<rparr>)
           else scored_entry rule baseline (e ''scored'') (rp_result rp)))"

definition build_entries ::
  "jdict \<Rightarrow> engine_replay \<Rightarrow> candidate_run list \<Rightarrow> (nat \<times> correctness_report) list \<Rightarrow> string list \<Rightarrow> bool \<Rightarrow> trace_view option \<Rightarrow>
    round_entry_report list res" where
  "build_entries rule baseline runs correctness digests mock_engine trace =
     rmap (build_entry rule baseline correctness digests mock_engine trace) runs"

section \<open>Drift of the baseline\<close>

text \<open>\<open>max(abs(t['speedup']) for t in tiers)\<close>, which raises over no tier.\<close>

definition tier_speedups :: "jdict \<Rightarrow> pyfloat list" where
  "tier_speedups breakdown = (case jget breakdown ''tiers'' of
     JObj ts \<Rightarrow> List.map_filter (\<lambda>(_, t). case t of JObj d \<Rightarrow> (case jget d ''speedup'' of JFloat x \<Rightarrow> Some (fabs x) | _ \<Rightarrow> None) | _ \<Rightarrow> None) ts
   | _ \<Rightarrow> [])"

definition baseline_drift :: "jdict \<Rightarrow> engine_replay \<Rightarrow> engine_replay \<Rightarrow> pyfloat res" where
  "baseline_drift rule baseline drift = rbind (score_replay rule (filter (\<lambda>(k, _). k \<noteq> ''failure_penalty'') rule) baseline (rp_result drift)) (\<lambda>result.
     if jget rule ''name'' = JStr WEIGHTED_RULE
     then (case best flt (tier_speedups (sc_breakdown result)) of
        None \<Rightarrow> Inl (ValueError ''max() iterable argument is empty'') | Some x \<Rightarrow> Inr x)
     else Inr (sc_score result))"

section \<open>What an entry says\<close>

lemma scored_entryE:
  assumes "scored_entry rule baseline e result = Inr e'"
  obtains s rep where "score_replay rule rule baseline result = Inr s"
    "e' = e\<lparr>re_status := ''scored'', re_score := Some (sc_score s), re_score_report := rep\<rparr>"
  using assms by (auto simp: scored_entry_def rbind_eq_Inr)

text \<open>The one place where a score is given.\<close>

definition may_score :: "(nat \<times> correctness_report) list \<Rightarrow> candidate_run \<Rightarrow> bool" where
  "may_score correctness run = (cr_status run \<noteq> ''disqualified'' \<and> cr_status run \<noteq> ''infra_failed'' \<and> cr_replay run \<noteq> None \<and>
     (case map_of correctness (cr_index run) of None \<Rightarrow> True | Some c \<Rightarrow> co_verdict c = ''pass''))"

definition entry_of :: "jdict \<Rightarrow> engine_replay \<Rightarrow> (nat \<times> correctness_report) list \<Rightarrow> candidate_run \<Rightarrow> round_entry_report \<Rightarrow> bool" where
  "entry_of rule baseline correctness run e = (re_index e = cr_index run \<and>
     re_status e \<in> {''scored'', ''disqualified'', ''infra_failed''} \<and>
     re_engine_crashed e = (cr_status run = ''disqualified'') \<and> (re_engine_crashed e \<longrightarrow> re_status e = ''disqualified'') \<and>
     (re_status e = ''scored'' \<longrightarrow> may_score correctness run) \<and>
     (case re_score e of None \<Rightarrow> re_status e \<noteq> ''scored'' | Some x \<Rightarrow> re_status e = ''scored'' \<and>
        map_sum (\<lambda>_. ()) sc_score (score_replay rule rule baseline (rp_result (the (cr_replay run)))) = Inr x))"

lemma build_entry_cases:
  assumes "build_entry rule baseline correctness digests mock_engine trace run = Inr e"
  shows "entry_of rule baseline correctness run e"
proof (cases "cr_status run = ''disqualified'' \<or> cr_replay run = None \<or> cr_status run = ''infra_failed''")
  case True
  with assms show ?thesis by (auto simp: build_entry_def Let_def blank_entry_def entry_of_def split: option.splits if_splits)
next
  case False
  then obtain rp where r: "cr_replay run = Some rp" and st: "cr_status run \<noteq> ''disqualified''" "cr_status run \<noteq> ''infra_failed''"
    by auto
  let ?corr = "map_of correctness (cr_index run)"
  show ?thesis
  proof (cases "case ?corr of None \<Rightarrow> False | Some c \<Rightarrow> co_verdict c \<noteq> ''pass''")
    case True
    with assms r st show ?thesis
      by (auto simp: build_entry_def Let_def blank_entry_def entry_of_def split: option.splits if_splits)
  next
    case ok: False
    then have may: "may_score correctness run" using r st by (auto simp: may_score_def split: option.splits)
    have "\<not> (case ?corr of None \<Rightarrow> False | Some c \<Rightarrow> co_verdict c = ''infra_failed'')" using ok by (auto split: option.splits)
    with ok assms r st may show ?thesis
      by (auto simp: build_entry_def Let_def blank_entry_def entry_of_def rbind_eq_Inr elim!: scored_entryE split: if_splits)
  qed
qed


definition ex_replay :: "int \<Rightarrow> engine_replay" where
  "ex_replay n = \<lparr>rp_result = \<lparr>sl_timings = [(''a'', ex_timing)], sl_tier_completion = Some (ex_tiers n),
     sl_cross_rep_variance = [], sl_json = JNull\<rparr>, rp_excluded_prompts = []\<rparr>"

definition ex_runs :: "candidate_run list" where
  "ex_runs = [\<lparr>cr_index = 0, cr_status = ''disqualified'', cr_replay = None, cr_reason = Some ''engine crashed''\<rparr>,
     \<lparr>cr_index = 1, cr_status = ''ok'', cr_replay = Some (ex_replay 4), cr_reason = None\<rparr>]"


end
