(* ===== verification/Process.thy ===== *)
theory Process
  imports Prelude
begin

text \<open>
  Processes that commit several transactions one after the other. A run takes the shared state
  and gives its result, or the exception that ended it, together with the state it left behind:
  what was committed before an exception stays. Before every access to the shared state the other
  processes may act; what they do is the argument \<open>others\<close>. The locale states what a relation on
  states must satisfy for a whole run to respect it when each transaction does, and the rules for
  what a run establishes.
\<close>

type_synonym ('s, 'e, 'a) run = "'s \<Rightarrow> ('e + 'a) \<times> 's"

definition run_ret :: "'a \<Rightarrow> ('s, 'e, 'a) run" where
  "run_ret x s = (Inr x, s)"

definition run_fail :: "'e \<Rightarrow> ('s, 'e, 'a) run" where
  "run_fail e s = (Inl e, s)"

definition run_bind :: "('s, 'e, 'a) run \<Rightarrow> ('a \<Rightarrow> ('s, 'e, 'b) run) \<Rightarrow> ('s, 'e, 'b) run" where
  "run_bind m f s = (case m s of (Inl e, s') \<Rightarrow> (Inl e, s') | (Inr x, s') \<Rightarrow> f x s')"

definition run_res :: "'e + 'a \<Rightarrow> ('s, 'e, 'a) run" where
  "run_res r s = (r, s)"

text \<open>One transaction: all of it, or, when it raises, nothing.\<close>

definition run_txn :: "('s \<Rightarrow> 's) \<Rightarrow> ('s \<Rightarrow> 'e + ('a \<times> 's)) \<Rightarrow> ('s, 'e, 'a) run" where
  "run_txn others f s = (let s1 = others s in case f s1 of Inl e \<Rightarrow> (Inl e, s1) | Inr (x, s2) \<Rightarrow> (Inr x, s2))"

text \<open>\<open>try: m except Exception: h\<close>.\<close>

definition run_catch :: "('s, 'e, 'a) run \<Rightarrow> ('e \<Rightarrow> ('s, 'e, 'a) run) \<Rightarrow> ('s, 'e, 'a) run" where
  "run_catch m h s = (case m s of (Inl e, s') \<Rightarrow> h e s' | (Inr x, s') \<Rightarrow> (Inr x, s'))"

fun run_loop :: "('x \<Rightarrow> 'a \<Rightarrow> ('s, 'e, 'a) run) \<Rightarrow> 'x list \<Rightarrow> 'a \<Rightarrow> ('s, 'e, 'a) run" where
  "run_loop f [] a = run_ret a"
| "run_loop f (x # xs) a = run_bind (f x a) (run_loop f xs)"

section \<open>What a run respects\<close>

definition keeps :: "('s \<Rightarrow> 's \<Rightarrow> bool) \<Rightarrow> ('s, 'e, 'a) run \<Rightarrow> bool" where
  "keeps R m = (\<forall>s r s'. m s = (r, s') \<longrightarrow> R s s')"

lemma keepsD: "keeps R m \<Longrightarrow> m s = (r, s') \<Longrightarrow> R s s'"
  by (simp add: keeps_def)

lemma keeps_if: "(b \<Longrightarrow> keeps R m) \<Longrightarrow> (\<not> b \<Longrightarrow> keeps R n) \<Longrightarrow> keeps R (if b then m else n)"
  by simp

lemma keeps_option: "keeps R m \<Longrightarrow> (\<And>y. keeps R (f y)) \<Longrightarrow> keeps R (case x of None \<Rightarrow> m | Some y \<Rightarrow> f y)"
  by (cases x) auto

lemma keeps_sum: "(\<And>e. keeps R (f e)) \<Longrightarrow> (\<And>y. keeps R (g y)) \<Longrightarrow> keeps R (case x of Inl e \<Rightarrow> f e | Inr y \<Rightarrow> g y)"
  by (cases x) auto

locale transactions =
  fixes R :: "'s \<Rightarrow> 's \<Rightarrow> bool" and others :: "'s \<Rightarrow> 's"
  assumes refl: "R s s" and trans: "R s t \<Longrightarrow> R t u \<Longrightarrow> R s u" and rely: "R s (others s)"
begin

lemma keeps_ret: "keeps R (run_ret x)"
  by (simp add: keeps_def run_ret_def refl)

lemma keeps_fail: "keeps R (run_fail e)"
  by (simp add: keeps_def run_fail_def refl)

lemma keeps_res: "keeps R (run_res r)"
  by (simp add: keeps_def run_res_def refl)

lemma keeps_bind:
  assumes "keeps R m" and "\<And>x. keeps R (f x)"
  shows "keeps R (run_bind m f)"
  unfolding keeps_def
proof (intro allI impI)
  fix s r s'
  assume run: "run_bind m f s = (r, s')"
  obtain q t where q: "m s = (q, t)" by (metis surj_pair)
  have "R s t" using assms(1) q by (rule keepsD)
  moreover have "R t s'"
    using run q assms(2) by (auto simp: run_bind_def refl keeps_def split: sum.splits)
  ultimately show "R s s'" by (rule trans)
qed

lemma keeps_txn:
  assumes "\<And>s x s'. f s = Inr (x, s') \<Longrightarrow> R s s'"
  shows "keeps R (run_txn others f)"
  using assms rely trans by (fastforce simp: keeps_def run_txn_def Let_def split: sum.splits)

lemma keeps_catch:
  assumes "keeps R m" and "\<And>e. keeps R (h e)"
  shows "keeps R (run_catch m h)"
  unfolding keeps_def
proof (intro allI impI)
  fix s r s'
  assume run: "run_catch m h s = (r, s')"
  obtain q t where q: "m s = (q, t)" by (metis surj_pair)
  have "R s t" using assms(1) q by (rule keepsD)
  moreover have "R t s'"
    using run q assms(2) by (auto simp: run_catch_def refl keeps_def split: sum.splits)
  ultimately show "R s s'" by (rule trans)
qed

lemma keeps_loop:
  assumes "\<And>x a. keeps R (f x a)"
  shows "keeps R (run_loop f xs a)"
  using assms by (induction xs arbitrary: a) (auto intro: keeps_ret keeps_bind)

end

section \<open>What a run establishes\<close>

text \<open>
  \<open>ensures P m Q E\<close>: started where \<open>P\<close> holds, a run that returns leaves a result and a state with \<open>Q\<close>,
  and one that raises an exception and a state with \<open>E\<close>.
\<close>

definition ensures :: "('s \<Rightarrow> bool) \<Rightarrow> ('s, 'e, 'a) run \<Rightarrow> ('a \<Rightarrow> 's \<Rightarrow> bool) \<Rightarrow> ('e \<Rightarrow> 's \<Rightarrow> bool) \<Rightarrow> bool" where
  "ensures P m Q E = (\<forall>s. P s \<longrightarrow> (case m s of (Inr x, s') \<Rightarrow> Q x s' | (Inl e, s') \<Rightarrow> E e s'))"

lemma ensuresD: "ensures P m Q E \<Longrightarrow> P s \<Longrightarrow> m s = (r, s') \<Longrightarrow> (case r of Inr x \<Rightarrow> Q x s' | Inl e \<Rightarrow> E e s')"
  by (cases r) (force simp: ensures_def)+

lemma ensures_weaken:
  assumes "ensures P m Q E" and "\<And>s. P' s \<Longrightarrow> P s" and "\<And>x s. Q x s \<Longrightarrow> Q' x s" and "\<And>e s. E e s \<Longrightarrow> E' e s"
  shows "ensures P' m Q' E'"
  unfolding ensures_def
proof (intro allI impI)
  fix s
  assume "P' s"
  then show "case m s of (Inr x, s') \<Rightarrow> Q' x s' | (Inl e, s') \<Rightarrow> E' e s'"
    using assms unfolding ensures_def by (fastforce split: prod.splits sum.splits)
qed

lemma ensures_ret: "(\<And>s. P s \<Longrightarrow> Q x s) \<Longrightarrow> ensures P (run_ret x) Q E"
  by (simp add: ensures_def run_ret_def)

lemma ensures_res:
  "(\<And>s x. P s \<Longrightarrow> r = Inr x \<Longrightarrow> Q x s) \<Longrightarrow> (\<And>s e. P s \<Longrightarrow> r = Inl e \<Longrightarrow> E e s) \<Longrightarrow> ensures P (run_res r) Q E"
  by (auto simp: ensures_def run_res_def split: sum.splits)

lemma ensures_bind:
  assumes "ensures P m A E" and "\<And>x. ensures (A x) (f x) Q E"
  shows "ensures P (run_bind m f) Q E"
  using assms by (fastforce simp: ensures_def run_bind_def split: prod.splits sum.splits)

lemma ensures_txn:
  assumes "\<And>s. P s \<Longrightarrow> P (others s)" and "\<And>s x s'. P s \<Longrightarrow> f s = Inr (x, s') \<Longrightarrow> Q x s'"
    and "\<And>s e. P s \<Longrightarrow> f s = Inl e \<Longrightarrow> E e s"
  shows "ensures P (run_txn others f) Q E"
  using assms by (auto simp: ensures_def run_txn_def Let_def split: sum.splits)

lemma ensures_catch:
  assumes "ensures P m Q A" and "\<And>e. ensures (A e) (h e) Q E"
  shows "ensures P (run_catch m h) Q E"
  using assms by (fastforce simp: ensures_def run_catch_def split: prod.splits sum.splits)

lemma ensures_any: "ensures P m (\<lambda>_ _. True) (\<lambda>_ _. True)"
  by (simp add: ensures_def split: prod.splits sum.splits)

lemma ensures_if:
  "(b \<Longrightarrow> ensures P m Q E) \<Longrightarrow> (\<not> b \<Longrightarrow> ensures P n Q E) \<Longrightarrow> ensures P (if b then m else n) Q E"
  by simp

end
