(* ===== verification/Workers.thy ===== *)
theory Workers
  imports System Process
begin

text \<open>
  Processes on the validator's state. A process commits transactions at the clock reading and on the
  database it finds; between two of them the rest of the system acts, clock included. The locale of
  \<open>Process\<close> is interpreted here on the steps of the system: a process whose transactions are steps
  keeps the state reachable, also when an exception ends it half way.
\<close>

type_synonym 'a process = "(system, pyerr, 'a) run"

definition commit :: "(system \<Rightarrow> system) \<Rightarrow> (ts \<Rightarrow> db \<Rightarrow> ('a \<times> db) res) \<Rightarrow> 'a process" where
  "commit others f = run_txn others (\<lambda>s. rbind (f (clock s) (store s)) (\<lambda>(x, d'). Inr (x, s\<lparr>store := d'\<rparr>)))"

text \<open>What the rest of the system does consists of steps of the system.\<close>

definition others_step :: "(system \<Rightarrow> system) \<Rightarrow> bool" where
  "others_step others = (\<forall>s. step\<^sup>*\<^sup>* s (others s))"

definition steps_under :: "(system \<Rightarrow> system) \<Rightarrow> system \<Rightarrow> system \<Rightarrow> bool" where
  "steps_under others s s' = (others_step others \<longrightarrow> step\<^sup>*\<^sup>* s s')"

interpretation proc: transactions "steps_under others" others for others
  by unfold_locales (auto simp: steps_under_def others_step_def intro: rtranclp_trans)

lemmas process_steps = proc.keeps_ret proc.keeps_fail proc.keeps_res proc.keeps_bind proc.keeps_catch proc.keeps_loop
  keeps_if keeps_option keeps_sum

lemma moves_steps: "moves (clock s) (workers s) (store s) d' \<Longrightarrow> step\<^sup>*\<^sup>* s (s\<lparr>store := d'\<rparr>)"
  unfolding moves_def by (cases s) simp

lemma keeps_commit:
  assumes "\<And>now js d x d'. f now d = Inr (x, d') \<Longrightarrow> moves now js d d'"
  shows "keeps (steps_under others) (commit others f)"
  unfolding commit_def
  by (rule proc.keeps_txn) (auto simp: rbind_eq_Inr steps_under_def intro!: moves_steps assms)

lemma run_reachable:
  assumes "keeps (steps_under others) m" and "others_step others" and "reachable s" and "m s = (r, s')"
  shows "reachable s'"
proof -
  have "step\<^sup>*\<^sup>* s s'" using keepsD [OF assms(1,4)] assms(2) by (simp add: steps_under_def)
  with assms(3) show ?thesis unfolding reachable_def by (meson rtranclp_trans)
qed

lemma ensures_commit:
  assumes "\<And>s. P s \<Longrightarrow> P (others s)"
    and "\<And>s x d'. P s \<Longrightarrow> f (clock s) (store s) = Inr (x, d') \<Longrightarrow> Q x (s\<lparr>store := d'\<rparr>)"
    and "\<And>s e. P s \<Longrightarrow> f (clock s) (store s) = Inl e \<Longrightarrow> E e s"
  shows "ensures P (commit others f) Q E"
  unfolding commit_def
proof (rule ensures_txn)
  fix s e
  assume "P s" and "rbind (f (clock s) (store s)) (\<lambda>(x, d'). Inr (x, s\<lparr>store := d'\<rparr>)) = Inl e"
  then show "E e s" using assms(3) by (cases "f (clock s) (store s)") auto
qed (use assms in \<open>auto simp: rbind_eq_Inr\<close>)

end
