(* ===== verification/Pipeline.thy ===== *)
theory Pipeline
  imports Workers Registry Concurrency
begin

text \<open>
  \<open>worker/pipeline.py\<close> with \<open>gate/identity.py\<close>: the gates of one claimed submission, in order and
  fail-fast, with the events and the job updates it commits on the way. What git, the builder, the
  source lexers and the language model answer are fields of \<open>pipeline_env\<close>; so is what the other
  processes do to the database between two transactions. The log lines, the workspace directories
  and the eviction of a pushed image from the local cache leave no trace in the state.
\<close>

record pipeline_env =
  pl_intake :: intake_env
  pl_registered :: "string list option"
  pl_ghcr_owner :: string
  pl_ghcr_image :: string
  pl_ghcr_baseline :: string
  pl_base_apply :: "string \<Rightarrow> string \<Rightarrow> string \<Rightarrow> gate_result" \<comment> \<open>repository, commit, patch\<close>
  pl_decode :: "string \<Rightarrow> string option"
  pl_git :: "string \<Rightarrow> git_run"
  pl_source_view :: "jdict \<Rightarrow> string \<Rightarrow> string + json" \<comment> \<open>left: the text of an error that is caught\<close>
  pl_obfuscation :: "json \<Rightarrow> string \<Rightarrow> gate_result"
  pl_llm_review :: "json \<Rightarrow> string \<Rightarrow> json \<Rightarrow> gate_result"
  pl_mock_build :: bool
  pl_build_mock :: "string \<Rightarrow> string \<Rightarrow> gate_result"
  pl_build_image :: "campaign_row \<Rightarrow> string \<Rightarrow> string \<Rightarrow> string \<Rightarrow> gate_result" \<comment> \<open>base image, patch, hash\<close>
  pl_max_attempts :: int
  pl_retry_after :: json
  pl_show :: "json \<Rightarrow> string"
  pl_others :: "system \<Rightarrow> system"

text \<open>The joined row of \<open>claim_next_job\<close>.\<close>

record claimed_job =
  cj_submission :: submission_row
  cj_campaign :: campaign_row
  cj_job_id :: int
  cj_attempt :: int

abbreviation sub_id :: "claimed_job \<Rightarrow> uuid" where
  "sub_id row \<equiv> s_id (cj_submission row)"

section \<open>Identity\<close>

definition check_identity :: "string \<Rightarrow> string list \<Rightarrow> campaign_view \<Rightarrow> string \<Rightarrow> gate_result" where
  "check_identity hotkey registered campaign baseline_commit = (let c = cv_manifest campaign in
     if hotkey \<notin> set registered then gate_reject ''hotkey not registered on subnet'' [(''hotkey'', JStr hotkey)]
     else if cv_status campaign \<noteq> ''open''
     then gate_reject (''campaign status is '' @ cv_status campaign @ '', expected open'') [(''campaign_id'', JStr (c_id c))]
     else if lower baseline_commit \<noteq> lower (c_baseline_commit c)
     then gate_reject ''baseline_commit mismatch'' [(''committed'', JStr (lower baseline_commit)), (''expected'', JStr (lower (c_baseline_commit c)))]
     else gate_success ''identity_ok'' [(''hotkey'', JStr hotkey), (''campaign_id'', JStr (c_id c))] [])"

section \<open>What a run of the pipeline commits\<close>

definition gate_event :: "pipeline_env \<Rightarrow> claimed_job \<Rightarrow> submission_state \<Rightarrow> jdict \<Rightarrow> unit process" where
  "gate_event env row st detail = commit (pl_others env) (\<lambda>now d.
     rbind (append_event now (sub_id row) st None (Some detail) d) (\<lambda>d'. Inr ((), d')))"

definition job_failed :: "pipeline_env \<Rightarrow> claimed_job \<Rightarrow> string \<Rightarrow> unit process" where
  "job_failed env row reason = commit (pl_others env) (\<lambda>now d.
     Inr ((), set_job_status now (sub_id row) JobFailed (Some (cj_job_id row)) (Some reason) False d))"

text \<open>\<open>_fail\<close>, and the result with which the pipeline returns after it.\<close>

definition fail_gate :: "pipeline_env \<Rightarrow> claimed_job \<Rightarrow> gate_result \<Rightarrow> gate_result process" where
  "fail_gate env row res = run_bind (gate_event env row Rejected (jupdate [(''reason'', JStr (gr_reason res))] (gr_evidence res)))
     (\<lambda>_. run_bind (job_failed env row (gr_reason res)) (\<lambda>_. run_ret res))"

definition read_campaign :: "pipeline_env \<Rightarrow> claimed_job \<Rightarrow> campaign_view option process" where
  "read_campaign env row = commit (pl_others env) (\<lambda>now d.
     rbind (get_campaign (pl_intake env) d (s_campaign_id (cj_submission row))) (\<lambda>c. Inr (c, d)))"

section \<open>Gates c to d2\<close>

text \<open>
  The optional limits of \<open>bench.patch_limits\<close>. The seed tool admits positive integers and booleans
  only; a limit of another type is outside the model and raises here.
\<close>

definition limit_of :: "json \<Rightarrow> int option res" where
  "limit_of v = (case v of JNull \<Rightarrow> Inr None | JInt i \<Rightarrow> Inr (Some i) | _ \<Rightarrow> Inl (PyTypeError ''patch_limits''))"

definition bench_of :: "campaign_row \<Rightarrow> jdict" where
  "bench_of c = (case c_bench c of None \<Rightarrow> [] | Some b \<Rightarrow> b)"

definition patch_limits :: "campaign_row \<Rightarrow> jdict res" where
  "patch_limits c = (case jget (bench_of c) ''patch_limits'' of JObj l \<Rightarrow> Inr l
     | v \<Rightarrow> if jtruthy v then Inl (AttributeError ''get'') else Inr [])"

definition surface_rules_of :: "campaign_row \<Rightarrow> surface_rules res" where
  "surface_rules_of c = rbind (patch_limits c) (\<lambda>l. rbind (limit_of (jget l ''max_patch_bytes'')) (\<lambda>size.
     rbind (limit_of (jget l ''max_added_line_chars'')) (\<lambda>chars.
     Inr \<lparr>sf_allowed_paths = c_allowed_paths c, sf_denied_paths = c_denied_paths c, sf_max_patch_bytes = size,
       sf_max_added_line_chars = chars, sf_reject_renames = jtruthy (jget l ''reject_renames''),
       sf_reject_mode_changes = jtruthy (jget l ''reject_mode_changes'')\<rparr>)))"

text \<open>
  \<open>_defer_llm_review\<close>: \<open>None\<close> when the attempts ran out. A deferral that does not land is only logged.
\<close>

definition defer_llm_review :: "pipeline_env \<Rightarrow> claimed_job \<Rightarrow> gate_result \<Rightarrow> gate_result option process" where
  "defer_llm_review env row res = (if cj_attempt row \<ge> pl_max_attempts env then run_ret None
     else run_bind (commit (pl_others env) (\<lambda>now d. Inr ((), snd (defer_job now (cj_job_id row) (cj_attempt row)
         (gr_reason res @ '': '' @ (if has_key (gr_evidence res) ''detail'' then pl_show env (jget (gr_evidence res) ''detail'') else [])) d)))) (\<lambda>_.
       run_ret (Some (\<lparr>gr_ok = False, gr_state = ''surface_ok'', gr_reason = ''llm_review_deferred'',
         gr_evidence = jupdate (gr_evidence res) [(''retry_in_s'', pl_retry_after env), (''attempt'', JInt (cj_attempt row))],
         gr_patch_bytes = []\<rparr>))))"

definition review_source :: "pipeline_env \<Rightarrow> claimed_job \<Rightarrow> json \<Rightarrow> json \<Rightarrow> gate_result option process" where
  "review_source env row view spec = (let res = pl_llm_review env view (s_patch_hash (cj_submission row)) spec in
     if gr_ok res then run_ret None
     else run_bind (if jtruthy (jget (gr_evidence res) ''retryable'') then defer_llm_review env row res else run_ret None) (\<lambda>deferred.
       case deferred of Some r \<Rightarrow> run_ret (Some r)
       | None \<Rightarrow> run_bind (fail_gate env row res) (\<lambda>r. run_ret (Some r))))"

definition review_patch :: "pipeline_env \<Rightarrow> claimed_job \<Rightarrow> campaign_row \<Rightarrow> jdict \<Rightarrow> string \<Rightarrow> gate_result option process" where
  "review_patch env row c evidence patch = (let
     obfuscation = jget (bench_of c) ''obfuscation''; llm_review = jget (bench_of c) ''llm_review'' in
     if \<not> jtruthy obfuscation \<and> \<not> jtruthy llm_review then run_ret None
     else case pl_source_view env evidence patch of
       Inl e \<Rightarrow> run_bind (fail_gate env row (gate_reject ''source_view_failed'' [(''error'', JStr (take 500 e))])) (\<lambda>r. run_ret (Some r))
     | Inr view \<Rightarrow> (let obf = pl_obfuscation env view patch in
         if jtruthy obfuscation \<and> \<not> gr_ok obf then run_bind (fail_gate env row obf) (\<lambda>r. run_ret (Some r))
         else if jtruthy llm_review then review_source env row view llm_review else run_ret None))"

definition apply_and_review :: "pipeline_env \<Rightarrow> claimed_job \<Rightarrow> campaign_row \<Rightarrow> string \<Rightarrow> gate_result option process" where
  "apply_and_review env row c patch = (let
     apply_res = pl_base_apply env (c_baseline_repo (cj_campaign row)) (c_baseline_commit c) patch in
     if \<not> gr_ok apply_res then run_bind (fail_gate env row apply_res) (\<lambda>r. run_ret (Some r))
     else run_bind (gate_event env row Applied [(''ok'', JBool True)]) (\<lambda>_.
     run_bind (run_res (rbind (surface_rules_of c) (\<lambda>rules. check_surface (pl_decode env) (pl_git env) rules patch))) (\<lambda>surface_res.
     if \<not> gr_ok surface_res then run_bind (fail_gate env row surface_res) (\<lambda>r. run_ret (Some r))
     else run_bind (gate_event env row SurfaceOk [(''files'', jget (gr_evidence surface_res) ''files'')]) (\<lambda>_.
       review_patch env row c (gr_evidence apply_res) patch))))"

section \<open>The build\<close>

definition build_base_image :: "pipeline_env \<Rightarrow> campaign_row \<Rightarrow> string res" where
  "build_base_image env c = (let digest = jget (bench_of c) ''baseline_engine_image_digest'' in
     if jtruthy digest then (case digest of JStr s \<Rightarrow> baseline_engine_image_ref (pl_ghcr_owner env) (pl_ghcr_image env) s
       | _ \<Rightarrow> Inl (AttributeError ''strip''))
     else baseline_build_image_ref (pl_ghcr_owner env) (pl_ghcr_baseline env) (c_base_image_digest c))"

text \<open>Only a \<open>ValueError\<close> of the base image is a rejection; another exception ends the run.\<close>

definition build_patch :: "pipeline_env \<Rightarrow> claimed_job \<Rightarrow> campaign_row \<Rightarrow> string \<Rightarrow> gate_result res" where
  "build_patch env row c patch = (let h = s_patch_hash (cj_submission row) in
     if pl_mock_build env then Inr (pl_build_mock env h patch)
     else case build_base_image env c of
       Inl (ValueError msg) \<Rightarrow> Inr (gate_reject ''base_image_digest_invalid''
         [(''error'', JStr (ie_str_exc (pl_intake env) (ValueError msg))), (''base_image_digest'', JStr (c_base_image_digest c))])
     | Inl e \<Rightarrow> Inl e
     | Inr base_image \<Rightarrow> Inr (pl_build_image env c base_image patch h))"

definition image_ref_of :: "pipeline_env \<Rightarrow> gate_result \<Rightarrow> string" where
  "image_ref_of env build = (let v = jget (gr_evidence build) ''image_ref'' in
     if jtruthy v then (case v of JStr s \<Rightarrow> s | _ \<Rightarrow> pl_show env v) else [])"

definition record_build :: "pipeline_env \<Rightarrow> claimed_job \<Rightarrow> campaign_row \<Rightarrow> gate_result \<Rightarrow> unit process" where
  "record_build env row c build = (let ref = image_ref_of env build; ev = gr_evidence build in
     run_bind (commit (pl_others env) (\<lambda>now d. Inr ((), set_engine_image (sub_id row) ref d))) (\<lambda>_.
     run_bind (if jtruthy (jget ev ''pushed'') then gate_event env row ImagePushed [(''image_ref'', JStr ref), (''image_digest'', jget ev ''image_digest'')]
       else run_ret ()) (\<lambda>_.
     run_bind (gate_event env row Built [(''image_ref'', JStr ref), (''image_tag'', jget ev ''image_tag''),
       (''mock'', JBool (jtruthy (jget ev ''mock''))), (''build_log'', jget ev ''build_log'')]) (\<lambda>_.
     commit (pl_others env) (\<lambda>now d. rbind (complete_gates_job now (sub_id row) (Some (cj_job_id row)) (c_bench c \<noteq> None) d)
       (\<lambda>d'. Inr ((), d')))))))"

definition build_gate :: "pipeline_env \<Rightarrow> claimed_job \<Rightarrow> campaign_row \<Rightarrow> string \<Rightarrow> gate_result process" where
  "build_gate env row c patch = run_bind (gate_event env row Building []) (\<lambda>_.
     run_bind (run_res (build_patch env row c patch)) (\<lambda>build.
     if \<not> gr_ok build then fail_gate env row build
     else run_bind (record_build env row c build) (\<lambda>_. run_ret build)))"

section \<open>The pipeline\<close>

definition registered_for :: "pipeline_env \<Rightarrow> claimed_job \<Rightarrow> string list" where
  "registered_for env row = (case pl_registered env of None \<Rightarrow> [s_hotkey (cj_submission row)] | Some ks \<Rightarrow> ks)"

definition verify_patch :: "pipeline_env \<Rightarrow> claimed_job \<Rightarrow> gate_result" where
  "verify_patch env row = (let s = cj_submission row in
     check_integrity (pl_intake env) (s_retrieval_url s) (s_patch_hash s) (Some (s_hotkey s)) (Some (s_campaign_id s)))"

definition run_gates :: "pipeline_env \<Rightarrow> claimed_job \<Rightarrow> campaign_view \<Rightarrow> gate_result process" where
  "run_gates env row campaign = (let s = cj_submission row; c = cv_manifest campaign in
     run_bind (gate_event env row PickedUp [(''job_id'', JInt (cj_job_id row))]) (\<lambda>_.
     let id_res = check_identity (s_hotkey s) (registered_for env row) campaign (s_baseline_commit s) in
     if \<not> gr_ok id_res then fail_gate env row id_res
     else let int_res = verify_patch env row; h = jget (gr_evidence int_res) ''patch_hash'' in
     if \<not> gr_ok int_res then fail_gate env row int_res
     else run_bind (gate_event env row Fetched [(''patch_hash'', h), (''size'', jget (gr_evidence int_res) ''size'')]) (\<lambda>_.
     run_bind (gate_event env row Verified [(''patch_hash'', h), (''identity'', JStr ''ok'')]) (\<lambda>_.
     run_bind (apply_and_review env row c (gr_patch_bytes int_res)) (\<lambda>stop. case stop of
       Some r \<Rightarrow> run_ret r
     | None \<Rightarrow> build_gate env row c (gr_patch_bytes int_res))))))"

definition process_submission :: "pipeline_env \<Rightarrow> claimed_job \<Rightarrow> gate_result process" where
  "process_submission env row = run_bind (read_campaign env row) (\<lambda>campaign_opt. case campaign_opt of
       None \<Rightarrow> fail_gate env row (gate_reject ''campaign_missing'' [(''campaign_id'', JStr (s_campaign_id (cj_submission row)))])
     | Some campaign \<Rightarrow> run_gates env row campaign)"

text \<open>\<open>run_once\<close> of \<open>worker/main.py\<close> on the queue of submissions: claim a job and process it.\<close>

definition run_gates_once :: "pipeline_env \<Rightarrow> int \<Rightarrow> bool process" where
  "run_gates_once env retry_us = run_bind
     (commit (pl_others env) (\<lambda>now d. Inr (claim_next_job now retry_us d))) (\<lambda>claimed.
     case claimed of None \<Rightarrow> run_ret False
     | Some (s, c, jid, attempt) \<Rightarrow>
         run_bind (process_submission env \<lparr>cj_submission = s, cj_campaign = c, cj_job_id = jid, cj_attempt = attempt\<rparr>)
           (\<lambda>_. run_ret True))"

section \<open>Every transaction of the pipeline is a step of the system\<close>

abbreviation steps :: "pipeline_env \<Rightarrow> 'a process \<Rightarrow> bool" where
  "steps env m \<equiv> keeps (steps_under (pl_others env)) m"

lemma steps_gate_event: "st \<noteq> RoundAssigned \<Longrightarrow> steps env (gate_event env row st x)"
  unfolding gate_event_def by (rule keeps_commit) (auto simp: rbind_eq_Inr intro: moves_write(1) [OF gate_write.report])

lemma steps_job_failed: "steps env (job_failed env row reason)"
  unfolding job_failed_def by (rule keeps_commit) (auto intro: moves_write(1) [OF gate_write.job_status])

lemma steps_fail_gate: "steps env (fail_gate env row res)"
  unfolding fail_gate_def by (intro process_steps steps_gate_event steps_job_failed) simp

lemma steps_read_campaign: "steps env (read_campaign env row)"
  unfolding read_campaign_def by (rule keeps_commit) (auto simp: rbind_eq_Inr)

lemma steps_review_source: "steps env (review_source env row view spec)"
proof -
  have "steps env (defer_llm_review env row res)" for res
    unfolding defer_llm_review_def by (intro process_steps keeps_commit) (auto intro: moves_write(1) [OF gate_write.job_defer])
  then show ?thesis unfolding review_source_def Let_def by (intro process_steps steps_fail_gate)
qed

lemma steps_review_patch: "steps env (review_patch env row c ev patch)"
  unfolding review_patch_def Let_def by (intro process_steps steps_fail_gate steps_review_source)

lemma steps_apply_and_review: "steps env (apply_and_review env row c patch)"
  unfolding apply_and_review_def Let_def by (intro process_steps steps_fail_gate steps_gate_event steps_review_patch) simp_all

lemma steps_record_build: "steps env (record_build env row c build)"
proof -
  have "steps env (commit (pl_others env) (\<lambda>now d. Inr ((), set_engine_image sid ref d)))" for sid ref
    by (rule keeps_commit) (auto intro: moves_write(1) [OF gate_write.image])
  moreover have "steps env (commit (pl_others env) (\<lambda>now d. rbind (complete_gates_job now sid jid enqueue d) (\<lambda>d'. Inr ((), d'))))"
    for sid jid enqueue
    by (rule keeps_commit) (auto simp: rbind_eq_Inr intro: moves_write(1) [OF gate_write.gates_done])
  ultimately show ?thesis unfolding record_build_def Let_def by (intro process_steps steps_gate_event) simp_all
qed

lemma steps_build_gate: "steps env (build_gate env row c patch)"
  unfolding build_gate_def by (intro process_steps steps_fail_gate steps_gate_event steps_record_build) simp

lemma steps_process_submission: "steps env (process_submission env row)"
  unfolding process_submission_def run_gates_def Let_def
  by (intro process_steps steps_read_campaign steps_fail_gate steps_gate_event steps_apply_and_review steps_build_gate) simp_all

lemma steps_run_gates_once: "steps env (run_gates_once env retry_us)"
proof -
  have "steps env (commit (pl_others env) (\<lambda>now d. Inr (claim_next_job now retry_us d)))"
    by (rule keeps_commit) (metis moves_write(1) gate_write.claim_job snd_conv sum.inject(2))
  then show ?thesis unfolding run_gates_once_def 
    by (intro process_steps) (auto intro: process_steps steps_process_submission)
qed


section \<open>What a run leaves behind\<close>

text \<open>
  The submission's state and its job as the database shows them, the state in which the pipeline holds
  both, and the rely on the other processes: they commit steps of the system and leave these two alone.
\<close>

definition desk :: "claimed_job \<Rightarrow> db \<Rightarrow> submission_state option \<times> (uuid \<times> job_status \<times> int) list" where
  "desk row d = (latest_state d (sub_id row),
     map (\<lambda>j. (j_submission_id j, j_status j, j_attempts j)) (filter (\<lambda>j. j_id j = cj_job_id row) (jobs d)))"

definition held :: "claimed_job \<Rightarrow> submission_state option \<Rightarrow> job_status \<Rightarrow> system \<Rightarrow> bool" where
  "held row st jst s = (reachable s \<and> desk row (store s) = (st, [(sub_id row, jst, cj_attempt row)]))"

definition leaves_alone :: "claimed_job \<Rightarrow> (system \<Rightarrow> system) \<Rightarrow> bool" where
  "leaves_alone row others = (others_step others \<and> (\<forall>s. desk row (store (others s)) = desk row (store s)))"

lemma held_others: "leaves_alone row others \<Longrightarrow> held row st jst s \<Longrightarrow> held row st jst (others s)"
  unfolding held_def leaves_alone_def others_step_def reachable_def by (metis rtranclp_trans)

lemma held_moves:
  assumes "held row st jst s" and "gate_write (clock s) (store s) d'" and "desk row d' = (st', [(sub_id row, jst', cj_attempt row)])"
  shows "held row st' jst' (s\<lparr>store := d'\<rparr>)"
  using assms reachable_moves [OF _ moves_write(1) [OF assms(2)]] by (simp add: held_def)

lemma held_ok:
  assumes "held row st jst s"
  shows "log_ok (clock s) (store s)" and "sub_id row \<in> submission_ids (store s)"
proof -
  have ok: "system_ok (clock s) (store s) (workers s)" using assms reachable_ok by (simp add: held_def)
  then show "log_ok (clock s) (store s)" by (simp add: system_ok_def)
  have "(sub_id row, jst, cj_attempt row) \<in> set (snd (desk row (store s)))" using assms by (simp add: held_def)
  then obtain j where "j \<in> set (jobs (store s))" "j_submission_id j = sub_id row" by (auto simp: desk_def)
  then show "sub_id row \<in> submission_ids (store s)" using ok by (auto simp: system_ok_def db_ok_def jobs_ok_def)
qed

lemma desk_add_event:
  "log_ok now d \<Longrightarrow> desk row (add_event now (sub_id row) st ref x d) = (Some st, snd (desk row d))"
  by (simp add: desk_def latest_state_add_event)

lemma desk_jobs:
  assumes "\<And>j. j_id (f j) = j_id j \<and> j_submission_id (f j) = j_submission_id j \<and> j_attempts (f j) = j_attempts j \<and> j_status (f j) = jst"
    and "\<And>j. j_id j = cj_job_id row \<Longrightarrow> j_status j = old \<Longrightarrow> j_attempts j = cj_attempt row \<Longrightarrow> P j"
    and "desk row d = (st, [(sub_id row, old, cj_attempt row)])"
  shows "desk row (d\<lparr>jobs := update_where P f (jobs d)\<rparr>) = (st, [(sub_id row, jst, cj_attempt row)])"
proof -
  have "map (\<lambda>j. (j_submission_id j, j_status j, j_attempts j)) (filter (\<lambda>j. j_id j = cj_job_id row) (update_where P f xs)) =
      map (\<lambda>(a, _, n). (a, jst, n)) (map (\<lambda>j. (j_submission_id j, j_status j, j_attempts j)) (filter (\<lambda>j. j_id j = cj_job_id row) xs))"
    if "\<And>j. j \<in> set xs \<Longrightarrow> j_id j = cj_job_id row \<Longrightarrow> P j" for xs
    using that by (induction xs) (auto simp: assms(1))
  moreover have "P j" if j: "j \<in> set (jobs d)" "j_id j = cj_job_id row" for j
  proof -
    have "(j_submission_id j, j_status j, j_attempts j) \<in> set (snd (desk row d))" using j by (auto simp: desk_def)
    then show ?thesis using assms(2,3) j(2) by simp
  qed
  ultimately show ?thesis using assms(3) by (auto simp: desk_def latest_state_def latest_event_def events_of_def)
qed

text \<open>The effects, one per kind of transaction; none of them raises.\<close>

lemma held_event:
  assumes "leaves_alone row (pl_others env)" and "st \<noteq> RoundAssigned"
  shows "ensures (held row q jst) (gate_event env row st x) (\<lambda>_. held row (Some st) jst) E"
  unfolding gate_event_def
proof (rule ensures_commit)
  fix s r d'
  assume h: "held row q jst s"
    and "rbind (append_event (clock s) (sub_id row) st None (Some x) (store s)) (\<lambda>d'. Inr ((), d')) = Inr (r, d')"
  then have w: "append_event (clock s) (sub_id row) st None (Some x) (store s) = Inr d'" by (simp add: rbind_eq_Inr)
  then have "d' = add_event (clock s) (sub_id row) st None x (store s)" by (simp add: append_event_def insert_event_eq_Inr)
  then have "desk row d' = (Some st, [(sub_id row, jst, cj_attempt row)])"
    using h held_ok(1) [OF h] by (simp add: desk_add_event held_def)
  with h gate_write.report [OF assms(2) w] show "held row (Some st) jst (s\<lparr>store := d'\<rparr>)" by (rule held_moves)
next
  fix s e
  assume h: "held row q jst s"
    and "rbind (append_event (clock s) (sub_id row) st None (Some x) (store s)) (\<lambda>d'. Inr ((), d')) = Inl e"
  then show "E e s" using held_ok(2) [OF h] by (simp add: append_event_def insert_event_ok)
qed (rule held_others [OF assms(1)])

lemma held_commit:
  assumes "leaves_alone row others" and "\<And>now d. gate_write now d (g now d)"
    and "\<And>now d. desk row d = (q, [(sub_id row, jst, cj_attempt row)]) \<Longrightarrow> desk row (g now d) = (q, [(sub_id row, jst', cj_attempt row)])"
  shows "ensures (held row q jst) (commit others (\<lambda>now d. Inr ((), g now d))) (\<lambda>_. held row q jst') E"
proof (rule ensures_commit)
  fix s :: system and x d'
  assume h: "held row q jst s" and "Inr ((), g (clock s) (store s)) = Inr (x, d')"
  then show "held row q jst' (s\<lparr>store := d'\<rparr>)" using held_moves [OF h assms(2)] assms(3) by (auto simp: held_def)
qed (use held_others [OF assms(1)] in auto)

lemma held_job_failed:
  assumes "leaves_alone row (pl_others env)"
  shows "ensures (held row q jst) (job_failed env row reason) (\<lambda>_. held row q JobFailed) E"
  unfolding job_failed_def
  by (intro held_commit assms gate_write.job_status)
    (auto simp: set_job_status_def job_target_def clear_activity_def intro!: desk_jobs)

lemma held_fail_gate:
  assumes "leaves_alone row (pl_others env)"
  shows "ensures (held row q JobRunning) (fail_gate env row res) (\<lambda>r s. r = res \<and> held row (Some Rejected) JobFailed s) E"
  unfolding fail_gate_def
  by (intro ensures_bind [OF held_event] ensures_bind [OF held_job_failed] ensures_ret assms) auto

lemma held_image:
  assumes "leaves_alone row others"
  shows "ensures (held row q jst) (commit others (\<lambda>now d. Inr ((), set_engine_image sid ref d))) (\<lambda>_. held row q jst) E"
  by (intro held_commit assms gate_write.image)
    (simp add: desk_def set_engine_image_def latest_state_def latest_event_def events_of_def)

lemma held_complete:
  assumes "leaves_alone row others"
  shows "ensures (held row q JobRunning)
    (commit others (\<lambda>now d. rbind (complete_gates_job now (sub_id row) (Some (cj_job_id row)) enqueue d) (\<lambda>d'. Inr ((), d'))))
    (\<lambda>_. held row (if enqueue then Some BenchQueued else q) JobDone) E"
proof (rule ensures_commit)
  fix s :: system and x d'
  let ?f = "\<lambda>j. j\<lparr>j_status := JobDone, j_last_error := None, j_updated_at := clock s\<rparr>"
  let ?d = "(store s)\<lparr>jobs := update_where (job_target (sub_id row) (Some (cj_job_id row))) ?f (jobs (store s))\<rparr>"
  assume h: "held row q JobRunning s"
    and "rbind (complete_gates_job (clock s) (sub_id row) (Some (cj_job_id row)) enqueue (store s)) (\<lambda>d'. Inr ((), d')) = Inr (x, d')"
  then have w: "complete_gates_job (clock s) (sub_id row) (Some (cj_job_id row)) enqueue (store s) = Inr d'" by (simp add: rbind_eq_Inr)
  then have d': "d' = (if enqueue then add_event (clock s) (sub_id row) BenchQueued None [] ?d else ?d)"
    by (auto simp: complete_gates_job_def insert_event_eq_Inr split: if_splits)
  have "desk row ?d = (q, [(sub_id row, JobDone, cj_attempt row)])"
    using h by (intro desk_jobs [where old = JobRunning]) (auto simp: job_target_def held_def)
  moreover have "log_ok (clock s) ?d" using held_ok(1) [OF h] by (simp add: log_ok_def)
  ultimately have "desk row d' = (if enqueue then Some BenchQueued else q, [(sub_id row, JobDone, cj_attempt row)])"
    unfolding d' by (simp add: desk_add_event)
  with h gate_write.gates_done [OF w] show "held row (if enqueue then Some BenchQueued else q) JobDone (s\<lparr>store := d'\<rparr>)"
    by (rule held_moves)
next
  fix s e
  assume h: "held row q JobRunning s"
    and "rbind (complete_gates_job (clock s) (sub_id row) (Some (cj_job_id row)) enqueue (store s)) (\<lambda>d'. Inr ((), d')) = Inl e"
  moreover have "sub_id row \<in> submission_ids ((store s)\<lparr>jobs := js\<rparr>)" for js
    using held_ok(2) [OF h] by (simp add: submission_ids_def)
  ultimately show "E e s" by (simp add: complete_gates_job_def Let_def insert_event_ok split: if_splits)
qed (rule held_others [OF assms])

lemma held_defer:
  assumes "leaves_alone row (pl_others env)"
  shows "ensures (held row q JobRunning) (defer_llm_review env row res)
    (\<lambda>r s. case r of None \<Rightarrow> held row q JobRunning s
       | Some g \<Rightarrow> \<not> gr_ok g \<and> gr_reason g = ''llm_review_deferred'' \<and> cj_attempt row < pl_max_attempts env \<and> held row q JobPending s) E"
proof -
  have "ensures (held row q JobRunning) (commit (pl_others env) (\<lambda>now d. Inr ((), snd (defer_job now (cj_job_id row) (cj_attempt row) msg d))))
      (\<lambda>_. held row q JobPending) E" for msg
    by (intro held_commit assms gate_write.job_defer)
      (auto simp: defer_job_def running_attempt_def clear_activity_def intro!: desk_jobs)
  then show ?thesis unfolding defer_llm_review_def by (intro ensures_if ensures_ret ensures_bind) auto
qed

text \<open>The three ways to settle, and where an exception can come from.\<close>

definition gates_settled :: "pipeline_env \<Rightarrow> claimed_job \<Rightarrow> campaign_row \<Rightarrow> gate_result \<Rightarrow> system \<Rightarrow> bool" where
  "gates_settled env row c res s = (if gr_ok res then held row (Some (if c_bench c \<noteq> None then BenchQueued else Built)) JobDone s
     else held row (Some Rejected) JobFailed s \<or>
       (gr_reason res = ''llm_review_deferred'' \<and> cj_attempt row < pl_max_attempts env \<and> jtruthy (jget (bench_of c) ''llm_review'') \<and>
        held row (Some SurfaceOk) JobPending s))"

definition check_campaign_surface :: "pipeline_env \<Rightarrow> campaign_row \<Rightarrow> string \<Rightarrow> gate_result res" where
  "check_campaign_surface env c patch = rbind (surface_rules_of c) (\<lambda>rules. check_surface (pl_decode env) (pl_git env) rules patch)"

definition submitted_patch :: "pipeline_env \<Rightarrow> claimed_job \<Rightarrow> string" where
  "submitted_patch env row = gr_patch_bytes (verify_patch env row)"

definition stranded :: "pipeline_env \<Rightarrow> claimed_job \<Rightarrow> campaign_row \<Rightarrow> pyerr \<Rightarrow> system \<Rightarrow> bool" where
  "stranded env row c e s = ((\<exists>q. held row q JobRunning s) \<and> (let patch = submitted_patch env row in
     check_campaign_surface env c patch = Inl e \<or> build_patch env row c patch = Inl e))"

definition stopped :: "pipeline_env \<Rightarrow> claimed_job \<Rightarrow> campaign_row \<Rightarrow> gate_result option \<Rightarrow> system \<Rightarrow> bool" where
  "stopped env row c stop s = (case stop of None \<Rightarrow> held row (Some SurfaceOk) JobRunning s
     | Some res \<Rightarrow> \<not> gr_ok res \<and> gates_settled env row c res s)"

lemma stopped_None: "stopped env row c None = held row (Some SurfaceOk) JobRunning"
  by (simp add: fun_eq_iff stopped_def)

lemma fail_settles:
  assumes "leaves_alone row (pl_others env)" and "\<not> gr_ok res"
  shows "ensures (held row q JobRunning) (fail_gate env row res) (gates_settled env row c) E"
  by (rule ensures_weaken [OF held_fail_gate [OF assms(1)]]) (use assms(2) in \<open>auto simp: gates_settled_def\<close>)

lemma fail_stops:
  assumes "leaves_alone row (pl_others env)" and "\<not> gr_ok res"
  shows "ensures (held row q JobRunning) (run_bind (fail_gate env row res) (\<lambda>r. run_ret (Some r))) (stopped env row c) E"
  by (rule ensures_bind [OF held_fail_gate [OF assms(1)]], rule ensures_ret) (use assms(2) in \<open>auto simp: stopped_def gates_settled_def\<close>)

lemma gate_reject_not_ok [simp]: "\<not> gr_ok (gate_reject reason ev)"
  by (simp add: gate_reject_def)

lemma review_source_stops:
  assumes "leaves_alone row (pl_others env)" and "jtruthy (jget (bench_of c) ''llm_review'')"
  shows "ensures (held row (Some SurfaceOk) JobRunning) (review_source env row view spec) (stopped env row c) E"
proof -
  let ?res = "pl_llm_review env view (s_patch_hash (cj_submission row)) spec"
  let ?A = "\<lambda>r s. case r of None \<Rightarrow> held row (Some SurfaceOk) JobRunning s
     | Some g \<Rightarrow> \<not> gr_ok g \<and> gr_reason g = ''llm_review_deferred'' \<and> cj_attempt row < pl_max_attempts env \<and> held row (Some SurfaceOk) JobPending s"
  have first: "ensures (held row (Some SurfaceOk) JobRunning)
      (if jtruthy (jget (gr_evidence ?res) ''retryable'') then defer_llm_review env row ?res else run_ret None) ?A E"
    by (intro ensures_if held_defer [OF assms(1)] ensures_ret) simp
  have "ensures (?A r) (case r of Some g \<Rightarrow> run_ret (Some g)
       | None \<Rightarrow> run_bind (fail_gate env row ?res) (\<lambda>r. run_ret (Some r))) (stopped env row c) E" if "\<not> gr_ok ?res" for r
    using fail_stops [OF assms(1) that] assms(2) by (cases r) (auto simp: stopped_def gates_settled_def intro!: ensures_ret)
  then show ?thesis unfolding review_source_def Let_def
    by (intro ensures_if ensures_ret ensures_bind [OF first]) (auto simp: stopped_def)
qed

lemma review_patch_stops:
  assumes "leaves_alone row (pl_others env)"
  shows "ensures (held row (Some SurfaceOk) JobRunning) (review_patch env row c ev patch) (stopped env row c) E"
proof (cases "pl_source_view env ev patch")
  case (Inl e)
  then show ?thesis unfolding review_patch_def Let_def
    by (auto intro!: ensures_ret fail_stops [OF assms] simp: stopped_def)
next
  case (Inr view)
  then show ?thesis unfolding review_patch_def Let_def
    by (auto intro!: ensures_ret fail_stops [OF assms] review_source_stops [OF assms] simp: stopped_def)
qed

lemma held_res:
  "(\<And>s e. held row q jst s \<Longrightarrow> r = Inl e \<Longrightarrow> E e s) \<Longrightarrow> ensures (held row q jst) (run_res r) (\<lambda>_. held row q jst) E"
  by (rule ensures_res)

lemma apply_and_review_stops:
  assumes "leaves_alone row (pl_others env)"
  shows "ensures (held row q JobRunning) (apply_and_review env row c (submitted_patch env row)) (stopped env row c) (stranded env row c)"
  unfolding apply_and_review_def Let_def check_campaign_surface_def [symmetric]
proof (intro ensures_if ensures_bind [OF held_event [OF assms]] ensures_bind [OF held_res] fail_stops [OF assms] review_patch_stops [OF assms])
  fix s e
  assume "held row (Some Applied) JobRunning s" "check_campaign_surface env c (submitted_patch env row) = Inl e"
  then show "stranded env row c e s" by (auto simp: stranded_def Let_def)
qed simp_all

lemma record_build_settles:
  assumes "leaves_alone row (pl_others env)" and "gr_ok build"
  shows "ensures (held row q JobRunning) (run_bind (record_build env row c build) (\<lambda>_. run_ret build)) (gates_settled env row c) E"
proof -
  let ?b = "jtruthy (jget (gr_evidence build) ''pushed'')"
  have pushed: "ensures (held row q JobRunning) (if ?b then gate_event env row ImagePushed x else run_ret ())
      (\<lambda>_. held row (if ?b then Some ImagePushed else q) JobRunning) E" for x
    by (auto intro: held_event [OF assms(1)] ensures_ret)
  have "ensures (held row q JobRunning) (record_build env row c build)
      (\<lambda>_. held row (if c_bench c \<noteq> None then Some BenchQueued else Some Built) JobDone) E"
    unfolding record_build_def Let_def
    by (intro ensures_bind [OF held_image [OF assms(1)]] ensures_bind [OF pushed] ensures_bind [OF held_event [OF assms(1)]]
        held_complete [OF assms(1)]) simp
  then show ?thesis using assms(2) by (intro ensures_bind [where A = "\<lambda>_. held row (if c_bench c \<noteq> None then Some BenchQueued else Some Built) JobDone"]
      ensures_ret) (auto simp: gates_settled_def split: if_splits)
qed

lemma build_gate_settles:
  assumes "leaves_alone row (pl_others env)"
  shows "ensures (held row q JobRunning) (build_gate env row c (submitted_patch env row)) (gates_settled env row c) (stranded env row c)"
  unfolding build_gate_def
proof (intro ensures_if ensures_bind [OF held_event [OF assms]] ensures_bind [OF held_res] fail_settles [OF assms] record_build_settles [OF assms])
  fix s e
  assume "held row (Some Building) JobRunning s" "build_patch env row c (submitted_patch env row) = Inl e"
  then show "stranded env row c e s" by (auto simp: stranded_def Let_def)
qed simp_all

lemma run_gates_settles:
  assumes "leaves_alone row (pl_others env)"
  shows "ensures (held row q JobRunning) (run_gates env row campaign) (gates_settled env row (cv_manifest campaign)) (stranded env row (cv_manifest campaign))"
proof -
  have "ensures (stopped env row c stop) (case stop of Some r \<Rightarrow> run_ret r | None \<Rightarrow> build_gate env row c (submitted_patch env row))
      (gates_settled env row c) (stranded env row c)" for stop c
    by (cases stop) (use build_gate_settles [OF assms] in \<open>auto simp: stopped_None intro!: ensures_ret, simp add: stopped_def\<close>)
  then show ?thesis unfolding run_gates_def Let_def submitted_patch_def [symmetric]
    by (intro ensures_if ensures_bind [OF held_event [OF assms]] ensures_bind [OF apply_and_review_stops [OF assms]] fail_settles [OF assms])
      simp_all
qed

lemma read_campaign_eq:
  "read_campaign env row s = (case get_campaign (pl_intake env) (store (pl_others env s)) (s_campaign_id (cj_submission row)) of
     Inl e \<Rightarrow> (Inl e, pl_others env s) | Inr c \<Rightarrow> (Inr c, pl_others env s))"
  by (auto simp: read_campaign_def commit_def run_txn_def Let_def split: sum.splits)

text \<open>The campaign as the run reads it, after what the others did first.\<close>

definition campaign_read :: "pipeline_env \<Rightarrow> claimed_job \<Rightarrow> system \<Rightarrow> campaign_view option res" where
  "campaign_read env row s = get_campaign (pl_intake env) (store (pl_others env s)) (s_campaign_id (cj_submission row))"

text \<open>
  C7. Every run of the pipeline accounts for the submission it took, provided nobody else writes this
  submission's log or its job meanwhile. A run that passes ends with the job done and the submission
  queued for a round (or built, when the campaign has no benchmark); any other run that returns ends
  with the job failed and the submission rejected, or, while attempts are left and only for a campaign
  with a language model review, with the job pending again and the submission where the review was to
  start. A run that an exception ends leaves the job running, and the exception comes from reading the
  campaign, from the limits of the surface gate or from the base image of the build: no event and no
  job update of the pipeline itself can fail.
\<close>

theorem gates_settle:
  assumes "leaves_alone row (pl_others env)" and "held row q JobRunning s" and "process_submission env row s = (r, s')"
  shows "case campaign_read env row s of
      Inl e \<Rightarrow> r = Inl e \<and> held row q JobRunning s'
    | Inr None \<Rightarrow> (\<exists>res. r = Inr res \<and> \<not> gr_ok res) \<and> held row (Some Rejected) JobFailed s'
    | Inr (Some campaign) \<Rightarrow> (let c = cv_manifest campaign in
        case r of Inr res \<Rightarrow> gates_settled env row c res s' | Inl e \<Rightarrow> stranded env row c e s')"
proof -
  let ?s = "pl_others env s"
  have h: "held row q JobRunning ?s" by (rule held_others [OF assms(1,2)])
  show ?thesis
  proof (cases "campaign_read env row s")
    case (Inl e)
    then show ?thesis using assms(3) h by (auto simp: process_submission_def run_bind_def read_campaign_eq campaign_read_def)
  next
    case (Inr co)
    then have run: "(case co of None \<Rightarrow> fail_gate env row (gate_reject ''campaign_missing'' [(''campaign_id'', JStr (s_campaign_id (cj_submission row)))])
        | Some campaign \<Rightarrow> run_gates env row campaign) ?s = (r, s')"
      using assms(3) by (simp add: process_submission_def run_bind_def read_campaign_eq campaign_read_def)
    show ?thesis
    proof (cases co)
      case None
      let ?E = "\<lambda>e s. False"
      from None run ensuresD [OF held_fail_gate [OF assms(1), where E = ?E] h] Inr show ?thesis by (fastforce split: sum.splits)
    next
      case (Some campaign)
      with run ensuresD [OF run_gates_settles [OF assms(1)] h] Inr show ?thesis by (fastforce simp: Let_def split: sum.splits)
    qed
  qed
qed

section \<open>Which submissions pass\<close>

text \<open>What each gate has to answer, in the order of the pipeline.\<close>

definition reviews_pass :: "pipeline_env \<Rightarrow> claimed_job \<Rightarrow> campaign_row \<Rightarrow> jdict \<Rightarrow> string \<Rightarrow> bool" where
  "reviews_pass env row c ev patch = (let
     obfuscation = jget (bench_of c) ''obfuscation''; llm_review = jget (bench_of c) ''llm_review'' in
     (jtruthy obfuscation \<or> jtruthy llm_review \<longrightarrow> (case pl_source_view env ev patch of Inl _ \<Rightarrow> False | Inr view \<Rightarrow>
        (jtruthy obfuscation \<longrightarrow> gr_ok (pl_obfuscation env view patch)) \<and>
        (jtruthy llm_review \<longrightarrow> gr_ok (pl_llm_review env view (s_patch_hash (cj_submission row)) llm_review)))))"

definition apply_passes :: "pipeline_env \<Rightarrow> claimed_job \<Rightarrow> campaign_row \<Rightarrow> string \<Rightarrow> bool" where
  "apply_passes env row c patch = (let apply_res = pl_base_apply env (c_baseline_repo (cj_campaign row)) (c_baseline_commit c) patch in
     gr_ok apply_res \<and> (\<exists>r. check_campaign_surface env c patch = Inr r \<and> gr_ok r) \<and> reviews_pass env row c (gr_evidence apply_res) patch)"

definition gates_pass :: "pipeline_env \<Rightarrow> claimed_job \<Rightarrow> campaign_view \<Rightarrow> bool" where
  "gates_pass env row campaign = (let s = cj_submission row; int_res = verify_patch env row; patch = gr_patch_bytes int_res; c = cv_manifest campaign in
     gr_ok (check_identity (s_hotkey s) (registered_for env row) campaign (s_baseline_commit s)) \<and> gr_ok int_res \<and>
     apply_passes env row c patch \<and> (\<exists>b. build_patch env row c patch = Inr b \<and> gr_ok b))"

text \<open>A run that returns gives a value with \<open>Q\<close>, wherever it starts.\<close>

abbreviation gives :: "'a process \<Rightarrow> ('a \<Rightarrow> bool) \<Rightarrow> bool" where
  "gives m Q \<equiv> ensures (\<lambda>_. True) m (\<lambda>x _. Q x) (\<lambda>_ _. True)"

lemma gives_ret: "Q x \<Longrightarrow> gives (run_ret x) Q"
  by (rule ensures_ret)

lemma gives_bind: "gives m A \<Longrightarrow> (\<And>x. A x \<Longrightarrow> gives (f x) Q) \<Longrightarrow> gives (run_bind m f) Q"
  by (fastforce simp: ensures_def run_bind_def split: prod.splits sum.splits)

lemmas gives_then = gives_bind [OF ensures_any]

lemma gives_fail: "gives (fail_gate env row res) (\<lambda>r. r = res)"
  unfolding fail_gate_def by (intro gives_then gives_ret refl)

text \<open>The value of a stage: nothing when \<open>b\<close> holds, else a result that is no success.\<close>

definition stops_unless :: "bool \<Rightarrow> gate_result option \<Rightarrow> bool" where
  "stops_unless b stop = (case stop of None \<Rightarrow> b | Some r \<Rightarrow> \<not> b \<and> \<not> gr_ok r)"

lemma gives_stop:
  "\<not> b \<Longrightarrow> \<not> gr_ok res \<Longrightarrow> gives (run_bind (fail_gate env row res) (\<lambda>r. run_ret (Some r))) (stops_unless b)"
  by (rule gives_bind [OF gives_fail]) (auto intro: gives_ret simp: stops_unless_def)

lemma gives_review_source:
  "gives (review_source env row view spec) (stops_unless (gr_ok (pl_llm_review env view (s_patch_hash (cj_submission row)) spec)))"
proof -
  have "gives (defer_llm_review env row res) (\<lambda>r. \<forall>g. r = Some g \<longrightarrow> \<not> gr_ok g)" for res
    unfolding defer_llm_review_def by (intro ensures_if gives_then gives_ret) auto
  then have d: "gives (if b then defer_llm_review env row res else run_ret None) (\<lambda>r. \<forall>g. r = Some g \<longrightarrow> \<not> gr_ok g)" for b res
    by (intro ensures_if gives_ret) auto
  show ?thesis unfolding review_source_def Let_def
    by (intro ensures_if gives_ret gives_bind [OF d])
      (auto simp: stops_unless_def intro!: gives_ret gives_stop [unfolded stops_unless_def] split: option.split)
qed

lemma gives_review_patch: "gives (review_patch env row c ev patch) (stops_unless (reviews_pass env row c ev patch))"
proof (cases "jtruthy (jget (bench_of c) ''obfuscation'') \<or> jtruthy (jget (bench_of c) ''llm_review'')")
  case False
  then show ?thesis by (auto simp: review_patch_def reviews_pass_def stops_unless_def intro: gives_ret)
next
  case True
  then show ?thesis
    using gives_review_source [of env row _ "jget (bench_of c) ''llm_review''"]
    by (cases "pl_source_view env ev patch"; cases "jtruthy (jget (bench_of c) ''obfuscation'')")
      (auto simp: review_patch_def reviews_pass_def Let_def intro!: gives_stop gives_ret simp: stops_unless_def [of True])
qed

lemma gives_apply_and_review: "gives (apply_and_review env row c patch) (stops_unless (apply_passes env row c patch))"
proof -
  have res: "gives (run_res r) (\<lambda>x. r = Inr x)" for r :: "gate_result res" by (rule ensures_res) auto
  show ?thesis unfolding apply_and_review_def Let_def check_campaign_surface_def [symmetric]
    by (intro ensures_if gives_stop gives_then gives_bind [OF res])
      (auto simp: apply_passes_def Let_def intro: gives_review_patch)
qed

lemma gives_build_gate: "gives (build_gate env row c patch) (\<lambda>r. gr_ok r = (\<exists>b. build_patch env row c patch = Inr b \<and> gr_ok b))"
proof -
  have res: "gives (run_res r) (\<lambda>x. r = Inr x)" for r :: "gate_result res" by (rule ensures_res) auto
  have fail: "gives (fail_gate env row b) (\<lambda>r. gr_ok r = gr_ok b)" for b
    by (rule ensures_weaken [OF gives_fail]) auto
  show ?thesis unfolding build_gate_def
  proof (rule gives_then, rule gives_bind [OF res])
    fix b
    assume b: "build_patch env row c patch = Inr b"
    then have eq: "(\<exists>b. build_patch env row c patch = Inr b \<and> gr_ok b) = gr_ok b" by simp
    show "gives (if \<not> gr_ok b then fail_gate env row b else run_bind (record_build env row c b) (\<lambda>_. run_ret b))
      (\<lambda>r. gr_ok r = (\<exists>b. build_patch env row c patch = Inr b \<and> gr_ok b))"
      unfolding eq using fail [of b] by (auto intro: gives_then gives_ret)
  qed
qed

lemma gives_run_gates: "gives (run_gates env row campaign) (\<lambda>r. gr_ok r = gates_pass env row campaign)"
proof -
  have fail: "gives (fail_gate env row res) (\<lambda>r. gr_ok r = b)" if "gr_ok res = b" for res b
    using that by (intro ensures_weaken [OF gives_fail]) auto
  have "gives (case stop of Some r \<Rightarrow> run_ret r | None \<Rightarrow> build_gate env row c patch)
      (\<lambda>r. gr_ok r = (b \<and> (\<exists>x. build_patch env row c patch = Inr x \<and> gr_ok x)))" if "stops_unless b stop" for b c patch stop
    using that gives_build_gate [of env row c patch] by (cases stop) (auto simp: stops_unless_def intro: gives_ret)
  then show ?thesis unfolding run_gates_def Let_def
    by (intro gives_then ensures_if fail gives_bind [OF gives_apply_and_review]) (simp_all add: gates_pass_def Let_def)
qed

lemma process_passes:
  assumes "process_submission env row s = (Inr res, s')"
  shows "gr_ok res \<longleftrightarrow> (\<exists>campaign. campaign_read env row s = Inr (Some campaign) \<and> gates_pass env row campaign)"
proof -
  obtain co where co: "campaign_read env row s = Inr co"
    and run: "(case co of None \<Rightarrow> fail_gate env row (gate_reject ''campaign_missing'' [(''campaign_id'', JStr (s_campaign_id (cj_submission row)))])
        | Some campaign \<Rightarrow> run_gates env row campaign) (pl_others env s) = (Inr res, s')"
    using assms by (auto simp: process_submission_def run_bind_def read_campaign_eq campaign_read_def split: sum.splits)
  show ?thesis
  proof (cases co)
    case None
    with run ensuresD [OF gives_fail] have "res = gate_reject ''campaign_missing'' [(''campaign_id'', JStr (s_campaign_id (cj_submission row)))]" by fastforce
    with co None show ?thesis by simp
  next
    case (Some campaign)
    with run ensuresD [OF gives_run_gates] have "gr_ok res = gates_pass env row campaign" by fastforce
    with co Some show ?thesis by simp
  qed
qed


section \<open>A submission that passes\<close>

definition ex_gate_c :: campaign_row where
  "ex_gate_c = ex_c\<lparr>c_id := uuid_str 171, c_baseline_commit := ex_sha, c_allowed_paths := [''src/*.py''], c_denied_paths := [''**/secret*''],
     c_bench := Some [(''patch_limits'', JObj [(''max_patch_bytes'', JInt 200)])]\<rparr>"

definition ex_gate_db :: db where
  "ex_gate_db = empty_db\<lparr>campaigns := [ex_gate_c]\<rparr>"

definition ex_gate_ns :: new_submission where
  "ex_gate_ns = submission_of_commitment ex_watcher (ex_com ''hot'' ''cold'' 0 9 1) (Some 3, Some 1) ex_patch"

definition ex_pl :: pipeline_env where
  "ex_pl = \<lparr>pl_intake = ex_watcher\<lparr>ie_fetcher := \<lambda>_. Inr ex_patch\<rparr>, pl_registered = None, pl_ghcr_owner = [], pl_ghcr_image = [],
     pl_ghcr_baseline = [], pl_base_apply = (\<lambda>_ _ _. gate_success ''applied'' [] []), pl_decode = Some, pl_git = ex_git,
     pl_source_view = (\<lambda>_ _. Inr JNull), pl_obfuscation = (\<lambda>_ _. gate_success [] [] []), pl_llm_review = (\<lambda>_ _ _. gate_success [] [] []),
     pl_mock_build = True, pl_build_mock = (\<lambda>_ _. gate_success ''built'' [(''image_ref'', JStr ''img'')] []),
     pl_build_image = (\<lambda>_ _ _ _. gate_success [] [] []), pl_max_attempts = 3, pl_retry_after = JNull, pl_show = (\<lambda>_. []), pl_others = (\<lambda>s. s)\<rparr>"

definition ex_claim :: "(claimed_job \<times> db \<times> db) res" where
  "ex_claim = rbind (insert_submission 5 ''s1'' ex_gate_ns ex_gate_db) (\<lambda>(_, d1). case claim_next_job 5 0 d1 of
     (Some (s, c, jid, attempt), d2) \<Rightarrow> Inr (\<lparr>cj_submission = s, cj_campaign = c, cj_job_id = jid, cj_attempt = attempt\<rparr>, d1, d2)
   | _ \<Rightarrow> Inl (PyRuntimeError []))"

definition ex_gate_view :: campaign_view where
  "ex_gate_view = \<lparr>cv_status = ''open'', cv_submission_fee_history = cv_submission_fee_history ex_cview, cv_manifest = ex_gate_c\<rparr>"

definition ex_held :: "db \<Rightarrow> system" where
  "ex_held d = \<lparr>clock = 5, store = d, workers = []\<rparr>"

lemma ex_claimed:
  "case ex_claim of Inl _ \<Rightarrow> False | Inr (row, d1, d2) \<Rightarrow> desk row d2 = (Some Committed, [(sub_id row, JobRunning, cj_attempt row)]) \<and>
     campaigns d2 = [ex_gate_c] \<and> s_campaign_id (cj_submission row) = uuid_str 171 \<and> s_hotkey (cj_submission row) = ''hot'' \<and>
     s_patch_hash (cj_submission row) = ex_hash \<and> s_retrieval_url (cj_submission row) = ex_url ''hot'' \<and>
     lower (s_baseline_commit (cj_submission row)) = lower ex_sha"
  by code_simp

lemma ex_gate_held:
  obtains row d2 where "held row (Some Committed) JobRunning (ex_held d2)" "campaigns d2 = [ex_gate_c]"
    "s_campaign_id (cj_submission row) = uuid_str 171" "s_hotkey (cj_submission row) = ''hot''"
    "s_patch_hash (cj_submission row) = ex_hash" "s_retrieval_url (cj_submission row) = ex_url ''hot''"
    "lower (s_baseline_commit (cj_submission row)) = lower ex_sha"
proof -
  obtain p where p: "ex_claim = Inr p" using ex_claimed by (auto split: sum.splits)
  obtain row d1 d2 where r: "ex_claim = Inr (row, d1, d2)" using p by (cases p) auto
  obtain x d where i: "insert_submission 5 ''s1'' ex_gate_ns ex_gate_db = Inr (x, d)"
    using r by (auto simp: ex_claim_def rbind_eq_Inr)
  obtain q e where c: "claim_next_job 5 0 d = (q, e)" by (metis surj_pair)
  have 1: "insert_submission 5 ''s1'' ex_gate_ns ex_gate_db = Inr (x, d1)" and 2: "claim_next_job 5 0 d1 = (q, d2)"
    using r i c by (auto simp: ex_claim_def split: option.splits)
  have "initial (ex_held ex_gate_db)"
    by (auto simp: initial_def ex_held_def ex_gate_db_def uniq_def intro!: exI [of _ "[ex_gate_c]"])
  then have "reachable (ex_held ex_gate_db)" by (auto simp: reachable_def)
  then have "reachable (ex_held d1)" unfolding ex_held_def by (rule reachable_step) (rule gates [OF intake [OF 1]])
  then have "reachable (ex_held d2)" unfolding ex_held_def
    by (rule reachable_step) (use gates [OF claim_job [where now = 5 and d = d1 and retry_us = 0]] 2 in simp)
  then show thesis using ex_claimed that [of row d2] unfolding r by (simp add: held_def ex_held_def)
qed

lemma ex_leaves_alone: "leaves_alone row (pl_others ex_pl)"
  by (simp add: leaves_alone_def others_step_def ex_pl_def)

lemma ex_gate_surface:
  "check_campaign_surface ex_pl ex_gate_c ex_patch = Inr (gate_success ''surface_ok'' [(''files'', JArr [JStr ''src/m.py'']), (''file_count'', JInt 1)] [])"
  by code_simp

lemma ex_gate_campaign:
  assumes "campaigns d2 = [ex_gate_c]" and "s_campaign_id (cj_submission row) = uuid_str 171"
  shows "campaign_read ex_pl row (ex_held d2) = Inr (Some ex_gate_view)"
  using ex_history_valid assms
  by (simp add: campaign_read_def get_campaign_def campaign_of_def ex_held_def ex_pl_def ex_watcher_def ex_gate_view_def ex_gate_c_def)
    (simp add: ex_c_def)

lemma ex_gate_integrity:
  "check_integrity (pl_intake ex_pl) (ex_url ''hot'') ex_hash (Some ''hot'') (Some (uuid_str 171)) =
     gate_success ''fetched'' [(''patch_hash'', JStr ex_hash), (''size'', JInt (int (length ex_patch)))] ex_patch"
proof -
  have "hash_patch_bytes (\<lambda>_. replicate 64 (CHR ''b'')) x = ex_hash" for x by (simp add: hash_patch_bytes_def ex_hash_def)
  then show ?thesis using ex_locator [of "''hot''"] key_campaign_locator [of "''hot''" ex_s3 171 5]
    by (simp add: check_integrity_def is_allowed_retrieval_url_def ex_hash_canonical ex_pl_def)
qed

lemma ex_gate_passes:
  assumes "held row (Some Committed) JobRunning (ex_held d2)" "campaigns d2 = [ex_gate_c]"
    "s_campaign_id (cj_submission row) = uuid_str 171" "s_hotkey (cj_submission row) = ''hot''"
    "s_patch_hash (cj_submission row) = ex_hash" "s_retrieval_url (cj_submission row) = ex_url ''hot''"
    "lower (s_baseline_commit (cj_submission row)) = lower ex_sha"
  obtains res s' where "process_submission ex_pl row (ex_held d2) = (Inr res, s')" "gr_ok res"
proof -
  obtain r s' where run: "process_submission ex_pl row (ex_held d2) = (r, s')" by (metis surj_pair)
  note read = ex_gate_campaign [OF assms(2,3)]
  have patch: "submitted_patch ex_pl row = ex_patch" "gr_ok (verify_patch ex_pl row)"
    using assms ex_gate_integrity by (simp_all add: submitted_patch_def verify_patch_def gate_success_def)
  have bench: "\<not> jtruthy (jget (bench_of ex_gate_c) ''obfuscation'')" "\<not> jtruthy (jget (bench_of ex_gate_c) ''llm_review'')" by code_simp+
  have build: "build_patch ex_pl row ex_gate_c ex_patch = Inr (gate_success ''built'' [(''image_ref'', JStr ''img'')] [])"
    by (simp add: build_patch_def ex_pl_def)
  have "gates_pass ex_pl row ex_gate_view"
    using assms patch bench build ex_gate_surface
    by (simp add: gates_pass_def Let_def apply_passes_def reviews_pass_def check_identity_def registered_for_def submitted_patch_def
        ex_gate_view_def gate_success_def ex_pl_def [THEN arg_cong [of _ _ pl_registered]] ex_pl_def [THEN arg_cong [of _ _ pl_base_apply]])
      (simp add: ex_gate_c_def)
  moreover have "run_gates ex_pl row ex_gate_view (ex_held d2) = (r, s')"
    using run read by (simp add: process_submission_def run_bind_def read_campaign_eq campaign_read_def ex_pl_def)
  then have "case r of Inr res \<Rightarrow> True | Inl e \<Rightarrow> stranded ex_pl row ex_gate_c e s'"
    using ensuresD [OF run_gates_settles [OF ex_leaves_alone] assms(1)] by (fastforce simp: ex_gate_view_def split: sum.splits)
  then obtain res where "r = Inr res"
    using patch(1) build ex_gate_surface by (cases r) (auto simp: stranded_def Let_def)
  ultimately show thesis using that run read process_passes by blast
qed


theorem gates_settle_witness:
  "\<exists>row s res s'. process_submission ex_pl row s = (Inr res, s') \<and> held row (Some BenchQueued) JobDone s'"
proof (rule ex_gate_held)
  fix row d2
  assume h: "held row (Some Committed) JobRunning (ex_held d2)" "campaigns d2 = [ex_gate_c]"
    "s_campaign_id (cj_submission row) = uuid_str 171" "s_hotkey (cj_submission row) = ''hot''"
    "s_patch_hash (cj_submission row) = ex_hash" "s_retrieval_url (cj_submission row) = ex_url ''hot''"
    "lower (s_baseline_commit (cj_submission row)) = lower ex_sha"
  from h obtain res s' where run: "process_submission ex_pl row (ex_held d2) = (Inr res, s')" and ok: "gr_ok res" by (rule ex_gate_passes)
  have "c_bench ex_gate_c \<noteq> None" by (simp add: ex_gate_c_def)
  then have "held row (Some BenchQueued) JobDone s'"
    using gates_settle [OF ex_leaves_alone h(1) run] ex_gate_campaign [OF h(2,3)] ok
    by (simp add: gates_settled_def ex_gate_view_def)
  with run show ?thesis by blast
qed


end
