(* ===== verification/Watch.thy ===== *)
theory Watch
  imports Pipeline
begin

text \<open>
  \<open>worker/watcher.py\<close> with the driver of \<open>round/create.py\<close>: one cycle of the chain watcher, which
  scans the chain, reaps dead rounds and creates the rounds that are due. What the chain answers and
  the drawing of the prompt trace (\<open>parse_sampling_rule\<close> to \<open>generate_trace\<close> of \<open>bench/sampler.py\<close>)
  are fields of \<open>watch_env\<close>; the log lines and the observability events leave no trace in the state.
\<close>

record watch_env =
  wa_intake :: intake_env
  wa_loads :: "string \<Rightarrow> json option res"
  wa_new_submission :: "patch_commitment \<Rightarrow> uuid"
  wa_new_round :: "uuid \<Rightarrow> uuid" \<comment> \<open>the id drawn for the round of a campaign\<close>
  wa_connect :: "unit res"
  wa_chain_view :: "(string list \<times> string list \<times> (string \<times> (int \<times> string) list) list) res"
  wa_head :: "int res"
  wa_block_hash :: "int \<Rightarrow> string res"
  wa_sample :: "campaign_row \<Rightarrow> string \<Rightarrow> int \<Rightarrow> string \<Rightarrow> (string \<times> jdict) res"
  wa_finality_depth :: int
  wa_round_size :: nat
  wa_max_wait_s :: int
  wa_stale_s :: int
  wa_ghcr_owner :: string
  wa_ghcr_image :: string
  wa_others :: "system \<Rightarrow> system"

section \<open>Creating the rounds that are due\<close>

definition compute_sample_seed :: "(string \<Rightarrow> string) \<Rightarrow> string \<Rightarrow> uuid \<Rightarrow> string res" where
  "compute_sample_seed sha256 block_hash campaign_id = (let
     h = lower (strip block_hash); bh = (if startswith h ''0x'' then drop 2 h else h) in
     if bh = [] \<or> \<not> list_all is_hex bh then Inl (ValueError ''block_hash must be hex'')
     else Inr (sha256 (bh @ lower (strip campaign_id))))"

text \<open>\<open>try_create_round\<close> up to the transaction: nothing when the round is not due or cannot run.\<close>

definition plan_round :: "watch_env \<Rightarrow> ts \<Rightarrow> campaign_row \<Rightarrow> queue_row \<Rightarrow> int \<Rightarrow> string \<Rightarrow> round_spec option res" where
  "plan_round env now c queue seed_block seed_block_hash = rbind
     (should_create (int (q_queued queue)) (Some (q_oldest queue)) (int (wa_round_size env)) (wa_max_wait_s env) now) (\<lambda>due.
     let engine_digest = jget (bench_of c) ''baseline_engine_image_digest'' in
     if \<not> due \<or> \<not> jtruthy engine_digest then Inr None
     else case c_gpu_skus c of [] \<Rightarrow> Inr None
     | gpu_sku # _ \<Rightarrow> rbind (compute_sample_seed (ie_sha256 (wa_intake env)) seed_block_hash (c_id c)) (\<lambda>seed_hex.
         if c_sampling_rule c = None \<or> c_sampling_rule c = Some [] then Inr None
         else rbind (wa_sample env c seed_hex seed_block seed_block_hash) (\<lambda>(trace_sha256, receipt).
         rbind (case engine_digest of JStr digest \<Rightarrow> baseline_engine_image_ref (wa_ghcr_owner env) (wa_ghcr_image env) digest
             | _ \<Rightarrow> Inl (AttributeError ''strip'')) (\<lambda>image.
         Inr (Some \<lparr>rs_campaign_id = c_id c, rs_cohort_limit = wa_round_size env, rs_gpu_sku = gpu_sku, rs_baseline_image_ref = image,
           rs_seed_block = seed_block, rs_seed_block_hash = seed_block_hash, rs_seed_hex = seed_hex, rs_trace_sha256 = trace_sha256,
           rs_sampling_receipt = receipt, rs_scoring_rule = c_scoring_rule c\<rparr>)))))"

definition try_create_round :: "watch_env \<Rightarrow> campaign_view \<Rightarrow> queue_row \<Rightarrow> int \<Rightarrow> string \<Rightarrow> created_round option process" where
  "try_create_round env campaign queue seed_block seed_block_hash =
     run_bind (commit (wa_others env) (\<lambda>now d. Inr (now, d))) (\<lambda>now.
     run_bind (run_res (plan_round env now (cv_manifest campaign) queue seed_block seed_block_hash)) (\<lambda>plan. case plan of
       None \<Rightarrow> run_ret None
     | Some sp \<Rightarrow> commit (wa_others env) (\<lambda>now d. create_round now (wa_new_round env (rs_campaign_id sp)) dedupe_by_digest sp d)))"

text \<open>The body of the loop over the queues: an exception of one campaign is caught.\<close>

definition attempt_round :: "watch_env \<Rightarrow> int \<Rightarrow> string \<Rightarrow> queue_row \<Rightarrow> created_round option process" where
  "attempt_round env seed_block seed_block_hash queue = run_catch
     (run_bind (commit (wa_others env) (\<lambda>now d. rbind (get_campaign (wa_intake env) d (q_campaign_id queue)) (\<lambda>c. Inr (c, d)))) (\<lambda>campaign.
        case campaign of None \<Rightarrow> run_ret None
        | Some c \<Rightarrow> try_create_round env c queue seed_block seed_block_hash))
     (\<lambda>e. run_ret None)"

definition attempt_rounds :: "watch_env \<Rightarrow> int \<Rightarrow> string \<Rightarrow> queue_row list \<Rightarrow> created_round list \<Rightarrow> created_round list process" where
  "attempt_rounds env seed_block seed_block_hash = run_loop (\<lambda>queue created.
     run_bind (attempt_round env seed_block seed_block_hash queue) (\<lambda>row. run_ret (case row of None \<Rightarrow> created | Some r \<Rightarrow> created @ [r])))"

definition create_due_rounds :: "watch_env \<Rightarrow> created_round list process" where
  "create_due_rounds env = run_bind (commit (wa_others env) (\<lambda>now d. Inr (campaigns_with_queue d, d))) (\<lambda>queues.
     if queues = [] then run_ret []
     else run_bind (run_res (wa_head env)) (\<lambda>head. let seed_block = head - wa_finality_depth env in
       run_bind (run_res (wa_block_hash env seed_block)) (\<lambda>seed_block_hash. attempt_rounds env seed_block seed_block_hash queues [])))"

section \<open>One watch cycle\<close>

text \<open>
  \<open>scan_chain\<close> as the cycle calls it. The known hash mismatches survive an exception; the clock
  reading of a scan is the one at its start.
\<close>

definition watch_chain :: "watch_env \<Rightarrow> failed_checks \<Rightarrow> (uuid list res \<times> failed_checks) process" where
  "watch_chain env failed = (case wa_chain_view env of Inl e \<Rightarrow> run_ret (Inl e, failed)
     | Inr (hotkeys, coldkeys, revealed) \<Rightarrow> commit (wa_others env) (\<lambda>now d.
         case scan_chain (wa_intake env) (wa_loads env) now (wa_new_submission env) hotkeys coldkeys revealed (failed, d) of
           (r, failed', d') \<Rightarrow> Inr ((rbind r (\<lambda>(created, _). Inr created), failed'), d')))"

text \<open>
  \<open>scan_cycle\<close>. The client is its connection: \<open>True\<close> for a live subtensor, \<open>False\<close> for none.
\<close>

definition scan_cycle :: "watch_env \<Rightarrow> bool \<Rightarrow> bool \<Rightarrow> failed_checks \<Rightarrow> (bool \<times> failed_checks) process" where
  "scan_cycle env drain linked failed = (if drain then run_ret (linked, failed)
     else let client = (linked \<or> (case wa_connect env of Inl _ \<Rightarrow> False | Inr _ \<Rightarrow> True)) in
       run_bind (if client then run_bind (watch_chain env failed) (\<lambda>(r, failed'). run_ret (case r of Inl _ \<Rightarrow> False | Inr _ \<Rightarrow> True, failed'))
         else run_ret (False, failed)) (\<lambda>(client, failed').
       run_bind (run_catch (run_bind (commit (wa_others env) (\<lambda>now d. reap_stale_rounds now (wa_stale_s env) d)) (\<lambda>_. run_ret ()))
         (\<lambda>e. run_ret ())) (\<lambda>_.
       run_bind (if client then run_catch (run_bind (create_due_rounds env) (\<lambda>_. run_ret ())) (\<lambda>e. run_ret ()) else run_ret ()) (\<lambda>_.
       run_ret (client, failed')))))"

section \<open>Every transaction of the watcher is a step of the system\<close>

abbreviation watch_steps :: "watch_env \<Rightarrow> 'a process \<Rightarrow> bool" where
  "watch_steps env m \<equiv> keeps (steps_under (wa_others env)) m"

lemma steps_read: "(\<And>now d x d'. f now d = Inr (x, d') \<Longrightarrow> d' = d) \<Longrightarrow> keeps (steps_under others) (commit others f)"
  by (rule keeps_commit) (metis moves_refl)

lemma steps_attempt_round: "watch_steps env (attempt_round env b h q)"
proof -
  have create: "watch_steps env (commit (wa_others env) (\<lambda>now d. create_round now rid dedupe_by_digest sp d))" for rid sp
    by (rule keeps_commit) (rule moves_write(3) [OF round_write.create])
  show ?thesis unfolding attempt_round_def try_create_round_def
    by (intro process_steps create steps_read) (auto simp: rbind_eq_Inr)
qed

lemma steps_create_due_rounds: "watch_steps env (create_due_rounds env)"
  unfolding create_due_rounds_def attempt_rounds_def Let_def
  by (intro process_steps steps_read steps_attempt_round) auto

lemma steps_watch_chain: "watch_steps env (watch_chain env failed)"
proof (cases "wa_chain_view env")
  case (Inr v)
  obtain hotkeys coldkeys revealed where v: "v = (hotkeys, coldkeys, revealed)" by (cases v)
  have "moves now js d d'" if "scan_chain ie ld now new hotkeys coldkeys revealed (failed, d) = (r, failed', d')" for ie ld now new js d d' r failed'
    using that ingest_all_moves [of ie now new _ _ _ "(failed', d')" js]
    by (fastforce simp: scan_chain_def split: sum.splits prod.splits)
  then show ?thesis unfolding watch_chain_def Inr v
    by (auto intro!: keeps_commit split: prod.splits)
qed (simp add: watch_chain_def process_steps)

lemma steps_scan_cycle: "watch_steps env (scan_cycle env drain linked failed)"
proof -
  have reap: "watch_steps env (commit (wa_others env) (\<lambda>now d. reap_stale_rounds now stale d))" for stale
    by (rule keeps_commit) (rule moves_write(3) [OF round_write.reap])
  have "watch_steps env (case p of (r, f) \<Rightarrow> run_ret (g r f))" for p :: "uuid list res \<times> failed_checks" and g :: "uuid list res \<Rightarrow> failed_checks \<Rightarrow> bool \<times> failed_checks"
    by (cases p) (simp add: process_steps)
  then show ?thesis unfolding scan_cycle_def Let_def
    by (intro process_steps steps_watch_chain) (auto intro!: process_steps reap steps_create_due_rounds)
qed

text \<open>A run that never raises.\<close>

abbreviation total :: "'a process \<Rightarrow> bool" where
  "total m \<equiv> ensures (\<lambda>_. True) m (\<lambda>_ _. True) (\<lambda>_ _. False)"

lemma total_ret: "total (run_ret x)"
  by (simp add: ensures_ret)

lemma total_bind: "total m \<Longrightarrow> (\<And>x. total (f x)) \<Longrightarrow> total (run_bind m f)"
  by (rule ensures_bind)

lemma total_catch: "(\<And>e. total (h e)) \<Longrightarrow> total (run_catch m h)"
  by (rule ensures_catch [OF ensures_any])

lemma total_commit: "(\<And>now d. \<exists>p. f now d = Inr p) \<Longrightarrow> total (commit others f)"
  by (rule ensures_commit) (auto, metis sum.distinct(1))

lemma total_watch_chain: "total (watch_chain env failed)"
proof (cases "wa_chain_view env")
  case (Inr v)
  obtain hotkeys coldkeys revealed where "v = (hotkeys, coldkeys, revealed)" by (cases v)
  with Inr show ?thesis unfolding watch_chain_def by (auto intro!: total_commit split: prod.split)
qed (simp add: watch_chain_def total_ret)

lemma total_scan_cycle: "total (scan_cycle env drain linked failed)"
proof -
  have "total (case p of (r, f) \<Rightarrow> run_ret (g r f))" for p :: "'b \<times> 'c" and g :: "'b \<Rightarrow> 'c \<Rightarrow> 'd"
    by (cases p) (simp add: total_ret)
  then show ?thesis unfolding scan_cycle_def Let_def
    by (intro ensures_if total_ret total_bind total_watch_chain) (auto intro!: ensures_if total_bind total_catch total_ret)
qed


section \<open>A due campaign gets its round\<close>

text \<open>Creating a round leaves the tables of the other campaigns alone.\<close>

definition same_rows :: "db \<Rightarrow> db \<Rightarrow> bool" where
  "same_rows d d' = (campaigns d' = campaigns d \<and> submissions d' = submissions d \<and> leaders d' = leaders d)"

lemma same_rows_trans: "same_rows d d1 \<Longrightarrow> same_rows d1 d2 \<Longrightarrow> same_rows d d2"
  by (simp add: same_rows_def)

lemma fill_round_same_rows:
  assumes "fill_round now rid ord sp ks ds d = Inr d'"
  shows "same_rows d d'"
proof -
  have entry: "same_rows d d'" if "insert_entry rid sid ro img d = Inr d'" for sid ro img d d'
    using that by (auto simp: insert_entry_eq_Inr same_rows_def)
  have seat: "same_rows d d'" if "seat_challenger now rid ord k d = Inr d'" for k d d'
    using that entry by (auto simp: seat_challenger_def rbind_eq_Inr insert_event_eq_Inr same_rows_def)
  have reject: "same_rows d d'" if "reject_duplicate now p d = Inr d'" for p d d'
    using that by (auto simp: reject_duplicate_def insert_event_eq_Inr same_rows_def)
  obtain d1 d2 d3 d4 where
    1: "insert_round now rid ord (map_option l_submission_id (leader_of d (rs_campaign_id sp))) sp d = Inr d1"
    and 2: "insert_entry rid None Baseline (Some (rs_baseline_image_ref sp)) d1 = Inr d2"
    and 3: "seat_leader rid (leader_of d (rs_campaign_id sp)) d2 = Inr d3"
    and 4: "rfold (seat_challenger now rid ord) ks d3 = Inr d4" and 5: "rfold (reject_duplicate now) ds d4 = Inr d'"
    using assms by (auto simp: fill_round_def Let_def rbind_eq_Inr)
  have "same_rows d d1" using insert_round_effect [OF 1] by (auto simp: same_rows_def)
  moreover have "same_rows d1 d2" by (rule entry [OF 2])
  moreover have "same_rows d2 d3" using 3 entry by (auto simp: seat_leader_def same_rows_def split: option.splits)
  moreover have "same_rows d3 d4"
    using 4 by (rule rfold_invariant) (auto simp: same_rows_def [of d3 d3] intro: same_rows_trans seat)
  moreover have "same_rows d4 d'"
    using 5 by (rule rfold_invariant) (auto simp: same_rows_def [of d4 d4] intro: same_rows_trans reject)
  ultimately show ?thesis by (blast intro: same_rows_trans)
qed

lemma create_round_frame:
  assumes "db_ok d" and "log_ok now d" and "create_round now rid dedupe_by_digest sp d = Inr (x, d')"
  shows "same_rows d d'" and "\<exists>rs. rounds d' = rounds d @ rs \<and> (\<forall>r \<in> set rs. r_id r = rid \<and> r_campaign_id r = rs_campaign_id sp)"
    and "cid \<noteq> rs_campaign_id sp \<Longrightarrow> cohort_of d' cid n = cohort_of d cid n"
proof -
  let ?c = "cohort_of d (rs_campaign_id sp) (rs_cohort_limit sp)"
  have "same_rows d d' \<and> (\<exists>rs. rounds d' = rounds d @ rs \<and> (\<forall>r \<in> set rs. r_id r = rid \<and> r_campaign_id r = rs_campaign_id sp)) \<and>
      (\<forall>s. s \<notin> k_id ` set ?c \<longrightarrow> latest_state d' s = latest_state d s)"
  proof (cases x)
    case None
    then show ?thesis using create_round_cases [OF assms(3)] by (auto simp: same_rows_def)
  next
    case (Some cr)
    note created = digest.create_round_effect [OF assms(1,2) assms(3) [unfolded Some]]
    have "same_rows d d'" using create_round_cases [OF assms(3)] Some fill_round_same_rows by auto
    moreover have "\<exists>r. rounds d' = rounds d @ [r] \<and> r_id r = rid \<and> r_campaign_id r = rs_campaign_id sp" using created by blast
    moreover have "latest_state d' s = latest_state d s" if "s \<notin> k_id ` set ?c" for s
      using created that by (metis (no_types, lifting) UnCI set_map)
    ultimately show ?thesis by fastforce
  qed
  then have same: "same_rows d d'"
    and rs: "\<exists>rs. rounds d' = rounds d @ rs \<and> (\<forall>r \<in> set rs. r_id r = rid \<and> r_campaign_id r = rs_campaign_id sp)"
    and latest: "\<And>s. s \<notin> k_id ` set ?c \<Longrightarrow> latest_state d' s = latest_state d s" by blast+
  show "same_rows d d'" by (rule same)
  show "\<exists>rs. rounds d' = rounds d @ rs \<and> (\<forall>r \<in> set rs. r_id r = rid \<and> r_campaign_id r = rs_campaign_id sp)" by (rule rs)
  assume cid: "cid \<noteq> rs_campaign_id sp"
  have key: "inj_on s_id (set (submissions d))" using db_okD(1) [OF assms(1)] by (simp add: submissions_ok_def uniq_def distinct_map)
  have mine: "\<exists>t \<in> set (submissions d). s_id t = i \<and> s_campaign_id t = rs_campaign_id sp" if "i \<in> k_id ` set ?c" for i
    using that by (auto simp: cohort_of_def queued_def dest!: in_set_takeD)
  have "s_id s \<notin> k_id ` set ?c" if "s \<in> set (submissions d)" "s_campaign_id s = cid" for s
    using mine [of "s_id s"] inj_onD [OF key] that cid by blast
  then have "queued d' cid s = queued d cid s" if "s \<in> set (submissions d)" for s
    using that latest by (auto simp: queued_def)
  then show "cohort_of d' cid n = cohort_of d cid n"
    using same by (simp add: cohort_of_def same_rows_def cong: filter_cong)
qed

text \<open>What one attempt does when nobody else writes.\<close>

lemma plan_round_campaign: "plan_round env now c q b h = Inr (Some sp) \<Longrightarrow> rs_campaign_id sp = c_id c \<and> rs_cohort_limit sp = wa_round_size env"
  by (auto simp: plan_round_def Let_def rbind_eq_Inr split: if_splits list.splits)

lemma get_campaign_id: "get_campaign ie d cid = Inr (Some v) \<Longrightarrow> campaign_of d cid = Some (cv_manifest v) \<and> c_id (cv_manifest v) = cid"
  by (auto simp: get_campaign_def rbind_eq_Inr campaign_of_def split: option.splits dest: find_SomeD)

lemma commit_quiet:
  "commit (\<lambda>s. s) f s = (case f (clock s) (store s) of Inl e \<Rightarrow> (Inl e, s) | Inr (x, d') \<Rightarrow> (Inr x, s\<lparr>store := d'\<rparr>))"
  by (auto simp: commit_def run_txn_def split: sum.splits)

lemma attempt_quiet:
  assumes "wa_others env = (\<lambda>s. s)"
  shows "attempt_round env b h q s = (case get_campaign (wa_intake env) (store s) (q_campaign_id q) of Inl _ \<Rightarrow> (Inr None, s)
    | Inr None \<Rightarrow> (Inr None, s)
    | Inr (Some v) \<Rightarrow> (case plan_round env (clock s) (cv_manifest v) q b h of Inl _ \<Rightarrow> (Inr None, s) | Inr None \<Rightarrow> (Inr None, s)
        | Inr (Some sp) \<Rightarrow> (case create_round (clock s) (wa_new_round env (rs_campaign_id sp)) dedupe_by_digest sp (store s) of
            Inl _ \<Rightarrow> (Inr None, s) | Inr (x, d') \<Rightarrow> (Inr x, s\<lparr>store := d'\<rparr>))))"
  by (simp add: attempt_round_def try_create_round_def run_catch_def run_bind_def run_ret_def run_res_def assms commit_quiet rbind_def
      split: sum.split prod.split option.split)

text \<open>An attempt for one campaign does not disturb another, and what was created stays.\<close>

definition undisturbed :: "uuid \<Rightarrow> db \<Rightarrow> db \<Rightarrow> bool" where
  "undisturbed cid d d' = (campaigns d' = campaigns d \<and> leader_of d' cid = leader_of d cid \<and> (\<forall>n. cohort_of d' cid n = cohort_of d cid n) \<and>
     has_live_round d' cid = has_live_round d cid)"

lemma attempt_frame:
  assumes "wa_others env = (\<lambda>s. s)" and "reachable s" and "attempt_round env b h q s = (r, s')"
  shows "reachable s'" and "clock s' = clock s" and "\<exists>x. r = Inr x"
    and "round_ids (store s') \<subseteq> insert (wa_new_round env (q_campaign_id q)) (round_ids (store s))"
    and "has_live_round (store s) cid \<Longrightarrow> has_live_round (store s') cid"
    and "cid \<noteq> q_campaign_id q \<Longrightarrow> undisturbed cid (store s) (store s')"
proof -
  have ok: "db_ok (store s)" "log_ok (clock s) (store s)" using reachable_ok [OF assms(2)] by (simp_all add: system_ok_def)
  show "reachable s'" using run_reachable [OF steps_attempt_round _ assms(2,3)] assms(1) by (simp add: others_step_def)
  have "s' = s \<and> (\<exists>x. r = Inr x) \<or> (\<exists>v sp x d'. r = Inr x \<and> s' = s\<lparr>store := d'\<rparr> \<and>
      get_campaign (wa_intake env) (store s) (q_campaign_id q) = Inr (Some v) \<and> plan_round env (clock s) (cv_manifest v) q b h = Inr (Some sp) \<and>
      create_round (clock s) (wa_new_round env (rs_campaign_id sp)) dedupe_by_digest sp (store s) = Inr (x, d'))"
    using assms(3) unfolding attempt_quiet [OF assms(1)] by (auto split: sum.splits option.splits prod.splits)
  then consider "s' = s" "\<exists>x. r = Inr x" | sp x d' where "r = Inr x" "s' = s\<lparr>store := d'\<rparr>" "rs_campaign_id sp = q_campaign_id q"
      "create_round (clock s) (wa_new_round env (q_campaign_id q)) dedupe_by_digest sp (store s) = Inr (x, d')"
    using get_campaign_id plan_round_campaign by metis
  then have "clock s' = clock s \<and> (\<exists>x. r = Inr x) \<and>
      round_ids (store s') \<subseteq> insert (wa_new_round env (q_campaign_id q)) (round_ids (store s)) \<and>
      (has_live_round (store s) cid \<longrightarrow> has_live_round (store s') cid) \<and> (cid \<noteq> q_campaign_id q \<longrightarrow> undisturbed cid (store s) (store s'))"
  proof cases
    case 1
    then show ?thesis by (auto simp: undisturbed_def)
  next
    case (2 sp x d')
    note f = create_round_frame [OF ok 2(4)]
    obtain rs where rs: "rounds d' = rounds (store s) @ rs" "\<forall>r \<in> set rs. r_id r = wa_new_round env (q_campaign_id q) \<and> r_campaign_id r = q_campaign_id q"
      using f(2) 2(3) by auto
    have "undisturbed cid (store s) d'" if "cid \<noteq> q_campaign_id q"
      using that f(1) f(3) [of cid] rs 2(3) by (auto simp: undisturbed_def same_rows_def leader_of_def has_live_round_def)
    then show ?thesis using 2 rs by (auto simp: round_ids_def has_live_round_def)
  qed
  then show "clock s' = clock s" "\<exists>x. r = Inr x" "round_ids (store s') \<subseteq> insert (wa_new_round env (q_campaign_id q)) (round_ids (store s))"
    "has_live_round (store s) cid \<Longrightarrow> has_live_round (store s') cid" "cid \<noteq> q_campaign_id q \<Longrightarrow> undisturbed cid (store s) (store s')" by auto
qed

text \<open>Nobody else writes, and the database draws new and distinct round ids.\<close>

definition quiet_env :: "watch_env \<Rightarrow> queue_row list \<Rightarrow> db \<Rightarrow> bool" where
  "quiet_env env qs d = (wa_others env = (\<lambda>s. s) \<and> distinct (map q_campaign_id qs) \<and> inj_on (wa_new_round env) (q_campaign_id ` set qs) \<and>
     (\<forall>q \<in> set qs. wa_new_round env (q_campaign_id q) \<notin> round_ids d))"

definition images_ready :: "db \<Rightarrow> uuid \<Rightarrow> nat \<Rightarrow> bool" where
  "images_ready d cid n = (\<forall>k \<in> set (cohort_of d cid n). k_image_ref k \<noteq> None \<and>
     map_option l_submission_id (leader_of d cid) \<noteq> Some (k_id k))"

text \<open>A queue for which a round can be created now.\<close>

definition servable :: "watch_env \<Rightarrow> int \<Rightarrow> string \<Rightarrow> queue_row \<Rightarrow> system \<Rightarrow> bool" where
  "servable env b h q s = (let cid = q_campaign_id q; n = wa_round_size env in \<exists>v sp.
     get_campaign (wa_intake env) (store s) cid = Inr (Some v) \<and> plan_round env (clock s) (cv_manifest v) q b h = Inr (Some sp) \<and>
     c_status (cv_manifest v) = ''open'' \<and> \<not> has_live_round (store s) cid \<and> cohort_of (store s) cid n \<noteq> [] \<and> images_ready (store s) cid n)"

lemma attempt_serves:
  assumes "quiet_env env (q # qs) (store s)" and "reachable s" and "servable env b h q s" and "attempt_round env b h q s = (r, s')"
  shows "\<exists>cr. r = Inr (Some cr) \<and> cr_round_id cr = wa_new_round env (q_campaign_id q) \<and> has_live_round (store s') (q_campaign_id q)"
proof -
  let ?cid = "q_campaign_id q"
  have ok: "db_ok (store s)" "log_ok (clock s) (store s)" using reachable_ok [OF assms(2)] by (simp_all add: system_ok_def)
  obtain v sp where v: "get_campaign (wa_intake env) (store s) ?cid = Inr (Some v)" and sp: "plan_round env (clock s) (cv_manifest v) q b h = Inr (Some sp)"
    and free: "c_status (cv_manifest v) = ''open''" "\<not> has_live_round (store s) ?cid" "cohort_of (store s) ?cid (wa_round_size env) \<noteq> []"
      "images_ready (store s) ?cid (wa_round_size env)"
    using assms(3) by (auto simp: servable_def Let_def)
  note c = get_campaign_id [OF v] plan_round_campaign [OF sp]
  have ready: "\<forall>k \<in> set (cohort_of (store s) ?cid (wa_round_size env)). k_image_ref k \<noteq> None \<and>
      (\<forall>l. leader_of (store s) ?cid = Some l \<longrightarrow> k_id k \<noteq> l_submission_id l)"
    using free(4) unfolding images_ready_def by fastforce
  obtain cr d' where cr: "create_round (clock s) (wa_new_round env ?cid) dedupe_by_digest sp (store s) = Inr (Some cr, d')"
    using creation_returns [OF ok(1), of sp "cv_manifest v" "wa_new_round env ?cid" "clock s"] c free(1-3) ready assms(1)
    by (auto simp: quiet_env_def)
  have "attempt_round env b h q s = (Inr (Some cr), s\<lparr>store := d'\<rparr>)"
    using attempt_quiet [of env b h q s] assms(1) v sp cr c by (simp add: quiet_env_def)
  moreover have "has_live_round d' ?cid"
    using digest.create_round_effect [OF ok cr] c by (auto simp: has_live_round_def)
  moreover have "cr_round_id cr = wa_new_round env ?cid" using create_round_cases [OF cr] by auto
  ultimately show ?thesis using assms(4) by simp
qed

lemma attempt_spares:
  assumes "quiet_env env (q # qs) (store s)" and "reachable s" and "attempt_round env b h q s = (r, s')"
  shows "quiet_env env qs (store s')" and "p \<in> set qs \<Longrightarrow> servable env b h p s \<Longrightarrow> servable env b h p s'"
proof -
  have quiet: "wa_others env = (\<lambda>s. s)" using assms(1) by (simp add: quiet_env_def)
  note f = attempt_frame [OF quiet assms(2,3)]
  have new: "wa_new_round env (q_campaign_id p) \<noteq> wa_new_round env (q_campaign_id q)" if "p \<in> set qs" for p
    using assms(1) imageI [OF imageI [OF that, of q_campaign_id], of "wa_new_round env"] by (auto simp: quiet_env_def)
  have "wa_new_round env (q_campaign_id p) \<notin> round_ids (store s')" if "p \<in> set qs" for p
    using assms(1) f(4) new [OF that] that by (auto simp: quiet_env_def)
  then show "quiet_env env qs (store s')" using assms(1) by (auto simp: quiet_env_def intro: inj_on_subset)
  assume p: "p \<in> set qs" "servable env b h p s"
  have "q_campaign_id p \<noteq> q_campaign_id q" using new [OF p(1)] by auto
  then have u: "undisturbed (q_campaign_id p) (store s) (store s')" by (rule f(6))
  then have "get_campaign (wa_intake env) (store s') (q_campaign_id p) = get_campaign (wa_intake env) (store s) (q_campaign_id p)"
    by (simp add: undisturbed_def get_campaign_def campaign_of_def)
  with p(2) f(2) u show "servable env b h p s'" by (simp add: servable_def Let_def undisturbed_def images_ready_def)
qed

lemma attempts_keep:
  assumes "wa_others env = (\<lambda>s. s)" and "reachable s" and "attempt_rounds env b h qs created s = (r, s')"
  shows "\<exists>more. r = Inr (created @ more)" and "has_live_round (store s) cid \<Longrightarrow> has_live_round (store s') cid"
  using assms(2,3)
proof (induction qs arbitrary: created s)
  case Nil
  { case 1 then show ?case by (auto simp: attempt_rounds_def run_ret_def) }
  { case 2 then show ?case by (simp add: attempt_rounds_def run_ret_def) }
next
  case (Cons q qs)
  have step: "\<exists>x s1. attempt_round env b h q s = (Inr x, s1) \<and> reachable s1 \<and> (has_live_round (store s) cid \<longrightarrow> has_live_round (store s1) cid) \<and>
      attempt_rounds env b h qs (case x of None \<Rightarrow> created | Some c \<Rightarrow> created @ [c]) s1 = (r, s')"
    if "reachable s" "attempt_rounds env b h (q # qs) created s = (r, s')" for s created
  proof -
    obtain o1 s1 where a: "attempt_round env b h q s = (o1, s1)" by (metis surj_pair)
    note f = attempt_frame [OF assms(1) that(1) a]
    then obtain x where "o1 = Inr x" by blast
    with a f that(2) show ?thesis by (auto simp: attempt_rounds_def run_bind_def run_ret_def)
  qed
  { case 1
    from step [OF this] Cons.IH(1) show ?case by (fastforce split: option.splits) }
  { case 2
    from step [OF this(2,3)] Cons.IH(2) 2(1) show ?case by blast }
qed

lemma attempts_serve:
  assumes "quiet_env env qs (store s)" and "reachable s" and "q \<in> set qs" and "servable env b h q s"
    and "attempt_rounds env b h qs created s = (r, s')"
  shows "has_live_round (store s') (q_campaign_id q) \<and>
    (\<exists>all. r = Inr all \<and> (\<exists>cr \<in> set all. cr_round_id cr = wa_new_round env (q_campaign_id q)))"
  using assms
proof (induction qs arbitrary: created s)
  case (Cons p qs)
  have quiet: "wa_others env = (\<lambda>s. s)" using Cons.prems(1) by (simp add: quiet_env_def)
  obtain o1 s1 where a: "attempt_round env b h p s = (o1, s1)" by (metis surj_pair)
  note f = attempt_frame [OF quiet Cons.prems(2) a]
  obtain x where x: "o1 = Inr x" using f(3) by blast
  have rest: "attempt_rounds env b h qs (case x of None \<Rightarrow> created | Some c \<Rightarrow> created @ [c]) s1 = (r, s')"
    using Cons.prems(5) a x by (simp add: attempt_rounds_def run_bind_def run_ret_def)
  note spared = attempt_spares [OF Cons.prems(1,2) a]
  show ?case
  proof (cases "q = p")
    case True
    then obtain cr where "x = Some cr" "cr_round_id cr = wa_new_round env (q_campaign_id q)" "has_live_round (store s1) (q_campaign_id q)"
      using attempt_serves [OF Cons.prems(1,2) _ a] Cons.prems(4) x by auto
    with attempts_keep [OF quiet f(1) rest] show ?thesis by fastforce
  next
    case False
    with Cons.prems(3,4) spared Cons.IH [OF _ f(1) _ _ rest] show ?thesis by simp
  qed
qed simp

lemma campaigns_with_queue_rows:
  "distinct (map q_campaign_id (campaigns_with_queue d))"
  "q \<in> set (campaigns_with_queue d) \<Longrightarrow> (\<exists>c. campaign_of d (q_campaign_id q) = Some c \<and> c_status c = ''open'') \<and>
     \<not> has_live_round d (q_campaign_id q) \<and> (0 < n \<longrightarrow> cohort_of d (q_campaign_id q) n \<noteq> [])"
proof -
  show "distinct (map q_campaign_id (campaigns_with_queue d))" by (simp add: campaigns_with_queue_def Let_def comp_def)
  assume "q \<in> set (campaigns_with_queue d)"
  then obtain t where t: "t \<in> set (submissions d)" "s_campaign_id t = q_campaign_id q" "latest_state d (s_id t) = Some BenchQueued"
    "\<not> has_live_round d (q_campaign_id q)" "\<exists>c. campaign_of d (q_campaign_id q) = Some c \<and> c_status c = ''open''"
    by (auto simp: campaigns_with_queue_def Let_def split: option.splits)
  then have "t \<in> set (sort_key commit_key (filter (queued d (q_campaign_id q)) (submissions d)))" by (simp add: queued_def)
  then have "sort_key commit_key (filter (queued d (q_campaign_id q)) (submissions d)) \<noteq> []" by (metis empty_iff empty_set)
  with t show "(\<exists>c. campaign_of d (q_campaign_id q) = Some c \<and> c_status c = ''open'') \<and>
     \<not> has_live_round d (q_campaign_id q) \<and> (0 < n \<longrightarrow> cohort_of d (q_campaign_id q) n \<noteq> [])"
    by (simp add: cohort_of_def)
qed


section \<open>A campaign that is due\<close>

definition ex_watch_c :: campaign_row where
  "ex_watch_c = ex_c\<lparr>c_bench := Some [(''baseline_engine_image_digest'', JStr ex_digest)], c_sampling_rule := Some [(''seed'', JNull)]\<rparr>"

definition ex_watch_db :: db where
  "ex_watch_db = empty_db\<lparr>campaigns := [ex_watch_c]\<rparr>"

definition ex_watch :: watch_env where
  "ex_watch = \<lparr>wa_intake = ex_watcher, wa_loads = (\<lambda>_. Inr None), wa_new_submission = (\<lambda>_. ''s2''), wa_new_round = (\<lambda>cid. ''r'' @ cid),
     wa_connect = Inr (), wa_chain_view = Inl (PyRuntimeError ''chain''), wa_head = Inr 100, wa_block_hash = (\<lambda>_. Inr ''0xab''),
     wa_sample = (\<lambda>_ _ _ _. Inr (''t'', [])), wa_finality_depth = 3, wa_round_size = 1, wa_max_wait_s = 60, wa_stale_s = 600,
     wa_ghcr_owner = ''o'', wa_ghcr_image = ''e'', wa_others = (\<lambda>s. s)\<rparr>"

definition ex_queued_db :: "db res" where
  "ex_queued_db = rbind (insert_submission 1 ''s1'' ex_ns ex_watch_db) (\<lambda>(_, d1).
     complete_gates_job 1 ''s1'' None True (set_engine_image ''s1'' ''i1'' d1))"

definition ex_due :: "db \<Rightarrow> bool" where
  "ex_due d = (map q_campaign_id (campaigns_with_queue d) = [''c1''] \<and> images_ready d ''c1'' 1 \<and> campaigns d = [ex_watch_c] \<and> rounds d = [] \<and>
     (case plan_round ex_watch 1 ex_watch_c (hd (campaigns_with_queue d)) 97 ''0xab'' of Inr (Some _) \<Rightarrow> True | _ \<Rightarrow> False))"

lemma ex_queued_due: "case ex_queued_db of Inl _ \<Rightarrow> False | Inr d \<Rightarrow> ex_due d"
  by code_simp

lemma ex_queued_reachable:
  obtains d where "reachable \<lparr>clock = 1, store = d, workers = []\<rparr>" "ex_due d"
proof -
  obtain d where d: "ex_queued_db = Inr d" "ex_due d" using res_cases [OF ex_queued_due] by blast
  obtain r1 d1 where 1: "insert_submission 1 ''s1'' ex_ns ex_watch_db = Inr (r1, d1)"
    and 2: "complete_gates_job 1 ''s1'' None True (set_engine_image ''s1'' ''i1'' d1) = Inr d"
    using d(1) by (auto simp: ex_queued_db_def rbind_eq_Inr)
  have "initial \<lparr>clock = 1, store = ex_watch_db, workers = []\<rparr>"
    by (auto simp: initial_def ex_watch_db_def uniq_def intro!: exI [of _ "[ex_watch_c]"])
  then have "reachable \<lparr>clock = 1, store = ex_watch_db, workers = []\<rparr>" by (auto simp: reachable_def)
  then have "reachable \<lparr>clock = 1, store = d1, workers = []\<rparr>" by (rule reachable_step) (rule gates [OF intake [OF 1]])
  then have "reachable \<lparr>clock = 1, store = set_engine_image ''s1'' ''i1'' d1, workers = []\<rparr>"
    by (rule reachable_step) (rule gates [OF image])
  then have "reachable \<lparr>clock = 1, store = d, workers = []\<rparr>" by (rule reachable_step) (rule gates [OF gates_done [OF 2]])
  with d(2) that show thesis by blast
qed



end
