(* ===== verification/ClaimGate.thy ===== *)
theory ClaimGate
  imports PyValue
begin

text \<open>
  The claim gate, twice: \<open>validate_state\<close>, \<open>gate_open\<close>, \<open>exec_allow\<close> and the exit code of
  \<open>cmd_gate\<close> of \<open>ops/release.py\<close>, and \<open>worker/coordination.py\<close>, which evaluates the same matrix
  on the same file in the worker and waits for it. A release state file is what \<open>json.loads\<close> gives
  on its text, or nothing when it is missing or no JSON.
\<close>

section \<open>\<open>ops/release.py\<close>\<close>

definition phase_names :: "string list" where
  "phase_names = [''idle'', ''draining'', ''quiescing'', ''applying'', ''verifying'', ''verified'']"

definition scope_names :: "string list" where
  "scope_names = [''full'', ''vector-only'']"

definition direction_names :: "string list" where
  "direction_names = [''forward'', ''rollback'', ''reset'']"

text \<open>\<open>v in names\<close>, \<open>v == 2\<close> (a float equal to two passes), and a non-empty string.\<close>

definition among :: "string list \<Rightarrow> json \<Rightarrow> bool" where
  "among names v = (case v of JStr s \<Rightarrow> s \<in> set names | _ \<Rightarrow> False)"

definition is_schema_version :: "json \<Rightarrow> bool" where
  "is_schema_version v = (case v of JInt i \<Rightarrow> i = 2 | JFloat x \<Rightarrow> x = Fin 2 | _ \<Rightarrow> False)"

definition non_empty_str :: "json \<Rightarrow> bool" where
  "non_empty_str v = (case v of JStr s \<Rightarrow> s \<noteq> [] | _ \<Rightarrow> False)"

definition jget_or :: "jdict \<Rightarrow> string \<Rightarrow> json \<Rightarrow> json" where
  "jget_or d k v = (if has_key d k then jget d k else v)"

definition read_json :: "json option \<Rightarrow> jdict option" where
  "read_json data = (case data of Some (JObj d) \<Rightarrow> Some d | _ \<Rightarrow> None)"

definition validate_state :: "jdict option \<Rightarrow> jdict option" where
  "validate_state data = (case data of None \<Rightarrow> None | Some d \<Rightarrow>
     if \<not> is_schema_version (jget d ''schema_version'') then None
     else if \<not> among phase_names (jget d ''phase'') \<or> \<not> among scope_names (jget d ''scope'') then None
     else if \<not> list_all (\<lambda>k. non_empty_str (jget d k)) [''op_id'', ''from_commit'', ''target_commit''] then None
     else if \<not> among direction_names (jget_or d ''direction'' (JStr ''forward'')) then None
     else if \<not> non_empty_str (jget d ''verified_commit'') then None
     else Some d)"

definition load_state_file :: "json option \<Rightarrow> jdict option" where
  "load_state_file data = validate_state (read_json data)"

definition jstr_of :: "json \<Rightarrow> string" where
  "jstr_of v = (case v of JStr s \<Rightarrow> s | _ \<Rightarrow> [])"

definition release_gate_open :: "jdict option \<Rightarrow> bool \<times> string" where
  "release_gate_open state = (case state of None \<Rightarrow> (False, ''state-corrupt'') | Some s \<Rightarrow>
     let phase = jstr_of (jget s ''phase'') in
     if jget s ''scope'' = JStr ''vector-only'' then (True, ''vector-only'')
     else if phase \<in> {''idle'', ''verified''} then (True, phase)
     else if phase = ''verifying'' then
       (if jget s ''startup_complete'' = JBool True then (True, ''verifying-started'') else (False, ''phase=verifying''))
     else (False, ''phase='' @ phase))"

definition exec_allow :: "jdict option \<Rightarrow> bool \<times> string" where
  "exec_allow state = (case state of None \<Rightarrow> (False, ''state-corrupt'') | Some s \<Rightarrow>
     let phase = jstr_of (jget s ''phase'') in
     if jget s ''scope'' = JStr ''vector-only'' then (True, ''vector-only'')
     else if phase \<in> {''idle'', ''draining'', ''verifying'', ''verified''} then (True, phase)
     else (False, ''phase='' @ phase))"

definition cmd_gate :: "json option \<Rightarrow> nat" where
  "cmd_gate data = (case load_state_file data of None \<Rightarrow> 255
     | Some s \<Rightarrow> if fst (exec_allow (Some s)) then 0 else 1)"

section \<open>\<open>worker/coordination.py\<close>\<close>

definition key_fields_valid :: "jdict \<Rightarrow> bool" where
  "key_fields_valid d = (non_empty_str (jget d ''op_id'') \<and>
     list_all (\<lambda>k. non_empty_str (jget d k)) [''from_commit'', ''target_commit'', ''verified_commit''] \<and>
     among direction_names (jget_or d ''direction'' (JStr ''forward'')))"

definition gate_open :: "json option \<Rightarrow> bool \<times> string" where
  "gate_open data = (case data of
     Some (JObj d) \<Rightarrow>
       if \<not> is_schema_version (jget d ''schema_version'') then (False, ''state-corrupt'')
       else if \<not> key_fields_valid d then (False, ''state-corrupt'')
       else let phase = jget d ''phase'' in
       if \<not> among phase_names phase \<or> \<not> among scope_names (jget d ''scope'') then (False, ''state-corrupt'')
       else if jget d ''scope'' = JStr ''vector-only'' then (True, ''vector-only'')
       else if phase = JStr ''idle'' \<or> phase = JStr ''verified'' then (True, jstr_of phase)
       else if phase = JStr ''verifying'' \<and> jget d ''startup_complete'' = JBool True then (True, ''verifying-started'')
       else (False, ''phase='' @ jstr_of phase)
   | _ \<Rightarrow> (False, ''state-corrupt''))"

text \<open>
  \<open>_acquire_open_gate\<close>. One turn of the loop sees whether the activity lock can be shared, the
  state file, and whether the worker drains while it waits; \<open>Parked\<close> is a loop that is still waiting
  after the turns given.
\<close>

record gate_turn =
  gt_lock_free :: bool
  gt_file :: "json option"
  gt_drain :: bool

datatype claim = Claimed | ClaimAborted string | Parked

fun acquire_open_gate :: "bool \<Rightarrow> gate_turn list \<Rightarrow> claim" where
  "acquire_open_gate once [] = Parked"
| "acquire_open_gate once (t # ts) =
     (if gt_lock_free t \<and> fst (gate_open (gt_file t)) then Claimed
      else if once then ClaimAborted ''gate-closed''
      else if gt_drain t then ClaimAborted ''drain''
      else acquire_open_gate once ts)"

definition claim_guard :: "bool \<Rightarrow> bool \<Rightarrow> gate_turn list \<Rightarrow> claim" where
  "claim_guard coordination_enabled once ts = (if coordination_enabled then acquire_open_gate once ts else Claimed)"

section \<open>The two gates agree\<close>

lemma gates_agree_on_file: "gate_open data = release_gate_open (load_state_file data)"
proof (cases "\<exists>d. data = Some (JObj d)")
  case True
  then obtain d where d: "data = Some (JObj d)" by blast
  have phase: "jget d ''phase'' = JStr (jstr_of (jget d ''phase''))" if "among phase_names (jget d ''phase'')"
    using that by (auto simp: among_def jstr_of_def split: json.splits)
  show ?thesis
  proof (cases "validate_state (Some d)")
    case None
    then show ?thesis
      by (auto simp: d gate_open_def load_state_file_def read_json_def release_gate_open_def validate_state_def key_fields_valid_def split: if_splits)
  next
    case (Some e)
    then have ok: "is_schema_version (jget d ''schema_version'')" "key_fields_valid d" "among phase_names (jget d ''phase'')"
      "among scope_names (jget d ''scope'')" "e = d"
      by (auto simp: validate_state_def key_fields_valid_def split: if_splits)
    then obtain p where "jget d ''phase'' = JStr p" using phase by blast
    then show ?thesis using ok Some
      by (auto simp: d gate_open_def load_state_file_def read_json_def release_gate_open_def jstr_of_def Let_def)
  qed
next
  case False
  then show ?thesis by (auto simp: gate_open_def load_state_file_def read_json_def validate_state_def release_gate_open_def split: option.splits json.splits)
qed

text \<open>
  C24. The worker's claim gate is the coordinator's: on every content of the state file, valid, corrupt
  or missing, \<open>gate_open\<close> of \<open>worker/coordination.py\<close> gives the answer and the reason that
  \<open>gate_open\<close> of \<open>ops/release.py\<close> gives on the state it loads. An open gate implies that the
  unit may start, and a file on which \<open>cmd_gate\<close> reports corruption closes both.
\<close>

theorem claim_gates_agree:
  "gate_open data = release_gate_open (load_state_file data) \<and>
   (fst (gate_open data) \<longrightarrow> cmd_gate data = 0) \<and> (cmd_gate data = 255 \<longleftrightarrow> snd (gate_open data) = ''state-corrupt'')"
proof -
  have "cmd_gate data = 0" if "fst (gate_open data)"
    using that unfolding gates_agree_on_file
    by (cases "load_state_file data") (auto simp: cmd_gate_def release_gate_open_def exec_allow_def Let_def split: if_splits)
  moreover have "jstr_of (jget d ''phase'') \<in> set phase_names" if "load_state_file data = Some d" for d
    using that by (auto simp: load_state_file_def validate_state_def among_def jstr_of_def split: option.splits if_splits json.splits)
  then have "cmd_gate data = 255 \<longleftrightarrow> snd (gate_open data) = ''state-corrupt''"
    unfolding gates_agree_on_file
    by (cases "load_state_file data") (auto simp: cmd_gate_def release_gate_open_def phase_names_def Let_def)
  ultimately show ?thesis using gates_agree_on_file by blast
qed

text \<open>
  A worker claims only behind an open gate: when the wait of \<open>claim_guard\<close> ends in a claim, the
  last turn found the lock free of a deploy and a valid state file with the gate open, and every turn
  before it found one of the two missing and no request to drain.
\<close>

theorem claims_behind_open_gate:
  assumes "claim_guard True once ts = Claimed"
  shows "\<exists>before t after. ts = before @ t # after \<and> gt_lock_free t \<and> (\<exists>s. load_state_file (gt_file t) = Some s \<and> fst (release_gate_open (Some s))) \<and>
    (\<forall>u \<in> set before. \<not> once \<and> \<not> gt_drain u \<and> \<not> (gt_lock_free u \<and> fst (gate_open (gt_file u))))"
proof -
  have "acquire_open_gate once ts = Claimed" using assms by (simp add: claim_guard_def)
  then show ?thesis
  proof (induction ts)
    case (Cons t ts)
    show ?case
    proof (cases "gt_lock_free t \<and> fst (gate_open (gt_file t))")
      case True
      then have "\<exists>s. load_state_file (gt_file t) = Some s \<and> fst (release_gate_open (Some s))"
        by (cases "load_state_file (gt_file t)") (auto simp: gates_agree_on_file release_gate_open_def [of None])
      with True show ?thesis by (intro exI [of _ "[]"] exI [of _ t] exI [of _ ts]) simp
    next
      case False
      then have "\<not> once" "\<not> gt_drain t" "acquire_open_gate once ts = Claimed" using Cons.prems by (auto split: if_splits)
      with Cons.IH obtain before u after where "ts = before @ u # after" "gt_lock_free u"
        "\<exists>s. load_state_file (gt_file u) = Some s \<and> fst (release_gate_open (Some s))"
        "\<forall>v \<in> set before. \<not> once \<and> \<not> gt_drain v \<and> \<not> (gt_lock_free v \<and> fst (gate_open (gt_file v)))" by blast
      with False \<open>\<not> once\<close> \<open>\<not> gt_drain t\<close> show ?thesis
        by (intro exI [of _ "t # before"] exI [of _ u] exI [of _ after]) simp
    qed
  qed simp
qed

definition ex_state_file :: json where
  "ex_state_file = JObj [(''schema_version'', JInt 2), (''op_id'', JStr ''o''), (''phase'', JStr ''verifying''), (''scope'', JStr ''full''),
     (''from_commit'', JStr ''a''), (''target_commit'', JStr ''b''), (''verified_commit'', JStr ''a''), (''startup_complete'', JBool True)]"

definition ex_turns :: "gate_turn list" where
  "ex_turns = [\<lparr>gt_lock_free = False, gt_file = None, gt_drain = False\<rparr>, \<lparr>gt_lock_free = True, gt_file = None, gt_drain = False\<rparr>,
     \<lparr>gt_lock_free = True, gt_file = Some ex_state_file, gt_drain = True\<rparr>]"

theorem claims_behind_open_gate_witness:
  "\<exists>t \<in> set ex_turns. gt_lock_free t \<and> (\<exists>s. load_state_file (gt_file t) = Some s \<and> fst (release_gate_open (Some s)))"
proof -
  have "claim_guard True False ex_turns = Claimed" by code_simp
  from claims_behind_open_gate [OF this] show ?thesis by (metis in_set_conv_decomp)
qed

theorem claim_gates_agree_witness: "gate_open (Some ex_state_file) = (True, ''verifying-started'') \<and> cmd_gate (Some ex_state_file) = 0"
proof -
  have "gate_open (Some ex_state_file) = (True, ''verifying-started'')" by code_simp
  with claim_gates_agree [of "Some ex_state_file"] show ?thesis by simp
qed

end
