(* ===== verification/Release.thy ===== *)
theory Release
  imports Process ClaimGate
begin

text \<open>
  The release coordinator of \<open>ops/release.py\<close>: the state machine that a timer advances tick by tick
  from idle through draining, quiescing, applying and verifying back to idle, the requests of the
  operator, and the workers it shares a machine with. A tick is a run on the host: every command it
  issues and every write to the state file is one access, before which the workers act, and at which
  the process may be killed. What git, systemd, pip, the database probe and the log service answer are
  fields of \<open>release_env\<close> that may depend on the moment. Log lines, progress files, probe files and
  the units' own start and stop are not part of the state.
\<close>

section \<open>State\<close>

datatype phase = Idle | Draining | Quiescing | Applying | Verifying | Verified_Phase

datatype scope = Full_Scope | Vector_Only

datatype direction = Forward | Rollback | Reset

record release_state =
  rl_op_id :: string
  rl_phase :: phase
  rl_scope :: scope
  rl_direction :: "direction option"
  rl_from :: string
  rl_target :: string
  rl_verified :: string
  rl_hold :: "string option" \<comment> \<open>the baseline commit of the hold\<close>
  rl_startup_complete :: bool
  rl_log_accepted :: bool
  rl_recovery_copy :: "string option"
  rl_recovery_commit :: "string option"
  rl_failure_step :: "string option"
  rl_repair_from :: "string option"
  rl_units :: "(string \<times> bool) list option" \<comment> \<open>whether each unit was active\<close>

record release_request =
  rq_type :: string
  rq_status :: string
  rq_target :: string
  rq_baseline :: string
  rq_recovery_copy :: "string option"
  rq_main_commit :: string

text \<open>
  The host. \<open>h_code\<close> is the application code with its dependencies and unit files that is installed:
  \<open>None\<close> while a release has written a part of it. \<open>h_shared\<close> are the workers that share the activity
  lock, \<open>h_working\<close> those of them in a claim.
\<close>

record host =
  h_state :: "release_state option"
  h_request :: "release_request option"
  h_exclusive :: bool
  h_shared :: "string list"
  h_working :: "string list"
  h_code :: "string option"
  h_head :: string
  h_alias :: string
  h_moment :: nat

datatype db_probe = Db_Error | Db_Running (dp_rounds: "string list") (dp_submissions: "string list")

datatype release_stop = Fail nat string | Timeout_Expired | Killed | After_Exec release_stop

record release_env =
  re_others :: "host \<Rightarrow> host"
  re_stops :: "host \<Rightarrow> release_stop option" \<comment> \<open>a kill, or an exception out of a command\<close>
  re_code :: "string \<Rightarrow> string" \<comment> \<open>of a commit, all but \<open>ops/vector/vector.toml\<close>\<close>
  re_op_id :: "host \<Rightarrow> string"
  re_origin :: "host \<Rightarrow> string option"
  re_diff :: "string \<Rightarrow> string \<Rightarrow> string list option"
  re_dirty :: "host \<Rightarrow> bool"
  re_reset :: "host \<Rightarrow> bool"
  re_sync_check :: "host \<Rightarrow> nat"
  re_drift_vector :: "host \<Rightarrow> bool"
  re_db :: "host \<Rightarrow> db_probe"
  re_is_active :: "host \<Rightarrow> string \<Rightarrow> string"
  re_pending :: "host \<Rightarrow> string list \<Rightarrow> string list" \<comment> \<open>units not stopped within the budget\<close>
  re_overdue :: "host \<Rightarrow> bool"
  re_save_copy :: "host \<Rightarrow> string option"
  re_restore :: "host \<Rightarrow> bool"
  re_copy_meta :: "string \<Rightarrow> string option"
  re_pip :: "host \<Rightarrow> nat option" \<comment> \<open>\<open>None\<close>: timed out\<close>
  re_install :: "host \<Rightarrow> nat"
  re_healthy :: "host \<Rightarrow> string \<Rightarrow> bool"
  re_invocation :: "host \<Rightarrow> bool"
  re_log_check :: "host \<Rightarrow> nat \<times> bool" \<comment> \<open>exit code, and whether an acceptance reason is reported\<close>

definition resident_units :: "string list" where
  "resident_units = [''pareton-api'', ''pareton-watcher'', ''pareton-weights'']"

definition worker_units :: "string list" where
  "worker_units = [''pareton-worker'', ''pareton-round-worker'']"

definition maint_timers :: "string list" where
  "maint_timers = [''pareton-gpu-reap.timer'', ''pareton-builder-cleanup.timer'']"

definition oneshot_units :: "string list" where
  "oneshot_units = [''pareton-gpu-reap.service'', ''pareton-builder-cleanup.service'']"

definition vector_toml :: string where
  "vector_toml = ''ops/vector/vector.toml''"

definition truthy_str :: "string option \<Rightarrow> bool" where
  "truthy_str v = (v \<noteq> None \<and> v \<noteq> Some [])"

definition repair_failed :: string where
  "repair_failed = ''vector-repair-install-failed''"

section \<open>One access to the host\<close>

type_synonym 'a release_run = "(host, release_stop, 'a) run"

definition access :: "release_env \<Rightarrow> (host \<Rightarrow> release_stop + ('a \<times> host)) \<Rightarrow> 'a release_run" where
  "access env f = run_txn (re_others env) (\<lambda>h. case re_stops env h of Some e \<Rightarrow> Inl e | None \<Rightarrow> f h)"

definition ask :: "release_env \<Rightarrow> (host \<Rightarrow> 'a) \<Rightarrow> 'a release_run" where
  "ask env f = access env (\<lambda>h. Inr (f h, h))"

definition write_host :: "release_env \<Rightarrow> (host \<Rightarrow> host) \<Rightarrow> unit release_run" where
  "write_host env f = access env (\<lambda>h. Inr ((), f h))"

definition mutate_state :: "release_env \<Rightarrow> (release_state \<Rightarrow> release_state) \<Rightarrow> release_state release_run" where
  "mutate_state env f = access env (\<lambda>h. case h_state h of None \<Rightarrow> Inl (Fail 2 ''state-corrupt'')
     | Some s \<Rightarrow> Inr (f s, h\<lparr>h_state := Some (f s)\<rparr>))"

text \<open>\<open>load_state()\<close> where the code indexes the result: on nothing it raises, which nobody catches.\<close>

definition reload_state :: "release_env \<Rightarrow> release_state release_run" where
  "reload_state env = access env (\<lambda>h. case h_state h of None \<Rightarrow> Inl Killed | Some s \<Rightarrow> Inr (s, h))"

definition open_request :: "release_request \<Rightarrow> bool" where
  "open_request r = (rq_status r \<in> {''pending'', ''running''})"

definition finish_request :: "release_env \<Rightarrow> string \<Rightarrow> unit release_run" where
  "finish_request env st = write_host env (\<lambda>h. h\<lparr>h_request :=
     map_option (\<lambda>r. if open_request r then r\<lparr>rq_status := st\<rparr> else r) (h_request h)\<rparr>)"

definition mark_request :: "release_env \<Rightarrow> release_request \<Rightarrow> string \<Rightarrow> unit release_run" where
  "mark_request env r st = write_host env (\<lambda>h. h\<lparr>h_request := Some (r\<lparr>rq_status := st\<rparr>)\<rparr>)"

definition mark_request_running :: "release_env \<Rightarrow> release_request \<Rightarrow> unit release_run" where
  "mark_request_running env r = write_host env (\<lambda>h. h\<lparr>h_request := (case h_request h of
     Some c \<Rightarrow> if rq_type c = rq_type r then Some (r\<lparr>rq_status := ''running''\<rparr>) else Some c | None \<Rightarrow> None)\<rparr>)"

text \<open>\<open>ActivityLock.try_acquire\<close>, and \<open>_ensure_activity_exclusive\<close>, which reuses the lock of this process.\<close>

definition try_exclusive :: "release_env \<Rightarrow> bool release_run" where
  "try_exclusive env = access env (\<lambda>h. if h_shared h = [] \<and> \<not> h_exclusive h then Inr (True, h\<lparr>h_exclusive := True\<rparr>) else Inr (False, h))"

definition ensure_activity_exclusive :: "release_env \<Rightarrow> bool release_run" where
  "ensure_activity_exclusive env = access env (\<lambda>h. if h_exclusive h \<or> h_shared h = [] then Inr (True, h\<lparr>h_exclusive := True\<rparr>) else Inr (False, h))"

definition snapshot_units :: "release_env \<Rightarrow> host \<Rightarrow> (string \<times> bool) list" where
  "snapshot_units env h = map (\<lambda>u. (u, re_is_active env h u \<notin> {''inactive'', ''failed''}))
     (resident_units @ worker_units @ maint_timers @ [''pareton-deploy.timer''])"

definition changed_files :: "release_env \<Rightarrow> string \<Rightarrow> string \<Rightarrow> string list" where
  "changed_files env a b = (if a = b then [] else case re_diff env a b of None \<Rightarrow> [''<diff-error>''] | Some fs \<Rightarrow> filter (\<lambda>f. f \<noteq> []) fs)"

definition requirements_changed :: "string list \<Rightarrow> bool" where
  "requirements_changed fs = list_ex (\<lambda>f. f \<in> {''requirements.txt'', ''api/requirements.txt''}) fs"

section \<open>Verification\<close>

definition mark_health_check_failed :: "release_env \<Rightarrow> unit release_run" where
  "mark_health_check_failed env = run_bind (mutate_state env (\<lambda>s. s\<lparr>rl_phase := Verifying, rl_log_accepted := False,
     rl_failure_step := Some ''health-check-failed''\<rparr>)) (\<lambda>_. finish_request env ''failed'')"

definition mark_start_failed :: "release_env \<Rightarrow> unit release_run" where
  "mark_start_failed env = run_bind (mutate_state env (\<lambda>s. s\<lparr>rl_failure_step := Some ''start-failed''\<rparr>)) (\<lambda>_. finish_request env ''failed'')"

definition gpu_probe_refused :: "release_env \<Rightarrow> nat \<Rightarrow> string \<Rightarrow> unit release_run" where
  "gpu_probe_refused env code step = run_bind (mutate_state env (\<lambda>s. s\<lparr>rl_log_accepted := False, rl_failure_step := Some step\<rparr>)) (\<lambda>_.
     run_bind (finish_request env ''failed'') (\<lambda>_. run_fail (Fail code step)))"

definition gpu_probe_flow :: "release_env \<Rightarrow> unit release_run" where
  "gpu_probe_flow env = run_bind (ask env (\<lambda>h. re_pending env h (take 1 oneshot_units))) (\<lambda>pending.
     if pending \<noteq> [] then gpu_probe_refused env 1 ''gpu-reap-wait-timeout''
     else run_bind (ask env (re_invocation env)) (\<lambda>invocation.
       if \<not> invocation then gpu_probe_refused env 2 ''gpu-probe-requires-deploy-unit'' else run_ret ()))"

definition finish_verification :: "release_env \<Rightarrow> release_state \<Rightarrow> nat \<Rightarrow> bool \<Rightarrow> nat release_run" where
  "finish_verification env st code accept = (let target = rl_target st in
     if code = 0 then
       run_bind (mutate_state env (\<lambda>s. s\<lparr>rl_phase := Idle, rl_scope := Full_Scope, rl_log_accepted := True, rl_verified := target,
         rl_failure_step := None\<rparr>)) (\<lambda>_.
       run_bind (write_host env (\<lambda>h. h\<lparr>h_alias := target\<rparr>)) (\<lambda>_.
       run_bind (finish_request env ''done'') (\<lambda>_. run_ret 0)))
     else let step = (if code = 1 then (if accept then ''notification-acceptance-required'' else ''log-ingestion'')
         else if code = 2 then ''axiom-query'' else ''log-ingestion'') in
       run_bind (mutate_state env (\<lambda>s. s\<lparr>rl_log_accepted := False, rl_failure_step := Some step, rl_phase := Verifying,
         rl_startup_complete := True\<rparr>)) (\<lambda>_.
       run_bind (finish_request env ''failed'') (\<lambda>_. run_ret (if code = 1 then 1 else 2))))"

text \<open>Each unit is waited for in turn, up to the first that does not become healthy.\<close>

fun all_healthy :: "release_env \<Rightarrow> string list \<Rightarrow> bool release_run" where
  "all_healthy env [] = run_ret True"
| "all_healthy env (u # us) = run_bind (ask env (\<lambda>h. re_healthy env h u)) (\<lambda>ok. if ok then all_healthy env us else run_ret False)"

text \<open>The end of \<open>verify_flow\<close>: the probes and the log check of a started target.\<close>

definition verify_logs :: "release_env \<Rightarrow> nat release_run" where
  "verify_logs env = run_bind (gpu_probe_flow env) (\<lambda>_. run_bind (ask env (re_log_check env)) (\<lambda>(code, accept).
     run_bind (reload_state env) (\<lambda>s. finish_verification env s code accept)))"

definition verify_flow :: "release_env \<Rightarrow> bool \<Rightarrow> nat release_run" where
  "verify_flow env fresh_start = (if fresh_start then
       run_bind (all_healthy env resident_units) (\<lambda>ok. if \<not> ok then run_bind (mark_start_failed env) (\<lambda>_. run_ret 2)
       else run_bind (write_host env (\<lambda>h. h\<lparr>h_exclusive := False\<rparr>)) (\<lambda>_.
       run_bind (all_healthy env worker_units) (\<lambda>ok. if \<not> ok then run_bind (mark_start_failed env) (\<lambda>_. run_ret 2)
       else run_bind (mutate_state env (\<lambda>s. s\<lparr>rl_startup_complete := True\<rparr>)) (\<lambda>_. verify_logs env))))
     else run_bind (all_healthy env (resident_units @ worker_units)) (\<lambda>ok.
       if \<not> ok then run_bind (mark_health_check_failed env) (\<lambda>_. run_ret 2) else verify_logs env))"

section \<open>The phases of a release\<close>

definition tick_continue :: "release_env \<Rightarrow> string \<Rightarrow> nat release_run" where
  "tick_continue env op_id = run_bind (ask env h_state) (\<lambda>st. case st of None \<Rightarrow> run_ret 2
     | Some s \<Rightarrow> if rl_op_id s \<noteq> op_id then run_ret 2
       else if rl_phase s \<noteq> Applying then run_ret 2
       else run_bind (mutate_state env (\<lambda>s. s\<lparr>rl_phase := Verifying, rl_startup_complete := False, rl_log_accepted := False\<rparr>)) (\<lambda>_.
         run_bind (mutate_state env (\<lambda>s. s)) (\<lambda>_. verify_flow env True)))"

text \<open>Before the tree is written: the saved environment is put back, or the current one is saved.\<close>

definition prepare_recovery :: "release_env \<Rightarrow> release_state \<Rightarrow> direction \<Rightarrow> unit release_run" where
  "prepare_recovery env s direction =
     (if truthy_str (rl_recovery_copy s) \<and> direction \<in> {Rollback, Reset} then
        run_bind (write_host env (\<lambda>h. h\<lparr>h_code := None\<rparr>)) (\<lambda>_. run_bind (ask env (re_restore env)) (\<lambda>ok.
          if ok then run_ret () else run_fail (Fail 2 ''venv-restore-failed'')))
      else if direction = Forward \<and> rl_recovery_copy s = None then
        run_bind (ask env (re_save_copy env)) (\<lambda>copy. case copy of None \<Rightarrow> run_fail (Fail 2 ''recovery-copy-failed'')
          | Some dir \<Rightarrow> run_bind (mutate_state env (\<lambda>t. t\<lparr>rl_recovery_copy := Some dir, rl_recovery_commit := Some (rl_from s)\<rparr>)) (\<lambda>_. run_ret ()))
      else run_ret ())"

text \<open>The call ends with \<open>os.execve\<close>: what the new program raises, the handlers of this one do not see.\<close>

definition execve :: "nat release_run \<Rightarrow> nat release_run" where
  "execve m = run_catch m (\<lambda>e. run_fail (After_Exec e))"

definition tick_applying :: "release_env \<Rightarrow> release_state \<Rightarrow> nat release_run" where
  "tick_applying env s = (let direction = (case rl_direction s of None \<Rightarrow> Forward | Some d \<Rightarrow> d);
       give_up = run_bind (finish_request env ''failed'') (\<lambda>_. run_ret 2) in
     run_bind (prepare_recovery env s direction) (\<lambda>_.
     run_bind (ask env (re_dirty env)) (\<lambda>dirty. if dirty then give_up
     else run_bind (write_host env (\<lambda>h. h\<lparr>h_code := None\<rparr>)) (\<lambda>_.
     run_bind (ask env (re_reset env)) (\<lambda>ok. if \<not> ok then give_up
     else run_bind (write_host env (\<lambda>h. h\<lparr>h_head := rl_target s\<rparr>)) (\<lambda>_.
     run_bind (if requirements_changed (changed_files env (rl_from s) (rl_target s)) \<and> direction = Forward
       then run_bind (ask env (re_pip env)) (\<lambda>rc. case rc of None \<Rightarrow> run_fail Timeout_Expired | Some c \<Rightarrow> run_ret c) else run_ret 0) (\<lambda>pip.
     if pip \<noteq> 0 then give_up
     else run_bind (ask env (re_install env)) (\<lambda>rc. if rc \<noteq> 0 then give_up
     else run_bind (write_host env (\<lambda>h. h\<lparr>h_code := Some (re_code env (rl_target s))\<rparr>)) (\<lambda>_.
     execve (tick_continue env (rl_op_id s)))))))))))"

text \<open>One stage of quiescing: units are told to stop and are waited for; past the threshold the exit code alerts.\<close>

definition stop_units :: "release_env \<Rightarrow> string list \<Rightarrow> nat release_run \<Rightarrow> nat release_run" where
  "stop_units env units next_stage = run_bind (ask env (\<lambda>h. re_pending env h units)) (\<lambda>pending.
     if pending \<noteq> [] then run_bind (ask env (re_overdue env)) (\<lambda>late. run_ret (if late then 1 else 0)) else next_stage)"

definition tick_quiescing :: "release_env \<Rightarrow> nat release_run" where
  "tick_quiescing env = run_bind (ensure_activity_exclusive env) (\<lambda>held. if \<not> held then run_ret 0
     else stop_units env oneshot_units (stop_units env worker_units (stop_units env resident_units
       (run_bind (mutate_state env (\<lambda>s. s\<lparr>rl_phase := Applying\<rparr>)) (\<lambda>_.
        run_bind (mutate_state env (\<lambda>s. s)) (\<lambda>s. tick_applying env s))))))"

definition was_active :: "release_state \<Rightarrow> string \<Rightarrow> bool" where
  "was_active s u = (map_of (case rl_units s of None \<Rightarrow> [] | Some l \<Rightarrow> l) u = Some True)"

definition tick_draining :: "release_env \<Rightarrow> release_state \<Rightarrow> nat release_run" where
  "tick_draining env s = run_bind (try_exclusive env) (\<lambda>held. run_bind (ask env (re_db env)) (\<lambda>records.
     if \<not> held then (case records of
         Db_Error \<Rightarrow> run_bind (mutate_state env (\<lambda>s. s\<lparr>rl_failure_step := Some ''active-work-db-unavailable''\<rparr>)) (\<lambda>_. run_ret 2)
       | _ \<Rightarrow> run_bind (ask env (\<lambda>h. filter (\<lambda>u. was_active s u \<and> re_is_active env h u \<noteq> ''active'') resident_units)) (\<lambda>unhealthy.
           if unhealthy \<noteq> []
           then run_bind (mutate_state env (\<lambda>s. s\<lparr>rl_failure_step := Some ''service-health-error''\<rparr>)) (\<lambda>_. run_ret 2)
           else run_bind (mutate_state env (\<lambda>s. s\<lparr>rl_failure_step := None\<rparr>)) (\<lambda>_.
             run_bind (ask env (re_overdue env)) (\<lambda>late. run_ret (if late then 1 else 0)))))
     else (case records of Db_Error \<Rightarrow> run_ret 2
       | Db_Running rounds_running submissions_running \<Rightarrow> if rounds_running \<noteq> [] \<or> submissions_running \<noteq> [] then run_ret 2
         else run_bind (mutate_state env (\<lambda>s. s\<lparr>rl_phase := Quiescing\<rparr>)) (\<lambda>_.
           run_bind (mutate_state env (\<lambda>s. s)) (\<lambda>_. tick_quiescing env)))))"

definition tick_verifying_resume :: "release_env \<Rightarrow> release_state \<Rightarrow> nat release_run" where
  "tick_verifying_resume env s = (if \<not> rl_startup_complete s then
       run_bind (mutate_state env (\<lambda>s. s\<lparr>rl_failure_step := Some ''verifying-partial-startup'', rl_startup_complete := False\<rparr>)) (\<lambda>_.
       run_bind (finish_request env ''failed'') (\<lambda>_. run_ret 2))
     else if rl_failure_step s \<in> Some ` {''log-ingestion'', ''axiom-query'', ''notification-acceptance-required'',
         ''health-check-failed'', ''gpu-reap-wait-timeout'', repair_failed} then run_ret 0
     else run_bind (reload_state env) (\<lambda>_. verify_flow env False))"

section \<open>The vector-only path\<close>

text \<open>
  A release that changes nothing but \<open>ops/vector/vector.toml\<close> runs under live work. Moving the tree
  to its target leaves the application code as it is when the target has the same code; installing the
  file touches no application code.
\<close>

definition move_tree :: "release_env \<Rightarrow> string \<Rightarrow> unit release_run" where
  "move_tree env target = write_host env (\<lambda>h. h\<lparr>h_head := target,
     h_code := (if h_code h = Some (re_code env target) then h_code h else None)\<rparr>)"

definition vector_install :: "release_env \<Rightarrow> string \<Rightarrow> unit release_run" where
  "vector_install env target = run_bind (ask env (re_dirty env)) (\<lambda>dirty. if dirty then run_fail (Fail 2 ''worktree-dirty'')
     else run_bind (ask env (re_reset env)) (\<lambda>ok. if \<not> ok then run_fail (Fail 2 ''git-reset-failed'')
     else run_bind (move_tree env target) (\<lambda>_.
     run_bind (ask env (re_install env)) (\<lambda>rc. if rc \<noteq> 0 then run_fail (Fail rc ''vector-install-failed'') else run_ret ()))))"

text \<open>The handler of the \<open>except Fail\<close> clause; a kill and a timeout pass through it.\<close>

definition vector_failed :: "release_env \<Rightarrow> string \<Rightarrow> bool \<Rightarrow> bool \<Rightarrow> bool \<Rightarrow> release_stop \<Rightarrow> nat release_run" where
  "vector_failed env target requested resume installed e = (case e of
     Fail code reason \<Rightarrow>
       let ph = (if installed then Verifying else if resume \<or> reason = ''vector-install-failed'' then Applying else Idle);
         sc = (if resume \<or> ph \<noteq> Idle then Vector_Only else Full_Scope) in
       run_bind (mutate_state env (\<lambda>s. s\<lparr>rl_phase := ph, rl_scope := sc, rl_startup_complete := installed, rl_log_accepted := False,
         rl_target := target, rl_failure_step := Some reason\<rparr>)) (\<lambda>_.
       run_bind (if requested then finish_request env ''failed'' else run_ret ()) (\<lambda>_. run_ret (if code = 0 then 2 else code)))
   | _ \<Rightarrow> run_fail e)"

definition vector_accepted :: "release_env \<Rightarrow> string \<Rightarrow> bool \<Rightarrow> nat \<Rightarrow> nat release_run" where
  "vector_accepted env target requested code = (if code \<noteq> 0 then
       run_bind (mutate_state env (\<lambda>s. s\<lparr>rl_phase := Verifying, rl_startup_complete := True, rl_log_accepted := False,
         rl_failure_step := Some (if code = 1 then ''log-ingestion'' else ''axiom-query'')\<rparr>)) (\<lambda>_.
       run_bind (if requested then finish_request env ''failed'' else run_ret ()) (\<lambda>_. run_ret (if code = 1 then 1 else 2)))
     else run_bind (mutate_state env (\<lambda>s. s\<lparr>rl_phase := Idle, rl_scope := Full_Scope, rl_log_accepted := True, rl_verified := target,
         rl_failure_step := None\<rparr>)) (\<lambda>_.
       run_bind (write_host env (\<lambda>h. h\<lparr>h_alias := target\<rparr>)) (\<lambda>_.
       run_bind (if requested then finish_request env ''done'' else run_ret ()) (\<lambda>_. run_ret 0))))"

text \<open>After the install: the exit code of the log check, or nothing when a unit is not healthy.\<close>

definition vector_verify :: "release_env \<Rightarrow> nat option release_run" where
  "vector_verify env = run_bind (all_healthy env (resident_units @ worker_units)) (\<lambda>ok.
     if \<not> ok then run_bind (mark_health_check_failed env) (\<lambda>_. run_ret None)
     else run_bind (gpu_probe_flow env) (\<lambda>_. run_bind (ask env (re_log_check env)) (\<lambda>(code, _). run_ret (Some code))))"

definition vector_fast_path :: "release_env \<Rightarrow> string \<Rightarrow> bool \<Rightarrow> bool \<Rightarrow> nat release_run" where
  "vector_fast_path env target requested resume =
     run_bind (ask env (\<lambda>h. (re_op_id env h, snapshot_units env h))) (\<lambda>(op_id, units).
     run_bind (mutate_state env (\<lambda>s. if resume
       then s\<lparr>rl_phase := Applying, rl_scope := Vector_Only, rl_target := target, rl_startup_complete := True, rl_log_accepted := False,
         rl_failure_step := None\<rparr>
       else s\<lparr>rl_op_id := op_id, rl_phase := Applying, rl_scope := Vector_Only, rl_direction := Some Forward, rl_from := rl_verified s,
         rl_target := target, rl_startup_complete := True, rl_log_accepted := False, rl_failure_step := None, rl_units := Some units\<rparr>)) (\<lambda>_.
     run_bind (run_catch (run_bind (vector_install env target) (\<lambda>_. run_ret None))
         (\<lambda>e. run_bind (vector_failed env target requested resume False e) (\<lambda>code. run_ret (Some code)))) (\<lambda>stop. case stop of
       Some code \<Rightarrow> run_ret code
     | None \<Rightarrow> run_bind (run_catch (run_bind (vector_verify env) (\<lambda>c. run_ret (Inr c)))
         (\<lambda>e. run_bind (vector_failed env target requested resume True e) (\<lambda>code. run_ret (Inl code)))) (\<lambda>r. case r of
         Inl code \<Rightarrow> run_ret code
       | Inr None \<Rightarrow> run_ret 2
       | Inr (Some code) \<Rightarrow> vector_accepted env target requested code))))"

section \<open>Idle\<close>

definition vector_only_change :: "release_env \<Rightarrow> string list \<Rightarrow> nat \<Rightarrow> bool \<Rightarrow> bool" where
  "vector_only_change env changed drift drift_vector = ((changed \<noteq> [] \<or> drift = 1) \<and> list_all (\<lambda>f. f = vector_toml) changed \<and> (drift = 0 \<or> drift_vector))"

definition start_release :: "release_env \<Rightarrow> string \<Rightarrow> string \<Rightarrow> nat release_run" where
  "start_release env verified target = run_bind (ask env (\<lambda>h. (re_op_id env h, snapshot_units env h))) (\<lambda>(op_id, units).
     run_bind (mutate_state env (\<lambda>s. s\<lparr>rl_op_id := op_id, rl_phase := Draining, rl_scope := Full_Scope, rl_direction := Some Forward,
       rl_from := verified, rl_target := target, rl_startup_complete := False, rl_log_accepted := False, rl_recovery_copy := None,
       rl_failure_step := None, rl_units := Some units\<rparr>)) (\<lambda>_.
     run_bind (mutate_state env (\<lambda>s. s)) (\<lambda>s. tick_draining env s)))"

definition tick_idle :: "release_env \<Rightarrow> release_state \<Rightarrow> nat release_run" where
  "tick_idle env s = run_bind (write_host env (\<lambda>h. h\<lparr>h_alias := rl_verified s\<rparr>)) (\<lambda>_.
     run_bind (ask env (re_origin env)) (\<lambda>origin. case origin of None \<Rightarrow> run_ret 2
     | Some target \<Rightarrow> run_bind (ask env (re_sync_check env)) (\<lambda>drift.
         if drift \<notin> {0, 1} then run_ret 2
         else if target = rl_verified s \<and> drift \<noteq> 1 then run_ret 0
         else run_bind (ask env (re_drift_vector env)) (\<lambda>drift_vector.
           if vector_only_change env (changed_files env (rl_verified s) target) drift drift_vector
           then vector_fast_path env target False False else start_release env (rl_verified s) target))))"

definition tick_held :: "release_env \<Rightarrow> nat release_run" where
  "tick_held env = run_bind (ask env (re_origin env)) (\<lambda>origin. case origin of None \<Rightarrow> run_ret 2
     | Some _ \<Rightarrow> run_bind (ask env (re_sync_check env)) (\<lambda>drift. run_ret (if drift \<in> {0, 1} then 0 else 2)))"

section \<open>Requests of the operator\<close>

definition refuse :: "release_env \<Rightarrow> nat \<Rightarrow> nat release_run" where
  "refuse env code = run_bind (finish_request env ''failed'') (\<lambda>_. run_ret code)"

definition start_recovery_operation :: "release_env \<Rightarrow> release_request \<Rightarrow> direction \<Rightarrow> string \<Rightarrow> nat release_run" where
  "start_recovery_operation env rq direction target = run_bind (ask env (snapshot_units env)) (\<lambda>units.
     run_bind (mutate_state env (\<lambda>s. s\<lparr>rl_phase := Draining, rl_scope := Full_Scope, rl_direction := Some direction, rl_target := target,
       rl_startup_complete := False, rl_log_accepted := False, rl_failure_step := None,
       rl_units := (case rl_units s of None \<Rightarrow> Some units | Some l \<Rightarrow> Some l)\<rparr>)) (\<lambda>_.
     run_bind (mark_request_running env rq) (\<lambda>_.
     run_bind (mutate_state env (\<lambda>s. s)) (\<lambda>s. tick_draining env s))))"

definition rollback_target :: "release_env \<Rightarrow> release_state \<Rightarrow> string" where
  "rollback_target env s = (if truthy_str (rl_recovery_commit s) then the (rl_recovery_commit s)
     else let meta = (case rl_recovery_copy s of Some dir \<Rightarrow> if dir \<noteq> [] then re_copy_meta env dir else None | None \<Rightarrow> None) in
       if truthy_str meta then the meta else rl_verified s)"

definition request_rollback :: "release_env \<Rightarrow> release_state \<Rightarrow> release_request \<Rightarrow> nat release_run" where
  "request_rollback env s rq = (let target = rollback_target env s in
     if \<not> truthy_str (rl_recovery_copy s) then refuse env 2
     else run_bind (if rl_hold s = None then mutate_state env (\<lambda>s. s\<lparr>rl_hold := Some target\<rparr>) else run_ret s) (\<lambda>_.
       start_recovery_operation env rq Rollback target))"

definition request_resume :: "release_env \<Rightarrow> release_state \<Rightarrow> release_request \<Rightarrow> nat release_run" where
  "request_resume env s rq = (if rl_phase s \<notin> {Applying, Verifying} then refuse env 1
     else if rl_scope s = Vector_Only \<or> rl_failure_step s = Some repair_failed
     then run_bind (mark_request_running env rq) (\<lambda>_. vector_fast_path env (rl_target s) True True)
     else start_recovery_operation env rq (case rl_direction s of None \<Rightarrow> Forward | Some d \<Rightarrow> d) (rl_target s))"

definition request_cancel :: "release_env \<Rightarrow> release_state \<Rightarrow> release_request \<Rightarrow> nat release_run" where
  "request_cancel env s rq = (if rl_phase s \<notin> {Draining, Quiescing} then refuse env 1
     else if rl_direction s \<noteq> Some Forward \<or> truthy_str (rl_recovery_copy s) then refuse env 1
     else run_bind (mutate_state env (\<lambda>s. s\<lparr>rl_hold := Some (rl_verified s)\<rparr>)) (\<lambda>_.
       run_bind (if rq_status rq \<noteq> ''running'' then mark_request_running env rq else run_ret ()) (\<lambda>_.
       run_bind (ask env (\<lambda>h. if rl_phase s = Quiescing
         then re_pending env h (filter (\<lambda>u. re_is_active env h u = ''deactivating'') (resident_units @ worker_units)) else [])) (\<lambda>pending.
       if pending \<noteq> [] then run_ret 0
       else run_bind (mutate_state env (\<lambda>s. s\<lparr>rl_phase := Idle, rl_scope := Full_Scope, rl_failure_step := None, rl_recovery_copy := None,
         rl_target := rl_verified s, rl_from := rl_verified s\<rparr>)) (\<lambda>_.
       run_bind (mark_request env rq ''done'') (\<lambda>_. run_ret 0))))))"

definition request_verify :: "release_env \<Rightarrow> release_state \<Rightarrow> release_request \<Rightarrow> nat release_run" where
  "request_verify env s rq = (if rl_failure_step s = Some repair_failed then refuse env 1
     else if rl_phase s \<notin> {Verifying, Idle} then refuse env 1
     else if rl_phase s = Verifying \<and> \<not> rl_startup_complete s then refuse env 1
     else run_bind (if rl_phase s = Idle then mutate_state env (\<lambda>s. s\<lparr>rl_phase := Verifying, rl_startup_complete := True\<rparr>) else run_ret s) (\<lambda>_.
       run_bind (mark_request_running env rq) (\<lambda>_. run_bind (reload_state env) (\<lambda>_. verify_flow env False))))"

definition request_unpause :: "release_env \<Rightarrow> release_state \<Rightarrow> release_request \<Rightarrow> nat release_run" where
  "request_unpause env s rq = (if rl_phase s \<noteq> Idle then refuse env 1
     else run_bind (ask env (re_origin env)) (\<lambda>origin. case origin of None \<Rightarrow> run_ret 2
     | Some remote \<Rightarrow> if rq_main_commit rq \<noteq> [] \<and> remote \<noteq> rq_main_commit rq then refuse env 1
       else run_bind (mutate_state env (\<lambda>s. s\<lparr>rl_hold := None\<rparr>)) (\<lambda>_.
         run_bind (mark_request env rq ''done'') (\<lambda>_. run_ret 0))))"

text \<open>The checks of \<open>_request_vector_repair\<close>, in order, each with its refusal.\<close>

definition repair_applicable :: "release_env \<Rightarrow> release_state \<Rightarrow> release_request \<Rightarrow> bool release_run" where
  "repair_applicable env s rq = (if rl_phase s \<noteq> Verifying \<or> \<not> rl_startup_complete s then run_ret False
     else run_bind (ask env (re_dirty env)) (\<lambda>dirty. if dirty then run_ret False
     else run_bind (ask env h_head) (\<lambda>head. if head \<noteq> rl_target s then run_ret False
     else if changed_files env (rl_target s) (rq_target rq) \<noteq> [vector_toml] then run_ret False
     else run_bind (ask env (re_sync_check env)) (\<lambda>drift. run_bind (ask env (re_drift_vector env)) (\<lambda>drift_vector.
       run_ret (drift \<noteq> 1 \<or> drift_vector))))))"

definition request_vector_repair :: "release_env \<Rightarrow> release_state \<Rightarrow> release_request \<Rightarrow> nat release_run" where
  "request_vector_repair env s rq = run_bind (repair_applicable env s rq) (\<lambda>applicable. if \<not> applicable then refuse env 1
     else run_bind (mutate_state env (\<lambda>t. t\<lparr>rl_phase := Applying, rl_scope := Vector_Only, rl_target := rq_target rq,
         rl_repair_from := Some (rl_target s), rl_log_accepted := False, rl_failure_step := None\<rparr>)) (\<lambda>_.
       run_bind (mark_request_running env rq) (\<lambda>_.
       run_bind (ask env (re_reset env)) (\<lambda>ok. if \<not> ok then run_fail (Fail 2 ''git-reset-failed'')
       else run_bind (move_tree env (rq_target rq)) (\<lambda>_.
       run_bind (ask env (re_install env)) (\<lambda>rc. if rc \<noteq> 0
         then run_bind (mutate_state env (\<lambda>t. t\<lparr>rl_target := rq_target rq, rl_repair_from := Some (rl_target s), rl_phase := Verifying,
             rl_scope := Vector_Only, rl_startup_complete := True, rl_log_accepted := False, rl_failure_step := Some repair_failed\<rparr>)) (\<lambda>_.
           run_bind (finish_request env ''failed'') (\<lambda>_. run_ret 2))
         else run_bind (mutate_state env (\<lambda>t. t\<lparr>rl_phase := Verifying\<rparr>)) (\<lambda>_.
           run_bind (all_healthy env (resident_units @ worker_units)) (\<lambda>ok.
           if \<not> ok then run_bind (mark_health_check_failed env) (\<lambda>_. run_ret 2) else verify_logs env))))))))"

definition execute_reset :: "release_env \<Rightarrow> release_request \<Rightarrow> nat release_run" where
  "execute_reset env rq = run_bind (write_host env (\<lambda>h. h\<lparr>h_state := None\<rparr>)) (\<lambda>_.
     run_bind (ask env (\<lambda>h. (re_op_id env h, snapshot_units env h))) (\<lambda>(op_id, units).
     let baseline = rq_baseline rq; fresh = \<lparr>rl_op_id = op_id, rl_phase = Draining, rl_scope = Full_Scope, rl_direction = Some Reset,
       rl_from = baseline, rl_target = baseline, rl_verified = baseline, rl_hold = Some baseline, rl_startup_complete = False,
       rl_log_accepted = False, rl_recovery_copy = rq_recovery_copy rq, rl_recovery_commit = Some baseline, rl_failure_step = None,
       rl_repair_from = None, rl_units = Some units\<rparr> in
     run_bind (write_host env (\<lambda>h. h\<lparr>h_state := Some fresh\<rparr>)) (\<lambda>_.
     run_bind (mark_request env rq ''running'') (\<lambda>_. tick_draining env fresh))))"

definition execute_request :: "release_env \<Rightarrow> release_state \<Rightarrow> release_request \<Rightarrow> nat release_run" where
  "execute_request env s rq = (let kind = rq_type rq in
     if kind = ''unpause'' then request_unpause env s rq
     else if kind = ''resume'' then request_resume env s rq
     else if kind = ''cancel'' then request_cancel env s rq
     else if kind = ''verify'' then request_verify env s rq
     else if kind = ''rollback'' then request_rollback env s rq
     else if kind = ''vector-repair'' then request_vector_repair env s rq
     else if kind = ''reset'' then execute_reset env rq
     else run_ret 2)"

section \<open>One tick\<close>

definition tick_phase :: "release_env \<Rightarrow> release_state \<Rightarrow> nat release_run" where
  "tick_phase env s = (case rl_phase s of
     Idle \<Rightarrow> tick_idle env s
   | Draining \<Rightarrow> tick_draining env s
   | Quiescing \<Rightarrow> tick_quiescing env
   | Applying \<Rightarrow> run_bind (finish_request env ''failed'') (\<lambda>_. run_ret 2)
   | Verifying \<Rightarrow> tick_verifying_resume env s
   | Verified_Phase \<Rightarrow> run_ret 2)"

definition tick_locked :: "release_env \<Rightarrow> nat release_run" where
  "tick_locked env = run_bind (ask env h_state) (\<lambda>st. run_bind (ask env h_request) (\<lambda>request.
     let active = (case request of Some r \<Rightarrow> if open_request r then Some r else None | None \<Rightarrow> None) in
     case st of
       None \<Rightarrow> (case active of Some r \<Rightarrow> if rq_type r = ''reset'' then execute_reset env r else run_ret 2 | None \<Rightarrow> run_ret 2)
     | Some s \<Rightarrow> (case active of
         Some r \<Rightarrow> if rq_status r = ''pending'' \<or> rq_type r = ''cancel'' \<or> (rq_type r = ''verify'' \<and> rl_phase s = Idle)
           then execute_request env s r else tick_phase env s
       | None \<Rightarrow> if rl_hold s \<noteq> None then tick_held env else tick_phase env s)))"

text \<open>
  \<open>tick\<close>, the holder of the deploy lock, with its \<open>except\<close> clauses. The activity lock is a file
  lock: whatever ends the process, the kernel releases it.
\<close>

definition release_tick :: "release_env \<Rightarrow> nat release_run" where
  "release_tick env h = (case run_catch (tick_locked env) (\<lambda>e. case e of
       Fail code reason \<Rightarrow> run_bind (finish_request env ''failed'') (\<lambda>_. run_fail e)
     | Timeout_Expired \<Rightarrow> run_bind (finish_request env ''failed'') (\<lambda>_. run_ret 2)
     | _ \<Rightarrow> run_fail e) h of (r, h') \<Rightarrow> (r, h'\<lparr>h_exclusive := False\<rparr>))"

end
