(* ===== verification/ReleaseSafety.thy ===== *)
theory ReleaseSafety
  imports Release
begin

text \<open>
  What the release coordinator guarantees to the workers it shares a machine with: the steps the
  workers and the operator take at any moment, the invariant of the host, and the proof that every
  tick keeps it, wherever it is killed.
\<close>

section \<open>The rest of the machine\<close>

text \<open>The keys of the state file that the gates read; no direction is an absent key.\<close>

definition phase_name :: "phase \<Rightarrow> string" where
  "phase_name p = (case p of Idle \<Rightarrow> ''idle'' | Draining \<Rightarrow> ''draining'' | Quiescing \<Rightarrow> ''quiescing'' | Applying \<Rightarrow> ''applying''
     | Verifying \<Rightarrow> ''verifying'' | Verified_Phase \<Rightarrow> ''verified'')"

definition scope_name :: "scope \<Rightarrow> string" where
  "scope_name c = (case c of Full_Scope \<Rightarrow> ''full'' | Vector_Only \<Rightarrow> ''vector-only'')"

definition direction_name :: "direction \<Rightarrow> string" where
  "direction_name d = (case d of Forward \<Rightarrow> ''forward'' | Rollback \<Rightarrow> ''rollback'' | Reset \<Rightarrow> ''reset'')"

definition state_file :: "release_state \<Rightarrow> json" where
  "state_file s = JObj ([(''schema_version'', JInt 2), (''op_id'', JStr (rl_op_id s)), (''phase'', JStr (phase_name (rl_phase s))),
     (''scope'', JStr (scope_name (rl_scope s)))] @ (case rl_direction s of None \<Rightarrow> [] | Some d \<Rightarrow> [(''direction'', JStr (direction_name d))]) @
     [(''from_commit'', JStr (rl_from s)), (''target_commit'', JStr (rl_target s)), (''verified_commit'', JStr (rl_verified s)),
      (''startup_complete'', JBool (rl_startup_complete s))])"

definition gate_of :: "release_state option \<Rightarrow> bool" where
  "gate_of st = fst (gate_open (map_option state_file st))"

lemma gate_of_state:
  "gate_of (Some s) = (rl_op_id s \<noteq> [] \<and> rl_from s \<noteq> [] \<and> rl_target s \<noteq> [] \<and> rl_verified s \<noteq> [] \<and>
     (rl_scope s = Vector_Only \<or> rl_phase s \<in> {Idle, Verified_Phase} \<or> (rl_phase s = Verifying \<and> rl_startup_complete s)))"
proof -
  have phase: "among phase_names (JStr (phase_name p))" "phase_name p = ''idle'' \<longleftrightarrow> p = Idle" "phase_name p = ''verified'' \<longleftrightarrow> p = Verified_Phase"
    "phase_name p = ''verifying'' \<longleftrightarrow> p = Verifying" for p
    by (cases p; simp add: among_def phase_names_def phase_name_def)+
  have scope: "among scope_names (JStr (scope_name c))" "scope_name c = ''vector-only'' \<longleftrightarrow> c = Vector_Only" for c
    by (cases c; simp add: among_def scope_names_def scope_name_def)+
  have direction: "among direction_names (JStr (direction_name d))" "among direction_names (JStr ''forward'')" for d
    by (cases d; simp add: among_def direction_names_def direction_name_def)+
  show ?thesis
    by (cases "rl_direction s") (auto simp: gate_of_def state_file_def gate_open_def key_fields_valid_def is_schema_version_def non_empty_str_def
        jget_def jget_or_def has_key_def Let_def phase scope direction split: if_splits)
qed

text \<open>
  A worker shares the activity lock when no release holds it, reads the gate behind the lock, works
  when it is open, and lets go, also by dying. A hold is registered at any moment.
\<close>

inductive worker_step :: "host \<Rightarrow> host \<Rightarrow> bool" where
  share: "\<not> h_exclusive h \<Longrightarrow> worker_step h (h\<lparr>h_shared := w # h_shared h\<rparr>)"
| work: "w \<in> set (h_shared h) \<Longrightarrow> gate_of (h_state h) \<Longrightarrow> worker_step h (h\<lparr>h_working := w # h_working h\<rparr>)"
| let_go: "worker_step h (h\<lparr>h_shared := removeAll w (h_shared h), h_working := removeAll w (h_working h)\<rparr>)"
| hold: "h_state h = Some s \<Longrightarrow> worker_step h (h\<lparr>h_state := Some (s\<lparr>rl_hold := Some baseline\<rparr>)\<rparr>)"
| moment: "worker_step h (h\<lparr>h_moment := n\<rparr>)"

text \<open>
  What is relied on: the others take such steps, a diff that names at most the Vector file is a diff of
  equal application code, and a saved copy has a path.
\<close>

definition env_ok :: "release_env \<Rightarrow> bool" where
  "env_ok env = ((\<forall>h. worker_step\<^sup>*\<^sup>* h (re_others env h)) \<and>
     (\<forall>a b fs. re_diff env a b = Some fs \<longrightarrow> set fs \<subseteq> {[], vector_toml} \<longrightarrow> re_code env a = re_code env b) \<and>
     (\<forall>h. re_save_copy env h \<noteq> Some []))"

text \<open>Between ticks a request is registered, or the state file is lost.\<close>

inductive host_step :: "(string \<Rightarrow> string) \<Rightarrow> host \<Rightarrow> host \<Rightarrow> bool" for code where
  other: "worker_step h h' \<Longrightarrow> host_step code h h'"
| register: "rq_recovery_copy r \<noteq> Some [] \<Longrightarrow> host_step code h (h\<lparr>h_request := Some r\<rparr>)"
| lost: "host_step code h (h\<lparr>h_state := None\<rparr>)"
| ticks: "env_ok env \<Longrightarrow> re_code env = code \<Longrightarrow> release_tick env h = (r, h') \<Longrightarrow> host_step code h h'"

definition initial_host :: "(string \<Rightarrow> string) \<Rightarrow> host \<Rightarrow> bool" where
  "initial_host code h = (\<not> h_exclusive h \<and> h_shared h = [] \<and> h_working h = [] \<and> h_request h = None \<and>
     (case h_state h of None \<Rightarrow> True | Some s \<Rightarrow> rl_phase s = Idle \<and> rl_scope s = Full_Scope \<and> rl_recovery_copy s = None \<and>
        rl_target s = rl_verified s \<and> h_code h = Some (code (rl_verified s)) \<and> h_head h = rl_verified s))"

definition host_reachable :: "(string \<Rightarrow> string) \<Rightarrow> host \<Rightarrow> bool" where
  "host_reachable code h = (\<exists>h0. initial_host code h0 \<and> (host_step code)\<^sup>*\<^sup>* h0 h)"

section \<open>The invariant\<close>

text \<open>A forward release that has not saved the environment yet, and so has not written to it.\<close>

definition untouched :: "release_state \<Rightarrow> bool" where
  "untouched s = (rl_direction s \<in> {None, Some Forward} \<and> rl_recovery_copy s = None)"

definition state_ok :: "(string \<Rightarrow> string) \<Rightarrow> release_state \<Rightarrow> string option \<Rightarrow> bool" where
  "state_ok code s e = (rl_recovery_copy s \<noteq> Some [] \<and> (case rl_scope s of
     Vector_Only \<Rightarrow> rl_phase s \<in> {Applying, Verifying} \<and> e = Some (code (rl_target s))
   | Full_Scope \<Rightarrow> (case rl_phase s of
       Verifying \<Rightarrow> e = Some (code (rl_target s)) \<and> (untouched s \<longrightarrow> code (rl_target s) = code (rl_verified s))
     | Idle \<Rightarrow> e = Some (code (rl_verified s)) \<and> code (rl_target s) = code (rl_verified s)
     | Verified_Phase \<Rightarrow> e = Some (code (rl_verified s)) \<and> code (rl_target s) = code (rl_verified s)
     | _ \<Rightarrow> (untouched s \<longrightarrow> e = Some (code (rl_verified s))) \<and> rl_failure_step s \<noteq> Some repair_failed)))"

definition locks_ok :: "host \<Rightarrow> bool" where
  "locks_ok h = ((h_exclusive h \<longrightarrow> h_shared h = []) \<and> set (h_working h) \<subseteq> set (h_shared h) \<and> (h_working h \<noteq> [] \<longrightarrow> h_code h \<noteq> None) \<and>
     (\<forall>r. h_request h = Some r \<longrightarrow> rq_recovery_copy r \<noteq> Some []))"

definition host_ok :: "(string \<Rightarrow> string) \<Rightarrow> host \<Rightarrow> bool" where
  "host_ok code h = (locks_ok h \<and> (case h_state h of None \<Rightarrow> True | Some s \<Rightarrow> state_ok code s (h_code h)))"

text \<open>A state that the file shows up to its hold.\<close>

definition alike :: "release_state \<Rightarrow> release_state \<Rightarrow> bool" where
  "alike r s = (\<exists>b. r = s\<lparr>rl_hold := b\<rparr>)"

lemma alikeI: "r = s\<lparr>rl_hold := rl_hold r\<rparr> \<Longrightarrow> alike r s"
  unfolding alike_def by blast

lemma alike_fields:
  assumes "alike r s"
  shows "rl_op_id r = rl_op_id s" "rl_phase r = rl_phase s" "rl_scope r = rl_scope s" "rl_direction r = rl_direction s" "rl_from r = rl_from s"
    "rl_target r = rl_target s" "rl_verified r = rl_verified s" "rl_startup_complete r = rl_startup_complete s"
    "rl_recovery_copy r = rl_recovery_copy s" "rl_failure_step r = rl_failure_step s"
  using assms by (auto simp: alike_def)

text \<open>The host in the middle of a tick: what the state file says up to the hold, the code, and the lock.\<close>

definition here :: "(string \<Rightarrow> string) \<Rightarrow> release_state \<Rightarrow> string option \<Rightarrow> bool \<Rightarrow> host \<Rightarrow> bool" where
  "here code s e x h = ((\<exists>r. h_state h = Some r \<and> alike r s) \<and> h_code h = e \<and> h_exclusive h = x \<and> locks_ok h \<and> state_ok code s e)"

lemma state_ok_hold [simp]: "state_ok code (s\<lparr>rl_hold := b\<rparr>) e = state_ok code s e"
  by (simp add: state_ok_def untouched_def cong: scope.case_cong phase.case_cong)

lemma gate_hold [simp]: "gate_of (Some (s\<lparr>rl_hold := b\<rparr>)) = gate_of (Some s)"
  by (simp add: gate_of_state)

lemma gate_has_code: "gate_of (Some s) \<Longrightarrow> state_ok code s e \<Longrightarrow> e \<noteq> None"
  by (cases "rl_phase s"; cases "rl_scope s") (auto simp: gate_of_state state_ok_def)

lemma alike_refl [simp]: "alike s s"
  unfolding alike_def by (rule exI [of _ "rl_hold s"]) simp

lemma alike_hold: "alike r s \<Longrightarrow> alike (r\<lparr>rl_hold := b\<rparr>) s"
  by (auto simp: alike_def)

lemma alike_ok: "alike r s \<Longrightarrow> state_ok code r e = state_ok code s e" "alike r s \<Longrightarrow> gate_of (Some r) = gate_of (Some s)"
  by (auto simp: alike_def)

lemma here_ok: "here code s e x h \<Longrightarrow> host_ok code h"
  by (auto simp: here_def host_ok_def alike_ok)

lemma ok_here: "host_ok code h \<Longrightarrow> h_state h = Some s \<Longrightarrow> here code s (h_code h) (h_exclusive h) h"
  by (auto simp: here_def host_ok_def)

lemma locks_ok_work:
  "locks_ok h \<Longrightarrow> w \<in> set (h_shared h) \<Longrightarrow> h_code h \<noteq> None \<Longrightarrow> locks_ok (h\<lparr>h_working := w # h_working h\<rparr>)"
  by (auto simp: locks_ok_def)

lemma locks_ok_simple:
  "\<not> h_exclusive h \<Longrightarrow> locks_ok h \<Longrightarrow> locks_ok (h\<lparr>h_shared := w # h_shared h\<rparr>)"
  "locks_ok h \<Longrightarrow> locks_ok (h\<lparr>h_shared := removeAll w (h_shared h), h_working := removeAll w (h_working h)\<rparr>)"
  "locks_ok h \<Longrightarrow> locks_ok (h\<lparr>h_state := st\<rparr>)" "locks_ok h \<Longrightarrow> locks_ok (h\<lparr>h_moment := n\<rparr>)"
  by (auto simp: locks_ok_def)

lemma worker_step_ok:
  assumes "worker_step h h'" and "host_ok code h"
  shows "host_ok code h'"
  using assms
proof cases
  case (work w)
  then have "h_code h \<noteq> None" using assms(2) gate_has_code by (cases "h_state h") (auto simp: host_ok_def gate_of_def [of None] gate_open_def)
  with work assms(2) show ?thesis by (auto simp: host_ok_def intro: locks_ok_work split: option.splits)
qed (auto simp: host_ok_def intro: locks_ok_simple split: option.splits)

lemma worker_step_here:
  assumes "worker_step h h'" and "here code s e x h"
  shows "here code s e x h'"
proof -
  have ok: "locks_ok h'" using worker_step_ok [OF assms(1) here_ok [OF assms(2)]] by (simp add: host_ok_def)
  show ?thesis using assms(1)
  proof cases
    case (hold t baseline)
    then have "alike t s" using assms(2) by (auto simp: here_def)
    with hold assms(2) ok show ?thesis by (auto simp: here_def intro: alike_hold)
  qed (use assms(2) ok in \<open>auto simp: here_def\<close>)
qed

lemma others_here: "env_ok env \<Longrightarrow> here code s e x h \<Longrightarrow> here code s e x (re_others env h)"
proof -
  assume "env_ok env" and "here code s e x h"
  then have "worker_step\<^sup>*\<^sup>* h (re_others env h)" by (simp add: env_ok_def)
  then show ?thesis using \<open>here code s e x h\<close> by (induction rule: rtranclp_induct) (auto intro: worker_step_here)
qed

lemma others_ok: "env_ok env \<Longrightarrow> host_ok code h \<Longrightarrow> host_ok code (re_others env h)"
proof -
  assume "env_ok env" and "host_ok code h"
  then have "worker_step\<^sup>*\<^sup>* h (re_others env h)" by (simp add: env_ok_def)
  then show ?thesis using \<open>host_ok code h\<close> by (induction rule: rtranclp_induct) (auto intro: worker_step_ok)
qed

section \<open>Rules\<close>

text \<open>A run that leaves the host in order however it ends.\<close>

abbreviation leaves_ok :: "release_env \<Rightarrow> (host \<Rightarrow> bool) \<Rightarrow> 'a release_run \<Rightarrow> bool" where
  "leaves_ok env P m \<equiv> ensures P m (\<lambda>_. host_ok (re_code env)) (\<lambda>_. host_ok (re_code env))"

abbreviation passes :: "release_env \<Rightarrow> (host \<Rightarrow> bool) \<Rightarrow> 'a release_run \<Rightarrow> ('a \<Rightarrow> host \<Rightarrow> bool) \<Rightarrow> bool" where
  "passes env P m Q \<equiv> ensures P m Q (\<lambda>_. host_ok (re_code env))"

lemma passes_access:
  assumes "env_ok env" and "\<And>h. P h \<Longrightarrow> P (re_others env h)" and "\<And>h. P h \<Longrightarrow> host_ok (re_code env) h"
    and "\<And>h x h'. P h \<Longrightarrow> f h = Inr (x, h') \<Longrightarrow> Q x h'"
  shows "passes env P (access env f) Q"
  unfolding access_def by (rule ensures_txn) (use assms in \<open>auto split: option.splits\<close>)

lemma passes_here_access:
  assumes "env_ok env" and "\<And>h x h'. here (re_code env) s e x0 h \<Longrightarrow> f h = Inr (x, h') \<Longrightarrow> Q x h'"
  shows "passes env (here (re_code env) s e x0) (access env f) Q"
  by (rule passes_access) (use assms others_here here_ok in blast)+

lemma passes_ask:
  "env_ok env \<Longrightarrow> passes env (here (re_code env) s e x) (ask env f) (\<lambda>_. here (re_code env) s e x)"
  unfolding ask_def by (rule passes_here_access) auto

lemma passes_mutate:
  assumes "env_ok env" and "\<And>b. alike (f (s\<lparr>rl_hold := b\<rparr>)) s'"
    and "state_ok (re_code env) s e \<Longrightarrow> state_ok (re_code env) s' e"
  shows "passes env (here (re_code env) s e x) (mutate_state env f) (\<lambda>r h. alike r s' \<and> here (re_code env) s' e x h)"
  unfolding mutate_state_def
proof (rule passes_here_access [OF assms(1)])
  fix h r h'
  assume h: "here (re_code env) s e x h"
    and r: "(case h_state h of None \<Rightarrow> Inl (Fail 2 ''state-corrupt'') | Some s \<Rightarrow> Inr (f s, h\<lparr>h_state := Some (f s)\<rparr>)) = Inr (r, h')"
  obtain t where t: "h_state h = Some t" "alike t s" using h by (auto simp: here_def)
  then have "alike (f t) s'" using assms(2) by (auto simp: alike_def)
  with t h r assms(3) show "alike r s' \<and> here (re_code env) s' e x h'"
    by (auto simp: here_def intro: locks_ok_simple)
qed

lemma passes_reload:
  "env_ok env \<Longrightarrow> passes env (here (re_code env) s e x) (reload_state env) (\<lambda>r h. alike r s \<and> here (re_code env) s e x h)"
  unfolding reload_state_def by (rule passes_here_access) (auto simp: here_def)

lemma passes_write:
  assumes "env_ok env" and "\<And>h. here (re_code env) s e x h \<Longrightarrow> here (re_code env) s e' x' (g h)"
  shows "passes env (here (re_code env) s e x) (write_host env g) (\<lambda>_. here (re_code env) s e' x')"
  unfolding write_host_def by (rule passes_here_access) (use assms in auto)

lemma passes_request:
  assumes "env_ok env" and "\<And>h. locks_ok h \<Longrightarrow> locks_ok (h\<lparr>h_request := g h\<rparr>)"
  shows "passes env (here (re_code env) s e x) (write_host env (\<lambda>h. h\<lparr>h_request := g h\<rparr>)) (\<lambda>_. here (re_code env) s e x)"
  by (rule passes_write) (use assms in \<open>auto simp: here_def\<close>)

lemma passes_finish: "env_ok env \<Longrightarrow> passes env (here (re_code env) s e x) (finish_request env st) (\<lambda>_. here (re_code env) s e x)"
  unfolding finish_request_def by (rule passes_request) (auto simp: locks_ok_def)

lemma passes_mark:
  "env_ok env \<Longrightarrow> rq_recovery_copy r \<noteq> Some [] \<Longrightarrow> passes env (here (re_code env) s e x) (mark_request env r st) (\<lambda>_. here (re_code env) s e x)"
  unfolding mark_request_def by (rule passes_request) (auto simp: locks_ok_def)

lemma passes_mark_running:
  "env_ok env \<Longrightarrow> rq_recovery_copy r \<noteq> Some [] \<Longrightarrow> passes env (here (re_code env) s e x) (mark_request_running env r) (\<lambda>_. here (re_code env) s e x)"
  unfolding mark_request_running_def by (rule passes_request) (auto simp: locks_ok_def split: option.splits if_splits)

lemma passes_code:
  assumes "env_ok env" and "state_ok (re_code env) s e'"
  shows "passes env (here (re_code env) s e True) (write_host env (\<lambda>h. h\<lparr>h_code := e'\<rparr>)) (\<lambda>_. here (re_code env) s e' True)"
  by (rule passes_write) (use assms in \<open>auto simp: here_def locks_ok_def\<close>)

lemma passes_unlock:
  "env_ok env \<Longrightarrow> passes env (here (re_code env) s e x) (write_host env (\<lambda>h. h\<lparr>h_exclusive := False\<rparr>)) (\<lambda>_. here (re_code env) s e False)"
  by (rule passes_write) (auto simp: here_def locks_ok_def)

lemma passes_label:
  "env_ok env \<Longrightarrow> passes env (here (re_code env) s e x) (write_host env (\<lambda>h. h\<lparr>h_alias := v\<rparr>)) (\<lambda>_. here (re_code env) s e x)"
  "env_ok env \<Longrightarrow> passes env (here (re_code env) s e x) (write_host env (\<lambda>h. h\<lparr>h_head := v\<rparr>)) (\<lambda>_. here (re_code env) s e x)"
  by (rule passes_write; auto simp: here_def locks_ok_def)+

lemma passes_move_tree:
  "env_ok env \<Longrightarrow> e = Some (re_code env target) \<Longrightarrow> passes env (here (re_code env) s e x) (move_tree env target) (\<lambda>_. here (re_code env) s e x)"
  unfolding move_tree_def by (rule passes_write) (auto simp: here_def locks_ok_def)

lemma leaves_ret: "leaves_ok env (here (re_code env) s e x) (run_ret r)"
  by (rule ensures_ret) (rule here_ok)

lemma leaves_fail: "passes env (here (re_code env) s e x) (run_fail r) Q"
  using here_ok by (auto simp: ensures_def run_fail_def)

lemma leaves_then: "passes env P m (\<lambda>_. R) \<Longrightarrow> passes env R n Q \<Longrightarrow> passes env P (run_bind m (\<lambda>_. n)) Q"
  by (rule ensures_bind)

lemma passes_bind: "passes env P m A \<Longrightarrow> (\<And>x. passes env (A x) (f x) Q) \<Longrightarrow> passes env P (run_bind m f) Q"
  by (rule ensures_bind)

lemma passes_pre: "(b \<Longrightarrow> passes env P m Q) \<Longrightarrow> passes env (\<lambda>h. b \<and> P h) m Q"
  by (auto simp: ensures_def)

lemma mutate_then:
  assumes "env_ok env" and "\<And>b. alike (f (s\<lparr>rl_hold := b\<rparr>)) s'"
    and "state_ok (re_code env) s e \<Longrightarrow> state_ok (re_code env) s' e"
    and "\<And>r. alike r s' \<Longrightarrow> passes env (here (re_code env) s' e x) (k r) Q"
  shows "passes env (here (re_code env) s e x) (run_bind (mutate_state env f) k) Q"
  by (rule passes_bind, rule passes_mutate [where s' = s'], rule assms(1), rule assms(2), erule assms(3), rule passes_pre, erule assms(4))

lemma mutate_self:
  assumes "env_ok env" and "\<And>b. f (s\<lparr>rl_hold := b\<rparr>) = (f s)\<lparr>rl_hold := b\<rparr>"
    and "state_ok (re_code env) s e \<Longrightarrow> state_ok (re_code env) (f s) e"
    and "\<And>r. alike r (f s) \<Longrightarrow> passes env (here (re_code env) (f s) e x) (k r) Q"
  shows "passes env (here (re_code env) s e x) (run_bind (mutate_state env f) k) Q"
  by (rule mutate_then [OF assms(1) _ assms(3,4)]) (auto simp: assms(2) alike_def)

lemma reread_then:
  assumes "env_ok env" and "\<And>r. alike r s \<Longrightarrow> passes env (here (re_code env) s e x) (k r) Q"
  shows "passes env (here (re_code env) s e x) (run_bind (mutate_state env (\<lambda>s. s)) k) Q"
  by (rule mutate_then [where s' = s]) (use assms alike_hold [OF alike_refl] in auto)

lemma reload_then:
  assumes "env_ok env" and "\<And>r. alike r s \<Longrightarrow> passes env (here (re_code env) s e x) (k r) Q"
  shows "passes env (here (re_code env) s e x) (run_bind (reload_state env) k) Q"
  by (rule passes_bind, rule passes_reload [where s = s], rule assms(1), rule passes_pre, erule assms(2))

lemmas ask_then = passes_bind [OF passes_ask]
lemmas finish_then = passes_bind [OF passes_finish]

section \<open>Verification keeps the host in order\<close>

lemma state_ok_failure:
  "state_ok code s e \<Longrightarrow> step \<noteq> Some repair_failed \<Longrightarrow> state_ok code (s\<lparr>rl_failure_step := step\<rparr>) e"
  "state_ok code s e \<Longrightarrow> step \<noteq> Some repair_failed \<Longrightarrow> state_ok code (s\<lparr>rl_log_accepted := b, rl_failure_step := step\<rparr>) e"
  by (cases "rl_scope s"; cases "rl_phase s"; auto simp: state_ok_def untouched_def)+

lemma state_ok_verifying:
  "state_ok code s e \<Longrightarrow> rl_phase s = Verifying \<Longrightarrow> e = Some (code (rl_target s))"
  by (cases "rl_scope s") (auto simp: state_ok_def)

lemma passes_gpu_probe_flow:
  assumes "env_ok env"
  shows "passes env (here (re_code env) s e x) (gpu_probe_flow env) (\<lambda>_. here (re_code env) s e x)"
proof -
  have refused: "passes env (here (re_code env) s e x) (gpu_probe_refused env code step) Q" if "step \<noteq> repair_failed" for code step Q
    unfolding gpu_probe_refused_def using that
    by (intro mutate_then [OF assms, where s' = "s\<lparr>rl_log_accepted := False, rl_failure_step := Some step\<rparr>"] finish_then [OF assms] leaves_fail)
      (auto intro: alikeI state_ok_failure)
  show ?thesis unfolding gpu_probe_flow_def
    by (intro ask_then [OF assms] ensures_if refused ensures_ret) (auto simp: repair_failed_def)
qed

lemma leaves_finish_verification:
  assumes "env_ok env" and "rl_phase s = Verifying" and "alike st s"
  shows "leaves_ok env (here (re_code env) s e x) (finish_verification env st code accept)"
proof (cases "code = 0")
  case True
  let ?s = "s\<lparr>rl_phase := Idle, rl_scope := Full_Scope, rl_log_accepted := True, rl_verified := rl_target s, rl_failure_step := None\<rparr>"
  have "state_ok (re_code env) ?s e" if "state_ok (re_code env) s e"
    using state_ok_verifying [OF that assms(2)] that by (simp add: state_ok_def)
  then show ?thesis unfolding finish_verification_def Let_def alike_fields [OF assms(3)] if_P [OF True]
    by (intro mutate_then [OF assms(1), where s' = ?s] passes_bind [OF passes_label(1) [OF assms(1)]] finish_then [OF assms(1)] leaves_ret)
      (auto intro: alikeI)
next
  case False
  have ok: "state_ok (re_code env) (s\<lparr>rl_log_accepted := False, rl_failure_step := Some step, rl_phase := Verifying, rl_startup_complete := True\<rparr>) e"
    if "state_ok (re_code env) s e" for step
    using that assms(2) by (cases "rl_scope s") (auto simp: state_ok_def untouched_def)
  show ?thesis unfolding finish_verification_def Let_def if_not_P [OF False]
    by (rule mutate_self [OF assms(1)], simp, erule ok, intro finish_then [OF assms(1)] leaves_ret)
qed

lemma leaves_verify_logs:
  assumes "env_ok env" and "rl_phase s = Verifying"
  shows "leaves_ok env (here (re_code env) s e x) (verify_logs env)"
proof -
  have "leaves_ok env (here (re_code env) s e x) (case p of (code, accept) \<Rightarrow> run_bind (reload_state env) (\<lambda>s. finish_verification env s code accept))" for p
    by (cases p) (auto intro!: reload_then [OF assms(1)] leaves_finish_verification [OF assms])
  then show ?thesis unfolding verify_logs_def
    by (intro passes_bind [OF passes_gpu_probe_flow [OF assms(1)]] ask_then [OF assms(1)])
qed

lemma passes_all_healthy: "env_ok env \<Longrightarrow> passes env (here (re_code env) s e x) (all_healthy env us) (\<lambda>_. here (re_code env) s e x)"
  by (induction us) (auto intro!: ask_then ensures_ret)

lemmas healthy_then = passes_bind [OF passes_all_healthy]

lemma passes_health_failed:
  assumes "env_ok env" and "rl_phase s = Verifying \<or> rl_scope s = Vector_Only"
  shows "passes env (here (re_code env) s e x) (mark_health_check_failed env)
    (\<lambda>_. here (re_code env) (s\<lparr>rl_phase := Verifying, rl_log_accepted := False, rl_failure_step := Some ''health-check-failed''\<rparr>) e x)"
proof -
  let ?s = "s\<lparr>rl_phase := Verifying, rl_log_accepted := False, rl_failure_step := Some ''health-check-failed''\<rparr>"
  have "state_ok (re_code env) ?s e" if "state_ok (re_code env) s e"
    using that assms(2) by (cases "rl_scope s") (auto simp: state_ok_def untouched_def)
  then show ?thesis unfolding mark_health_check_failed_def
    by (intro mutate_then [OF assms(1), where s' = ?s] passes_finish [OF assms(1)]) (auto intro: alikeI)
qed

lemma leaves_start_failed:
  assumes "env_ok env"
  shows "leaves_ok env (here (re_code env) s e x) (run_bind (mark_start_failed env) (\<lambda>_. run_ret (2 :: nat)))"
proof -
  let ?s = "s\<lparr>rl_failure_step := Some ''start-failed''\<rparr>"
  have "passes env (here (re_code env) s e x) (mark_start_failed env) (\<lambda>_. here (re_code env) ?s e x)"
    unfolding mark_start_failed_def
    by (intro mutate_then [OF assms, where s' = ?s] passes_finish [OF assms]) (auto simp: repair_failed_def intro: alikeI state_ok_failure)
  then show ?thesis by (rule leaves_then) (rule leaves_ret)
qed

lemma leaves_verify_flow:
  assumes "env_ok env" and "rl_phase s = Verifying"
  shows "leaves_ok env (here (re_code env) s e x) (verify_flow env fresh)"
proof -
  let ?s = "s\<lparr>rl_startup_complete := True\<rparr>"
  have started: "leaves_ok env (here (re_code env) s e x') (run_bind (mutate_state env (\<lambda>s. s\<lparr>rl_startup_complete := True\<rparr>)) (\<lambda>_. verify_logs env))" for x'
    using assms(2) by (intro mutate_then [OF assms(1), where s' = ?s] leaves_verify_logs [OF assms(1)])
      (auto simp: state_ok_def untouched_def intro: alikeI split: scope.splits)
  have health: "leaves_ok env (here (re_code env) s e x) (run_bind (mark_health_check_failed env) (\<lambda>_. run_ret (2 :: nat)))"
    using assms(2) by (intro leaves_then [OF passes_health_failed [OF assms(1)]] leaves_ret) simp
  show ?thesis unfolding verify_flow_def
    by (intro ensures_if healthy_then [OF assms(1)] leaves_start_failed [OF assms(1)] passes_bind [OF passes_unlock [OF assms(1)]] started health
        leaves_verify_logs [OF assms])
qed

section \<open>Applying, quiescing and draining\<close>

lemma passes_ex:
  assumes "\<And>y. passes env (P y) m Q"
  shows "passes env (\<lambda>h. \<exists>y. P y h) m Q"
  unfolding ensures_def
proof (intro allI impI, elim exE)
  fix h y
  assume "P y h"
  then show "case m h of (Inr x, h') \<Rightarrow> Q x h' | (Inl e, h') \<Rightarrow> host_ok (re_code env) h'" using assms [of y] by (simp add: ensures_def)
qed

lemma ask_value_then:
  assumes "env_ok env" and "\<And>h. here (re_code env) s e x h \<Longrightarrow> V (f h)" and "\<And>v. V v \<Longrightarrow> passes env (here (re_code env) s e x) (k v) Q"
  shows "passes env (here (re_code env) s e x) (run_bind (ask env f) k) Q"
proof (rule passes_bind)
  show "passes env (here (re_code env) s e x) (ask env f) (\<lambda>v h. V v \<and> here (re_code env) s e x h)"
    unfolding ask_def by (rule passes_here_access [OF assms(1)]) (use assms(2) in auto)
  show "passes env (\<lambda>h. V v \<and> here (re_code env) s e x h) (k v) Q" for v
    using assms(3) by (rule passes_pre)
qed

lemma leaves_tick_continue:
  assumes "env_ok env" and "rl_scope s = Full_Scope" and "\<not> untouched s" and "e = Some (re_code env (rl_target s))"
  shows "leaves_ok env (here (re_code env) s e x) (tick_continue env op_id)"
proof -
  let ?s = "s\<lparr>rl_phase := Verifying, rl_startup_complete := False, rl_log_accepted := False\<rparr>"
  have "leaves_ok env (here (re_code env) ?s e x) (verify_flow env True)" by (rule leaves_verify_flow [OF assms(1)]) simp
  moreover have "state_ok (re_code env) ?s e" if "state_ok (re_code env) s e"
    using that assms(2-4) by (auto simp: state_ok_def untouched_def)
  ultimately have "leaves_ok env (here (re_code env) s e x) (run_bind (mutate_state env (\<lambda>s. s\<lparr>rl_phase := Verifying, rl_startup_complete := False,
      rl_log_accepted := False\<rparr>)) (\<lambda>_. run_bind (mutate_state env (\<lambda>s. s)) (\<lambda>_. verify_flow env True)))"
    by (intro mutate_self [OF assms(1)] reread_then [OF assms(1)]) auto
  then show ?thesis unfolding tick_continue_def
    by (intro ask_then [OF assms(1)]) (auto intro: leaves_ret split: option.split)
qed

text \<open>A release that may write: whatever becomes of the code, the state allows it.\<close>

definition may_write :: "release_state \<Rightarrow> release_state \<Rightarrow> bool" where
  "may_write s t = (rl_phase t = Applying \<and> rl_scope t = Full_Scope \<and> \<not> untouched t \<and> rl_target t = rl_target s \<and>
     rl_failure_step t \<noteq> Some repair_failed \<and> rl_recovery_copy t \<noteq> Some [])"

lemma may_write_ok: "may_write s t \<Longrightarrow> state_ok code t e"
  by (simp add: may_write_def state_ok_def)

lemma passes_prepare_recovery:
  assumes "env_ok env" and "rl_phase s = Applying" and "rl_scope s = Full_Scope" and "alike r s"
  shows "passes env (here (re_code env) s e True) (prepare_recovery env r (case rl_direction r of None \<Rightarrow> Forward | Some d \<Rightarrow> d))
    (\<lambda>_ h. \<exists>t e'. may_write s t \<and> here (re_code env) t e' True h)"
proof -
  let ?dir = "case rl_direction r of None \<Rightarrow> Forward | Some d \<Rightarrow> d"
  let ?Q = "\<lambda>_ h. \<exists>t e'. may_write s t \<and> here (re_code env) t e' True h"
  note f = alike_fields [OF assms(4)]
  have keep: "may_write s s" if "state_ok (re_code env) s e" "\<not> untouched s"
    using that assms(2,3) by (simp add: may_write_def state_ok_def)
  have known: "passes env (here (re_code env) s e True) m Q" if "state_ok (re_code env) s e \<Longrightarrow> passes env (here (re_code env) s e True) m Q" for m :: "unit release_run" and Q
    using that by (auto simp: ensures_def here_def)
  show ?thesis
  proof (rule known)
    assume ok: "state_ok (re_code env) s e"
    consider "truthy_str (rl_recovery_copy r)" "?dir \<in> {Rollback, Reset}" | "?dir = Forward" "rl_recovery_copy r = None"
      | "\<not> (truthy_str (rl_recovery_copy r) \<and> ?dir \<in> {Rollback, Reset})" "\<not> (?dir = Forward \<and> rl_recovery_copy r = None)" by metis
    then show "passes env (here (re_code env) s e True) (prepare_recovery env r ?dir) ?Q"
    proof cases
      case 1
      have "\<not> untouched s" using 1 f by (auto simp: untouched_def split: option.splits)
      then have w: "may_write s s" by (rule keep [OF ok])
      have "passes env (here (re_code env) s None True) (run_ret ()) ?Q" by (rule ensures_ret) (use w in blast)
      then show ?thesis using 1 may_write_ok [OF w] unfolding prepare_recovery_def
        by (auto intro!: passes_bind [OF passes_code [OF assms(1)]] ask_then [OF assms(1)] ensures_if leaves_fail)
    next
      case 2
      have save: "passes env (here (re_code env) s e True) (run_bind (mutate_state env (\<lambda>t. t\<lparr>rl_recovery_copy := Some dir, rl_recovery_commit := c\<rparr>)) (\<lambda>_. run_ret ())) ?Q"
        if "dir \<noteq> []" for dir c
      proof (rule mutate_self [OF assms(1)])
        let ?t = "s\<lparr>rl_recovery_copy := Some dir, rl_recovery_commit := c\<rparr>"
        have w: "may_write s ?t" using that ok assms(2,3) by (simp add: may_write_def state_ok_def untouched_def)
        then show "state_ok (re_code env) ?t e" by (rule may_write_ok)
        show "passes env (here (re_code env) ?t e True) (run_ret ()) ?Q" by (rule ensures_ret) (use w in blast)
      qed simp
      have "passes env (here (re_code env) s e True) (case copy of None \<Rightarrow> run_fail (Fail 2 ''recovery-copy-failed'')
          | Some dir \<Rightarrow> run_bind (mutate_state env (\<lambda>t. t\<lparr>rl_recovery_copy := Some dir, rl_recovery_commit := Some (rl_from r)\<rparr>)) (\<lambda>_. run_ret ())) ?Q"
        if "copy \<noteq> Some []" for copy
        using that save leaves_fail by (cases copy) auto
      then have "passes env (here (re_code env) s e True) (run_bind (ask env (re_save_copy env)) (\<lambda>copy. case copy of None \<Rightarrow> run_fail (Fail 2 ''recovery-copy-failed'')
          | Some dir \<Rightarrow> run_bind (mutate_state env (\<lambda>t. t\<lparr>rl_recovery_copy := Some dir, rl_recovery_commit := Some (rl_from r)\<rparr>)) (\<lambda>_. run_ret ()))) ?Q"
        using assms(1) by (intro ask_value_then [where V = "\<lambda>c. c \<noteq> Some []"]) (auto simp: env_ok_def)
      then show ?thesis using 2 by (simp add: prepare_recovery_def)
    next
      case 3
      have "\<not> untouched s" using 3 f by (auto simp: untouched_def split: option.splits)
      then have w: "may_write s s" by (rule keep [OF ok])
      have "prepare_recovery env r ?dir = run_ret ()" unfolding prepare_recovery_def if_not_P [OF 3(1)] if_not_P [OF 3(2)] ..
      then show ?thesis using w by (auto intro!: ensures_ret)
    qed
  qed
qed

lemma leaves_tick_applying:
  assumes "env_ok env" and "rl_phase s = Applying" and "rl_scope s = Full_Scope" and "alike r s"
  shows "leaves_ok env (here (re_code env) s e True) (tick_applying env r)"
proof -
  let ?dir = "case rl_direction r of None \<Rightarrow> Forward | Some d \<Rightarrow> d"
  have target: "rl_target r = rl_target s" using alike_fields [OF assms(4)] by simp
  show ?thesis unfolding tick_applying_def Let_def target
  proof (rule passes_bind [OF passes_prepare_recovery [OF assms]], rule passes_ex, rule passes_ex, rule passes_pre)
    fix t e'
    assume w: "may_write s t"
    have give_up: "leaves_ok env (here (re_code env) t e'' True) (run_bind (finish_request env ''failed'') (\<lambda>_. run_ret (2 :: nat)))" for e''
      by (intro finish_then [OF assms(1)] leaves_ret)
    have pip: "passes env (here (re_code env) t None True) (if b then run_bind (ask env (re_pip env)) (\<lambda>rc. case rc of None \<Rightarrow> run_fail Timeout_Expired | Some c \<Rightarrow> run_ret c)
        else run_ret 0) (\<lambda>_. here (re_code env) t None True)" for b
      by (intro ensures_if ask_then [OF assms(1)]) (auto intro: leaves_fail ensures_ret split: option.split)
    have "leaves_ok env (here (re_code env) t (Some (re_code env (rl_target s))) True) (tick_continue env (rl_op_id r))"
      using w by (intro leaves_tick_continue [OF assms(1)]) (auto simp: may_write_def)
    then have "leaves_ok env (here (re_code env) t (Some (re_code env (rl_target s))) True) (execve (tick_continue env (rl_op_id r)))"
      unfolding execve_def by (rule ensures_catch) (simp add: ensures_def run_fail_def)
    then have installed: "leaves_ok env (here (re_code env) t None True) (run_bind (write_host env (\<lambda>h. h\<lparr>h_code := Some (re_code env (rl_target s))\<rparr>))
        (\<lambda>_. execve (tick_continue env (rl_op_id r))))"
      by (rule leaves_then [OF passes_code [OF assms(1) may_write_ok [OF w]]])
    show "leaves_ok env (here (re_code env) t e' True) (run_bind (ask env (re_dirty env)) (\<lambda>dirty. if dirty then run_bind (finish_request env ''failed'') (\<lambda>_. run_ret 2)
       else run_bind (write_host env (\<lambda>h. h\<lparr>h_code := None\<rparr>)) (\<lambda>_.
       run_bind (ask env (re_reset env)) (\<lambda>ok. if \<not> ok then run_bind (finish_request env ''failed'') (\<lambda>_. run_ret 2)
       else run_bind (write_host env (\<lambda>h. h\<lparr>h_head := rl_target s\<rparr>)) (\<lambda>_.
       run_bind (if requirements_changed (changed_files env (rl_from r) (rl_target s)) \<and> ?dir = Forward
         then run_bind (ask env (re_pip env)) (\<lambda>rc. case rc of None \<Rightarrow> run_fail Timeout_Expired | Some c \<Rightarrow> run_ret c) else run_ret 0) (\<lambda>pip.
       if pip \<noteq> 0 then run_bind (finish_request env ''failed'') (\<lambda>_. run_ret 2)
       else run_bind (ask env (re_install env)) (\<lambda>rc. if rc \<noteq> 0 then run_bind (finish_request env ''failed'') (\<lambda>_. run_ret 2)
       else run_bind (write_host env (\<lambda>h. h\<lparr>h_code := Some (re_code env (rl_target s))\<rparr>)) (\<lambda>_.
       execve (tick_continue env (rl_op_id r))))))))))"
      by (intro ask_then [OF assms(1)] ensures_if give_up leaves_then [OF passes_code [OF assms(1) may_write_ok [OF w]]]
          leaves_then [OF passes_label(2) [OF assms(1)]] passes_bind [OF pip] installed)
  qed
qed

lemma leaves_stop_units:
  assumes "env_ok env" and "leaves_ok env (here (re_code env) s e x) m"
  shows "leaves_ok env (here (re_code env) s e x) (stop_units env units m)"
  unfolding stop_units_def by (intro ask_then [OF assms(1)] ensures_if leaves_ret assms(2))

lemma here_exclusive: "here code s e x h \<Longrightarrow> h_exclusive h \<or> h_shared h = [] \<Longrightarrow> here code s e True (h\<lparr>h_exclusive := True\<rparr>)"
  by (auto simp: here_def locks_ok_def)

lemma passes_exclusive:
  assumes "env_ok env"
  shows "passes env (here (re_code env) s e x) (try_exclusive env) (\<lambda>held h. if held then here (re_code env) s e True h else here (re_code env) s e x h)"
    and "passes env (here (re_code env) s e x) (ensure_activity_exclusive env) (\<lambda>held h. if held then here (re_code env) s e True h else here (re_code env) s e x h)"
  unfolding try_exclusive_def ensure_activity_exclusive_def
  by (rule passes_here_access [OF assms]; auto intro: here_exclusive split: if_splits)+

lemma leaves_tick_quiescing:
  assumes "env_ok env" and "rl_phase s = Quiescing" and "rl_scope s = Full_Scope"
  shows "leaves_ok env (here (re_code env) s e x) (tick_quiescing env)"
proof -
  let ?s = "s\<lparr>rl_phase := Applying\<rparr>"
  have "leaves_ok env (here (re_code env) ?s e True) (tick_applying env r)" if "alike r ?s" for r
    using that assms(3) by (intro leaves_tick_applying [OF assms(1)]) auto
  then have go: "leaves_ok env (here (re_code env) s e True) (run_bind (mutate_state env (\<lambda>s. s\<lparr>rl_phase := Applying\<rparr>)) (\<lambda>_.
      run_bind (mutate_state env (\<lambda>s. s)) (\<lambda>s. tick_applying env s)))"
    using assms(2,3) by (intro mutate_self [OF assms(1)] reread_then [OF assms(1)]) (auto simp: state_ok_def untouched_def)
  show ?thesis unfolding tick_quiescing_def
  proof (rule passes_bind [OF passes_exclusive(2) [OF assms(1)]])
    fix held
    show "leaves_ok env (\<lambda>h. if held then here (re_code env) s e True h else here (re_code env) s e x h) (if \<not> held then run_ret 0
       else stop_units env oneshot_units (stop_units env worker_units (stop_units env resident_units
         (run_bind (mutate_state env (\<lambda>s. s\<lparr>rl_phase := Applying\<rparr>)) (\<lambda>_. run_bind (mutate_state env (\<lambda>s. s)) (\<lambda>s. tick_applying env s))))))"
      by (cases held) (auto intro!: leaves_ret leaves_stop_units [OF assms(1)] go)
  qed
qed

lemma leaves_tick_draining:
  assumes "env_ok env" and "rl_phase s = Draining" and "rl_scope s = Full_Scope"
  shows "leaves_ok env (here (re_code env) s e x) (tick_draining env r)"
proof -
  let ?s = "s\<lparr>rl_phase := Quiescing\<rparr>"
  have "leaves_ok env (here (re_code env) ?s e x') (tick_quiescing env)" for x'
    using assms(3) by (intro leaves_tick_quiescing [OF assms(1)]) auto
  then have on: "leaves_ok env (here (re_code env) s e x') (run_bind (mutate_state env (\<lambda>s. s\<lparr>rl_phase := Quiescing\<rparr>)) (\<lambda>_.
      run_bind (mutate_state env (\<lambda>s. s)) (\<lambda>_. tick_quiescing env)))" for x'
    using assms(2,3) by (intro mutate_self [OF assms(1)] reread_then [OF assms(1)]) (auto simp: state_ok_def untouched_def)
  have step: "leaves_ok env (here (re_code env) s e x) (run_bind (mutate_state env (\<lambda>s. s\<lparr>rl_failure_step := st\<rparr>)) (\<lambda>_. k))"
    if "st \<noteq> Some repair_failed" "\<And>t e'. leaves_ok env (here (re_code env) t e' x) k" for st and k :: "nat release_run"
    using that by (intro mutate_self [OF assms(1)]) (auto intro: state_ok_failure)
  have wait: "leaves_ok env (here (re_code env) t e' x) (run_bind (ask env (re_overdue env)) (\<lambda>late. run_ret (if late then 1 else (0 :: nat))))" for t e'
    by (intro ask_then [OF assms(1)] leaves_ret)
  have ready: "leaves_ok env (here (re_code env) s e True) (case p of Db_Error \<Rightarrow> run_ret 2
      | Db_Running rs ss \<Rightarrow> if rs \<noteq> [] \<or> ss \<noteq> [] then run_ret 2 else run_bind (mutate_state env (\<lambda>s. s\<lparr>rl_phase := Quiescing\<rparr>)) (\<lambda>_.
          run_bind (mutate_state env (\<lambda>s. s)) (\<lambda>_. tick_quiescing env)))" for p
    by (cases p) (auto intro: leaves_ret on)
  have busy: "leaves_ok env (here (re_code env) s e x) (case p of
      Db_Error \<Rightarrow> run_bind (mutate_state env (\<lambda>s. s\<lparr>rl_failure_step := Some ''active-work-db-unavailable''\<rparr>)) (\<lambda>_. run_ret 2)
    | _ \<Rightarrow> run_bind (ask env (\<lambda>h. filter (\<lambda>u. was_active r u \<and> re_is_active env h u \<noteq> ''active'') resident_units)) (\<lambda>unhealthy.
        if unhealthy \<noteq> [] then run_bind (mutate_state env (\<lambda>s. s\<lparr>rl_failure_step := Some ''service-health-error''\<rparr>)) (\<lambda>_. run_ret 2)
        else run_bind (mutate_state env (\<lambda>s. s\<lparr>rl_failure_step := None\<rparr>)) (\<lambda>_.
          run_bind (ask env (re_overdue env)) (\<lambda>late. run_ret (if late then 1 else (0 :: nat))))))" for p
    by (cases p) (auto intro!: ask_then [OF assms(1)] step leaves_ret wait simp: repair_failed_def)
  show ?thesis unfolding tick_draining_def
  proof (rule passes_bind [OF passes_exclusive(1) [OF assms(1)]])
    fix held
    show "leaves_ok env (\<lambda>h. if held then here (re_code env) s e True h else here (re_code env) s e x h) (run_bind (ask env (re_db env)) (\<lambda>records.
       if \<not> held then (case records of
           Db_Error \<Rightarrow> run_bind (mutate_state env (\<lambda>s. s\<lparr>rl_failure_step := Some ''active-work-db-unavailable''\<rparr>)) (\<lambda>_. run_ret 2)
         | _ \<Rightarrow> run_bind (ask env (\<lambda>h. filter (\<lambda>u. was_active r u \<and> re_is_active env h u \<noteq> ''active'') resident_units)) (\<lambda>unhealthy.
             if unhealthy \<noteq> [] then run_bind (mutate_state env (\<lambda>s. s\<lparr>rl_failure_step := Some ''service-health-error''\<rparr>)) (\<lambda>_. run_ret 2)
             else run_bind (mutate_state env (\<lambda>s. s\<lparr>rl_failure_step := None\<rparr>)) (\<lambda>_.
               run_bind (ask env (re_overdue env)) (\<lambda>late. run_ret (if late then 1 else 0)))))
       else (case records of Db_Error \<Rightarrow> run_ret 2
         | Db_Running rounds_running submissions_running \<Rightarrow> if rounds_running \<noteq> [] \<or> submissions_running \<noteq> [] then run_ret 2
           else run_bind (mutate_state env (\<lambda>s. s\<lparr>rl_phase := Quiescing\<rparr>)) (\<lambda>_.
             run_bind (mutate_state env (\<lambda>s. s)) (\<lambda>_. tick_quiescing env)))))"
      by (cases held) (auto intro!: ask_then [OF assms(1)] ready busy)
  qed
qed

section \<open>The vector-only path\<close>

text \<open>What holds throughout a run, exceptions included.\<close>

abbreviation stays :: "(host \<Rightarrow> bool) \<Rightarrow> 'a release_run \<Rightarrow> bool" where
  "stays P m \<equiv> ensures P m (\<lambda>_. P) (\<lambda>_. P)"

lemma stays_access:
  assumes "\<And>h. P h \<Longrightarrow> P (re_others env h)" and "\<And>h x h'. P h \<Longrightarrow> f h = Inr (x, h') \<Longrightarrow> P h'"
  shows "stays P (access env f)"
  unfolding access_def by (rule ensures_txn) (use assms in \<open>auto split: option.splits\<close>)

lemma stays_ret: "stays P (run_ret r)" "stays P (run_fail e)"
  by (auto simp: ensures_def run_ret_def run_fail_def)

lemma stays_bind: "stays P m \<Longrightarrow> (\<And>x. stays P (f x)) \<Longrightarrow> stays P (run_bind m f)"
  by (rule ensures_bind)

text \<open>The request and the labels may change.\<close>

lemma host_ok_request:
  "host_ok code h \<Longrightarrow> (\<And>r. g = Some r \<Longrightarrow> rq_recovery_copy r \<noteq> Some []) \<Longrightarrow> host_ok code (h\<lparr>h_request := g\<rparr>)"
  by (simp add: host_ok_def locks_ok_def cong: option.case_cong)

lemma host_ok_alias: "host_ok code h \<Longrightarrow> host_ok code (h\<lparr>h_alias := v\<rparr>)"
  by (simp add: host_ok_def locks_ok_def cong: option.case_cong)

lemma host_ok_copy: "host_ok code h \<Longrightarrow> h_request h = Some r \<Longrightarrow> rq_recovery_copy r \<noteq> Some []"
  by (simp add: host_ok_def locks_ok_def)

lemma host_ok_finished:
  assumes "host_ok code h"
  shows "host_ok code (h\<lparr>h_request := map_option (\<lambda>r. if open_request r then r\<lparr>rq_status := st\<rparr> else r) (h_request h)\<rparr>)"
  by (rule host_ok_request [OF assms]) (use host_ok_copy [OF assms] in \<open>cases "h_request h"; auto split: if_splits\<close>)

lemma stays_write:
  assumes "\<And>h. P h \<Longrightarrow> P (re_others env h)" and "\<And>h. P h \<Longrightarrow> P (g h)"
  shows "stays P (write_host env g)"
  unfolding write_host_def by (rule stays_access) (use assms in auto)

lemma stays_ok_finish: "env_ok env \<Longrightarrow> stays (host_ok (re_code env)) (finish_request env st)"
  unfolding finish_request_def by (rule stays_write) (simp_all add: others_ok host_ok_finished)

lemma stays_ok_alias: "env_ok env \<Longrightarrow> stays (host_ok (re_code env)) (write_host env (\<lambda>h. h\<lparr>h_alias := v\<rparr>))"
  by (rule stays_write) (simp_all add: others_ok host_ok_alias)

text \<open>The host during a vector-only release to \<open>target\<close> from the verified commit \<open>v\<close>.\<close>

definition vector_host :: "(string \<Rightarrow> string) \<Rightarrow> string \<Rightarrow> string \<Rightarrow> host \<Rightarrow> bool" where
  "vector_host code target v h = ((\<exists>s. h_state h = Some s \<and> rl_scope s = Vector_Only \<and> rl_target s = target \<and> rl_verified s = v) \<and>
     h_code h = Some (code target) \<and> host_ok code h)"

lemma vector_host_ok: "vector_host code target v h \<Longrightarrow> host_ok code h"
  by (simp add: vector_host_def)

lemma vector_host_others:
  assumes "env_ok env" and "vector_host (re_code env) target v h"
  shows "vector_host (re_code env) target v (re_others env h)"
proof -
  have step: "vector_host code target v h'" if "worker_step h h'" "vector_host code target v h" for h h' code
    using that worker_step_ok [OF that(1)] by (cases rule: worker_step.cases) (auto simp: vector_host_def)
  have "worker_step\<^sup>*\<^sup>* h (re_others env h)" using assms(1) by (simp add: env_ok_def)
  then show ?thesis using assms(2) by (induction rule: rtranclp_induct) (auto intro: step)
qed

abbreviation stays_vector :: "release_env \<Rightarrow> string \<Rightarrow> string \<Rightarrow> 'a release_run \<Rightarrow> bool" where
  "stays_vector env target v m \<equiv> stays (vector_host (re_code env) target v) m"

lemma vector_ask: "env_ok env \<Longrightarrow> stays_vector env target v (ask env f)"
  unfolding ask_def by (rule stays_access) (auto intro: vector_host_others)

lemma vector_write:
  assumes "env_ok env" and "\<And>h. vector_host (re_code env) target v h \<Longrightarrow> vector_host (re_code env) target v (g h)"
  shows "stays_vector env target v (write_host env g)"
  by (rule stays_write) (use assms vector_host_others in auto)

lemma vector_mutate:
  assumes "env_ok env" and "\<And>s. rl_scope s = Vector_Only \<Longrightarrow> state_ok (re_code env) s (Some (re_code env (rl_target s))) \<Longrightarrow>
    rl_scope (f s) = Vector_Only \<and> rl_target (f s) = rl_target s \<and> rl_verified (f s) = rl_verified s \<and> state_ok (re_code env) (f s) (Some (re_code env (rl_target s)))"
  shows "stays_vector env target v (mutate_state env f)"
  unfolding mutate_state_def
proof (rule stays_access)
  fix h x h'
  assume h: "vector_host (re_code env) target v h"
    and f: "(case h_state h of None \<Rightarrow> Inl (Fail 2 ''state-corrupt'') | Some s \<Rightarrow> Inr (f s, h\<lparr>h_state := Some (f s)\<rparr>)) = Inr (x, h')"
  obtain s where s: "h_state h = Some s" "rl_scope s = Vector_Only" "rl_target s = target" "rl_verified s = v"
    "state_ok (re_code env) s (Some (re_code env target))" "locks_ok h" "h_code h = Some (re_code env target)"
    using h by (auto simp: vector_host_def host_ok_def)
  then have "h' = h\<lparr>h_state := Some (f s)\<rparr>" using f by auto
  with s assms(2) [of s] show "vector_host (re_code env) target v h'" by (simp add: vector_host_def host_ok_def locks_ok_simple)
qed (rule vector_host_others [OF assms(1)])

lemma vector_finish: "env_ok env \<Longrightarrow> stays_vector env target v (finish_request env st)"
  unfolding finish_request_def by (rule vector_write) (auto simp: vector_host_def intro: host_ok_finished)

lemma vector_move_tree: "env_ok env \<Longrightarrow> stays_vector env target v (move_tree env target)"
  unfolding move_tree_def by (rule vector_write) (auto simp: vector_host_def host_ok_def locks_ok_def)

lemma vector_healthy: "env_ok env \<Longrightarrow> stays_vector env target v (all_healthy env us)"
  by (induction us) (auto intro!: stays_bind stays_ret vector_ask)

lemma vector_install_stays: "env_ok env \<Longrightarrow> stays_vector env target v (vector_install env target)"
  unfolding vector_install_def by (intro stays_bind ensures_if stays_ret vector_ask vector_move_tree)

lemma vector_verify_stays:
  assumes "env_ok env"
  shows "stays_vector env target v (vector_verify env)"
proof -
  have refused: "stays_vector env target v (gpu_probe_refused env c st)" for c st
    unfolding gpu_probe_refused_def
    by (intro stays_bind vector_mutate vector_finish stays_ret assms) (auto simp: state_ok_def)
  have health: "stays_vector env target v (mark_health_check_failed env)"
    unfolding mark_health_check_failed_def by (intro stays_bind vector_mutate vector_finish assms) (auto simp: state_ok_def)
  have "stays_vector env target v (case p of (c, b) \<Rightarrow> run_ret (Some c))" for p :: "nat \<times> bool"
    by (cases p) (auto intro: stays_ret)
  then show ?thesis unfolding vector_verify_def gpu_probe_flow_def
    by (intro stays_bind ensures_if vector_healthy vector_ask refused health stays_ret assms)
qed

text \<open>The last write of the path, after which the host is in order.\<close>

lemma vector_ends:
  assumes "env_ok env" and "\<And>s. rl_verified s = v \<Longrightarrow> rl_target s = target \<Longrightarrow> rl_recovery_copy s \<noteq> Some [] \<Longrightarrow> state_ok (re_code env) (f s) (Some (re_code env target))"
    and "stays (host_ok (re_code env)) m"
  shows "leaves_ok env (vector_host (re_code env) target v) (run_bind (mutate_state env f) (\<lambda>_. m))"
proof (rule ensures_bind [OF _ assms(3)])
  show "leaves_ok env (vector_host (re_code env) target v) (mutate_state env f)"
    unfolding mutate_state_def
  proof (rule passes_access [OF assms(1)])
    fix h x h'
    assume h: "vector_host (re_code env) target v h"
      and f: "(case h_state h of None \<Rightarrow> Inl (Fail 2 ''state-corrupt'') | Some s \<Rightarrow> Inr (f s, h\<lparr>h_state := Some (f s)\<rparr>)) = Inr (x, h')"
    obtain s where s: "h_state h = Some s" "rl_target s = target" "rl_verified s = v" "rl_recovery_copy s \<noteq> Some []" "locks_ok h"
      "h_code h = Some (re_code env target)"
      using h by (auto simp: vector_host_def host_ok_def state_ok_def)
    then have "h' = h\<lparr>h_state := Some (f s)\<rparr>" using f by auto
    with s assms(2) [of s] show "host_ok (re_code env) h'" by (simp add: host_ok_def locks_ok_simple)
  qed (erule vector_host_others [OF assms(1)] vector_host_ok)+
qed

lemma leaves_vector_failed:
  assumes "env_ok env" and "\<not> resume \<longrightarrow> re_code env target = re_code env v"
  shows "leaves_ok env (vector_host (re_code env) target v) (vector_failed env target requested resume installed e)"
proof (cases e)
  case (Fail c reason)
  let ?finish = "run_bind (if requested then finish_request env ''failed'' else run_ret ()) (\<lambda>_. run_ret (if c = 0 then 2 else c))"
  have "stays (host_ok (re_code env)) ?finish" by (intro stays_bind ensures_if stays_ok_finish stays_ret assms(1))
  then show ?thesis unfolding vector_failed_def Fail release_stop.case Let_def
    by (intro vector_ends [OF assms(1)]) (use assms(2) in \<open>auto simp: state_ok_def\<close>)
qed (auto simp: vector_failed_def vector_host_def ensures_def run_fail_def)

lemma leaves_vector_accepted:
  assumes "env_ok env"
  shows "leaves_ok env (vector_host (re_code env) target v) (vector_accepted env target requested code)"
proof -
  have fin: "leaves_ok env (vector_host (re_code env) target v) (run_bind (mutate_state env (\<lambda>s. s\<lparr>rl_phase := Idle, rl_scope := Full_Scope, rl_log_accepted := True,
      rl_verified := target, rl_failure_step := None\<rparr>)) (\<lambda>_. run_bind (write_host env (\<lambda>h. h\<lparr>h_alias := target\<rparr>)) (\<lambda>_.
      run_bind (if requested then finish_request env ''done'' else run_ret ()) (\<lambda>_. run_ret 0))))"
    by (intro vector_ends [OF assms] stays_bind ensures_if stays_ok_finish stays_ok_alias stays_ret assms) (auto simp: state_ok_def)
  have ok: "state_ok (re_code env) (s\<lparr>rl_phase := Verifying, rl_startup_complete := True, rl_log_accepted := False, rl_failure_step := st\<rparr>) (Some (re_code env target))"
    if "rl_scope s = Vector_Only" "rl_target s = target" "rl_recovery_copy s \<noteq> Some []" for s st
    using that by (simp add: state_ok_def)
  have "stays_vector env target v (mutate_state env (\<lambda>s. s\<lparr>rl_phase := Verifying, rl_startup_complete := True, rl_log_accepted := False, rl_failure_step := st\<rparr>))" for st
    by (rule vector_mutate [OF assms]) (auto simp: state_ok_def)
  then have "stays_vector env target v (run_bind (mutate_state env (\<lambda>s. s\<lparr>rl_phase := Verifying, rl_startup_complete := True, rl_log_accepted := False, rl_failure_step := st\<rparr>)) (\<lambda>_.
      run_bind (if requested then finish_request env ''failed'' else run_ret ()) (\<lambda>_. run_ret (if code = 1 then 1 else (2 :: nat)))))" for st
    by (intro stays_bind ensures_if vector_finish stays_ret assms)
  then have failed: "leaves_ok env (vector_host (re_code env) target v) (run_bind (mutate_state env (\<lambda>s. s\<lparr>rl_phase := Verifying, rl_startup_complete := True, rl_log_accepted := False, rl_failure_step := st\<rparr>)) (\<lambda>_.
      run_bind (if requested then finish_request env ''failed'' else run_ret ()) (\<lambda>_. run_ret (if code = 1 then 1 else (2 :: nat)))))" for st
    by (rule ensures_weaken) (auto simp: vector_host_def)
  show ?thesis unfolding vector_accepted_def by (intro ensures_if failed fin)
qed

lemma leaves_vector_fast_path:
  assumes "env_ok env" and "e = Some (re_code env target)" and "\<not> resume \<longrightarrow> re_code env target = re_code env (rl_verified s)"
  shows "leaves_ok env (here (re_code env) s e x) (vector_fast_path env target requested resume)"
proof -
  let ?V = "vector_host (re_code env) target (rl_verified s)"
  let ?ok = "host_ok (re_code env)"
  have install: "passes env ?V (run_catch (run_bind (vector_install env target) (\<lambda>_. run_ret None))
      (\<lambda>e. run_bind (vector_failed env target requested resume False e) (\<lambda>code. run_ret (Some code))))
      (\<lambda>r. case r of None \<Rightarrow> ?V | Some (_ :: nat) \<Rightarrow> ?ok)"
    by (rule ensures_catch, rule ensures_bind, rule vector_install_stays [OF assms(1)], rule ensures_ret, simp,
      rule ensures_bind, rule leaves_vector_failed [OF assms(1,3)], rule ensures_ret, simp)
  have verify: "passes env ?V (run_catch (run_bind (vector_verify env) (\<lambda>c. run_ret (Inr c)))
      (\<lambda>e. run_bind (vector_failed env target requested resume True e) (\<lambda>code. run_ret (Inl code))))
      (\<lambda>r. case r of Inr _ \<Rightarrow> ?V | Inl (_ :: nat) \<Rightarrow> ?ok)"
    by (rule ensures_catch, rule ensures_bind, rule vector_verify_stays [OF assms(1)], rule ensures_ret, simp,
      rule ensures_bind, rule leaves_vector_failed [OF assms(1,3)], rule ensures_ret, simp)
  have ok_ret: "leaves_ok env ?ok (run_ret c)" "leaves_ok env ?V (run_ret c)" for c :: nat
    by (auto intro: ensures_ret vector_host_ok)
  have last: "leaves_ok env (case r of Inr _ \<Rightarrow> ?V | Inl _ \<Rightarrow> ?ok) (case r of Inl code \<Rightarrow> run_ret code | Inr None \<Rightarrow> run_ret 2
      | Inr (Some code) \<Rightarrow> vector_accepted env target requested code)" for r :: "nat + nat option"
    by (auto intro: ok_ret leaves_vector_accepted [OF assms(1)] split: sum.split option.split)
  have rest: "leaves_ok env ?V (run_bind (run_catch (run_bind (vector_install env target) (\<lambda>_. run_ret None))
         (\<lambda>e. run_bind (vector_failed env target requested resume False e) (\<lambda>code. run_ret (Some code)))) (\<lambda>stop. case stop of
       Some code \<Rightarrow> run_ret code
     | None \<Rightarrow> run_bind (run_catch (run_bind (vector_verify env) (\<lambda>c. run_ret (Inr c)))
         (\<lambda>e. run_bind (vector_failed env target requested resume True e) (\<lambda>code. run_ret (Inl code)))) (\<lambda>r. case r of
         Inl code \<Rightarrow> run_ret code | Inr None \<Rightarrow> run_ret 2 | Inr (Some code) \<Rightarrow> vector_accepted env target requested code)))"
    by (rule passes_bind [OF install]) (auto intro: ok_ret passes_bind [OF verify last] split: option.split)
  have started: "leaves_ok env (here (re_code env) s' e x) m" if "leaves_ok env ?V m" "rl_scope s' = Vector_Only" "rl_target s' = target" "rl_verified s' = rl_verified s"
    for s' and m :: "nat release_run"
  proof (rule ensures_weaken [OF that(1)])
    fix h
    assume "here (re_code env) s' e x h"
    then show "?V h" using that(2-4) here_ok [of "re_code env" s' e x h] assms(2) by (auto simp: here_def vector_host_def alike_fields)
  qed auto
  show ?thesis unfolding vector_fast_path_def
    by (rule ask_then [OF assms(1)], simp only: split_beta, rule mutate_self [OF assms(1)], simp,
      use assms(2) in \<open>simp add: state_ok_def\<close>, rule started [OF rest], auto)
qed

lemma same_code:
  assumes "env_ok env" and "list_all (\<lambda>f. f = vector_toml) (changed_files env a b)"
  shows "re_code env b = re_code env a"
proof (cases "a = b \<or> re_diff env a b = None")
  case True
  then show ?thesis using assms(2) by (auto simp: changed_files_def vector_toml_def split: if_splits)
next
  case False
  then obtain fs where "re_diff env a b = Some fs" by auto
  moreover have "set fs \<subseteq> {[], vector_toml}" using False assms(2) \<open>re_diff env a b = Some fs\<close> by (auto simp: changed_files_def list_all_iff)
  ultimately show ?thesis using assms(1) unfolding env_ok_def by metis
qed

section \<open>Idle and interrupted verification\<close>

lemma leaves_start_release:
  assumes "env_ok env" and "rl_phase s = Idle" and "rl_scope s = Full_Scope"
  shows "leaves_ok env (here (re_code env) s e x) (start_release env verified target)"
  unfolding start_release_def
  by (rule ask_then [OF assms(1)], simp only: split_beta, rule mutate_self [OF assms(1)], simp,
    use assms(2,3) in \<open>simp add: state_ok_def untouched_def\<close>, intro reread_then [OF assms(1)] leaves_tick_draining [OF assms(1)], auto)

lemma leaves_tick_idle:
  assumes "env_ok env" and "rl_phase s = Idle" and "rl_scope s = Full_Scope" and "alike r s" and "e = Some (re_code env (rl_verified s))"
  shows "leaves_ok env (here (re_code env) s e x) (tick_idle env r)"
proof -
  have v: "rl_verified r = rl_verified s" using alike_fields [OF assms(4)] by simp
  have fast: "leaves_ok env (here (re_code env) s e x) (if vector_only_change env (changed_files env (rl_verified s) target) drift dv
      then vector_fast_path env target False False else start_release env (rl_verified s) target)" for target drift dv
  proof (rule ensures_if)
    assume "vector_only_change env (changed_files env (rl_verified s) target) drift dv"
    then have "re_code env target = re_code env (rl_verified s)" by (intro same_code [OF assms(1)]) (simp add: vector_only_change_def)
    then show "leaves_ok env (here (re_code env) s e x) (vector_fast_path env target False False)"
      using assms(5) by (intro leaves_vector_fast_path [OF assms(1)]) auto
  qed (rule leaves_start_release [OF assms(1-3)])
  show ?thesis unfolding tick_idle_def v
    by (intro passes_bind [OF passes_label(1) [OF assms(1)]] ask_then [OF assms(1)])
      (auto intro!: leaves_ret ask_then [OF assms(1)] fast split: option.split)
qed

lemma leaves_tick_held: "env_ok env \<Longrightarrow> leaves_ok env (here (re_code env) s e x) (tick_held env)"
  unfolding tick_held_def by (intro ask_then) (auto intro!: leaves_ret ask_then split: option.split)

lemma leaves_refuse: "env_ok env \<Longrightarrow> leaves_ok env (here (re_code env) s e x) (refuse env c)"
  unfolding refuse_def by (intro finish_then leaves_ret)

lemma leaves_tick_verifying_resume:
  assumes "env_ok env" and "rl_phase s = Verifying"
  shows "leaves_ok env (here (re_code env) s e x) (tick_verifying_resume env r)"
proof -
  have "state_ok (re_code env) (s\<lparr>rl_failure_step := Some ''verifying-partial-startup'', rl_startup_complete := False\<rparr>) e"
    if "state_ok (re_code env) s e"
    using that assms(2) by (cases "rl_scope s") (auto simp: state_ok_def untouched_def)
  then show ?thesis unfolding tick_verifying_resume_def
    by (intro ensures_if leaves_ret reload_then [OF assms(1)] leaves_verify_flow [OF assms] mutate_self [OF assms(1)] finish_then [OF assms(1)]) auto
qed

section \<open>Requests\<close>

lemmas mark_then = passes_bind [OF passes_mark]
lemmas running_then = passes_bind [OF passes_mark_running]

lemma leaves_start_recovery:
  assumes "env_ok env" and "rq_recovery_copy rq \<noteq> Some []"
    and "direction = Forward \<Longrightarrow> rl_recovery_copy s = None \<Longrightarrow> e = Some (re_code env (rl_verified s))"
  shows "leaves_ok env (here (re_code env) s e x) (start_recovery_operation env rq direction target)"
  unfolding start_recovery_operation_def
  by (rule ask_then [OF assms(1)], rule mutate_self [OF assms(1)], simp split: option.split,
    use assms(3) in \<open>auto simp: state_ok_def untouched_def\<close>,
    intro running_then [OF assms(1,2)] reread_then [OF assms(1)] leaves_tick_draining [OF assms(1)], auto)

lemma leaves_request_rollback:
  assumes "env_ok env" and "rq_recovery_copy rq \<noteq> Some []"
  shows "leaves_ok env (here (re_code env) s e x) (request_rollback env r rq)"
proof -
  have go: "leaves_ok env (here (re_code env) s e x) (start_recovery_operation env rq Rollback target)" for target
    by (rule leaves_start_recovery [OF assms]) simp
  have hold: "passes env (here (re_code env) s e x) (if rl_hold r = None then mutate_state env (\<lambda>s. s\<lparr>rl_hold := Some target\<rparr>) else run_ret r)
      (\<lambda>_. here (re_code env) s e x)" for target
  proof (rule ensures_if)
    have "alike (s\<lparr>rl_hold := b, rl_hold := Some target\<rparr>) s" for b by (simp add: alike_hold)
    then show "passes env (here (re_code env) s e x) (mutate_state env (\<lambda>s. s\<lparr>rl_hold := Some target\<rparr>)) (\<lambda>_. here (re_code env) s e x)"
      by (intro ensures_weaken [OF passes_mutate [OF assms(1), where s = s and s' = s and e = e and x = x]]) auto
  qed (rule ensures_ret)
  show ?thesis unfolding request_rollback_def Let_def
    by (intro ensures_if leaves_refuse [OF assms(1)] passes_bind [OF hold] go)
qed

lemma untouched_code:
  assumes "state_ok code s e" and "untouched s" and "rl_scope s = Full_Scope"
  shows "e = Some (code (rl_verified s))"
  using assms by (cases "rl_phase s") (auto simp: state_ok_def)

lemma known: "(state_ok (re_code env) s e \<Longrightarrow> passes env (here (re_code env) s e x) m Q) \<Longrightarrow> passes env (here (re_code env) s e x) m Q"
  by (auto simp: ensures_def here_def)

lemma leaves_request_resume:
  assumes "env_ok env" and "rq_recovery_copy rq \<noteq> Some []" and "alike r s"
  shows "leaves_ok env (here (re_code env) s e x) (request_resume env r rq)"
proof (rule known)
  assume ok: "state_ok (re_code env) s e"
  have fast: "leaves_ok env (here (re_code env) s e x) (vector_fast_path env (rl_target s) True True)"
    if "rl_phase s \<in> {Applying, Verifying}" "rl_scope s = Vector_Only \<or> rl_failure_step s = Some repair_failed"
    using that ok by (intro leaves_vector_fast_path [OF assms(1)]) (cases "rl_scope s"; cases "rl_phase s"; auto simp: state_ok_def)+
  have full: "leaves_ok env (here (re_code env) s e x) (start_recovery_operation env rq (case rl_direction s of None \<Rightarrow> Forward | Some d \<Rightarrow> d) (rl_target s))"
    if "rl_scope s \<noteq> Vector_Only"
  proof (rule leaves_start_recovery [OF assms(1,2)])
    assume "(case rl_direction s of None \<Rightarrow> Forward | Some d \<Rightarrow> d) = Forward" and "rl_recovery_copy s = None"
    then have "untouched s" by (auto simp: untouched_def split: option.splits)
    then show "e = Some (re_code env (rl_verified s))" using that by (intro untouched_code [OF ok]) (cases "rl_scope s"; simp)+
  qed
  show "leaves_ok env (here (re_code env) s e x) (request_resume env r rq)"
    unfolding request_resume_def alike_fields [OF assms(3)]
    by (auto intro!: leaves_refuse [OF assms(1)] running_then [OF assms(1,2)] fast full)
qed

lemma leaves_request_cancel:
  assumes "env_ok env" and "rq_recovery_copy rq \<noteq> Some []" and "alike r s"
  shows "leaves_ok env (here (re_code env) s e x) (request_cancel env r rq)"
proof (cases "rl_phase s \<in> {Draining, Quiescing} \<and> rl_direction s = Some Forward \<and> \<not> truthy_str (rl_recovery_copy s)")
  case True
  let ?s = "s\<lparr>rl_phase := Idle, rl_scope := Full_Scope, rl_failure_step := None, rl_recovery_copy := None, rl_target := rl_verified s, rl_from := rl_verified s\<rparr>"
  have returned: "state_ok (re_code env) ?s e" if "state_ok (re_code env) s e"
  proof -
    have "untouched s" "rl_scope s = Full_Scope"
      using True that by (cases "rl_scope s"; auto simp: untouched_def truthy_str_def state_ok_def)+
    then show ?thesis using untouched_code [OF that] by (simp add: state_ok_def)
  qed
  have idle: "leaves_ok env (here (re_code env) s e x) (run_bind (mutate_state env (\<lambda>s. s\<lparr>rl_phase := Idle, rl_scope := Full_Scope, rl_failure_step := None,
      rl_recovery_copy := None, rl_target := rl_verified s, rl_from := rl_verified s\<rparr>)) (\<lambda>_. run_bind (mark_request env rq ''done'') (\<lambda>_. run_ret (0 :: nat))))"
    by (rule mutate_self [OF assms(1)], simp, erule returned, intro mark_then [OF assms(1,2)] leaves_ret)
  have running: "passes env (here (re_code env) s e x) (if rq_status rq \<noteq> ''running'' then mark_request_running env rq else run_ret ()) (\<lambda>_. here (re_code env) s e x)"
    by (intro ensures_if passes_mark_running [OF assms(1,2)] ensures_ret)
  have "\<not> (rl_phase s \<notin> {Draining, Quiescing})" "\<not> (rl_direction s \<noteq> Some Forward \<or> truthy_str (rl_recovery_copy s))" using True by auto
  then show ?thesis unfolding request_cancel_def alike_fields [OF assms(3)]
    by (simp only: if_False if_not_P, intro mutate_then [OF assms(1), where s' = s] passes_bind [OF running] ask_then [OF assms(1)] ensures_if leaves_ret idle)
      (simp_all add: alike_hold)
next
  case False
  then show ?thesis unfolding request_cancel_def alike_fields [OF assms(3)] by (auto intro: leaves_refuse [OF assms(1)])
qed

lemma leaves_request_verify:
  assumes "env_ok env" and "rq_recovery_copy rq \<noteq> Some []" and "alike r s"
  shows "leaves_ok env (here (re_code env) s e x) (request_verify env r rq)"
proof -
  let ?go = "\<lambda>_. run_bind (mark_request_running env rq) (\<lambda>_. run_bind (reload_state env) (\<lambda>_. verify_flow env False))"
  have go: "leaves_ok env (here (re_code env) t e x) (?go u)" if "rl_phase t = Verifying" for t u
    by (intro running_then [OF assms(1,2)] reload_then [OF assms(1)] leaves_verify_flow [OF assms(1) that])
  have idle: "leaves_ok env (here (re_code env) s e x) (run_bind (mutate_state env (\<lambda>s. s\<lparr>rl_phase := Verifying, rl_startup_complete := True\<rparr>)) ?go)"
    if "rl_phase s = Idle"
    by (rule mutate_self [OF assms(1)], simp, use that in \<open>cases "rl_scope s"; simp add: state_ok_def\<close>, rule go, simp)
  have same: "leaves_ok env (here (re_code env) s e x) (run_bind (run_ret r) ?go)" if "rl_phase s = Verifying"
    by (rule passes_bind [where A = "\<lambda>_. here (re_code env) s e x"], rule ensures_ret, assumption, rule go [OF that])
  show ?thesis unfolding request_verify_def alike_fields [OF assms(3)]
    by (cases "rl_phase s") (auto intro!: leaves_refuse [OF assms(1)] idle same simp del: run_loop.simps)
qed

lemma leaves_request_unpause:
  assumes "env_ok env" and "rq_recovery_copy rq \<noteq> Some []"
  shows "leaves_ok env (here (re_code env) s e x) (request_unpause env r rq)"
proof -
  have "leaves_ok env (here (re_code env) s e x) (run_bind (mutate_state env (\<lambda>s. s\<lparr>rl_hold := None\<rparr>)) (\<lambda>_. run_bind (mark_request env rq ''done'') (\<lambda>_. run_ret (0 :: nat))))"
    by (intro mutate_then [OF assms(1), where s' = s] mark_then [OF assms] leaves_ret) (simp_all add: alike_hold)
  then show ?thesis unfolding request_unpause_def
    by (auto intro!: leaves_refuse [OF assms(1)] ask_then [OF assms(1)] leaves_ret split: option.split)
qed

lemma passes_repair_applicable:
  assumes "env_ok env" and "alike r s"
  shows "passes env (here (re_code env) s e x) (repair_applicable env r rq)
    (\<lambda>b h. (b \<longrightarrow> rl_phase s = Verifying \<and> re_code env (rq_target rq) = re_code env (rl_target s)) \<and> here (re_code env) s e x h)"
proof -
  have no: "passes env (here (re_code env) s e x) (run_ret False) (\<lambda>b h. (b \<longrightarrow> C) \<and> here (re_code env) s e x h)" for C
    by (rule ensures_ret) simp
  have same: "re_code env (rq_target rq) = re_code env (rl_target s)" if "changed_files env (rl_target s) (rq_target rq) = [vector_toml]"
    by (rule same_code [OF assms(1)]) (simp add: that)
  show ?thesis unfolding repair_applicable_def alike_fields [OF assms(2)]
    by (auto intro!: no ask_then [OF assms(1)] ensures_ret simp: same)
qed

lemma leaves_request_vector_repair:
  assumes "env_ok env" and "rq_recovery_copy rq \<noteq> Some []" and "alike r s"
  shows "leaves_ok env (here (re_code env) s e x) (request_vector_repair env r rq)"
  unfolding request_vector_repair_def
proof (rule passes_bind [OF passes_repair_applicable [OF assms(1,3)]], rule passes_pre, rule known, rule ensures_if)
  fix b
  assume b: "b \<longrightarrow> rl_phase s = Verifying \<and> re_code env (rq_target rq) = re_code env (rl_target s)" and "\<not> \<not> b"
    and ok: "state_ok (re_code env) s e"
  then have e: "e = Some (re_code env (rq_target rq))" using state_ok_verifying by fastforce
  let ?f = "\<lambda>t. t\<lparr>rl_phase := Applying, rl_scope := Vector_Only, rl_target := rq_target rq, rl_repair_from := Some (rl_target r), rl_log_accepted := False, rl_failure_step := None\<rparr>"
  let ?v = "?f s\<lparr>rl_phase := Verifying\<rparr>"
  have health: "leaves_ok env (here (re_code env) ?v e x) (run_bind (mark_health_check_failed env) (\<lambda>_. run_ret (2 :: nat)))"
    by (intro leaves_then [OF passes_health_failed [OF assms(1)]] leaves_ret) simp
  have "leaves_ok env (here (re_code env) ?v e x) (verify_logs env)" by (rule leaves_verify_logs [OF assms(1)]) simp
  then have installed: "leaves_ok env (here (re_code env) (?f s) e x) (run_bind (mutate_state env (\<lambda>t. t\<lparr>rl_phase := Verifying\<rparr>)) (\<lambda>_.
      run_bind (all_healthy env (resident_units @ worker_units)) (\<lambda>ok. if \<not> ok then run_bind (mark_health_check_failed env) (\<lambda>_. run_ret 2) else verify_logs env)))"
    by (intro mutate_self [OF assms(1)] healthy_then [OF assms(1)] ensures_if health) (auto simp: state_ok_def)
  have broken: "leaves_ok env (here (re_code env) (?f s) e x) (run_bind (mutate_state env (\<lambda>t. t\<lparr>rl_target := rq_target rq, rl_repair_from := Some (rl_target r),
      rl_phase := Verifying, rl_scope := Vector_Only, rl_startup_complete := True, rl_log_accepted := False, rl_failure_step := Some repair_failed\<rparr>)) (\<lambda>_.
      run_bind (finish_request env ''failed'') (\<lambda>_. run_ret (2 :: nat))))"
    by (intro mutate_self [OF assms(1)] finish_then [OF assms(1)] leaves_ret) (auto simp: state_ok_def)
  show "leaves_ok env (here (re_code env) s e x) (run_bind (mutate_state env ?f) (\<lambda>_. run_bind (mark_request_running env rq) (\<lambda>_.
      run_bind (ask env (re_reset env)) (\<lambda>ok. if \<not> ok then run_fail (Fail 2 ''git-reset-failed'')
       else run_bind (move_tree env (rq_target rq)) (\<lambda>_. run_bind (ask env (re_install env)) (\<lambda>rc. if rc \<noteq> 0
         then run_bind (mutate_state env (\<lambda>t. t\<lparr>rl_target := rq_target rq, rl_repair_from := Some (rl_target r), rl_phase := Verifying,
             rl_scope := Vector_Only, rl_startup_complete := True, rl_log_accepted := False, rl_failure_step := Some repair_failed\<rparr>)) (\<lambda>_.
           run_bind (finish_request env ''failed'') (\<lambda>_. run_ret 2))
         else run_bind (mutate_state env (\<lambda>t. t\<lparr>rl_phase := Verifying\<rparr>)) (\<lambda>_.
           run_bind (all_healthy env (resident_units @ worker_units)) (\<lambda>ok.
           if \<not> ok then run_bind (mark_health_check_failed env) (\<lambda>_. run_ret 2) else verify_logs env))))))))"
    by (rule mutate_self [OF assms(1)], simp, simp add: state_ok_def e,
      intro running_then [OF assms(1,2)] ask_then [OF assms(1)] ensures_if leaves_fail passes_bind [OF passes_move_tree [OF assms(1) e]] broken installed)
qed (rule leaves_refuse [OF assms(1)])

text \<open>A reset starts from any host that is in order, the state file lost or not.\<close>

lemma leaves_execute_reset:
  assumes "env_ok env" and "rq_recovery_copy rq \<noteq> Some []"
  shows "leaves_ok env (host_ok (re_code env)) (execute_reset env rq)"
proof -
  let ?fresh = "\<lambda>op_id units. \<lparr>rl_op_id = op_id, rl_phase = Draining, rl_scope = Full_Scope, rl_direction = Some Reset,
     rl_from = rq_baseline rq, rl_target = rq_baseline rq, rl_verified = rq_baseline rq, rl_hold = Some (rq_baseline rq), rl_startup_complete = False,
     rl_log_accepted = False, rl_recovery_copy = rq_recovery_copy rq, rl_recovery_commit = Some (rq_baseline rq), rl_failure_step = None,
     rl_repair_from = None, rl_units = Some units\<rparr>"
  have fresh: "\<exists>e x. here (re_code env) (?fresh op_id units) e x (h\<lparr>h_state := Some (?fresh op_id units)\<rparr>)"
    if "host_ok (re_code env) h" for op_id units h
    by (rule exI [of _ "h_code h"], rule exI [of _ "h_exclusive h"]) (use that assms(2) in \<open>simp add: here_def host_ok_def state_ok_def untouched_def locks_ok_simple\<close>)
  have look: "stays (host_ok (re_code env)) (ask env f)" for f :: "host \<Rightarrow> string \<times> (string \<times> bool) list"
    unfolding ask_def by (rule stays_access) (use others_ok [OF assms(1)] in auto)
  have written: "passes env (host_ok (re_code env)) (write_host env (\<lambda>h. h\<lparr>h_state := Some (?fresh op_id units)\<rparr>))
      (\<lambda>_ h. \<exists>e x. here (re_code env) (?fresh op_id units) e x h)" for op_id units
    unfolding write_host_def by (rule passes_access [OF assms(1)], erule others_ok [OF assms(1)], assumption, clarsimp, erule fresh)
  have drain: "leaves_ok env (here (re_code env) (?fresh op_id units) e x) (run_bind (mark_request env rq ''running'') (\<lambda>_. tick_draining env (?fresh op_id units)))"
    for op_id units e x
    by (intro mark_then [OF assms] leaves_tick_draining [OF assms(1)]) simp_all
  have renamed: "stays (host_ok (re_code env)) (write_host env (\<lambda>h. h\<lparr>h_state := None\<rparr>))"
    by (rule stays_write, erule others_ok [OF assms(1)]) (simp add: host_ok_def locks_ok_simple)
  show ?thesis unfolding execute_reset_def Let_def split_beta
    by (rule passes_bind [OF renamed], rule passes_bind [OF look], rule passes_bind [OF written], rule passes_ex, rule passes_ex, rule drain)
qed

lemma leaves_execute_request:
  assumes "env_ok env" and "rq_recovery_copy rq \<noteq> Some []" and "alike r s"
  shows "leaves_ok env (here (re_code env) s e x) (execute_request env r rq)"
proof -
  have "leaves_ok env (here (re_code env) s e x) (execute_reset env rq)"
    by (rule ensures_weaken [OF leaves_execute_reset [OF assms(1,2)]]) (auto intro: here_ok)
  then show ?thesis unfolding execute_request_def Let_def
    by (intro ensures_if leaves_ret leaves_request_unpause leaves_request_resume leaves_request_cancel leaves_request_verify leaves_request_rollback
        leaves_request_vector_repair assms)
qed

section \<open>A tick keeps the invariant\<close>

lemma leaves_tick_phase:
  assumes "env_ok env" and "alike r s"
  shows "leaves_ok env (here (re_code env) s e x) (tick_phase env r)"
proof (rule known)
  assume ok: "state_ok (re_code env) s e"
  have full: "rl_scope s = Full_Scope" if "rl_phase s \<notin> {Applying, Verifying}"
    using that ok by (cases "rl_scope s") (auto simp: state_ok_def)
  show "leaves_ok env (here (re_code env) s e x) (tick_phase env r)"
  proof (cases "rl_phase s")
    case Idle
    then show ?thesis using full ok leaves_tick_idle [OF assms(1) Idle _ assms(2), of e x]
      by (simp add: tick_phase_def alike_fields [OF assms(2)] state_ok_def)
  qed (use full in \<open>auto simp: tick_phase_def alike_fields [OF assms(2)] intro!: leaves_tick_draining [OF assms(1)] leaves_tick_quiescing [OF assms(1)]
      leaves_tick_verifying_resume [OF assms(1)] finish_then [OF assms(1)] leaves_ret\<close>)
qed

lemma leaves_tick_locked:
  assumes "env_ok env"
  shows "leaves_ok env (host_ok (re_code env)) (tick_locked env)"
proof -
  let ?rest = "\<lambda>st request. let active = (case request of Some r \<Rightarrow> if open_request r then Some r else None | None \<Rightarrow> None) in
     case st of
       None \<Rightarrow> (case active of Some r \<Rightarrow> if rq_type r = ''reset'' then execute_reset env r else run_ret 2 | None \<Rightarrow> run_ret 2)
     | Some s \<Rightarrow> (case active of
         Some r \<Rightarrow> if rq_status r = ''pending'' \<or> rq_type r = ''cancel'' \<or> (rq_type r = ''verify'' \<and> rl_phase s = Idle)
           then execute_request env s r else tick_phase env s
       | None \<Rightarrow> if rl_hold s \<noteq> None then tick_held env else tick_phase env s)"
  let ?P = "\<lambda>st h. host_ok (re_code env) h \<and> (\<forall>s. st = Some s \<longrightarrow> (\<exists>e x. here (re_code env) s e x h))"
  have state: "passes env (host_ok (re_code env)) (ask env h_state) ?P"
    unfolding ask_def by (rule passes_access [OF assms]) (use others_ok [OF assms] ok_here in \<open>fastforce+\<close>)
  have stable: "?P st (re_others env h)" if "?P st h" for st h
    using that others_ok [OF assms] others_here [OF assms] by blast
  have request: "passes env (?P st) (ask env h_request) (\<lambda>r h. (\<forall>q. r = Some q \<longrightarrow> rq_recovery_copy q \<noteq> Some []) \<and> ?P st h)" for st
    unfolding ask_def by (rule passes_access [OF assms], erule stable) (use host_ok_copy in auto)
  have rest: "leaves_ok env (?P st) (?rest st request)" if copy: "\<forall>q. request = Some q \<longrightarrow> rq_recovery_copy q \<noteq> Some []" for st request
  proof (cases st)
    case None
    have "leaves_ok env (host_ok (re_code env)) (?rest None request)"
      using copy by (auto intro!: leaves_execute_reset [OF assms] ensures_ret simp: Let_def split: option.split)
    then show ?thesis unfolding None by (rule ensures_weaken) auto
  next
    case (Some s)
    have "leaves_ok env (here (re_code env) s e x) (?rest (Some s) request)" for e x
      using copy by (auto intro!: leaves_execute_request [OF assms] leaves_tick_phase [OF assms] leaves_tick_held [OF assms] simp: Let_def split: option.split)
    then have "leaves_ok env (\<lambda>h. \<exists>e x. here (re_code env) s e x h) (?rest (Some s) request)" by (intro passes_ex)
    then show ?thesis unfolding Some by (rule ensures_weaken) auto
  qed
  show ?thesis unfolding tick_locked_def
    by (rule passes_bind [OF state], rule passes_bind [OF request], rule passes_pre, rule rest)
qed

lemma tick_keeps_host:
  assumes "env_ok env" and "host_ok (re_code env) h" and "release_tick env h = (r, h')"
  shows "host_ok (re_code env) h'"
proof -
  let ?handler = "\<lambda>e. case e of Fail code reason \<Rightarrow> run_bind (finish_request env ''failed'') (\<lambda>_. run_fail e)
     | Timeout_Expired \<Rightarrow> run_bind (finish_request env ''failed'') (\<lambda>_. run_ret (2 :: nat)) | _ \<Rightarrow> run_fail e"
  have handler: "leaves_ok env (host_ok (re_code env)) (?handler e)" for e
    by (cases e; simp only: release_stop.case; intro stays_bind stays_ok_finish [OF assms(1)] stays_ret)
  have run: "leaves_ok env (host_ok (re_code env)) (run_catch (tick_locked env) ?handler)"
    by (rule ensures_catch [OF leaves_tick_locked [OF assms(1)] handler])
  obtain q k where q: "run_catch (tick_locked env) ?handler h = (q, k)" by (rule prod.exhaust)
  have "host_ok (re_code env) k" using ensuresD [OF run assms(2) q] by (cases q) auto
  moreover have "h' = k\<lparr>h_exclusive := False\<rparr>" using assms(3) q by (simp add: release_tick_def)
  ultimately show ?thesis by (simp add: host_ok_def locks_ok_def cong: option.case_cong)
qed

lemma host_step_ok:
  assumes "host_step code h h'" and "host_ok code h"
  shows "host_ok code h'"
  using assms(1)
proof cases
  case other
  then show ?thesis using assms(2) by (rule worker_step_ok)
next
  case (register r)
  then show ?thesis using host_ok_request [OF assms(2), of "Some r"] by simp
next
  case lost
  then show ?thesis using assms(2) by (simp add: host_ok_def locks_ok_simple)
next
  case (ticks env r)
  then show ?thesis using tick_keeps_host assms(2) by blast
qed

lemma host_reachable_ok: "host_reachable code h \<Longrightarrow> host_ok code h"
proof -
  assume "host_reachable code h"
  then obtain h0 where h0: "initial_host code h0" and steps: "(host_step code)\<^sup>*\<^sup>* h0 h" by (auto simp: host_reachable_def)
  have "host_ok code h0" using h0 by (auto simp: initial_host_def host_ok_def locks_ok_def state_ok_def split: option.splits)
  with steps show ?thesis by (induction rule: rtranclp_induct) (auto intro: host_step_ok)
qed

section \<open>A release that nothing disturbs\<close>

text \<open>Everything the coordinator asks for is granted, and the workers do nothing meanwhile.\<close>

definition smooth :: "release_env \<Rightarrow> string \<Rightarrow> bool" where
  "smooth env target = (\<forall>h. re_others env h = h \<and> re_stops env h = None \<and> re_origin env h = Some target \<and> re_sync_check env h = 0 \<and>
     re_db env h = Db_Running [] [] \<and> (\<forall>us. re_pending env h us = []) \<and> \<not> re_dirty env h \<and> re_reset env h \<and>
     (\<exists>dir. re_save_copy env h = Some dir) \<and> re_pip env h = Some 0 \<and> re_install env h = 0 \<and> (\<forall>u. re_healthy env h u) \<and>
     re_invocation env h \<and> fst (re_log_check env h) = 0)"

lemma smooth_steps:
  assumes "smooth env target"
  shows "ask env f h = (Inr (f h), h)" "write_host env g h = (Inr (), g h)"
    "h_state h = Some s \<Longrightarrow> mutate_state env k h = (Inr (k s), h\<lparr>h_state := Some (k s)\<rparr>)"
    "h_state h = Some s \<Longrightarrow> reload_state env h = (Inr s, h)"
    "h_shared h = [] \<Longrightarrow> ensure_activity_exclusive env h = (Inr True, h\<lparr>h_exclusive := True\<rparr>)"
    "h_shared h = [] \<Longrightarrow> \<not> h_exclusive h \<Longrightarrow> try_exclusive env h = (Inr True, h\<lparr>h_exclusive := True\<rparr>)"
  using assms by (simp_all add: smooth_def ask_def write_host_def mutate_state_def reload_state_def ensure_activity_exclusive_def try_exclusive_def
      access_def run_txn_def Let_def)

lemma smooth_answers:
  assumes "smooth env target"
  shows "re_origin env h = Some target" "re_sync_check env h = 0" "re_db env h = Db_Running [] []" "re_pending env h us = []" "\<not> re_dirty env h"
    "re_reset env h" "re_pip env h = Some 0" "re_install env h = 0" "re_healthy env h u" "re_invocation env h" "fst (re_log_check env h) = 0"
  using assms by (simp_all add: smooth_def)

lemma smooth_healthy: "smooth env target \<Longrightarrow> all_healthy env us h = (Inr True, h)"
  by (induction us arbitrary: h) (simp_all add: run_ret_def run_bind_def smooth_steps smooth_answers)

lemmas smooth_run = smooth_steps smooth_answers smooth_healthy run_bind_def run_ret_def finish_request_def

lemma smooth_gpu_probe_flow: "smooth env target \<Longrightarrow> gpu_probe_flow env h = (Inr (), h)"
  by (simp add: gpu_probe_flow_def smooth_run)

definition settled_on :: "(string \<Rightarrow> string) \<Rightarrow> string \<Rightarrow> host \<Rightarrow> bool" where
  "settled_on code target h = ((\<exists>s. h_state h = Some s \<and> rl_phase s = Idle \<and> rl_scope s = Full_Scope \<and> rl_verified s = target) \<and>
     h_code h = Some (code target) \<and> h_head h = target \<and> h_alias h = target)"

definition run_settles :: "release_env \<Rightarrow> string \<Rightarrow> nat release_run \<Rightarrow> host \<Rightarrow> bool" where
  "run_settles env target m h = (\<exists>h'. m h = (Inr 0, h') \<and> settled_on (re_code env) target h')"

definition holds_target :: "release_env \<Rightarrow> string \<Rightarrow> host \<Rightarrow> bool" where
  "holds_target env target h = (h_code h = Some (re_code env target) \<and> h_head h = target)"

lemma smooth_verify_logs:
  assumes "smooth env target" and "h_state h = Some s" and "rl_target s = target" and "holds_target env target h"
  shows "run_settles env target (verify_logs env) h"
  using assms by (simp add: verify_logs_def smooth_run smooth_gpu_probe_flow finish_verification_def split_beta run_settles_def settled_on_def holds_target_def)

lemma smooth_verify_flow:
  assumes "smooth env target" and "h_state h = Some s" and "rl_target s = target" and "holds_target env target h"
  shows "run_settles env target (verify_flow env True) h"
  using smooth_verify_logs [OF assms(1), of "h\<lparr>h_exclusive := False, h_state := Some (s\<lparr>rl_startup_complete := True\<rparr>)\<rparr>"] assms
  by (simp add: verify_flow_def smooth_run run_settles_def holds_target_def)

lemma smooth_tick_continue:
  assumes "smooth env target" and "h_state h = Some s" and "rl_target s = target" and "holds_target env target h" and "rl_phase s = Applying"
  shows "run_settles env target (tick_continue env (rl_op_id s)) h"
  using smooth_verify_flow [OF assms(1), of "h\<lparr>h_state := Some (s\<lparr>rl_phase := Verifying, rl_startup_complete := False, rl_log_accepted := False\<rparr>)\<rparr>"] assms
  by (simp add: tick_continue_def smooth_run run_settles_def holds_target_def)

lemma smooth_tick_applying:
  assumes "smooth env target" and "h_state h = Some s" and "rl_target s = target" and "rl_phase s = Applying"
    and "rl_direction s = Some Forward" and "rl_recovery_copy s = None"
  shows "run_settles env target (tick_applying env s) h"
proof -
  obtain dir where dir: "re_save_copy env h = Some dir" using assms(1) unfolding smooth_def by blast
  let ?s = "s\<lparr>rl_recovery_copy := Some dir, rl_recovery_commit := Some (rl_from s)\<rparr>"
  have "run_settles env target (tick_continue env (rl_op_id ?s)) (h\<lparr>h_state := Some ?s, h_head := target, h_code := Some (re_code env target)\<rparr>)"
    by (rule smooth_tick_continue [OF assms(1)]) (use assms in \<open>simp_all add: holds_target_def\<close>)
  then show ?thesis using assms dir
    by (auto simp add: tick_applying_def prepare_recovery_def smooth_run run_settles_def execve_def run_catch_def truthy_str_def Let_def)
qed

lemma smooth_tick_draining:
  assumes "smooth env target" and "h_state h = Some s" and "rl_target s = target" and "h_shared h = []" and "\<not> h_exclusive h"
    and "rl_direction s = Some Forward" and "rl_recovery_copy s = None"
  shows "run_settles env target (tick_draining env r) h"
  using smooth_tick_applying [OF assms(1), of "h\<lparr>h_exclusive := True, h_state := Some (s\<lparr>rl_phase := Applying\<rparr>)\<rparr>"] assms
  by (simp add: tick_draining_def tick_quiescing_def stop_units_def smooth_run run_settles_def)

lemma smooth_start_release:
  assumes "smooth env target" and "h_state h = Some s" and "h_shared h = []" and "\<not> h_exclusive h"
  shows "run_settles env target (start_release env v target) h"
  using smooth_tick_draining [OF assms(1), of "h\<lparr>h_state := Some (s\<lparr>rl_op_id := re_op_id env h, rl_phase := Draining, rl_scope := Full_Scope,
      rl_direction := Some Forward, rl_from := v, rl_target := target, rl_startup_complete := False, rl_log_accepted := False,
      rl_recovery_copy := None, rl_failure_step := None, rl_units := Some (snapshot_units env h)\<rparr>)\<rparr>"] assms
  by (simp add: start_release_def smooth_run run_settles_def)

lemma smooth_vector_fast_path:
  assumes "smooth env target" and "h_state h = Some s" and "h_code h = Some (re_code env target)"
  shows "run_settles env target (vector_fast_path env target False False) h"
  using assms by (simp add: vector_fast_path_def vector_install_def vector_verify_def vector_accepted_def move_tree_def run_catch_def
      smooth_run smooth_gpu_probe_flow split_beta run_settles_def settled_on_def)

lemma smooth_tick_idle:
  assumes "env_ok env" and "smooth env target" and "h_state h = Some s" and "h_shared h = []" and "\<not> h_exclusive h" and "target \<noteq> rl_verified s"
    and "h_code h = Some (re_code env (rl_verified s))"
  shows "run_settles env target (tick_idle env s) h"
proof (cases "vector_only_change env (changed_files env (rl_verified s) target) 0 (re_drift_vector env (h\<lparr>h_alias := rl_verified s\<rparr>))")
  case True
  then have "re_code env target = re_code env (rl_verified s)" by (intro same_code [OF assms(1)]) (simp add: vector_only_change_def)
  then have "run_settles env target (vector_fast_path env target False False) (h\<lparr>h_alias := rl_verified s\<rparr>)"
    using assms(3,7) by (intro smooth_vector_fast_path [OF assms(2)]) auto
  then show ?thesis using assms True by (simp add: tick_idle_def smooth_run run_settles_def)
next
  case False
  have "run_settles env target (start_release env (rl_verified s) target) (h\<lparr>h_alias := rl_verified s\<rparr>)"
    using assms(3-5) by (intro smooth_start_release [OF assms(2)]) auto
  then show ?thesis using assms False by (simp add: tick_idle_def smooth_run run_settles_def)
qed

section \<open>An example machine\<close>

text \<open>Commit \<open>v\<close> is installed, origin has \<open>t\<close>, which differs from it in the Vector file.\<close>

definition example_env :: "bool \<Rightarrow> release_env" where
  "example_env dirty = \<lparr>re_others = (\<lambda>h. h), re_stops = (\<lambda>_. None), re_code = (\<lambda>_. ''app''), re_op_id = (\<lambda>_. ''op''), re_origin = (\<lambda>_. Some ''t''),
     re_diff = (\<lambda>_ _. Some [vector_toml]), re_dirty = (\<lambda>_. dirty), re_reset = (\<lambda>_. True), re_sync_check = (\<lambda>_. 0), re_drift_vector = (\<lambda>_. False),
     re_db = (\<lambda>_. Db_Running [] []), re_is_active = (\<lambda>_ _. ''active''), re_pending = (\<lambda>_ _. []), re_overdue = (\<lambda>_. False),
     re_save_copy = (\<lambda>_. Some ''copy''), re_restore = (\<lambda>_. True), re_copy_meta = (\<lambda>_. None), re_pip = (\<lambda>_. Some 0), re_install = (\<lambda>_. 0),
     re_healthy = (\<lambda>_ _. True), re_invocation = (\<lambda>_. True), re_log_check = (\<lambda>_. (0, False))\<rparr>"

definition example_state :: release_state where
  "example_state = \<lparr>rl_op_id = ''op0'', rl_phase = Idle, rl_scope = Full_Scope, rl_direction = None, rl_from = ''v'', rl_target = ''v'', rl_verified = ''v'',
     rl_hold = None, rl_startup_complete = True, rl_log_accepted = True, rl_recovery_copy = None, rl_recovery_commit = None, rl_failure_step = None,
     rl_repair_from = None, rl_units = None\<rparr>"

definition example_host :: host where
  "example_host = \<lparr>h_state = Some example_state, h_request = None, h_exclusive = False, h_shared = [], h_working = [], h_code = Some ''app'',
     h_head = ''v'', h_alias = ''v'', h_moment = 0\<rparr>"

definition example_working :: host where
  "example_working = example_host\<lparr>h_shared := [''w''], h_working := [''w'']\<rparr>"

lemma example_env_ok: "env_ok (example_env dirty)" "re_code (example_env dirty) = (\<lambda>_. ''app'')" "smooth (example_env False) ''t''"
  by (simp_all add: env_ok_def smooth_def example_env_def)

lemma example_reachable: "host_reachable (\<lambda>_. ''app'') example_host"
  unfolding host_reachable_def
  by (rule exI [of _ example_host]) (simp add: initial_host_def example_host_def example_state_def)

lemma host_reachable_step: "host_reachable code h \<Longrightarrow> host_step code h h' \<Longrightarrow> host_reachable code h'"
  unfolding host_reachable_def by (meson rtranclp.rtrancl_into_rtrancl)

lemma example_tick_reachable: "host_reachable (\<lambda>_. ''app'') h \<Longrightarrow> host_reachable (\<lambda>_. ''app'') (snd (release_tick (example_env dirty) h))"
  by (erule host_reachable_step, rule host_step.ticks [OF example_env_ok(1,2)]) (rule prod.collapse [symmetric])

lemma example_working_reachable: "host_reachable (\<lambda>_. ''app'') example_working"
proof -
  have "worker_step example_host (example_host\<lparr>h_shared := [''w'']\<rparr>)"
    using worker_step.share [of example_host "''w''"] by (simp add: example_host_def)
  then have shared: "host_reachable (\<lambda>_. ''app'') (example_host\<lparr>h_shared := [''w'']\<rparr>)"
    by (rule host_reachable_step [OF example_reachable host_step.other])
  have "worker_step (example_host\<lparr>h_shared := [''w'']\<rparr>) example_working"
    using worker_step.work [of "''w''" "example_host\<lparr>h_shared := [''w'']\<rparr>"]
    by (simp add: example_working_def example_host_def example_state_def gate_of_state)
  then show ?thesis by (rule host_reachable_step [OF shared host_step.other])
qed

section \<open>What the coordinator guarantees\<close>





text \<open>
  C23. From an idle host without a hold and without open requests, one tick installs and verifies the
  commit that origin has, full release or Vector file alone, when no worker is in a claim and nothing
  the tick asks for fails: it returns 0 and leaves the host idle again with the commit as verified
  commit, as checked-out tree, as alias and as installed code.
\<close>

theorem tick_releases_origin:
  assumes "host_reachable (re_code env) h" and "env_ok env" and "smooth env target"
    and "h_state h = Some s" and "rl_phase s = Idle" and "rl_hold s = None" and "target \<noteq> rl_verified s"
    and "h_request h = None \<or> \<not> open_request (the (h_request h))" and "h_shared h = []" and "\<not> h_exclusive h"
  shows "\<exists>h' s'. release_tick env h = (Inr 0, h') \<and> h_state h' = Some s' \<and> rl_phase s' = Idle \<and> rl_verified s' = target \<and>
    h_code h' = Some (re_code env target) \<and> h_head h' = target \<and> h_alias h' = target \<and> \<not> h_exclusive h'"
proof -
  have "state_ok (re_code env) s (h_code h)" using host_reachable_ok [OF assms(1)] assms(4) by (simp add: host_ok_def)
  then have "h_code h = Some (re_code env (rl_verified s))" using assms(5) by (cases "rl_scope s") (auto simp: state_ok_def)
  then obtain h' where h': "tick_idle env s h = (Inr 0, h')" "settled_on (re_code env) target h'"
    using smooth_tick_idle [OF assms(2-4,9,10,7)] by (auto simp: run_settles_def)
  have "tick_locked env h = (Inr 0, h')"
    using assms(4-6,8) h'(1) by (cases "h_request h") (simp_all add: tick_locked_def tick_phase_def smooth_steps [OF assms(3)] run_bind_def)
  then show ?thesis using h'(2) by (auto simp: release_tick_def run_catch_def settled_on_def)
qed

theorem tick_releases_origin_witness:
  "\<exists>h' s'. release_tick (example_env False) example_host = (Inr 0, h') \<and> h_state h' = Some s' \<and> rl_phase s' = Idle \<and> rl_verified s' = ''t'' \<and>
    h_code h' = Some ''app'' \<and> h_head h' = ''t'' \<and> h_alias h' = ''t'' \<and> \<not> h_exclusive h'"
  using tick_releases_origin [of "example_env False" example_host "''t''" example_state] example_env_ok example_reachable
  by (simp add: example_host_def example_state_def)

text \<open>
  C40. A vector-only release that fails before it touches the tree goes back to idle but keeps its
  target in the state file; a verify request then certifies that target. So there is a reachable idle
  host whose verified commit is not the commit that is checked out.
\<close>

theorem verified_commit_never_installed:
  "\<exists>code h s. host_reachable code h \<and> h_state h = Some s \<and> rl_phase s = Idle \<and> h_head h \<noteq> rl_verified s"
proof -
  let ?code = "\<lambda>_. ''app''" and ?rq = "\<lparr>rq_type = ''verify'', rq_status = ''pending'', rq_target = [], rq_baseline = [], rq_recovery_copy = None, rq_main_commit = []\<rparr>"
  define h1 where "h1 = snd (release_tick (example_env True) example_host)"
  define h2 where "h2 = snd (release_tick (example_env False) (h1\<lparr>h_request := Some ?rq\<rparr>))"
  have "host_reachable ?code h1" unfolding h1_def by (rule example_tick_reachable [OF example_reachable])
  then have "host_reachable ?code (h1\<lparr>h_request := Some ?rq\<rparr>)" by (rule host_reachable_step) (rule host_step.register, simp)
  then have reach: "host_reachable ?code h2" unfolding h2_def by (rule example_tick_reachable)
  have facts: "h_head h2 = ''v''" "map_option rl_verified (h_state h2) = Some ''t''" "map_option rl_phase (h_state h2) = Some Idle"
    unfolding h2_def h1_def by code_simp+
  then obtain s where "h_state h2 = Some s" "rl_phase s = Idle" "rl_verified s = ''t''" by auto
  with reach facts(1) show ?thesis by (intro exI [of _ ?code] exI [of _ h2] exI [of _ s]) simp
qed

end
