(* ===== verification/Spec2Isabelle.thy ===== *)
theory Spec2Isabelle
  imports System Report Watch ReleaseSafety
begin

text \<open>
  Pareton: a verification development.

  Pareton runs optimisation campaigns for inference engines. Miners commit patches on chain; a
  validator takes them in, checks them in gates, batches the survivors into rounds, benchmarks each
  round's engines on one rented GPU pod, ranks them, keeps one crown (\<open>leaders\<close>) per campaign and pays
  crown holders by setting weights on chain. This library models the path of a submission from the
  chain to the weights: the commitment and its fee, the store and its transactions, the gates a patch
  passes, the scoring and the report entries, the ranking, the job that settles a round, the weight
  vector and its submission, and their composition; and beside it the release coordinator that replaces
  the code under the running workers.

  \<^bold>\<open>Theories, in the order of their imports\<close>

  \<^item> \<open>Prelude\<close>: the error type with one constructor per exception the code raises, the result monad
    \<open>'a res\<close> with its folds and maps, and the lemmas they share.
  \<^item> \<open>PyFloat\<close>, \<open>PyValue\<close>, \<open>PyConv\<close>: IEEE doubles by exact rounding of rationals (round half to even,
    overflow to infinity, NaN), JSON values, the string functions the code uses, and the conversions
    \<open>float()\<close>, \<open>int()\<close>, \<open>str()\<close>.
  \<^item> \<open>Rank\<close>: \<open>src/round/rank.py\<close>, the crown rules of one finished round.
  \<^item> \<open>Weights\<close>: the emission rules of \<open>src/campaign/models.py\<close> and \<open>src/weights/build.py\<close>, the vector
    with its guards.
  \<^item> \<open>Commitment\<close>, \<open>Locator\<close>, \<open>Fees\<close>, \<open>Payment\<close>, \<open>Fingerprint\<close>: \<open>src/chain/commitment.py\<close>, the addresses
    of \<open>src/storage/s3.py\<close>, \<open>src/campaign/fees.py\<close>, \<open>src/chain/payment.py\<close> and the hash and fingerprint of
    \<open>src/gate/integrity.py\<close>: the wire format of a commitment, where its patch may lie, what it costs,
    whether it was paid, and whether it is a copy.
  \<^item> \<open>Tables\<close>: the tables of \<open>src/db/schema.sql\<close> as records in one record \<open>db\<close>, and \<open>db_ok\<close>, the schema's
    keys, checks, foreign keys and partial unique indexes.
  \<^item> \<open>Store\<close>: \<open>src/campaign/store.py\<close> and \<open>src/campaign/exclusion.py\<close>, intake, the append-only event
    log and the gate job queue.
  \<^item> \<open>Intake\<close>: \<open>src/chain/watcher.py\<close> and \<open>check_integrity\<close>, from the revealed commitments to rows.
  \<^item> \<open>VoidDetail\<close>: \<open>src/round/void_detail.py\<close>, the scrubbing of pod text.
  \<^item> \<open>Rounds\<close>, \<open>RoundCreate\<close>, \<open>Exclusion\<close>: the writers and reads of \<open>src/round/store.py\<close> (claim, defer,
    settle, void, reap; creation, with the trigger and deduplication of \<open>src/round/create.py\<close>; the
    operator's disqualification and waiver, the vacated crown, weight sets).
  \<^item> \<open>WeightsLoop\<close>: \<open>src/weights/loop.py\<close>, \<open>_cycle\<close> of \<open>src/weights/__main__.py\<close> and \<open>src/chain/weights.py\<close>,
    the process that vacates deregistered leaders, stores the vector and submits it.
  \<^item> \<open>Registry\<close>: the image names and digests of \<open>src/builder/registry.py\<close> and \<open>src/builder/digest.py\<close>.
  \<^item> \<open>Concurrency\<close>, \<open>Score\<close>: \<open>src/bench/concurrency.py\<close> and \<open>src/bench/score.py\<close>, the schedule of a replay,
    tier evidence, the two scoring rules and the validation of a rule.
  \<^item> \<open>RoundJob\<close>: \<open>src/worker/round_job.py\<close> after the harness ran, with \<open>src/bench/validate.py\<close>'s report
    checks and the entry beacon of \<open>src/gpu/orchestrate.py\<close>.
  \<^item> \<open>Invariant\<close>: the invariants of the shared database that one writer relies on and every other
    keeps, proved for each transaction.
  \<^item> \<open>Report\<close>: the entries of a bench report, \<open>_build_entries\<close> and \<open>baseline_drift\<close> of \<open>src/bench/main.py\<close>,
    and that they meet what the settlement assumes of a report.
  \<^item> \<open>Surface\<close>: \<open>src/gate/surface.py\<close> with the results of \<open>src/gate/types.py\<close>, which files a patch may
    touch: the parser of diff headers, the globs, the added lines and the paths git reports.
  \<^item> \<open>System\<close>: every writer as a step on one shared database, the invariants of the composition, and
    the scans of the watcher and the polls of the weights process as sequences of its steps.
  \<^item> \<open>Process\<close>, \<open>Workers\<close>: runs that commit several transactions one after the other while others act
    between them, the rules for what a run respects (locale \<open>transactions\<close>) and establishes, and their
    interpretation on the steps of the system.
  \<^item> \<open>Pipeline\<close>: \<open>src/worker/pipeline.py\<close>, \<open>src/gate/identity.py\<close> and the submission branch of \<open>run_once\<close>
    of \<open>src/worker/main.py\<close>, the gates of one claimed submission.
  \<^item> \<open>Watch\<close>: \<open>scan_cycle\<close> of \<open>src/worker/watcher.py\<close>, the driver of \<open>src/round/create.py\<close> and
    \<open>compute_sample_seed\<close> of \<open>src/bench/sampler.py\<close>, one cycle of the chain watcher.
  \<^item> \<open>ClaimGate\<close>: the claim gate of \<open>src/worker/coordination.py\<close> and its counterpart in
    \<open>src/ops/release.py\<close>, on the JSON of the state file.
  \<^item> \<open>Release\<close>, \<open>ReleaseSafety\<close>: the state machine of \<open>tick\<close> in \<open>src/ops/release.py\<close> with the requests of the
    operator, the steps the workers take meanwhile, and the invariant of the machine they share.

  \<^bold>\<open>How the model corresponds to the code\<close>

  A function that raises returns \<open>Inl\<close> of the error, otherwise \<open>Inr\<close>. A transaction is a function from
  the database and the time \<open>now\<close> to its result and the database it commits; one that raises
  commits nothing. Transactions are atomic and serialised: the code takes its row locks before it
  reads what it decides on. A query without \<open>ORDER BY\<close> reads rows in insertion order. Times are
  integers (microseconds), uuids and text are strings of characters below 256. \<open>log_ok now d\<close> says the
  clock is not behind the event log. Builtin \<open>sum\<close> adds floats left to right; medians are over
  numbers without NaN. \<open>show\<close> (Python's text of a float or container), \<open>json.loads\<close>, \<open>sha256\<close> and what
  is read from the chain and the object store are parameters. A process that commits several
  transactions is a run: before each of them the other processes act, and what was committed before
  an exception stays. In \<open>Release\<close> every access to the machine is such a point, at which the
  coordinator may also be killed; what git, systemd, pip and the log service answer are fields of
  \<open>release_env\<close> that may depend on the moment.

  \<^bold>\<open>What the lemmas show\<close>

  For each component: the functional behaviour of every operation on every branch, errors
  included; that every transaction preserves \<open>db_ok\<close>; and the properties numbered C1, C2, \<dots> in the
  theories. The loops are structural recursions over lists or have termination proofs (\<open>chunks\<close>,
  \<open>splitlines\<close>, the scanners of \<open>VoidDetail\<close> and \<open>Surface\<close>); the loop of the comment stripper is a
  \<open>partial_function\<close> with a proof that it returns. The wait for an open claim gate, which may last
  forever, is a recursion over what its turns observe. No fuel is used.

  \<^bold>\<open>Not modelled\<close>

  The HTTP API, the pod providers and ssh orchestration, the harness that drives containers and
  its correctness comparison, workload sampling beyond the seed, the configuration tools, the log
  check, recovery copies and request registration of \<open>release.py\<close>, the miner's command line, transfers
  to and from object storage, chain rpc, the image builder, and the gates that apply the patch with git,
  scan it for obfuscation and have it reviewed by a language model: they do I/O against services, and
  what they decide enters here as a report, a block, a commitment, a gate result or an outcome. In
  \<open>round_job.py\<close> the fetching of the trace and the construction of the request enter as the outcome
  \<open>NotRun\<close>. The process loops, signals and timers around the cycles are not modelled.
\<close>

end
